(* ===== verification/Rust_Prelude.thy ===== *)
theory Rust_Prelude
  imports Main "HOL-Library.Word" "HOL-Library.Monad_Syntax"
begin

unbundle bit_operations_syntax

section \<open>Shared vocabulary of the development\<close>

text \<open>
  The machine types of the Rust sources, the way a panic is represented, the
  collections of rewrite rules the component theories fill, and the generic facts on
  words, lists and options that several components use.

  Integers keep their width: \<open>u8\<close> to \<open>u64\<close> are words of
  HOL-Library.  The release profile of \<^verbatim>\<open>agent/Cargo.toml\<close> leaves overflow
  checks off, so a plain \<open>+\<close> of the source is the wrapping \<open>+\<close> of words.
  Where a component relies on a sum not wrapping, the theory states and proves it, so
  that a build with overflow checks behaves in the same way.

  A computation that may panic (a failed \<^verbatim>\<open>assert!\<close>, an index out of range,
  \<^verbatim>\<open>unreachable!\<close>, an explicit \<^verbatim>\<open>panic!\<close>) has an \<open>option\<close> result and
  \<^const>\<open>None\<close> stands for the panic; both profiles abort on a panic, so nothing is
  observed after it.
\<close>

type_synonym u8 = "8 word"
type_synonym u16 = "16 word"
type_synonym u32 = "32 word"
type_synonym u64 = "64 word"

type_synonym 'a may_panic = "'a option"

text \<open>A check that panics when it fails, as \<^verbatim>\<open>assert!\<close> does.\<close>

definition assert_that :: "bool \<Rightarrow> unit may_panic" where
  "assert_that b = (if b then Some () else None)"

lemma assert_that_simps [simp]:
  "assert_that True = Some ()"
  "assert_that False = None"
  by (simp_all add: assert_that_def)

lemma assert_that_Some [simp]: "assert_that b = Some u \<longleftrightarrow> b"
  by (simp add: assert_that_def)

lemma assert_that_bind [simp]:
  "(assert_that b \<bind> f) = (if b then f () else None)"
  by (simp add: assert_that_def)

named_theorems flag_simps "evaluation of TCP flag constants"
named_theorems packet_defs "definitions of the predicates on packets"
named_theorems wf_rules "introduction rules for component invariants"

subsection \<open>Words\<close>

lemma unat_add_exact:
  fixes a b :: "'a::len word"
  assumes "unat a + unat b < 2 ^ LENGTH('a)"
  shows "unat (a + b) = unat a + unat b"
  using assms unat_add_lem [of a b] by simp

lemma unat_mult_exact:
  fixes a b :: "'a::len word"
  assumes "unat a * unat b < 2 ^ LENGTH('a)"
  shows "unat (a * b) = unat a * unat b"
  using assms unat_mult_lem [of a b] by simp

lemma unat_sub_exact:
  fixes a b :: "'a::len word"
  assumes "b \<le> a"
  shows "unat (a - b) = unat a - unat b"
  using assms by (rule unat_sub)

text \<open>The test the sources use for a sum that wraps.\<close>

lemma wrapping_add_less_iff:
  fixes a b :: "'a::len word"
  shows "a + b < a \<longleftrightarrow> 2 ^ LENGTH('a) \<le> unat a + unat b"
  using no_olen_add_nat [of a b] by (simp add: linorder_not_le [symmetric])

lemma unat_ucast_up: "LENGTH('a) \<le> LENGTH('b) \<Longrightarrow> unat (ucast n :: 'b::len word) = unat n"
  for n :: "'a::len word"
  by transfer (simp add: min_def)

lemma bit_beyond: "LENGTH('a) \<le> k \<Longrightarrow> \<not> bit w k" for w :: "'a::len word"
  by (auto dest: bit_imp_le_length)

lemma bit_small: "unat w < 2 ^ n \<Longrightarrow> n \<le> k \<Longrightarrow> \<not> bit w k" for w :: "'a::len word"
proof
  assume w: "unat w < 2 ^ n" "n \<le> k" and "bit w k"
  then have "bit (unat w) k" by (simp add: bit_unsigned_iff)
  moreover have "take_bit n (unat w) = unat w" using w(1) by (simp add: take_bit_eq_mod)
  ultimately show False using w(2) by (metis bit_take_bit_iff not_le)
qed

lemma bit_smallD: "unat w < 2 ^ n \<Longrightarrow> bit w k \<Longrightarrow> k < n" for w :: "'a::len word"
  using bit_small [of w n k] by (cases "n \<le> k") auto

lemma mod_eq_self_iff: "0 < m \<Longrightarrow> n mod m = n \<longleftrightarrow> n < m" for m n :: nat
  by (metis mod_less mod_less_divisor)

subsection \<open>Lists\<close>

text \<open>A chain of \<^verbatim>\<open>min\<close> or \<^verbatim>\<open>max\<close> calls is a fold.\<close>

lemma foldl_min_le_acc: "foldl min x xs \<le> x" for x :: "'a::linorder"
  by (induction xs arbitrary: x) (simp, metis foldl_Cons min.bounded_iff)

lemma foldl_max_ge_acc: "x \<le> foldl max x xs" for x :: "'a::linorder"
  by (induction xs arbitrary: x) (simp, metis foldl_Cons max.bounded_iff)

lemma foldl_min_le: "y \<in> set (x # xs) \<Longrightarrow> foldl min x xs \<le> y" for x :: "'a::linorder"
proof (induction xs arbitrary: x)
  case (Cons a xs)
  then show ?case
    using foldl_min_le_acc [of "min x a" xs] by auto
qed simp

lemma foldl_max_ge: "y \<in> set (x # xs) \<Longrightarrow> y \<le> foldl max x xs" for x :: "'a::linorder"
proof (induction xs arbitrary: x)
  case (Cons a xs)
  then show ?case
    using foldl_max_ge_acc [of "max x a" xs] by auto
qed simp

lemma foldl_min_in: "foldl min x xs \<in> set (x # xs)" for x :: "'a::linorder"
proof (induction xs arbitrary: x)
  case (Cons a xs)
  have "min x a = x \<or> min x a = a" by (auto simp: min_def)
  with Cons [of "min x a"] show ?case by auto
qed simp

lemma foldl_max_in: "foldl max x xs \<in> set (x # xs)" for x :: "'a::linorder"
proof (induction xs arbitrary: x)
  case (Cons a xs)
  have "max x a = x \<or> max x a = a" by (auto simp: max_def)
  with Cons [of "max x a"] show ?case by auto
qed simp

lemma split_last_two:
  assumes "length xs = Suc (Suc n)"
  obtains us g l where "xs = us @ [g, l]" "length us = n"
proof -
  obtain ys l where "xs = ys @ [l]" using assms by (cases xs rule: rev_cases) auto
  moreover obtain us g where "ys = us @ [g]" using assms calculation by (cases ys rule: rev_cases) auto
  ultimately show thesis using assms by (intro that [of us g l]) auto
qed

text \<open>\<^verbatim>\<open>rotate_left(1)\<close> and \<^verbatim>\<open>rotate_right(1)\<close> of a slice.\<close>

definition rotate_left1 :: "'a list \<Rightarrow> 'a list" where
  "rotate_left1 xs = (case xs of [] \<Rightarrow> [] | x # ys \<Rightarrow> ys @ [x])"

definition rotate_right1 :: "'a list \<Rightarrow> 'a list" where
  "rotate_right1 xs = (case xs of [] \<Rightarrow> [] | _ # _ \<Rightarrow> last xs # butlast xs)"

lemma length_rotate_left1 [simp]: "length (rotate_left1 xs) = length xs"
  by (simp add: rotate_left1_def split: list.split)

lemma length_rotate_right1 [simp]: "length (rotate_right1 xs) = length xs"
  by (simp add: rotate_right1_def split: list.split)

lemma rotate_left1_Cons [simp]: "rotate_left1 (x # xs) = xs @ [x]"
  by (simp add: rotate_left1_def)

lemma rotate_right1_snoc [simp]: "rotate_right1 (xs @ [x]) = x # xs"
  by (cases xs) (simp_all add: rotate_right1_def)

lemma rotate_right1_Nil [simp]: "rotate_right1 [] = []"
  by (simp add: rotate_right1_def)


subsection \<open>Runs of a machine and invariants over their history\<close>

text \<open>
  A component with state is a relation \<open>step s e s'\<close> (state, event, next state); a run
  collects the events in the order they were handled.
\<close>

inductive run :: "('s \<Rightarrow> 'e \<Rightarrow> 's \<Rightarrow> bool) \<Rightarrow> 's \<Rightarrow> 'e list \<Rightarrow> 's \<Rightarrow> bool"
  for step where
  run_start: "run step s [] s"
| run_step: "run step s es t \<Longrightarrow> step t e u \<Longrightarrow> run step s (es @ [e]) u"

inductive_cases run_NilE [elim!]: "run step s [] t"
inductive_cases run_snocE: "run step s (es @ [e]) t"

lemma run_single: "step s e t \<Longrightarrow> run step s [e] t"
  using run_step [OF run_start, of step s e t] by simp

lemma run_trans: "run step t fs u \<Longrightarrow> run step s es t \<Longrightarrow> run step s (es @ fs) u"
proof (induction rule: run.induct)
  case (run_step s' es' t' e u')
  then have "run step s ((es @ es') @ [e]) u'"
    by (blast intro: run.run_step)
  then show ?case by simp
qed simp

lemma run_Cons: "step s e t \<Longrightarrow> run step t es u \<Longrightarrow> run step s (e # es) u"
  using run_trans [OF _ run_single] by fastforce

lemma run_Cons_iff:
  "run step s (e # es) u \<longleftrightarrow> (\<exists>t. step s e t \<and> run step t es u)"
proof
  show "run step s (e # es) u \<Longrightarrow> \<exists>t. step s e t \<and> run step t es u"
  proof (induction es arbitrary: u rule: rev_induct)
    case Nil
    then show ?case
      using run_snocE [of step s "[]" e u] by (auto intro: run_start)
  next
    case (snoc e' es)
    from snoc.prems obtain t' where "run step s (e # es) t'" "step t' e' u"
      using run_snocE [of step s "e # es" e' u] by auto
    with snoc.IH show ?case by (blast intro: run_step)
  qed
qed (blast intro: run_Cons)

lemma run_Nil_iff [simp]: "run step s [] u \<longleftrightarrow> u = s"
  by (auto intro: run_start)

text \<open>
  The contract under which a relation between the events handled so far and the state
  holds along every run: it holds at the start and every step of the component keeps it.
\<close>

locale history_invariant =
  fixes step :: "'s \<Rightarrow> 'e \<Rightarrow> 's \<Rightarrow> bool"
    and start :: "'s \<Rightarrow> bool"
    and inv :: "'e list \<Rightarrow> 's \<Rightarrow> bool"
  assumes inv_start: "start s \<Longrightarrow> inv [] s"
    and inv_step: "inv es s \<Longrightarrow> step s e t \<Longrightarrow> inv (es @ [e]) t"
begin

lemma inv_run: "run step s es t \<Longrightarrow> start s \<Longrightarrow> inv es t"
  by (induction rule: run.induct) (auto intro: inv_start inv_step)

end

end
