(* ===== verification/Timestamps.thy ===== *)
theory Timestamps
  imports Rust_Prelude
begin

section \<open>Timestamps and flow timeouts\<close>

text \<open>
  \<^verbatim>\<open>agent/src/common/timestamp.rs\<close>: an eight byte time stamp in nanoseconds, its
  conversions, its wrapping addition and its checked subtraction; and the timeouts of
  \<^verbatim>\<open>agent/src/flow_generator/flow_config.rs\<close>, which are time stamps.

  A \<^verbatim>\<open>std::time::Duration\<close> is the number of nanoseconds it stands for, a natural
  number: \<^verbatim>\<open>as_nanos\<close> of the standard library returns it as \<^verbatim>\<open>u128\<close>, which is
  wide enough for every duration, and the source then truncates to \<^verbatim>\<open>u64\<close>.
\<close>

subsection \<open>The type and its order\<close>

datatype timestamp = Timestamp (as_nanos: u64)

text \<open>The derived \<^verbatim>\<open>Ord\<close> of the tuple struct compares the only field.\<close>

instantiation timestamp :: linorder
begin

definition less_eq_timestamp :: "timestamp \<Rightarrow> timestamp \<Rightarrow> bool" where
  "less_eq_timestamp a b \<longleftrightarrow> as_nanos a \<le> as_nanos b"

definition less_timestamp :: "timestamp \<Rightarrow> timestamp \<Rightarrow> bool" where
  "less_timestamp a b \<longleftrightarrow> as_nanos a < as_nanos b"

instance
  by standard
    (auto simp: less_eq_timestamp_def less_timestamp_def timestamp.expand)

end

lemma Timestamp_le [simp]: "Timestamp a \<le> Timestamp b \<longleftrightarrow> a \<le> b"
  by (simp add: less_eq_timestamp_def)

lemma Timestamp_less [simp]: "Timestamp a < Timestamp b \<longleftrightarrow> a < b"
  by (simp add: less_timestamp_def)

subsection \<open>Conversions\<close>

definition NANOS_IN_SECOND :: u64 where
  "NANOS_IN_SECOND = 1000000000"

definition NANOS_IN_MILLIS :: u64 where
  "NANOS_IN_MILLIS = 1000000"

definition NANOS_IN_MICROS :: u64 where
  "NANOS_IN_MICROS = 1000"

lemmas nanos_defs = NANOS_IN_SECOND_def NANOS_IN_MILLIS_def NANOS_IN_MICROS_def

definition ts_zero :: timestamp where
  "ts_zero = Timestamp 0"

definition from_nanos :: "u64 \<Rightarrow> timestamp" where
  "from_nanos n = Timestamp n"

definition from_micros :: "u64 \<Rightarrow> timestamp" where
  "from_micros n = Timestamp (n * NANOS_IN_MICROS)"

definition as_micros :: "timestamp \<Rightarrow> u64" where
  "as_micros t = as_nanos t div NANOS_IN_MICROS"

definition from_millis :: "u64 \<Rightarrow> timestamp" where
  "from_millis n = Timestamp (n * NANOS_IN_MILLIS)"

definition as_millis :: "timestamp \<Rightarrow> u64" where
  "as_millis t = as_nanos t div NANOS_IN_MILLIS"

definition from_secs :: "u64 \<Rightarrow> timestamp" where
  "from_secs n = Timestamp (n * NANOS_IN_SECOND)"

definition as_secs :: "timestamp \<Rightarrow> u64" where
  "as_secs t = as_nanos t div NANOS_IN_SECOND"

definition ts_is_zero :: "timestamp \<Rightarrow> bool" where
  "ts_is_zero t \<longleftrightarrow> as_nanos t = 0"

text \<open>Division by a zero time stamp panics.\<close>

definition round_to :: "timestamp \<Rightarrow> timestamp \<Rightarrow> timestamp may_panic" where
  "round_to t r =
     (if as_nanos r = 0 then None
      else Some (Timestamp (as_nanos t div as_nanos r * as_nanos r)))"

definition round_to_minute :: "timestamp \<Rightarrow> timestamp may_panic" where
  "round_to_minute t = round_to t (from_secs 60)"

type_synonym duration = nat

definition from_duration :: "duration \<Rightarrow> timestamp" where
  "from_duration d = Timestamp (of_nat d)"

definition to_duration :: "timestamp \<Rightarrow> duration" where
  "to_duration t = unat (as_nanos t)"

definition ts_add :: "timestamp \<Rightarrow> timestamp \<Rightarrow> timestamp" where
  "ts_add a b = Timestamp (as_nanos a + as_nanos b)"

definition ts_sub :: "timestamp \<Rightarrow> timestamp \<Rightarrow> timestamp may_panic" where
  "ts_sub a b = (if as_nanos a < as_nanos b then None
                 else Some (Timestamp (as_nanos a - as_nanos b)))"

subsection \<open>Laws of the conversions\<close>

lemma ts_zero_le [simp]: "ts_zero \<le> t"
  by (cases t) (simp add: ts_zero_def)

lemma ts_is_zero_iff: "ts_is_zero t \<longleftrightarrow> t = ts_zero"
  by (cases t) (simp add: ts_is_zero_def ts_zero_def)

lemma ts_sub_eq_Some:
  "ts_sub a b = Some d \<longleftrightarrow> b \<le> a \<and> d = Timestamp (as_nanos a - as_nanos b)"
  by (auto simp: ts_sub_def less_eq_timestamp_def)

lemma ts_sub_Some_iff: "(\<exists>d. ts_sub a b = Some d) \<longleftrightarrow> b \<le> a"
  by (simp add: ts_sub_eq_Some)

lemma ts_sub_exact: "b \<le> a \<Longrightarrow> ts_sub a b = Some (Timestamp (as_nanos a - as_nanos b))"
  by (simp add: ts_sub_eq_Some)

lemma ts_sub_le: "ts_sub a b = Some d \<Longrightarrow> d \<le> a"
  by (cases a; cases b)
    (auto simp: ts_sub_eq_Some word_le_nat_alt unat_sub)

lemma ts_add_sub_cancel: "ts_sub a b = Some d \<Longrightarrow> ts_add b d = a"
  by (cases a) (auto simp: ts_sub_eq_Some ts_add_def)

lemma to_from_duration: "to_duration (from_duration d) = d mod 2 ^ 64"
  by (simp add: to_duration_def from_duration_def unat_of_nat)

lemma from_to_duration [simp]: "from_duration (to_duration t) = t"
  by (cases t) (simp add: to_duration_def from_duration_def)

lemma to_duration_mono: "a \<le> b \<longleftrightarrow> to_duration a \<le> to_duration b"
  by (simp add: to_duration_def less_eq_timestamp_def word_le_nat_alt)

lemma unat_as_micros: "unat (as_micros t) = to_duration t div 1000"
  by (simp add: as_micros_def nanos_defs to_duration_def unat_div_distrib)

lemma unat_as_secs: "unat (as_secs t) = to_duration t div 1000000000"
  by (simp add: as_secs_def nanos_defs to_duration_def unat_div_distrib)

lemma to_duration_from_secs:
  assumes "unat n * 1000000000 < 2 ^ 64"
  shows "to_duration (from_secs n) = unat n * 1000000000"
  using assms
  by (simp add: to_duration_def from_secs_def nanos_defs unat_word_ariths)

lemma to_duration_round_to:
  "round_to t r = Some s \<Longrightarrow>
   to_duration s = to_duration t div to_duration r * to_duration r"
proof -
  assume "round_to t r = Some s"
  then have s: "s = Timestamp (as_nanos t div as_nanos r * as_nanos r)"
    by (simp add: round_to_def split: if_splits)
  have "unat (as_nanos t) div unat (as_nanos r) * unat (as_nanos r) \<le> unat (as_nanos t)"
    by (rule div_times_less_eq_dividend)
  also have "\<dots> < 2 ^ 64"
    using unsigned_less [of "as_nanos t"] by simp
  finally have "unat (as_nanos t div as_nanos r * as_nanos r)
      = unat (as_nanos t div as_nanos r) * unat (as_nanos r)"
    by (intro unat_mult_exact) (simp add: unat_div_distrib)
  then show ?thesis
    by (simp add: s to_duration_def unat_div_distrib)
qed

text \<open>
  Converting a duration to a time stamp and back is the identity exactly on the
  durations below \<open>2 ^ 64\<close> nanoseconds; longer ones are reduced modulo \<open>2 ^ 64\<close>.
  Converting a time stamp to a duration and back always gives it back, and the
  comparison of time stamps is that of the durations.
\<close>

lemma duration_round_trip:
  "(to_duration (from_duration d) = d \<longleftrightarrow> d < 2 ^ 64)
   \<and> to_duration (from_duration d) = d mod 2 ^ 64
   \<and> from_duration (to_duration t) = t
   \<and> (t \<le> t' \<longleftrightarrow> to_duration t \<le> to_duration t')"
proof (intro conjI)
  show "to_duration (from_duration d) = d \<longleftrightarrow> d < 2 ^ 64"
    unfolding to_from_duration by (rule mod_eq_self_iff) simp
qed (simp_all add: to_from_duration to_duration_mono)

subsection \<open>The timeouts of a flow\<close>

record tcp_timeout =
  tt_established :: timestamp
  tt_closing_rst :: timestamp
  tt_others :: timestamp
  tt_opening_rst :: timestamp

definition TIMEOUT_OTHERS :: timestamp where
  "TIMEOUT_OTHERS = from_secs 5"

definition TIMEOUT_ESTABLISHED :: timestamp where
  "TIMEOUT_ESTABLISHED = from_secs 300"

definition TIMEOUT_CLOSING :: timestamp where
  "TIMEOUT_CLOSING = from_secs 35"

definition TIMEOUT_OPENING_RST :: timestamp where
  "TIMEOUT_OPENING_RST = from_secs 1"

definition default_tcp_timeout :: tcp_timeout where
  "default_tcp_timeout =
     \<lparr>tt_established = TIMEOUT_ESTABLISHED, tt_closing_rst = TIMEOUT_CLOSING,
      tt_others = TIMEOUT_OTHERS, tt_opening_rst = TIMEOUT_OPENING_RST\<rparr>"

record flow_timeout =
  ft_opening :: timestamp
  ft_established :: timestamp
  ft_closing :: timestamp
  ft_established_rst :: timestamp
  ft_exception :: timestamp
  ft_closed_fin :: timestamp
  ft_single_direction :: timestamp
  ft_opening_rst :: timestamp
  ft_min :: timestamp
  ft_max :: timestamp

definition update_min_max :: "flow_timeout \<Rightarrow> flow_timeout" where
  "update_min_max t = t
     \<lparr>ft_min := min (min (min (min (min (min (min (ft_opening t) (ft_established t))
         (ft_closing t)) (ft_established_rst t)) (ft_exception t)) (ft_closed_fin t))
         (ft_single_direction t)) (ft_opening_rst t),
      ft_max := max (max (max (max (max (max (max (ft_opening t) (ft_established t))
         (ft_closing t)) (ft_established_rst t)) (ft_exception t)) (ft_closed_fin t))
         (ft_single_direction t)) (ft_opening_rst t)\<rparr>"

definition flow_timeout_from :: "tcp_timeout \<Rightarrow> flow_timeout" where
  "flow_timeout_from t = update_min_max
     \<lparr>ft_opening = tt_others t, ft_established = tt_established t, ft_closing = tt_others t,
      ft_established_rst = tt_closing_rst t, ft_exception = tt_others t,
      ft_closed_fin = from_secs 2, ft_single_direction = tt_others t,
      ft_opening_rst = tt_opening_rst t,
      ft_min = from_secs 0, ft_max = from_secs 0\<rparr>"

text \<open>The timeouts a flow node can be given, and the window the flow map sizes by them.\<close>

definition timeout_values :: "flow_timeout \<Rightarrow> timestamp list" where
  "timeout_values t =
     [ft_opening t, ft_established t, ft_closing t, ft_established_rst t, ft_exception t,
      ft_closed_fin t, ft_single_direction t, ft_opening_rst t]"

definition window_ok :: "flow_timeout \<Rightarrow> bool" where
  "window_ok t \<longleftrightarrow> (\<forall>v \<in> set (timeout_values t). ft_min t \<le> v \<and> v \<le> ft_max t)"

lemma window_okD:
  assumes "window_ok t"
  shows "v \<in> set (timeout_values t) \<Longrightarrow> ft_min t \<le> v \<and> v \<le> ft_max t"
  using assms by (simp add: window_ok_def)

lemma update_min_max_folds:
  "ft_min (update_min_max t) = foldl min (hd (timeout_values t)) (tl (timeout_values t))"
  "ft_max (update_min_max t) = foldl max (hd (timeout_values t)) (tl (timeout_values t))"
  unfolding update_min_max_def timeout_values_def
  by (cases t; simp only: list.sel foldl.simps flow_timeout.simps)+

lemma timeout_values_Cons:
  "timeout_values t = hd (timeout_values t) # tl (timeout_values t)"
  by (simp add: timeout_values_def)

lemma update_min_max_frame: "timeout_values (update_min_max t) = timeout_values t"
  unfolding update_min_max_def timeout_values_def
  by (cases t) (simp only: flow_timeout.simps)

lemma update_min_max_window: "window_ok (update_min_max t)"
proof -
  define x xs where "x = hd (timeout_values t)" and "xs = tl (timeout_values t)"
  then have "timeout_values t = x # xs"
    by (simp add: timeout_values_def)
  then show ?thesis
    unfolding window_ok_def update_min_max_frame update_min_max_folds
    by (auto simp only: list.sel intro!: foldl_min_le foldl_max_ge)
qed

lemma flow_timeout_from_window [simp]: "window_ok (flow_timeout_from t)"
  by (simp add: flow_timeout_from_def update_min_max_window)

text \<open>The bounds are attained: the window is as small as it can be.\<close>

lemma update_min_max_tight:
  "ft_min (update_min_max t) \<in> set (timeout_values t)"
  "ft_max (update_min_max t) \<in> set (timeout_values t)"
  unfolding update_min_max_folds
  by (subst (3) timeout_values_Cons, rule foldl_min_in)
    (subst (3) timeout_values_Cons, rule foldl_max_in)

end
