(* ===== verification/Tcp_Flags.thy ===== *)
theory Tcp_Flags
  imports Rust_Prelude
begin

section \<open>TCP flags and packet direction\<close>

text \<open>
  \<^verbatim>\<open>TcpFlags\<close> of \<^verbatim>\<open>agent/crates/public/src/enums.rs\<close>, a \<^verbatim>\<open>bitflags\<close> type over
  \<^verbatim>\<open>u8\<close>, here the byte itself, with the constants, the set operations the sources use
  and the test for a combination the state machine has no entry for; and
  \<^verbatim>\<open>PacketDirection\<close> of \<^verbatim>\<open>agent/src/common/flow.rs\<close>.
\<close>

type_synonym tcp_flags = u8

definition FIN :: tcp_flags where "FIN = 1"
definition SYN :: tcp_flags where "SYN = 2"
definition RST :: tcp_flags where "RST = 4"
definition PSH :: tcp_flags where "PSH = 8"
definition ACK :: tcp_flags where "ACK = 16"
definition URG :: tcp_flags where "URG = 32"
definition MASK :: tcp_flags where "MASK = 0x3F"

definition SYN_ACK :: tcp_flags where "SYN_ACK = SYN OR ACK"
definition FIN_ACK :: tcp_flags where "FIN_ACK = FIN OR ACK"
definition FIN_PSH_ACK :: tcp_flags where "FIN_PSH_ACK = FIN OR PSH OR ACK"
definition RST_ACK :: tcp_flags where "RST_ACK = RST OR ACK"
definition RST_PSH_ACK :: tcp_flags where "RST_PSH_ACK = RST OR PSH OR ACK"
definition PSH_ACK :: tcp_flags where "PSH_ACK = PSH OR ACK"
definition PSH_ACK_URG :: tcp_flags where "PSH_ACK_URG = PSH OR ACK OR URG"

text \<open>\<^verbatim>\<open>contains\<close> and \<^verbatim>\<open>intersects\<close> of the bitflags crate.\<close>

definition contains_flags :: "tcp_flags \<Rightarrow> tcp_flags \<Rightarrow> bool" where
  "contains_flags f g \<longleftrightarrow> f AND g = g"

definition intersects_flags :: "tcp_flags \<Rightarrow> tcp_flags \<Rightarrow> bool" where
  "intersects_flags f g \<longleftrightarrow> f AND g \<noteq> 0"

text \<open>The eleven combinations that are valid; every other one is an exception.\<close>

definition valid_flags :: "tcp_flags list" where
  "valid_flags =
     [SYN, SYN_ACK, FIN, FIN_ACK, FIN_PSH_ACK, RST, RST_ACK, RST_PSH_ACK, ACK,
      PSH_ACK, PSH_ACK_URG]"

definition is_invalid :: "tcp_flags \<Rightarrow> bool" where
  "is_invalid f = (let g = f AND MASK in
     if g = SYN then False
     else if g = SYN_ACK then False
     else if g = FIN then False
     else if g = FIN_ACK then False
     else if g = FIN_PSH_ACK then False
     else if g = RST then False
     else if g = RST_ACK then False
     else if g = RST_PSH_ACK then False
     else if g = ACK then False
     else if g = PSH_ACK then False
     else if g = PSH_ACK_URG then False
     else True)"

lemmas flag_defs =
  FIN_def SYN_def RST_def PSH_def ACK_def URG_def MASK_def SYN_ACK_def FIN_ACK_def
  FIN_PSH_ACK_def RST_ACK_def RST_PSH_ACK_def PSH_ACK_def PSH_ACK_URG_def

text \<open>The constants as numerals, for evaluation.\<close>

lemma flag_values [flag_simps]:
  "FIN = 1" "SYN = 2" "RST = 4" "PSH = 8" "ACK = 16" "URG = 32" "MASK = 63"
  "SYN_ACK = 18" "FIN_ACK = 17" "FIN_PSH_ACK = 25" "RST_ACK = 20" "RST_PSH_ACK = 28"
  "PSH_ACK = 24" "PSH_ACK_URG = 56"
  by (simp_all add: flag_defs)

lemma is_invalid_iff: "is_invalid f \<longleftrightarrow> f AND MASK \<notin> set valid_flags"
  by (simp add: is_invalid_def valid_flags_def Let_def)

lemma valid_flags_masked: "f \<in> set valid_flags \<Longrightarrow> f AND MASK = f"
  by (auto simp: valid_flags_def flag_simps)

lemma valid_not_invalid: "f \<in> set valid_flags \<Longrightarrow> \<not> is_invalid f"
  by (simp add: is_invalid_iff valid_flags_masked)

datatype packet_direction = ClientToServer | ServerToClient

fun reversed :: "packet_direction \<Rightarrow> packet_direction" where
  "reversed ClientToServer = ServerToClient"
| "reversed ServerToClient = ClientToServer"

lemma reversed_reversed [simp]: "reversed (reversed d) = d"
  by (cases d) simp_all

end
