(* ===== verification/Flow_State.thy ===== *)
theory Flow_State
  imports Timestamps Tcp_Flags
begin

section \<open>The TCP flow state machine\<close>

text \<open>
  \<^verbatim>\<open>agent/src/flow_generator/flow_state.rs\<close>: the two transition tables of a TCP flow,
  one for packets from the client (\<^verbatim>\<open>new_master\<close>) and one that overrides it for packets
  from the server (\<^verbatim>\<open>new_slave\<close>); \<^verbatim>\<open>update_flow_state_machine\<close> of
  \<^verbatim>\<open>agent/src/flow_generator/flow_map.rs\<close>, which drives a flow node with them; and
  \<^verbatim>\<open>update_close_type\<close> of \<^verbatim>\<open>agent/src/common/flow.rs\<close>, which reports how a flow ended.

  A table is an array indexed by the discriminant of the state and by the masked flag
  byte; here it is a function of the two.  The builder functions fill it in the order of
  the source, one definition per state, from the empty table.  An index with the
  discriminant of \<^verbatim>\<open>FlowState::Max\<close> is out of range and panics.
\<close>

datatype flow_state =
  Raw | Opening1 | Opening2 | Established | ClosingTx1 | ClosingTx2 | ClosingRx1
  | ClosingRx2 | Closed | Reset | Exception | ServerReset | ServerCandidateQueueLack
  | ClientL4PortReuse | Syn1 | SynAck1 | EstablishReset | OpeningRst | StateMax

fun state_index :: "flow_state \<Rightarrow> nat" where
  "state_index Raw = 0"
| "state_index Opening1 = 1"
| "state_index Opening2 = 2"
| "state_index Established = 3"
| "state_index ClosingTx1 = 4"
| "state_index ClosingTx2 = 5"
| "state_index ClosingRx1 = 6"
| "state_index ClosingRx2 = 7"
| "state_index Closed = 8"
| "state_index Reset = 9"
| "state_index Exception = 10"
| "state_index ServerReset = 11"
| "state_index ServerCandidateQueueLack = 12"
| "state_index ClientL4PortReuse = 13"
| "state_index Syn1 = 14"
| "state_index SynAck1 = 15"
| "state_index EstablishReset = 16"
| "state_index OpeningRst = 17"
| "state_index StateMax = 18"

definition N_STATES :: nat where
  "N_STATES = state_index StateMax"

record state_value =
  sv_timeout :: timestamp
  sv_state :: flow_state
  sv_closed :: bool

definition state_value_new :: "timestamp \<Rightarrow> flow_state \<Rightarrow> bool \<Rightarrow> state_value" where
  "state_value_new tm s c = \<lparr>sv_timeout = tm, sv_state = s, sv_closed = c\<rparr>"

lemma state_value_new_simps [simp]:
  "sv_timeout (state_value_new tm s c) = tm"
  "sv_state (state_value_new tm s c) = s"
  "sv_closed (state_value_new tm s c) = c"
  by (simp_all add: state_value_new_def)

type_synonym state_machine = "flow_state \<Rightarrow> tcp_flags \<Rightarrow> state_value option"

definition empty_machine :: state_machine where
  "empty_machine = (\<lambda>_ _. None)"

text \<open>One shared value written under several flag combinations of a state.\<close>

definition set_entries ::
  "flow_state \<Rightarrow> tcp_flags list \<Rightarrow> state_value \<Rightarrow> state_machine \<Rightarrow> state_machine" where
  "set_entries s fs v m = m(s := (\<lambda>f. if f \<in> set fs then Some v else m s f))"

subsection \<open>The tables\<close>

definition master_raw ::
  "flow_timeout \<Rightarrow> state_machine \<Rightarrow> state_machine" where
  "master_raw t m =
    (let
       m = set_entries Raw [SYN]
             (state_value_new (ft_opening t) Opening1 False) m;
       m = set_entries Raw [FIN, FIN_ACK, FIN_PSH_ACK]
             (state_value_new (ft_closing t) ClosingTx1 False) m;
       m = set_entries Raw [RST, RST_ACK, RST_PSH_ACK]
             (state_value_new (ft_closing t) Reset False) m;
       m = set_entries Raw [ACK, PSH_ACK, PSH_ACK_URG]
             (state_value_new (ft_established t) Established False) m
     in m)"

definition master_opening1 ::
  "flow_timeout \<Rightarrow> state_machine \<Rightarrow> state_machine" where
  "master_opening1 t m =
    (let
       m = set_entries Opening1 [SYN]
             (state_value_new (ft_opening t) Opening1 False) m;
       m = set_entries Opening1 [FIN, FIN_ACK, FIN_PSH_ACK]
             (state_value_new (ft_closing t) ClosingTx1 False) m;
       m = set_entries Opening1 [RST, RST_ACK, RST_PSH_ACK]
             (state_value_new (ft_closing t) EstablishReset False) m;
       m = set_entries Opening1 [ACK, PSH_ACK, PSH_ACK_URG]
             (state_value_new (ft_established t) Established False) m
     in m)"

definition master_opening2 ::
  "flow_timeout \<Rightarrow> state_machine \<Rightarrow> state_machine" where
  "master_opening2 t m =
    (let
       m = set_entries Opening2 [SYN]
             (state_value_new (ft_opening t) Opening2 False) m;
       m = set_entries Opening2 [FIN, FIN_ACK, FIN_PSH_ACK]
             (state_value_new (ft_closing t) ClosingTx1 False) m;
       m = set_entries Opening2 [RST, RST_ACK, RST_PSH_ACK]
             (state_value_new (ft_opening_rst t) OpeningRst False) m;
       m = set_entries Opening2 [ACK, PSH_ACK, PSH_ACK_URG]
             (state_value_new (ft_established t) Established False) m
     in m)"

definition master_established ::
  "flow_timeout \<Rightarrow> state_machine \<Rightarrow> state_machine" where
  "master_established t m =
    (let
       m = set_entries Established [SYN]
             (state_value_new (ft_established t) Established False) m;
       m = set_entries Established [FIN, FIN_ACK, FIN_PSH_ACK]
             (state_value_new (ft_closing t) ClosingTx1 False) m;
       m = set_entries Established [RST, RST_ACK, RST_PSH_ACK]
             (state_value_new (ft_established_rst t) Reset False) m;
       m = set_entries Established [ACK, PSH_ACK, PSH_ACK_URG]
             (state_value_new (ft_established t) Established False) m
     in m)"

definition master_closing_tx1 ::
  "flow_timeout \<Rightarrow> state_machine \<Rightarrow> state_machine" where
  "master_closing_tx1 t m =
    (let
       m = set_entries ClosingTx1 [SYN, SYN_ACK]
             (state_value_new (ft_closing t) ClosingTx1 False) m;
       m = set_entries ClosingTx1 [FIN, FIN_ACK, FIN_PSH_ACK]
             (state_value_new (ft_closing t) ClosingTx1 False) m;
       m = set_entries ClosingTx1 [RST, RST_ACK, RST_PSH_ACK]
             (state_value_new (ft_closing t) Reset False) m;
       m = set_entries ClosingTx1 [ACK, PSH_ACK, PSH_ACK_URG]
             (state_value_new (ft_closing t) ClosingTx1 False) m
     in m)"

definition master_closing_tx2 ::
  "flow_timeout \<Rightarrow> state_machine \<Rightarrow> state_machine" where
  "master_closing_tx2 t m =
    (let
       m = set_entries ClosingTx2 [SYN, SYN_ACK]
             (state_value_new (ft_closing t) ClosingTx2 False) m;
       m = set_entries ClosingTx2 [FIN, FIN_ACK, FIN_PSH_ACK]
             (state_value_new (ft_closing t) ClosingTx2 False) m;
       m = set_entries ClosingTx2 [RST, RST_ACK, RST_PSH_ACK]
             (state_value_new (ft_closed_fin t) Reset False) m;
       m = set_entries ClosingTx2 [ACK]
             (state_value_new (ft_closed_fin t) Closed False) m
     in m)"

definition master_closing_rx1 ::
  "flow_timeout \<Rightarrow> state_machine \<Rightarrow> state_machine" where
  "master_closing_rx1 t m =
    (let
       m = set_entries ClosingRx1 [SYN, SYN_ACK]
             (state_value_new (ft_closing t) ClosingRx1 False) m;
       m = set_entries ClosingRx1 [FIN, FIN_ACK, FIN_PSH_ACK]
             (state_value_new (ft_closing t) ClosingRx2 False) m;
       m = set_entries ClosingRx1 [RST, RST_ACK, RST_PSH_ACK]
             (state_value_new (ft_closing t) Reset False) m;
       m = set_entries ClosingRx1 [ACK, PSH_ACK, PSH_ACK_URG]
             (state_value_new (ft_closing t) ClosingRx1 False) m
     in m)"

definition master_closing_rx2 ::
  "flow_timeout \<Rightarrow> state_machine \<Rightarrow> state_machine" where
  "master_closing_rx2 t m =
    (let
       m = set_entries ClosingRx2 [SYN, SYN_ACK]
             (state_value_new (ft_closing t) ClosingRx2 False) m;
       m = set_entries ClosingRx2 [FIN, FIN_ACK, FIN_PSH_ACK]
             (state_value_new (ft_closing t) ClosingRx2 False) m;
       m = set_entries ClosingRx2 [RST, RST_ACK, RST_PSH_ACK]
             (state_value_new (ft_closed_fin t) Reset False) m;
       m = set_entries ClosingRx2 [ACK, PSH_ACK, PSH_ACK_URG]
             (state_value_new (ft_closing t) ClosingRx2 False) m
     in m)"

definition master_closed ::
  "flow_timeout \<Rightarrow> state_machine \<Rightarrow> state_machine" where
  "master_closed t m =
    (let
       m = set_entries Closed [ACK]
             (state_value_new (ft_closed_fin t) Closed False) m
     in m)"

definition master_reset ::
  "flow_timeout \<Rightarrow> state_machine \<Rightarrow> state_machine" where
  "master_reset t m =
    (let
       m = set_entries Reset [SYN, SYN_ACK]
             (state_value_new (ft_exception t) Reset False) m;
       m = set_entries Reset [FIN, FIN_ACK, FIN_PSH_ACK]
             (state_value_new (ft_exception t) Reset False) m;
       m = set_entries Reset [RST, RST_ACK, RST_PSH_ACK]
             (state_value_new (ft_exception t) Reset False) m;
       m = set_entries Reset [ACK, PSH_ACK, PSH_ACK_URG]
             (state_value_new (ft_exception t) Reset False) m
     in m)"

definition master_syn1 ::
  "flow_timeout \<Rightarrow> state_machine \<Rightarrow> state_machine" where
  "master_syn1 t m =
    (let
       m = set_entries Syn1 [SYN]
             (state_value_new (ft_opening t) Opening1 False) m;
       m = set_entries Syn1 [RST, RST_ACK, RST_PSH_ACK]
             (state_value_new (ft_closing t) ClientL4PortReuse False) m;
       m = set_entries Syn1 [ACK, PSH_ACK, PSH_ACK_URG]
             (state_value_new (ft_established t) Established False) m;
       m = set_entries Syn1 [FIN, FIN_ACK, FIN_PSH_ACK]
             (state_value_new (ft_closing t) ClosingTx1 False) m
     in m)"

definition master_client_l4_port_reuse ::
  "flow_timeout \<Rightarrow> state_machine \<Rightarrow> state_machine" where
  "master_client_l4_port_reuse t m =
    (let
       m = set_entries ClientL4PortReuse [SYN, SYN_ACK]
             (state_value_new (ft_exception t) ClientL4PortReuse False) m;
       m = set_entries ClientL4PortReuse [FIN, FIN_ACK, FIN_PSH_ACK]
             (state_value_new (ft_exception t) ClientL4PortReuse False) m;
       m = set_entries ClientL4PortReuse [RST, RST_ACK, RST_PSH_ACK]
             (state_value_new (ft_exception t) ClientL4PortReuse False) m;
       m = set_entries ClientL4PortReuse [ACK, PSH_ACK, PSH_ACK_URG]
             (state_value_new (ft_exception t) ClientL4PortReuse False) m
     in m)"

definition master_syn_ack1 ::
  "flow_timeout \<Rightarrow> state_machine \<Rightarrow> state_machine" where
  "master_syn_ack1 t m =
    (let
       m = set_entries SynAck1 [SYN]
             (state_value_new (ft_established t) Established False) m;
       m = set_entries SynAck1 [FIN, FIN_ACK, FIN_PSH_ACK]
             (state_value_new (ft_closing t) ClosingTx1 False) m;
       m = set_entries SynAck1 [RST, RST_ACK, RST_PSH_ACK]
             (state_value_new (ft_closing t) Reset False) m;
       m = set_entries SynAck1 [ACK, PSH_ACK, PSH_ACK_URG]
             (state_value_new (ft_established t) SynAck1 False) m
     in m)"

definition master_server_candidate_queue_lack ::
  "flow_timeout \<Rightarrow> state_machine \<Rightarrow> state_machine" where
  "master_server_candidate_queue_lack t m =
    (let
       m = set_entries ServerCandidateQueueLack [SYN, SYN_ACK]
             (state_value_new (ft_exception t) ServerCandidateQueueLack False) m;
       m = set_entries ServerCandidateQueueLack [FIN, FIN_ACK, FIN_PSH_ACK]
             (state_value_new (ft_exception t) ServerCandidateQueueLack False) m;
       m = set_entries ServerCandidateQueueLack [RST, RST_ACK, RST_PSH_ACK]
             (state_value_new (ft_exception t) ServerCandidateQueueLack False) m;
       m = set_entries ServerCandidateQueueLack [ACK, PSH_ACK, PSH_ACK_URG]
             (state_value_new (ft_exception t) ServerCandidateQueueLack False) m
     in m)"

definition master_server_reset ::
  "flow_timeout \<Rightarrow> state_machine \<Rightarrow> state_machine" where
  "master_server_reset t m =
    (let
       m = set_entries ServerReset [SYN, SYN_ACK]
             (state_value_new (ft_exception t) ServerReset False) m;
       m = set_entries ServerReset [FIN, FIN_ACK, FIN_PSH_ACK]
             (state_value_new (ft_exception t) ServerReset False) m;
       m = set_entries ServerReset [RST, RST_ACK, RST_PSH_ACK]
             (state_value_new (ft_exception t) ServerReset False) m;
       m = set_entries ServerReset [ACK, PSH_ACK, PSH_ACK_URG]
             (state_value_new (ft_exception t) ServerReset False) m
     in m)"

definition master_establish_reset ::
  "flow_timeout \<Rightarrow> state_machine \<Rightarrow> state_machine" where
  "master_establish_reset t m =
    (let
       m = set_entries EstablishReset [SYN, SYN_ACK]
             (state_value_new (ft_exception t) EstablishReset False) m;
       m = set_entries EstablishReset [FIN, FIN_ACK, FIN_PSH_ACK]
             (state_value_new (ft_exception t) EstablishReset False) m;
       m = set_entries EstablishReset [RST, RST_ACK, RST_PSH_ACK]
             (state_value_new (ft_exception t) EstablishReset False) m;
       m = set_entries EstablishReset [ACK, PSH_ACK, PSH_ACK_URG]
             (state_value_new (ft_exception t) EstablishReset False) m
     in m)"

definition master_opening_rst ::
  "flow_timeout \<Rightarrow> state_machine \<Rightarrow> state_machine" where
  "master_opening_rst t m =
    (let
       m = set_entries OpeningRst [SYN, SYN_ACK, FIN, FIN_ACK, FIN_PSH_ACK, RST,
             RST_ACK, RST_PSH_ACK, ACK, PSH_ACK, PSH_ACK_URG]
             (state_value_new (ft_opening_rst t) OpeningRst False) m
     in m)"

definition new_master :: "flow_timeout \<Rightarrow> state_machine" where
  "new_master t = (let
     m = master_raw t empty_machine;
     m = master_opening1 t m;
     m = master_opening2 t m;
     m = master_established t m;
     m = master_closing_tx1 t m;
     m = master_closing_tx2 t m;
     m = master_closing_rx1 t m;
     m = master_closing_rx2 t m;
     m = master_closed t m;
     m = master_reset t m;
     m = master_syn1 t m;
     m = master_client_l4_port_reuse t m;
     m = master_syn_ack1 t m;
     m = master_server_candidate_queue_lack t m;
     m = master_server_reset t m;
     m = master_establish_reset t m;
     m = master_opening_rst t m
   in m)"

lemmas master_defs =
  new_master_def master_raw_def master_opening1_def master_opening2_def
  master_established_def master_closing_tx1_def master_closing_tx2_def
  master_closing_rx1_def master_closing_rx2_def master_closed_def master_reset_def
  master_syn1_def master_client_l4_port_reuse_def master_syn_ack1_def
  master_server_candidate_queue_lack_def master_server_reset_def
  master_establish_reset_def master_opening_rst_def

definition slave_raw ::
  "flow_timeout \<Rightarrow> state_machine \<Rightarrow> state_machine" where
  "slave_raw t m =
    (let
       m = set_entries Raw [SYN_ACK]
             (state_value_new (ft_opening t) Opening2 False) m;
       m = set_entries Raw [FIN, FIN_ACK, FIN_PSH_ACK]
             (state_value_new (ft_closing t) ClosingRx1 False) m
     in m)"

definition slave_opening1 ::
  "flow_timeout \<Rightarrow> state_machine \<Rightarrow> state_machine" where
  "slave_opening1 t m =
    (let
       m = set_entries Opening1 [SYN_ACK]
             (state_value_new (ft_opening t) Opening2 False) m;
       m = set_entries Opening1 [ACK, PSH_ACK, PSH_ACK_URG]
             (state_value_new (ft_opening t) Syn1 False) m;
       m = set_entries Opening1 [RST, RST_ACK, RST_PSH_ACK]
             (state_value_new (ft_closing t) ServerReset False) m;
       m = set_entries Opening1 [FIN, FIN_ACK, FIN_PSH_ACK]
             (state_value_new (ft_closing t) ClosingRx1 False) m
     in m)"

definition slave_opening2 ::
  "flow_timeout \<Rightarrow> state_machine \<Rightarrow> state_machine" where
  "slave_opening2 t m =
    (let
       m = set_entries Opening2 [SYN_ACK]
             (state_value_new (ft_opening t) Opening2 False) m;
       m = set_entries Opening2 [FIN, FIN_ACK, FIN_PSH_ACK]
             (state_value_new (ft_closing t) ClosingRx1 False) m;
       m = set_entries Opening2 [RST, RST_ACK, RST_PSH_ACK]
             (state_value_new (ft_closing t) EstablishReset False) m
     in m)"

definition slave_established ::
  "flow_timeout \<Rightarrow> state_machine \<Rightarrow> state_machine" where
  "slave_established t m =
    (let
       m = set_entries Established [SYN_ACK]
             (state_value_new (ft_established t) SynAck1 False) m;
       m = set_entries Established [FIN, FIN_ACK, FIN_PSH_ACK]
             (state_value_new (ft_closing t) ClosingRx1 False) m
     in m)"

definition slave_closing_tx1 ::
  "flow_timeout \<Rightarrow> state_machine \<Rightarrow> state_machine" where
  "slave_closing_tx1 t m =
    (let
       m = set_entries ClosingTx1 [FIN, FIN_ACK, FIN_PSH_ACK]
             (state_value_new (ft_closing t) ClosingTx2 False) m
     in m)"

definition slave_closing_tx2 ::
  "flow_timeout \<Rightarrow> state_machine \<Rightarrow> state_machine" where
  "slave_closing_tx2 t m =
    (let
       m = set_entries ClosingTx2 [ACK, PSH_ACK, PSH_ACK_URG]
             (state_value_new (ft_closing t) ClosingTx2 False) m
     in m)"

definition slave_closing_rx1 ::
  "flow_timeout \<Rightarrow> state_machine \<Rightarrow> state_machine" where
  "slave_closing_rx1 t m =
    (let
       m = set_entries ClosingRx1 [FIN, FIN_ACK, FIN_PSH_ACK]
             (state_value_new (ft_closing t) ClosingRx1 False) m
     in m)"

definition slave_closing_rx2 ::
  "flow_timeout \<Rightarrow> state_machine \<Rightarrow> state_machine" where
  "slave_closing_rx2 t m =
    (let
       m = set_entries ClosingRx2 [ACK]
             (state_value_new (ft_closed_fin t) Closed False) m
     in m)"

definition slave_closed ::
  "flow_timeout \<Rightarrow> state_machine \<Rightarrow> state_machine" where
  "slave_closed t m =
    (let
       m = set_entries Closed [ACK]
             (state_value_new (ft_closed_fin t) Closed False) m
     in m)"

definition slave_syn1 ::
  "flow_timeout \<Rightarrow> state_machine \<Rightarrow> state_machine" where
  "slave_syn1 t m =
    (let
       m = set_entries Syn1 [SYN_ACK]
             (state_value_new (ft_opening t) Opening2 False) m;
       m = set_entries Syn1 [ACK, PSH_ACK, PSH_ACK_URG]
             (state_value_new (ft_opening t) Syn1 False) m;
       m = set_entries Syn1 [FIN, FIN_ACK, FIN_PSH_ACK]
             (state_value_new (ft_closing t) ClosingRx1 False) m;
       m = set_entries Syn1 [RST, RST_ACK, RST_PSH_ACK]
             (state_value_new (ft_closing t) EstablishReset False) m
     in m)"

definition slave_syn_ack1 ::
  "flow_timeout \<Rightarrow> state_machine \<Rightarrow> state_machine" where
  "slave_syn_ack1 t m =
    (let
       m = set_entries SynAck1 [SYN_ACK]
             (state_value_new (ft_established t) SynAck1 False) m;
       m = set_entries SynAck1 [FIN, FIN_ACK, FIN_PSH_ACK]
             (state_value_new (ft_closing t) ClosingRx1 False) m;
       m = set_entries SynAck1 [RST, RST_ACK, RST_PSH_ACK]
             (state_value_new (ft_established_rst t) ServerCandidateQueueLack False) m;
       m = set_entries SynAck1 [ACK, PSH_ACK, PSH_ACK_URG]
             (state_value_new (ft_established t) Established False) m
     in m)"

definition slave_opening_rst ::
  "flow_timeout \<Rightarrow> state_machine \<Rightarrow> state_machine" where
  "slave_opening_rst t m =
    (let
       m = set_entries OpeningRst [SYN, SYN_ACK, FIN, FIN_ACK, FIN_PSH_ACK, RST,
             RST_ACK, RST_PSH_ACK, ACK, PSH_ACK, PSH_ACK_URG]
             (state_value_new (ft_opening_rst t) OpeningRst False) m
     in m)"

definition new_slave :: "flow_timeout \<Rightarrow> state_machine" where
  "new_slave t = (let
     m = slave_raw t empty_machine;
     m = slave_opening1 t m;
     m = slave_opening2 t m;
     m = slave_established t m;
     m = slave_closing_tx1 t m;
     m = slave_closing_tx2 t m;
     m = slave_closing_rx1 t m;
     m = slave_closing_rx2 t m;
     m = slave_closed t m;
     m = slave_syn1 t m;
     m = slave_syn_ack1 t m;
     m = slave_opening_rst t m
   in m)"

lemmas slave_defs =
  new_slave_def slave_raw_def slave_opening1_def slave_opening2_def
  slave_established_def slave_closing_tx1_def slave_closing_tx2_def
  slave_closing_rx1_def slave_closing_rx2_def slave_closed_def slave_syn1_def
  slave_syn_ack1_def slave_opening_rst_def
definition sm_get ::
  "state_machine \<Rightarrow> flow_state \<Rightarrow> tcp_flags \<Rightarrow> state_value option may_panic" where
  "sm_get m s f = (if state_index s < N_STATES then Some (m s (f AND MASK)) else None)"

subsection \<open>Driving a flow node\<close>

text \<open>The fields of a flow node that the machine reads and writes.\<close>

record flow_node =
  fn_state :: flow_state
  fn_timeout :: timestamp
  fn_src_packets :: u64
  fn_dst_packets :: u64

definition update_flow_state_machine ::
  "state_machine \<Rightarrow> state_machine \<Rightarrow> flow_timeout \<Rightarrow> flow_node \<Rightarrow> tcp_flags \<Rightarrow>
   packet_direction \<Rightarrow> (flow_node \<times> bool) may_panic" where
  "update_flow_state_machine master slave cfg node flags direction = do {
     entry \<leftarrow> sm_get master (fn_state node) flags;
     let v = (case entry of Some v \<Rightarrow> v
              | None \<Rightarrow> state_value_new (ft_exception cfg) Exception False);
     v \<leftarrow> (if direction = ServerToClient then do {
              over \<leftarrow> sm_get slave (fn_state node) flags;
              Some (case over of Some w \<Rightarrow> w | None \<Rightarrow> v) }
            else Some v);
     let node = node\<lparr>fn_state := sv_state v\<rparr>;
     let node = (if fn_src_packets node = 0 \<or> fn_dst_packets node = 0
                 then node\<lparr>fn_timeout := ft_single_direction cfg\<rparr>
                 else node\<lparr>fn_timeout := sv_timeout v\<rparr>);
     Some (node, sv_closed v)
   }"

text \<open>
  A packet that reaches a node, as the end of \<^verbatim>\<open>update_tcp_flow\<close> sees it: its flags, its
  direction and the packet counters of the two peers.  The direction is the one read at the
  start of the function.  The counters are the ones \<^verbatim>\<open>update_flow_state_machine\<close> reads: the packet is
  counted by then, and for a SYN or a packet with \<^verbatim>\<open>need_reverse_flow\<close>
  \<^verbatim>\<open>update_l4_direction\<close> may have reversed the flow, which swaps the two peers and touches neither
  the state nor the timeout of the node.  As the counters of an event are arbitrary, the step
  covers both cases (lemma \<^verbatim>\<open>flow_step_reversed\<close>); which host is the client is then decided anew, so
  that the direction of an event is the one the flow had when the packet came.  Packets
  of \<^verbatim>\<open>SignalSource::EBPF\<close> return before this part and make no step.  A packet with an invalid
  combination of flags goes to the exception state and every other one through the machine.
\<close>

datatype tcp_event =
  TcpEvent (ev_flags: tcp_flags) (ev_dir: packet_direction)
    (ev_src_packets: u64) (ev_dst_packets: u64)

inductive flow_step :: "flow_timeout \<Rightarrow> flow_node \<Rightarrow> tcp_event \<Rightarrow> flow_node \<Rightarrow> bool"
  for t where
  step_valid:
    "\<not> is_invalid f \<Longrightarrow>
     update_flow_state_machine (new_master t) (new_slave t) t
       (n\<lparr>fn_src_packets := a, fn_dst_packets := b\<rparr>) f d = Some (n', c) \<Longrightarrow>
     flow_step t n (TcpEvent f d a b) n'"
| step_invalid:
    "is_invalid f \<Longrightarrow>
     flow_step t n (TcpEvent f d a b)
       (n\<lparr>fn_src_packets := a, fn_dst_packets := b,
          fn_timeout := ft_exception t, fn_state := Exception\<rparr>)"

inductive_cases flow_stepE: "flow_step t n e n'"

text \<open>What the reversal of a flow does to the fields of the node that the machine uses.\<close>

definition flow_node_reverse :: "flow_node \<Rightarrow> flow_node" where
  "flow_node_reverse n = n\<lparr>fn_src_packets := fn_dst_packets n, fn_dst_packets := fn_src_packets n\<rparr>"

lemma flow_step_reversed: "flow_step t (flow_node_reverse n) e n' \<longleftrightarrow> flow_step t n e n'"
  by (cases e) (auto simp: flow_step.simps flow_node_reverse_def)

subsection \<open>How a flow ended\<close>

datatype close_type =
  Unknown | Finish | TcpServerRst | Timeout | ForcedReport | ClientSynRepeat
  | ServerHalfClose | TcpClientRst | ServerSynAckRepeat | ClientHalfClose
  | ClientSourcePortReuse | CtServerReset | ServerQueueLack | ClientEstablishReset
  | ServerEstablishReset | TcpFinClientRst | CloseMax

definition is_client_error :: "close_type \<Rightarrow> bool" where
  "is_client_error c \<longleftrightarrow> c = TcpClientRst \<or> c = ClientHalfClose
     \<or> c = ClientSourcePortReuse \<or> c = ServerSynAckRepeat \<or> c = ClientEstablishReset"

definition is_server_error :: "close_type \<Rightarrow> bool" where
  "is_server_error c \<longleftrightarrow> c = TcpServerRst \<or> c = Timeout \<or> c = ServerHalfClose
     \<or> c = CtServerReset \<or> c = ServerQueueLack \<or> c = ServerEstablishReset
     \<or> c = ClientSynRepeat"

text \<open>The fields of a flow that decide its close type.\<close>

record flow_summary =
  fl_is_tcp :: bool
  fl_src_flags :: tcp_flags
  fl_dst_flags :: tcp_flags
  fl_dst_packets :: u64

definition is_heartbeat :: "flow_summary \<Rightarrow> bool" where
  "is_heartbeat fl =
     (if contains_flags (fl_src_flags fl) PSH \<or> contains_flags (fl_dst_flags fl) PSH
      then False
      else contains_flags (fl_src_flags fl) (SYN OR RST)
           \<and> contains_flags (fl_dst_flags fl) SYN_ACK)"

fun update_close_type :: "flow_summary \<Rightarrow> flow_state \<Rightarrow> close_type" where
  "update_close_type fl Exception = Unknown"
| "update_close_type fl Opening1 = ClientSynRepeat"
| "update_close_type fl Opening2 = ServerSynAckRepeat"
| "update_close_type fl Established = (if fl_is_tcp fl then Timeout else Finish)"
| "update_close_type fl ClosingTx1 = ServerHalfClose"
| "update_close_type fl ClosingRx1 = ClientHalfClose"
| "update_close_type fl ClosingTx2 = Finish"
| "update_close_type fl ClosingRx2 = Finish"
| "update_close_type fl Closed = Finish"
| "update_close_type fl Reset =
     (if is_heartbeat fl then TcpFinClientRst
      else if contains_flags (fl_dst_flags fl) RST then TcpServerRst
      else TcpClientRst)"
| "update_close_type fl Syn1 =
     (if is_heartbeat fl then TcpFinClientRst else ClientSourcePortReuse)"
| "update_close_type fl ClientL4PortReuse =
     (if is_heartbeat fl then TcpFinClientRst else ClientSourcePortReuse)"
| "update_close_type fl ServerReset = CtServerReset"
| "update_close_type fl SynAck1 = ServerQueueLack"
| "update_close_type fl ServerCandidateQueueLack =
     (if 3 < fl_dst_packets fl then ServerQueueLack else TcpClientRst)"
| "update_close_type fl EstablishReset =
     (if is_heartbeat fl then TcpFinClientRst
      else if contains_flags (fl_dst_flags fl) RST then ServerEstablishReset
      else ClientEstablishReset)"
| "update_close_type fl OpeningRst =
     (if is_heartbeat fl then TcpFinClientRst
      else if contains_flags (fl_dst_flags fl) RST then ServerEstablishReset
      else ClientEstablishReset)"
| "update_close_type fl _ = Unknown"

subsection \<open>Reading the tables\<close>

lemma set_entries_apply:
  "set_entries s fs v m s' f =
     (if s' = s \<and> f \<in> set fs then Some v else m s' f)"
  by (simp add: set_entries_def)

lemma set_entries_other: "s' \<noteq> s \<Longrightarrow> set_entries s fs v m s' f = m s' f"
  by (simp add: set_entries_apply)

text \<open>Every entry of a table was written by one of its groups.\<close>

lemma set_entries_SomeD:
  "set_entries s fs v m s' f = Some w \<Longrightarrow>
   (s' = s \<and> f \<in> set fs \<and> w = v) \<or> m s' f = Some w"
  by (simp add: set_entries_apply split: if_splits)

lemma empty_machine_apply [simp]: "empty_machine s f = None"
  by (simp add: empty_machine_def)

text \<open>The entry a packet selects: the server table first for a packet of the server.\<close>

definition select_entry ::
  "flow_timeout \<Rightarrow> flow_state \<Rightarrow> tcp_flags \<Rightarrow> packet_direction \<Rightarrow> state_value" where
  "select_entry t s f d =
     (case (if d = ServerToClient then new_slave t s (f AND MASK) else None) of
        Some v \<Rightarrow> v
      | None \<Rightarrow> (case new_master t s (f AND MASK) of
          Some v \<Rightarrow> v
        | None \<Rightarrow> state_value_new (ft_exception t) Exception False))"

lemma sm_get_Some: "s \<noteq> StateMax \<Longrightarrow> sm_get m s f = Some (m s (f AND MASK))"
  by (cases s) (simp_all add: sm_get_def N_STATES_def)

lemma update_flow_state_machine_eq:
  assumes "fn_state n \<noteq> StateMax"
  shows "update_flow_state_machine (new_master t) (new_slave t) t n f d =
     (let v = select_entry t (fn_state n) f d in
      Some (n\<lparr>fn_state := sv_state v,
              fn_timeout := (if fn_src_packets n = 0 \<or> fn_dst_packets n = 0
                             then ft_single_direction t else sv_timeout v)\<rparr>,
            sv_closed v))"
  using assms
  by (simp add: update_flow_state_machine_def select_entry_def sm_get_Some Let_def
      split: option.split)

subsection \<open>What every entry of the tables guarantees\<close>

text \<open>
  The phases of a connection: nothing seen, opening, established, one side closing, both
  sides closing, finished (closed or reset), exception.
\<close>

fun phase :: "flow_state \<Rightarrow> nat" where
  "phase Raw = 0"
| "phase Opening1 = 1"
| "phase Opening2 = 1"
| "phase Syn1 = 1"
| "phase Established = 2"
| "phase SynAck1 = 2"
| "phase ClosingTx1 = 3"
| "phase ClosingRx1 = 3"
| "phase ClosingTx2 = 4"
| "phase ClosingRx2 = 4"
| "phase Exception = 6"
| "phase StateMax = 7"
| "phase _ = 5"

definition entry_ok :: "flow_timeout \<Rightarrow> flow_state \<Rightarrow> state_value \<Rightarrow> bool" where
  "entry_ok t s v \<longleftrightarrow> sv_timeout v \<in> set (timeout_values t) \<and> sv_state v \<noteq> StateMax
     \<and> \<not> sv_closed v \<and> phase s \<le> phase (sv_state v)"

lemma master_entry_ok: "new_master t s f = Some v \<Longrightarrow> entry_ok t s v"
  unfolding master_defs Let_def
  by (elim set_entries_SomeD [elim_format] disjE)
    (simp_all add: timeout_values_def entry_ok_def)

lemma slave_entry_ok: "new_slave t s f = Some v \<Longrightarrow> entry_ok t s v"
  unfolding slave_defs Let_def
  by (elim set_entries_SomeD [elim_format] disjE)
    (simp_all add: timeout_values_def entry_ok_def)

lemma phase_le_Exception: "s \<noteq> StateMax \<Longrightarrow> phase s \<le> 6"
  by (cases s) simp_all

lemma exception_entry_ok:
  "s \<noteq> StateMax \<Longrightarrow> entry_ok t s (state_value_new (ft_exception t) Exception False)"
  by (simp add: entry_ok_def timeout_values_def phase_le_Exception)

lemma select_entry_ok: "s \<noteq> StateMax \<Longrightarrow> entry_ok t s (select_entry t s f d)"
  by (auto simp: select_entry_def exception_entry_ok
      dest: master_entry_ok slave_entry_ok split: option.split)

text \<open>A step in terms of the selected entry.\<close>

lemma invalid_select_Exception:
  assumes "is_invalid f"
  shows "sv_state (select_entry t s f d) = Exception"
proof -
  have f: "f AND MASK \<notin> set valid_flags"
    using assms by (simp add: is_invalid_iff)
  have "new_master t s (f AND MASK) = None"
  proof (rule ccontr)
    assume "new_master t s (f AND MASK) \<noteq> None"
    then obtain v where "new_master t s (f AND MASK) = Some v" by blast
    with f show False
      unfolding master_defs Let_def
      by (elim set_entries_SomeD [elim_format] disjE) (auto simp: valid_flags_def)
  qed
  moreover have "new_slave t s (f AND MASK) = None"
  proof (rule ccontr)
    assume "new_slave t s (f AND MASK) \<noteq> None"
    then obtain v where "new_slave t s (f AND MASK) = Some v" by blast
    with f show False
      unfolding slave_defs Let_def
      by (elim set_entries_SomeD [elim_format] disjE) (auto simp: valid_flags_def)
  qed
  ultimately show ?thesis by (simp add: select_entry_def)
qed

lemma flow_step_state:
  assumes "flow_step t n (TcpEvent f d a b) n'" and "fn_state n \<noteq> StateMax"
  shows "fn_state n' = sv_state (select_entry t (fn_state n) f d)"
  using assms(1)
  by (rule flow_stepE)
    (use assms(2) in \<open>auto simp: update_flow_state_machine_eq Let_def
      invalid_select_Exception\<close>)

lemma flow_step_ok:
  assumes "flow_step t n e n'" and "fn_state n \<noteq> StateMax"
  shows "fn_state n' \<noteq> StateMax \<and> phase (fn_state n) \<le> phase (fn_state n')
     \<and> fn_timeout n' \<in> set (timeout_values t)"
proof -
  obtain f d a b where e: "e = TcpEvent f d a b" by (cases e)
  have ok: "entry_ok t (fn_state n) (select_entry t (fn_state n) f d)"
    by (rule select_entry_ok [OF assms(2)])
  have "fn_timeout n' \<in> set (timeout_values t)"
    using assms(1) unfolding e
    by (rule flow_stepE)
      (use assms(2) ok in \<open>auto simp: update_flow_state_machine_eq Let_def
        entry_ok_def timeout_values_def\<close>)
  with ok flow_step_state [OF assms(1) [unfolded e] assms(2)] show ?thesis
    by (simp add: entry_ok_def)
qed

lemma flow_step_exists:
  assumes "fn_state n \<noteq> StateMax"
  shows "\<exists>n'. flow_step t n e n'"
proof -
  obtain f d a b where e: "e = TcpEvent f d a b" by (cases e)
  show ?thesis
  proof (cases "is_invalid f")
    case True
    then show ?thesis unfolding e by (blast intro: flow_step.step_invalid)
  next
    case False
    have "fn_state (n\<lparr>fn_src_packets := a, fn_dst_packets := b\<rparr>) \<noteq> StateMax"
      using assms by simp
    from update_flow_state_machine_eq [OF this] flow_step.step_valid [OF False]
    show ?thesis unfolding e by (metis (no_types, lifting) Let_def)
  qed
qed

subsection \<open>Invariants of a run\<close>

definition fin_flags :: "tcp_flags list" where
  "fin_flags = [FIN, FIN_ACK, FIN_PSH_ACK]"

text \<open>A packet with FIN was sent in direction \<open>d\<close>.\<close>

definition fin_from :: "packet_direction \<Rightarrow> tcp_event list \<Rightarrow> bool" where
  "fin_from d es \<longleftrightarrow> (\<exists>e \<in> set es. ev_dir e = d \<and> ev_flags e AND MASK \<in> set fin_flags)"

definition client_closing :: "flow_state \<Rightarrow> bool" where
  "client_closing s \<longleftrightarrow> s \<in> {ClosingTx1, ClosingTx2, ClosingRx2, Closed}"

definition server_closing :: "flow_state \<Rightarrow> bool" where
  "server_closing s \<longleftrightarrow> s \<in> {ClosingRx1, ClosingTx2, ClosingRx2, Closed}"

text \<open>The server table decides on every FIN of the server in these states.\<close>

lemma slave_fin_entry:
  "f \<in> set fin_flags \<Longrightarrow>
   s \<in> {Raw, Opening1, Opening2, Established, ClosingTx1, ClosingRx1, Syn1, SynAck1} \<Longrightarrow>
   new_slave t s f \<noteq> None"
  by (auto simp: slave_defs fin_flags_def set_entries_apply)

lemma master_client_closing:
  "new_master t s f = Some v \<Longrightarrow> client_closing (sv_state v) \<Longrightarrow>
   client_closing s \<or> (f \<in> set fin_flags \<and>
     s \<in> {Raw, Opening1, Opening2, Established, ClosingTx1, ClosingRx1, Syn1, SynAck1})"
  unfolding master_defs Let_def
  by (elim set_entries_SomeD [elim_format] disjE)
    (auto simp: client_closing_def fin_flags_def)

lemma master_server_closing:
  "new_master t s f = Some v \<Longrightarrow> server_closing (sv_state v) \<Longrightarrow> server_closing s"
  unfolding master_defs Let_def
  by (elim set_entries_SomeD [elim_format] disjE) (auto simp: server_closing_def)

lemma slave_client_closing:
  "new_slave t s f = Some v \<Longrightarrow> client_closing (sv_state v) \<Longrightarrow> client_closing s"
  unfolding slave_defs Let_def
  by (elim set_entries_SomeD [elim_format] disjE) (auto simp: client_closing_def)

lemma slave_server_closing:
  "new_slave t s f = Some v \<Longrightarrow> server_closing (sv_state v) \<Longrightarrow>
   server_closing s \<or> f \<in> set fin_flags"
  unfolding slave_defs Let_def
  by (elim set_entries_SomeD [elim_format] disjE)
    (auto simp: server_closing_def fin_flags_def)

lemma select_client_closing:
  assumes "client_closing (sv_state (select_entry t s f d))"
  shows "client_closing s \<or> (d = ClientToServer \<and> f AND MASK \<in> set fin_flags)"
proof (cases "d = ServerToClient \<and> new_slave t s (f AND MASK) \<noteq> None")
  case True
  with assms show ?thesis
    by (auto simp: select_entry_def dest: slave_client_closing)
next
  case False
  with assms obtain v where v: "new_master t s (f AND MASK) = Some v" "client_closing (sv_state v)"
    by (auto simp: select_entry_def client_closing_def split: option.splits if_splits)
  from master_client_closing [OF this] show ?thesis
  proof
    assume fin: "f AND MASK \<in> set fin_flags \<and> s \<in>
      {Raw, Opening1, Opening2, Established, ClosingTx1, ClosingRx1, Syn1, SynAck1}"
    then have "new_slave t s (f AND MASK) \<noteq> None"
      by (intro slave_fin_entry) simp_all
    with False have "d = ClientToServer" by (cases d) simp_all
    with fin show ?thesis by simp
  qed simp
qed

lemma select_server_closing:
  assumes "server_closing (sv_state (select_entry t s f d))"
  shows "server_closing s \<or> (d = ServerToClient \<and> f AND MASK \<in> set fin_flags)"
  using assms
  by (auto simp: select_entry_def server_closing_def split: option.splits if_splits
      dest!: slave_server_closing [unfolded server_closing_def]
        master_server_closing [unfolded server_closing_def])

lemma fin_from_snoc [simp]:
  "fin_from d (es @ [e]) \<longleftrightarrow>
   fin_from d es \<or> (ev_dir e = d \<and> ev_flags e AND MASK \<in> set fin_flags)"
  by (auto simp: fin_from_def)

definition flow_inv :: "flow_timeout \<Rightarrow> tcp_event list \<Rightarrow> flow_node \<Rightarrow> bool" where
  "flow_inv t es n \<longleftrightarrow> fn_state n \<noteq> StateMax
     \<and> (es \<noteq> [] \<longrightarrow> fn_timeout n \<in> set (timeout_values t))
     \<and> (client_closing (fn_state n) \<longrightarrow> fin_from ClientToServer es)
     \<and> (server_closing (fn_state n) \<longrightarrow> fin_from ServerToClient es)"

lemma flow_inv_step:
  assumes "flow_inv t es n" and "flow_step t n e n'"
  shows "flow_inv t (es @ [e]) n'"
proof -
  obtain f d a b where e: "e = TcpEvent f d a b" by (cases e)
  have s: "fn_state n \<noteq> StateMax" using assms(1) by (simp add: flow_inv_def)
  have n': "fn_state n' = sv_state (select_entry t (fn_state n) f d)"
    by (rule flow_step_state [OF assms(2) [unfolded e] s])
  show ?thesis
    using assms(1) flow_step_ok [OF assms(2) s]
      select_client_closing [of t "fn_state n" f d] select_server_closing [of t "fn_state n" f d]
    by (auto simp: flow_inv_def n' e)
qed

text \<open>A new flow node: state raw, as \<^verbatim>\<open>init_flow\<close> leaves it.\<close>

definition fresh_node :: "flow_node \<Rightarrow> bool" where
  "fresh_node n \<longleftrightarrow> fn_state n = Raw"

lemma fresh_node_inv: "fresh_node n \<Longrightarrow> flow_inv t [] n"
  by (simp add: flow_inv_def fresh_node_def client_closing_def server_closing_def)

interpretation flow: history_invariant "flow_step t" fresh_node "flow_inv t" for t
  by (unfold_locales; fact fresh_node_inv flow_inv_step)

subsection \<open>The properties of the machine\<close>

text \<open>
  C8: in every run from a fresh node no step panics (the node never holds the state
  \<^verbatim>\<open>Max\<close>, whose index is out of the table), a next step exists for every packet, and
  from the first packet on the node's timeout lies in the window
  \<open>[min, max]\<close> that \<^verbatim>\<open>FlowTimeout\<close> was built with.
\<close>

theorem flow_run_safe:
  assumes "run (flow_step (flow_timeout_from tt)) n0 es n" and "fresh_node n0"
  shows "fn_state n \<noteq> StateMax
     \<and> (\<exists>n'. flow_step (flow_timeout_from tt) n e n')
     \<and> (es \<noteq> [] \<longrightarrow> ft_min (flow_timeout_from tt) \<le> fn_timeout n
                    \<and> fn_timeout n \<le> ft_max (flow_timeout_from tt))"
  using flow.inv_run [OF assms] window_okD [OF flow_timeout_from_window] flow_step_exists
  by (auto simp: flow_inv_def)

text \<open>
  C2: a flow that reached \<^verbatim>\<open>Closed\<close>, or that is reported as \<^verbatim>\<open>Finish\<close>, has seen a
  packet with FIN from the client and one from the server; half closed states have seen
  the FIN of their side.  Client and server are meant as the flow has them when the packet
  comes: its direction, which a reversal of the flow changes for the packets after it.
\<close>

theorem closed_needs_both_fins:
  assumes "run (flow_step t) n0 es n" and "fresh_node n0"
    and "fl_is_tcp fl" and "update_close_type fl (fn_state n) = Finish"
  shows "fin_from ClientToServer es \<and> fin_from ServerToClient es"
proof -
  have "flow_inv t es n" by (rule flow.inv_run [OF assms(1,2)])
  moreover have "client_closing (fn_state n) \<and> server_closing (fn_state n)"
    using assms(3,4) unfolding client_closing_def server_closing_def
    by (cases "fn_state n") (auto split: if_splits)
  ultimately show ?thesis by (simp add: flow_inv_def)
qed

text \<open>
  The phase of a connection never goes back, whatever packets arrive in whatever
  direction: opening, established, half closed, closing, finished, exception.
\<close>

theorem phase_monotone:
  assumes "run (flow_step t) n es n'" and "fn_state n \<noteq> StateMax"
  shows "phase (fn_state n) \<le> phase (fn_state n')"
proof -
  from assms have "phase (fn_state n) \<le> phase (fn_state n') \<and> fn_state n' \<noteq> StateMax"
    by (induction rule: run.induct) (auto dest: flow_step_ok intro: order_trans)
  then show ?thesis by simp
qed

definition final_states :: "flow_state list" where
  "final_states =
     [Reset, ServerReset, ServerCandidateQueueLack, ClientL4PortReuse, EstablishReset, OpeningRst]"

lemma master_final_rows:
  assumes "f \<in> set valid_flags"
  shows
    "new_master t Reset f = Some (state_value_new (ft_exception t) Reset False)"
    "new_master t ServerReset f = Some (state_value_new (ft_exception t) ServerReset False)"
    "new_master t ServerCandidateQueueLack f =
       Some (state_value_new (ft_exception t) ServerCandidateQueueLack False)"
    "new_master t ClientL4PortReuse f =
       Some (state_value_new (ft_exception t) ClientL4PortReuse False)"
    "new_master t EstablishReset f =
       Some (state_value_new (ft_exception t) EstablishReset False)"
    "new_master t OpeningRst f = Some (state_value_new (ft_opening_rst t) OpeningRst False)"
  using assms unfolding master_defs Let_def
  by (simp_all add: set_entries_other set_entries_apply valid_flags_def) blast+

lemma master_final_entry:
  "s \<in> set final_states \<Longrightarrow> f \<in> set valid_flags \<Longrightarrow>
   \<exists>v. new_master t s f = Some v \<and> sv_state v = s"
  by (auto simp: final_states_def master_final_rows)

lemma slave_final_entry:
  "s \<in> set final_states \<Longrightarrow> new_slave t s f = Some v \<Longrightarrow> sv_state v = s"
  unfolding slave_defs Let_def
  by (elim set_entries_SomeD [elim_format] disjE) (auto simp: final_states_def)

lemma exception_entries: "new_master t Exception f = None" "new_slave t Exception f = None"
  unfolding master_defs slave_defs Let_def by (simp_all add: set_entries_other)

text \<open>
  C38: the reset states are final: a packet with valid flags leaves the flow in the state
  it was reset in, and a packet with invalid flags moves it to the exception state, which
  no packet leaves.
\<close>

theorem reset_states_final:
  assumes "flow_step t n (TcpEvent f d a b) n'"
  shows "(fn_state n \<in> set final_states \<longrightarrow>
            fn_state n' = (if is_invalid f then Exception else fn_state n))
       \<and> (fn_state n = Exception \<longrightarrow> fn_state n' = Exception)"
proof (intro conjI impI)
  assume s: "fn_state n \<in> set final_states"
  then have "fn_state n \<noteq> StateMax" by (auto simp: final_states_def)
  note n' = flow_step_state [OF assms this]
  show "fn_state n' = (if is_invalid f then Exception else fn_state n)"
  proof (cases "is_invalid f")
    case True
    then show ?thesis by (simp add: n' invalid_select_Exception)
  next
    case False
    then have "f AND MASK \<in> set valid_flags" by (simp add: is_invalid_iff)
    from master_final_entry [OF s this, of t] False show ?thesis
      by (auto simp: n' select_entry_def split: option.split dest: slave_final_entry [OF s])
  qed
next
  assume "fn_state n = Exception"
  with flow_step_state [OF assms] show "fn_state n' = Exception"
    by (simp add: select_entry_def exception_entries)
qed

definition establish :: "tcp_event list" where
  "establish =
     [TcpEvent SYN ClientToServer 1 0, TcpEvent SYN_ACK ServerToClient 1 1,
      TcpEvent ACK ClientToServer 2 1]"

definition tear_down :: "tcp_event list" where
  "tear_down =
     [TcpEvent FIN_ACK ClientToServer 3 1, TcpEvent FIN_ACK ServerToClient 3 2,
      TcpEvent ACK ClientToServer 4 2]"

lemma flow_step_valid_eq:
  assumes "\<not> is_invalid f" and "fn_state n \<noteq> StateMax"
  shows "flow_step t n (TcpEvent f d a b) n' \<longleftrightarrow>
     n' = n\<lparr>fn_src_packets := a, fn_dst_packets := b,
            fn_state := sv_state (select_entry t (fn_state n) f d),
            fn_timeout := (if a = 0 \<or> b = 0 then ft_single_direction t
                           else sv_timeout (select_entry t (fn_state n) f d))\<rparr>"
  using assms
  by (auto simp: update_flow_state_machine_eq Let_def elim!: flow_stepE
      intro!: flow_step.step_valid)

lemma path_entries:
  "new_master t Raw SYN = Some (state_value_new (ft_opening t) Opening1 False)"
  "new_slave t Opening1 SYN_ACK = Some (state_value_new (ft_opening t) Opening2 False)"
  "new_master t Opening2 ACK = Some (state_value_new (ft_established t) Established False)"
  "new_master t Established FIN_ACK = Some (state_value_new (ft_closing t) ClosingTx1 False)"
  "new_slave t ClosingTx1 FIN_ACK = Some (state_value_new (ft_closing t) ClosingTx2 False)"
  "new_master t ClosingTx2 ACK = Some (state_value_new (ft_closed_fin t) Closed False)"
  unfolding master_defs slave_defs Let_def
  by (simp_all add: set_entries_other set_entries_apply flag_simps)

lemma path_flags:
  "SYN AND MASK = SYN" "SYN_ACK AND MASK = SYN_ACK" "ACK AND MASK = ACK"
  "FIN_ACK AND MASK = FIN_ACK"
  "\<not> is_invalid SYN" "\<not> is_invalid SYN_ACK" "\<not> is_invalid ACK" "\<not> is_invalid FIN_ACK"
  by (simp_all add: is_invalid_def Let_def flag_simps)

lemmas path_simps = flow_step_valid_eq select_entry_def path_entries path_flags run_Cons_iff

text \<open>
  The textbook connection.  SYN, SYN/ACK, ACK establish a flow with the established
  timeout; FIN/ACK from the client, FIN/ACK from the server and the client's last ACK
  close it with the short timeout of a closed flow.
\<close>

theorem textbook_connection:
  assumes "fresh_node n0"
  shows "(run (flow_step t) n0 establish n \<longleftrightarrow>
            n = n0\<lparr>fn_src_packets := 2, fn_dst_packets := 1,
                   fn_state := Established, fn_timeout := ft_established t\<rparr>)
       \<and> (run (flow_step t) n0 (establish @ tear_down) n \<longleftrightarrow>
            n = n0\<lparr>fn_src_packets := 4, fn_dst_packets := 2,
                   fn_state := Closed, fn_timeout := ft_closed_fin t\<rparr>)"
  using assms
  by (simp add: fresh_node_def establish_def tear_down_def path_simps)

text \<open>
  No close type is blamed on both sides, and a flow that ended by exchanging FIN
  packets or by a keep-alive check is blamed on neither.
\<close>

theorem close_type_blame:
  "\<not> (is_client_error (update_close_type fl s) \<and> is_server_error (update_close_type fl s))
   \<and> (s \<in> {ClosingTx2, ClosingRx2, Closed} \<or> is_heartbeat fl \<and> s \<in> {Reset, EstablishReset, OpeningRst}
        \<longrightarrow> \<not> is_client_error (update_close_type fl s) \<and> \<not> is_server_error (update_close_type fl s))"
  by (cases s) (auto simp: is_client_error_def is_server_error_def)

subsection \<open>Witnesses\<close>

definition node0 :: flow_node where
  "node0 = \<lparr>fn_state = Raw, fn_timeout = ts_zero, fn_src_packets = 0, fn_dst_packets = 0\<rparr>"

lemma node0_fresh: "fresh_node node0"
  by (simp add: node0_def fresh_node_def)

lemma node0_runs:
  "run (flow_step t) node0 establish (node0\<lparr>fn_src_packets := 2, fn_dst_packets := 1,
      fn_state := Established, fn_timeout := ft_established t\<rparr>)"
  "run (flow_step t) node0 (establish @ tear_down)
     (node0\<lparr>fn_src_packets := 4, fn_dst_packets := 2,
        fn_state := Closed, fn_timeout := ft_closed_fin t\<rparr>)"
  by (simp_all add: node0_def establish_def tear_down_def path_simps)

theorem flow_run_safe_witness:
  "ft_min (flow_timeout_from default_tcp_timeout) \<le> ft_established (flow_timeout_from default_tcp_timeout)
   \<and> ft_established (flow_timeout_from default_tcp_timeout) \<le> ft_max (flow_timeout_from default_tcp_timeout)"
  using flow_run_safe [OF node0_runs(1) node0_fresh, where tt = default_tcp_timeout]
  by (simp add: establish_def)

theorem closed_needs_both_fins_witness:
  "fin_from ClientToServer (establish @ tear_down) \<and> fin_from ServerToClient (establish @ tear_down)"
  by (rule closed_needs_both_fins [OF node0_runs(2) node0_fresh,
        of "\<lparr>fl_is_tcp = True, fl_src_flags = 0, fl_dst_flags = 0, fl_dst_packets = 2\<rparr>"])
    simp_all

theorem phase_monotone_witness:
  "phase Raw \<le> phase Closed"
  using phase_monotone [OF node0_runs(2)] by (simp add: node0_def)

theorem reset_states_final_witness:
  "\<exists>n'. flow_step (flow_timeout_from default_tcp_timeout) (node0\<lparr>fn_state := Reset\<rparr>)
         (TcpEvent ACK ClientToServer 1 1) n' \<and> fn_state n' = Reset"
proof -
  obtain n' where n': "flow_step (flow_timeout_from default_tcp_timeout)
      (node0\<lparr>fn_state := Reset\<rparr>) (TcpEvent ACK ClientToServer 1 1) n'"
    using flow_step_exists [of "node0\<lparr>fn_state := Reset\<rparr>"] by auto
  from n' reset_states_final [OF n'] show ?thesis
    by (auto simp: final_states_def path_flags)
qed

theorem textbook_connection_witness:
  "fresh_node node0 \<and> (\<exists>n. run (flow_step (flow_timeout_from default_tcp_timeout)) node0 establish n)"
  using textbook_connection [OF node0_fresh] node0_fresh by blast

theorem close_type_blame_witness:
  "\<not> is_server_error (update_close_type
     \<lparr>fl_is_tcp = True, fl_src_flags = 0, fl_dst_flags = 0, fl_dst_packets = 2\<rparr> Closed)"
  using close_type_blame [of _ Closed] by blast

end
