(* ===== verification/Meta_Packet.thy ===== *)
theory Meta_Packet
  imports Timestamps Tcp_Flags
begin

section \<open>Packets as the flow generator sees them\<close>

text \<open>
  The parts of \<^verbatim>\<open>MetaPacket\<close> (\<^verbatim>\<open>agent/src/common/meta_packet.rs\<close>) and of its lookup
  key that the performance counters read, and the predicates on TCP packets.  A predicate
  on a packet without a TCP header is false, as in the source.
\<close>

record tcp_header =
  th_seq :: u32
  th_ack :: u32
  th_win_size :: u16
  th_flags :: tcp_flags
  th_data_offset :: u8
  th_win_scale :: u8

record icmp_data =
  icmp_type :: u8
  echo_id_seq :: u32

datatype protocol_data = TcpHeader tcp_header | IcmpData icmp_data

record meta_packet =
  mp_timestamp :: timestamp
  mp_direction :: packet_direction
  mp_is_ipv4 :: bool
  mp_payload_len :: u16
  mp_protocol_data :: protocol_data

definition is_syn :: "meta_packet \<Rightarrow> bool" where
  "is_syn p = (case mp_protocol_data p of
     TcpHeader h \<Rightarrow> th_flags h AND MASK = SYN
   | _ \<Rightarrow> False)"

definition is_syn_ack :: "meta_packet \<Rightarrow> bool" where
  "is_syn_ack p = (case mp_protocol_data p of
     TcpHeader h \<Rightarrow> th_flags h AND MASK = SYN_ACK \<and> mp_payload_len p = 0
   | _ \<Rightarrow> False)"

definition is_ack :: "meta_packet \<Rightarrow> bool" where
  "is_ack p = (case mp_protocol_data p of
     TcpHeader h \<Rightarrow> th_flags h AND MASK = ACK \<and> mp_payload_len p = 0
   | _ \<Rightarrow> False)"

definition is_psh_ack :: "meta_packet \<Rightarrow> bool" where
  "is_psh_ack p = (case mp_protocol_data p of
     TcpHeader h \<Rightarrow> th_flags h AND MASK = PSH_ACK \<and> 1 < mp_payload_len p
   | _ \<Rightarrow> False)"

definition has_valid_payload :: "meta_packet \<Rightarrow> bool" where
  "has_valid_payload p \<longleftrightarrow> 1 < mp_payload_len p"

lemmas packet_predicates [packet_defs] =
  is_syn_def is_syn_ack_def is_ack_def is_psh_ack_def has_valid_payload_def

text \<open>The predicates exclude each other.\<close>

lemma is_syn_excl: "is_syn p \<Longrightarrow> \<not> is_syn_ack p \<and> \<not> is_ack p \<and> \<not> is_psh_ack p"
  by (auto simp: packet_defs flag_simps split: protocol_data.splits)

lemma is_syn_ack_excl: "is_syn_ack p \<Longrightarrow> \<not> is_syn p \<and> \<not> is_ack p \<and> \<not> is_psh_ack p"
  by (auto simp: packet_defs flag_simps split: protocol_data.splits)

text \<open>The errors the performance counters return.\<close>

datatype perf_error = InvalidPacketTimestamp | RetransPacket | ZeroPayloadLen | InvalidIpProtocol

end
