(* ===== verification/Seq_List.thy ===== *)
theory Seq_List
  imports Meta_Packet
begin

section \<open>The list of sequence segments of one side of a TCP connection\<close>

text \<open>
  \<^verbatim>\<open>SessionPeer\<close> of \<^verbatim>\<open>agent/src/flow_generator/perf/tcp.rs\<close>, the part that recognises
  retransmissions: an array of 16 segments in descending order of their sequence number,
  of which the first \<^verbatim>\<open>seq_list_len\<close> are in use, and the operations on it.  Panics (a
  failed \<^verbatim>\<open>assert!\<close>, an index or a slice out of range, \<^verbatim>\<open>unreachable!\<close>) are \<^const>\<open>None\<close>.

  \<^verbatim>\<open>search\<close> returns mutable references into the array; the model returns the indices
  they point to.  \<^verbatim>\<open>seq_list_len\<close> is an \<^verbatim>\<open>isize\<close> that starts at zero, is increased by
  an insertion and decreased after the check that at least two segments are in use, so a
  natural number represents it.
\<close>

record seq_segment =
  seg_seq :: u32
  seg_len :: u32

definition default_segment :: seq_segment where
  "default_segment = \<lparr>seg_seq = 0, seg_len = 0\<rparr>"

definition SEQ_LIST_MAX_LEN :: nat where
  "SEQ_LIST_MAX_LEN = 16"

record seq_state =
  seq_list :: "seq_segment list"
  seq_list_len :: nat

datatype packet_seq_type =
  SeqError | SeqRetrans | SeqNotCare | SeqMerge | SeqDiscontinuous | SeqContinuous
  | SeqBothContinuous

definition SEQ_NUMBER_LOW_THRESHOLD :: u32 where
  "SEQ_NUMBER_LOW_THRESHOLD = 0x40000000"

definition SEQ_NUMBER_HIGH_THRESHOLD :: u32 where
  "SEQ_NUMBER_HIGH_THRESHOLD = 0xc0000000"

definition DISCONTINUOUS :: u8 where "DISCONTINUOUS = 0x00"
definition LT_CONTINUOUS :: u8 where "LT_CONTINUOUS = 0x01"
definition GTE_CONTINUOUS :: u8 where "GTE_CONTINUOUS = 0x10"
definition BOTH_CONTINUOUS :: u8 where "BOTH_CONTINUOUS = LT_CONTINUOUS OR GTE_CONTINUOUS"

lemmas continuous_defs =
  DISCONTINUOUS_def LT_CONTINUOUS_def GTE_CONTINUOUS_def BOTH_CONTINUOUS_def

subsection \<open>The operations\<close>

text \<open>A rotation of the slice \<open>[a..b]\<close>; the slice panics when its bounds are wrong.\<close>

definition map_slice :: "('a list \<Rightarrow> 'a list) \<Rightarrow> nat \<Rightarrow> nat \<Rightarrow> 'a list \<Rightarrow> 'a list may_panic" where
  "map_slice f a b xs = (if a \<le> b \<and> b \<le> length xs
     then Some (take a xs @ f (take (b - a) (drop a xs)) @ drop b xs) else None)"

definition merge_seq_list :: "nat \<Rightarrow> 'a seq_state_scheme \<Rightarrow> 'a seq_state_scheme may_panic" where
  "merge_seq_list index p = do {
     assert_that (index + 1 < seq_list_len p);
     assert_that (index + 1 < length (seq_list p));
     let gte = seq_list p ! index;
     let lt = seq_list p ! (index + 1);
     let gte = gte\<lparr>seg_len := seg_seq gte - seg_seq lt + seg_len gte\<rparr>;
     let gte = gte\<lparr>seg_seq := seg_seq lt\<rparr>;
     let xs = (seq_list p)[index := gte, index + 1 := default_segment];
     xs \<leftarrow> (if int index < int (seq_list_len p) - 2
            then map_slice rotate_left1 (index + 1) (seq_list_len p) xs else Some xs);
     Some (p\<lparr>seq_list := xs, seq_list_len := seq_list_len p - 1\<rparr>)
   }"

definition insert_seq_segment ::
  "nat \<Rightarrow> seq_segment \<Rightarrow> 'a seq_state_scheme \<Rightarrow> 'a seq_state_scheme may_panic" where
  "insert_seq_segment index seg p = do {
     xs \<leftarrow> (if index < seq_list_len p
            then map_slice rotate_right1 index (length (seq_list p)) (seq_list p)
            else Some (seq_list p));
     assert_that (index < length xs);
     Some (p\<lparr>seq_list := xs[index := seg], seq_list_len := seq_list_len p + 1\<rparr>)
   }"

definition check_seq_segment ::
  "seq_segment \<Rightarrow> 'a seq_state_scheme \<Rightarrow> (bool \<times> 'a seq_state_scheme) may_panic" where
  "check_seq_segment seg p =
     (if seg_seq seg + seg_len seg < seg_seq seg then Some (False, p)
      else if seq_list_len p = 0 then do {
        p \<leftarrow> insert_seq_segment 0 seg p;
        Some (False, p) }
      else do {
        assert_that (0 < length (seq_list p));
        let last_end = seg_seq (seq_list p ! 0) + seg_len (seq_list p ! 0);
        if seg_seq seg < SEQ_NUMBER_LOW_THRESHOLD \<and> last_end > SEQ_NUMBER_HIGH_THRESHOLD
        then do {
          let p = p\<lparr>seq_list := replicate SEQ_LIST_MAX_LEN default_segment, seq_list_len := 0\<rparr>;
          p \<leftarrow> insert_seq_segment 0 seg p;
          Some (False, p) }
        else if seg_seq seg > SEQ_NUMBER_HIGH_THRESHOLD \<and> last_end < SEQ_NUMBER_LOW_THRESHOLD
        then Some (False, p)
        else Some (True, p) })"

text \<open>The loop of \<^verbatim>\<open>search\<close>: the first segment that starts below the new one.\<close>

fun search_index :: "u32 \<Rightarrow> seq_segment list \<Rightarrow> nat" where
  "search_index q [] = 0"
| "search_index q (s # ss) = (if q > seg_seq s then 0 else Suc (search_index q ss))"

definition search ::
  "seq_segment \<Rightarrow> 'a seq_state_scheme \<Rightarrow> (nat option \<times> nat option \<times> nat) may_panic" where
  "search seg p =
     (if seq_list_len p = 0 then Some (None, None, 0)
      else do {
        assert_that (seq_list_len p \<le> length (seq_list p));
        let index = search_index (seg_seq seg) (take (seq_list_len p) (seq_list p));
        Some (if index = 0 then (Some index, None, index)
              else if index = seq_list_len p then (None, Some (index - 1), index)
              else (Some index, Some (index - 1), index)) })"

definition check_and_update_continuous_segment ::
  "nat option \<Rightarrow> nat option \<Rightarrow> seq_segment \<Rightarrow> seq_segment list \<Rightarrow> u8 \<times> seq_segment list" where
  "check_and_update_continuous_segment lt gte seg xs =
     (let flag = DISCONTINUOUS;
          (flag, xs) = (case lt of
             Some i \<Rightarrow>
               if seg_seq (xs ! i) + seg_len (xs ! i) = seg_seq seg
               then (flag OR LT_CONTINUOUS,
                     xs[i := (xs ! i)\<lparr>seg_len := seg_len (xs ! i) + seg_len seg\<rparr>])
               else (flag, xs)
           | None \<Rightarrow> (flag, xs));
          (flag, xs) = (case gte of
             Some i \<Rightarrow>
               if seg_seq seg + seg_len seg = seg_seq (xs ! i)
               then (flag OR GTE_CONTINUOUS,
                     xs[i := (xs ! i)\<lparr>seg_seq := seg_seq seg,
                                      seg_len := seg_len (xs ! i) + seg_len seg\<rparr>])
               else (flag, xs)
           | None \<Rightarrow> (flag, xs))
      in (flag, xs))"

definition check_retrans :: "seq_segment \<Rightarrow> seq_segment \<Rightarrow> bool" where
  "check_retrans base seg \<longleftrightarrow>
     seg_seq seg \<ge> seg_seq base \<and> seg_seq base + seg_len base > seg_seq seg"

definition is_retrans_segment ::
  "nat option \<Rightarrow> nat option \<Rightarrow> seq_segment \<Rightarrow> seq_segment list \<Rightarrow> bool may_panic" where
  "is_retrans_segment lt gte seg xs =
     (case lt of
        Some i \<Rightarrow> Some (check_retrans (xs ! i) seg)
      | None \<Rightarrow> (case gte of
          Some i \<Rightarrow> Some (check_retrans (xs ! i) seg)
        | None \<Rightarrow> None))"

definition is_error_segment ::
  "nat option \<Rightarrow> nat option \<Rightarrow> seq_segment \<Rightarrow> seq_segment list \<Rightarrow> bool" where
  "is_error_segment lt gte seg xs =
     (if (case gte of
            Some i \<Rightarrow> seg_seq seg < seg_seq (xs ! i) \<and> seg_seq seg + seg_len seg > seg_seq (xs ! i)
                     \<or> seg_seq seg + seg_len seg > seg_seq (xs ! i) + seg_len (xs ! i)
          | None \<Rightarrow> False) then True
      else if (case lt of
            Some i \<Rightarrow> seg_seq (xs ! i) + seg_len (xs ! i) > seg_seq seg
          | None \<Rightarrow> False) then True
      else False)"

text \<open>The \<^verbatim>\<open>match\<close> at the end of \<^verbatim>\<open>assert_seq_number\<close>, on the flag the update returned.\<close>

definition match_continuous_flags ::
  "u8 \<Rightarrow> nat \<Rightarrow> seq_segment \<Rightarrow> 'a seq_state_scheme \<Rightarrow>
    (packet_seq_type \<times> 'a seq_state_scheme) may_panic" where
  "match_continuous_flags flag index seg p =
     (if flag = DISCONTINUOUS then do {
        p \<leftarrow> insert_seq_segment index seg p;
        if seq_list_len p \<ge> SEQ_LIST_MAX_LEN then do {
          p \<leftarrow> merge_seq_list (SEQ_LIST_MAX_LEN - 2) p;
          Some (SeqMerge, p) }
        else Some (SeqDiscontinuous, p) }
      else if flag = BOTH_CONTINUOUS then do {
        assert_that (1 \<le> index);
        p \<leftarrow> merge_seq_list (index - 1) p;
        Some (SeqBothContinuous, p) }
      else Some (SeqContinuous, p))"

definition assert_seq_number ::
  "tcp_header \<Rightarrow> u16 \<Rightarrow> 'a seq_state_scheme \<Rightarrow> (packet_seq_type \<times> 'a seq_state_scheme) may_panic" where
  "assert_seq_number header payload_len p =
     (if payload_len = 0 \<or> th_seq header = 0 then Some (SeqNotCare, p)
      else do {
        let seg = \<lparr>seg_seq = th_seq header, seg_len = ucast payload_len\<rparr>;
        (ok, p) \<leftarrow> check_seq_segment seg p;
        if \<not> ok then Some (SeqNotCare, p)
        else do {
          (lt, gte, index) \<leftarrow> search seg p;
          retrans \<leftarrow> is_retrans_segment lt gte seg (seq_list p);
          if retrans then Some (SeqRetrans, p)
          else if is_error_segment lt gte seg (seq_list p) then Some (SeqError, p)
          else
            let (flag, xs) = check_and_update_continuous_segment lt gte seg (seq_list p)
            in match_continuous_flags flag index seg (p\<lparr>seq_list := xs\<rparr>) }})"

subsection \<open>The list as a sequence of segments\<close>

text \<open>
  The segments in use.  Insertion and merging, written in the source with rotations of
  slices, become list operations on them.
\<close>

definition segs :: "'a seq_state_scheme \<Rightarrow> seq_segment list" where
  "segs p = take (seq_list_len p) (seq_list p)"

definition merge_segments :: "seq_segment \<Rightarrow> seq_segment \<Rightarrow> seq_segment" where
  "merge_segments gte lt =
     \<lparr>seg_seq = seg_seq lt, seg_len = seg_seq gte - seg_seq lt + seg_len gte\<rparr>"

lemma segs_split:
  assumes "seq_list p = ss @ rest" "seq_list_len p = length ss"
  shows "segs p = ss"
  using assms by (simp add: segs_def)

lemma insert_seq_segment_split:
  assumes "seq_list p = as @ bs @ rest" "seq_list_len p = length as + length bs" "rest \<noteq> []"
  shows "\<exists>rest'. insert_seq_segment (length as) seg p =
    Some (p\<lparr>seq_list := as @ seg # bs @ rest', seq_list_len := seq_list_len p + 1\<rparr>)
    \<and> Suc (length rest') = length rest"
proof (cases bs)
  case Nil
  with assms show ?thesis
    by (intro exI [of _ "tl rest"]) (cases rest; simp add: insert_seq_segment_def)
next
  case (Cons b bs')
  obtain r x where r: "rest = r @ [x]" using assms(3) by (cases rest rule: rev_cases) auto
  have rot: "rotate_right1 (b # bs' @ r @ [x]) = x # b # bs' @ r"
    using rotate_right1_snoc [of "b # bs' @ r" x] by simp
  from assms Cons r show ?thesis
    by (intro exI [of _ r]) (simp add: insert_seq_segment_def map_slice_def rot)
qed

lemma merge_seq_list_split:
  assumes "seq_list p = us @ g # l # vs @ rest" "seq_list_len p = length us + 2 + length vs"
  shows "merge_seq_list (length us) p =
    Some (p\<lparr>seq_list := us @ merge_segments g l # vs @ default_segment # rest,
            seq_list_len := seq_list_len p - 1\<rparr>)"
proof (cases vs)
  case Nil
  with assms show ?thesis
    by (simp add: merge_seq_list_def merge_segments_def nth_append list_update_append Let_def)
next
  case (Cons v vs')
  have "map_slice rotate_left1 (length us + 1) (length us + 2 + length vs)
     (us @ m # d # vs @ rest) = Some (us @ m # vs @ d # rest)" for m d
    by (simp add: map_slice_def)
  with assms Cons show ?thesis
    by (simp add: merge_seq_list_def merge_segments_def nth_append list_update_append Let_def)
qed

lemma search_index_takeWhile:
  "search_index q ss = length (takeWhile (\<lambda>s. q \<le> seg_seq s) ss)"
  by (induction ss) (auto simp: not_less)


subsection \<open>Specification: tracking on the list of segments\<close>

text \<open>
  What the tracker does, without the array: \<open>segs_above\<close> and \<open>segs_below\<close> split the
  segments at the new one, \<open>place_segment\<close> joins it to its neighbours, inserts it, or
  inserts it and merges the two lowest segments when the list is full.
\<close>

definition segs_above :: "seq_segment \<Rightarrow> seq_segment list \<Rightarrow> seq_segment list" where
  "segs_above seg ss = takeWhile (\<lambda>s. seg_seq seg \<le> seg_seq s) ss"

definition segs_below :: "seq_segment \<Rightarrow> seq_segment list \<Rightarrow> seq_segment list" where
  "segs_below seg ss = dropWhile (\<lambda>s. seg_seq seg \<le> seg_seq s) ss"

definition seg_limit :: "seq_segment \<Rightarrow> u32" where
  "seg_limit s = seg_seq s + seg_len s"

definition admit_segment :: "seq_segment \<Rightarrow> seq_segment list \<Rightarrow> bool \<times> seq_segment list" where
  "admit_segment seg ss =
     (if seg_limit seg < seg_seq seg then (False, ss)
      else case ss of
        [] \<Rightarrow> (False, [seg])
      | s # _ \<Rightarrow>
          if seg_seq seg < SEQ_NUMBER_LOW_THRESHOLD \<and> seg_limit s > SEQ_NUMBER_HIGH_THRESHOLD
          then (False, [seg])
          else if seg_seq seg > SEQ_NUMBER_HIGH_THRESHOLD \<and> seg_limit s < SEQ_NUMBER_LOW_THRESHOLD
          then (False, ss)
          else (True, ss))"

definition merge_lowest :: "seq_segment list \<Rightarrow> seq_segment list" where
  "merge_lowest ss =
     butlast (butlast ss) @ [merge_segments (last (butlast ss)) (last ss)]"

definition place_segment ::
  "seq_segment \<Rightarrow> seq_segment list \<Rightarrow> seq_segment list \<Rightarrow> packet_seq_type \<times> seq_segment list" where
  "place_segment seg as bs =
     (let join_lt = (bs \<noteq> [] \<and> seg_limit (hd bs) = seg_seq seg);
          join_gte = (as \<noteq> [] \<and> seg_limit seg = seg_seq (last as))
      in if join_lt \<and> join_gte then
           (SeqBothContinuous, butlast as @ \<lparr>seg_seq = seg_seq (hd bs),
              seg_len = seg_len (hd bs) + seg_len seg + seg_len (last as)\<rparr> # tl bs)
         else if join_lt then
           (SeqContinuous, as @ \<lparr>seg_seq = seg_seq (hd bs),
              seg_len = seg_len (hd bs) + seg_len seg\<rparr> # tl bs)
         else if join_gte then
           (SeqContinuous, butlast as @ \<lparr>seg_seq = seg_seq seg,
              seg_len = seg_len (last as) + seg_len seg\<rparr> # bs)
         else if length as + length bs + 1 < SEQ_LIST_MAX_LEN then
           (SeqDiscontinuous, as @ seg # bs)
         else (SeqMerge, merge_lowest (as @ seg # bs)))"

definition seg_retrans :: "seq_segment \<Rightarrow> seq_segment list \<Rightarrow> seq_segment list \<Rightarrow> bool" where
  "seg_retrans seg as bs \<longleftrightarrow>
     (if bs \<noteq> [] then seg_seq seg < seg_limit (hd bs)
      else seg_seq seg = seg_seq (last as) \<and> seg_seq seg < seg_limit (last as))"

definition seg_error :: "seq_segment \<Rightarrow> seq_segment list \<Rightarrow> bool" where
  "seg_error seg as \<longleftrightarrow> as \<noteq> [] \<and>
     (seg_seq seg < seg_seq (last as) \<and> seg_limit seg > seg_seq (last as)
      \<or> seg_limit seg > seg_limit (last as))"

definition track :: "seq_segment \<Rightarrow> seq_segment list \<Rightarrow> packet_seq_type \<times> seq_segment list" where
  "track seg ss =
     (let (ok, ss') = admit_segment seg ss;
          as = segs_above seg ss'; bs = segs_below seg ss'
      in if \<not> ok then (SeqNotCare, ss')
         else if seg_retrans seg as bs then (SeqRetrans, ss')
         else if seg_error seg as then (SeqError, ss')
         else place_segment seg as bs)"

subsection \<open>The array implements the specification\<close>

definition seq_shape :: "'a seq_state_scheme \<Rightarrow> bool" where
  "seq_shape p \<longleftrightarrow> length (seq_list p) = SEQ_LIST_MAX_LEN \<and> seq_list_len p < SEQ_LIST_MAX_LEN"

lemma seq_shape_split:
  assumes "seq_shape p"
  obtains rest where "seq_list p = segs p @ rest" "rest \<noteq> []" "seq_list_len p = length (segs p)"
    "length (segs p) + length rest = 16"
proof -
  have "length (seq_list p) = 16" "seq_list_len p < 16"
    using assms by (simp_all add: seq_shape_def SEQ_LIST_MAX_LEN_def)
  then show thesis
    by (intro that [of "drop (seq_list_len p) (seq_list p)"]) (simp_all add: segs_def)
qed

lemma check_seq_segment_refines:
  assumes "seq_shape p"
  shows "\<exists>p'. check_seq_segment seg p = Some (fst (admit_segment seg (segs p)), p')
    \<and> segs p' = snd (admit_segment seg (segs p)) \<and> seq_shape p'
    \<and> (fst (admit_segment seg (segs p)) \<longrightarrow> p' = p)"
proof -
  obtain rest where rest: "seq_list p = segs p @ rest" "rest \<noteq> []"
    "seq_list_len p = length (segs p)" "length (segs p) + length rest = 16"
    using assms by (rule seq_shape_split)
  have ins: "\<exists>q'. insert_seq_segment 0 seg q = Some q' \<and> segs q' = [seg] \<and> seq_shape q'"
    if "seq_shape q" "segs q = []" for q :: "'a seq_state_scheme"
  proof -
    have "seq_list q \<noteq> []" "seq_list_len q = 0" "length (seq_list q) = 16"
      using that by (auto simp: segs_def seq_shape_def SEQ_LIST_MAX_LEN_def)
    with insert_seq_segment_split [of q "[]" "[]" "seq_list q" seg] show ?thesis
      by (auto simp: segs_def seq_shape_def SEQ_LIST_MAX_LEN_def)
  qed
  show ?thesis
  proof (cases "segs p")
    case Nil
    with ins [of p] assms rest(3) show ?thesis
      by (auto simp: check_seq_segment_def admit_segment_def seg_limit_def)
  next
    case (Cons s ss)
    let ?q = "p\<lparr>seq_list := replicate SEQ_LIST_MAX_LEN default_segment, seq_list_len := 0\<rparr>"
    have "seq_shape ?q" "segs ?q = []" by (simp_all add: seq_shape_def segs_def SEQ_LIST_MAX_LEN_def)
    from ins [OF this] rest Cons assms show ?thesis
      by (auto simp: check_seq_segment_def admit_segment_def seg_limit_def Let_def)
  qed
qed


lemma search_split:
  assumes "seq_list p = as @ bs @ rest" "seq_list_len p = length as + length bs"
    and "as = segs_above seg (as @ bs)" "as @ bs \<noteq> []"
  shows "search seg p = Some (if bs \<noteq> [] then Some (length as) else None,
           if as \<noteq> [] then Some (length as - 1) else None, length as)"
proof -
  have "search_index (seg_seq seg) (as @ bs) = length as"
    using assms(3) by (simp add: search_index_takeWhile segs_above_def)
  with assms show ?thesis by (auto simp: search_def Let_def)
qed

lemma above_below: "segs_above seg ss @ segs_below seg ss = ss"
  by (simp add: segs_above_def segs_below_def)

lemma last_above: "segs_above seg ss \<noteq> [] \<Longrightarrow> seg_seq seg \<le> seg_seq (last (segs_above seg ss))"
  unfolding segs_above_def by (metis last_in_set set_takeWhileD)

lemma hd_below: "segs_below seg ss \<noteq> [] \<Longrightarrow> seg_seq (hd (segs_below seg ss)) < seg_seq seg"
  unfolding segs_below_def using hd_dropWhile [of "\<lambda>s. seg_seq seg \<le> seg_seq s" ss]
  by (simp add: not_le)

lemma is_retrans_segment_refines:
  assumes "seq_list p = as @ bs @ rest" "as @ bs \<noteq> []"
    and "as \<noteq> [] \<Longrightarrow> seg_seq seg \<le> seg_seq (last as)"
    and "bs \<noteq> [] \<Longrightarrow> seg_seq (hd bs) < seg_seq seg"
  shows "is_retrans_segment (if bs \<noteq> [] then Some (length as) else None)
     (if as \<noteq> [] then Some (length as - 1) else None) seg (seq_list p) = Some (seg_retrans seg as bs)"
proof (cases bs)
  case Nil
  then obtain as' g where "as = as' @ [g]" using assms(2) by (cases as rule: rev_cases) auto
  with Nil assms show ?thesis
    by (auto simp: is_retrans_segment_def seg_retrans_def check_retrans_def nth_append seg_limit_def)
next
  case (Cons b bs')
  with assms show ?thesis
    by (auto simp: is_retrans_segment_def seg_retrans_def check_retrans_def nth_append seg_limit_def)
qed

lemma is_error_segment_refines:
  assumes "seq_list p = as @ bs @ rest" "\<not> seg_retrans seg as bs"
  shows "is_error_segment (if bs \<noteq> [] then Some (length as) else None)
     (if as \<noteq> [] then Some (length as - 1) else None) seg (seq_list p) = seg_error seg as"
  using assms
  by (cases bs; cases as rule: rev_cases)
    (auto simp: is_error_segment_def seg_retrans_def seg_error_def nth_append seg_limit_def)


lemma check_and_update_split:
  assumes "xs = as @ bs @ rest"
  shows "check_and_update_continuous_segment (if bs \<noteq> [] then Some (length as) else None)
     (if as \<noteq> [] then Some (length as - 1) else None) seg xs =
     ((if bs \<noteq> [] \<and> seg_limit (hd bs) = seg_seq seg then LT_CONTINUOUS else 0)
       OR (if as \<noteq> [] \<and> seg_limit seg = seg_seq (last as) then GTE_CONTINUOUS else 0),
      (if as \<noteq> [] \<and> seg_limit seg = seg_seq (last as)
       then butlast as @ [\<lparr>seg_seq = seg_seq seg, seg_len = seg_len (last as) + seg_len seg\<rparr>]
       else as) @
      (if bs \<noteq> [] \<and> seg_limit (hd bs) = seg_seq seg
       then \<lparr>seg_seq = seg_seq (hd bs), seg_len = seg_len (hd bs) + seg_len seg\<rparr> # tl bs
       else bs) @ rest)"
  using assms
  by (cases bs; cases as rule: rev_cases)
    (simp_all add: check_and_update_continuous_segment_def seg_limit_def nth_append
      list_update_append DISCONTINUOUS_def Let_def)

lemma place_both:
  assumes "seq_shape p" "seq_list_len p = length as + length bs + 2"
    and "seq_list p = as @ \<lparr>seg_seq = seg_seq seg, seg_len = seg_len g + seg_len seg\<rparr>
      # \<lparr>seg_seq = seg_seq l, seg_len = seg_len l + seg_len seg\<rparr> # bs @ rest"
    and "seg_limit l = seg_seq seg"
  shows "\<exists>p'. match_continuous_flags BOTH_CONTINUOUS (Suc (length as)) seg p = Some (SeqBothContinuous, p')
    \<and> segs p' = as @ \<lparr>seg_seq = seg_seq l, seg_len = seg_len l + seg_len seg + seg_len g\<rparr> # bs
    \<and> seq_shape p'"
proof -
  have "seg_seq seg = seg_seq l + seg_len l" using assms(4) by (simp add: seg_limit_def)
  then have "merge_segments \<lparr>seg_seq = seg_seq seg, seg_len = seg_len g + seg_len seg\<rparr>
    \<lparr>seg_seq = seg_seq l, seg_len = seg_len l + seg_len seg\<rparr>
    = \<lparr>seg_seq = seg_seq l, seg_len = seg_len l + seg_len seg + seg_len g\<rparr>"
    by (simp add: merge_segments_def algebra_simps)
  with assms merge_seq_list_split [OF assms(3)] show ?thesis
    by (simp add: match_continuous_flags_def continuous_defs segs_def seq_shape_def SEQ_LIST_MAX_LEN_def)
qed

lemma place_new:
  assumes "seq_shape p" "seq_list p = as @ bs @ rest" "seq_list_len p = length as + length bs"
    and "as @ bs \<noteq> []"
  shows "\<exists>p'. match_continuous_flags DISCONTINUOUS (length as) seg p =
      Some (if length as + length bs + 1 < SEQ_LIST_MAX_LEN then SeqDiscontinuous else SeqMerge, p')
    \<and> segs p' = (if length as + length bs + 1 < SEQ_LIST_MAX_LEN then as @ seg # bs
                 else merge_lowest (as @ seg # bs))
    \<and> seq_shape p'"
proof -
  have rest: "rest \<noteq> []" "length as + length bs + length rest = 16"
    using assms by (auto simp: seq_shape_def SEQ_LIST_MAX_LEN_def)
  obtain rest' where ins: "insert_seq_segment (length as) seg p =
      Some (p\<lparr>seq_list := as @ seg # bs @ rest', seq_list_len := seq_list_len p + 1\<rparr>)"
    and rest': "Suc (length rest') = length rest"
    using insert_seq_segment_split [OF assms(2,3) rest(1)] by blast
  show ?thesis
  proof (cases "length as + length bs + 1 < SEQ_LIST_MAX_LEN")
    case True
    with ins rest rest' assms(3) show ?thesis
      by (simp add: match_continuous_flags_def segs_def seq_shape_def SEQ_LIST_MAX_LEN_def)
  next
    case False
    have "length (as @ seg # bs) = 16" "rest' = []"
      using False rest rest' by (auto simp: SEQ_LIST_MAX_LEN_def Suc_le_eq length_0_conv [symmetric]
          simp del: length_0_conv)
    then obtain us g l where us: "as @ seg # bs = us @ [g, l]" "length us = 14"
      using split_last_two [of "as @ seg # bs" 14] by auto
    let ?q = "p\<lparr>seq_list := us @ [g, l], seq_list_len := 16\<rparr>"
    have len: "seq_list_len p + 1 = 16" using \<open>length (as @ seg # bs) = 16\<close> assms(3) by simp
    have ins': "insert_seq_segment (length as) seg p = Some ?q"
      using ins [unfolded len] us(1) \<open>rest' = []\<close> by simp
    have "merge_seq_list 14 ?q = Some (?q\<lparr>seq_list := us @ [merge_segments g l, default_segment],
            seq_list_len := 15\<rparr>)"
      using merge_seq_list_split [of ?q us g l "[]" "[]"] us by simp
    with False ins' us show ?thesis
      by (simp add: match_continuous_flags_def merge_lowest_def segs_def seq_shape_def
          SEQ_LIST_MAX_LEN_def butlast_append)
  qed
qed

lemma place_segment_refines:
  assumes "seq_shape p" "seq_list p = as @ bs @ rest" "seq_list_len p = length as + length bs"
    and "as @ bs \<noteq> []"
    and c: "check_and_update_continuous_segment (if bs \<noteq> [] then Some (length as) else None)
     (if as \<noteq> [] then Some (length as - 1) else None) seg (seq_list p) = (flag, xs)"
  shows "\<exists>p'. match_continuous_flags flag (length as) seg (p\<lparr>seq_list := xs\<rparr>) =
      Some (fst (place_segment seg as bs), p')
    \<and> segs p' = snd (place_segment seg as bs) \<and> seq_shape p'"
proof -
  let ?lt = "bs \<noteq> [] \<and> seg_limit (hd bs) = seg_seq seg"
  let ?gte = "as \<noteq> [] \<and> seg_limit seg = seg_seq (last as)"
  let ?q = "p\<lparr>seq_list := xs\<rparr>"
  note c' = c [unfolded check_and_update_split [OF assms(2)], symmetric]
  note shape = assms(1) [unfolded seq_shape_def SEQ_LIST_MAX_LEN_def]
  consider "?lt" "?gte" | "?lt" "\<not> ?gte" | "\<not> ?lt" "?gte" | "\<not> ?lt" "\<not> ?gte" by blast
  then show ?thesis
  proof cases
    case 1
    obtain as' g where as: "as = as' @ [g]" using 1 by (cases as rule: rev_cases) auto
    obtain l bs' where bs: "bs = l # bs'" using 1 by (cases bs) auto
    show ?thesis
      using place_both [of ?q as' bs' seg g l rest] c' 1 as bs assms(2,3) shape
      by (simp add: place_segment_def seq_shape_def SEQ_LIST_MAX_LEN_def BOTH_CONTINUOUS_def)
  next
    case 2
    with c' assms(2,3) shape show ?thesis
      by (cases bs) (auto simp: place_segment_def match_continuous_flags_def continuous_defs segs_def
          seq_shape_def SEQ_LIST_MAX_LEN_def)
  next
    case 3
    with c' assms(2,3) shape show ?thesis
      by (cases as rule: rev_cases) (auto simp: place_segment_def match_continuous_flags_def
          continuous_defs segs_def seq_shape_def SEQ_LIST_MAX_LEN_def)
  next
    case 4
    then have "flag = DISCONTINUOUS" "?q = p"
      using c' assms(2) by (auto simp: DISCONTINUOUS_def)
    with 4 place_new [OF assms(1-4), of seg] show ?thesis by (auto simp: place_segment_def)
  qed
qed

lemma place_segment_kind:
  "fst (place_segment seg as bs) \<noteq> SeqRetrans" "fst (place_segment seg as bs) \<noteq> SeqError"
  "fst (place_segment seg as bs) \<noteq> SeqNotCare"
  by (simp_all add: place_segment_def Let_def)

text \<open>
  What one packet does to the tracked segments: the order of the tests is the one of the code,
  where a retransmission is recognised by its first byte alone and before an overlap is an error.
\<close>

definition observe :: "tcp_header \<Rightarrow> u16 \<Rightarrow> seq_segment list \<Rightarrow> packet_seq_type \<times> seq_segment list" where
  "observe h n ss = (if n = 0 \<or> th_seq h = 0 then (SeqNotCare, ss)
     else track \<lparr>seg_seq = th_seq h, seg_len = ucast n\<rparr> ss)"

lemma assert_seq_number_refines:
  assumes "seq_shape p"
    and "seg = \<lparr>seg_seq = th_seq h, seg_len = ucast n\<rparr>"
    and "r = observe h n (segs p)"
  shows "\<exists>p'. assert_seq_number h n p = Some (fst r, p') \<and> segs p' = snd r \<and> seq_shape p'
    \<and> (fst r = SeqRetrans \<or> fst r = SeqError \<longrightarrow> p' = p)"
proof (cases "n = 0 \<or> th_seq h = 0")
  case True
  with assms show ?thesis by (auto simp: assert_seq_number_def observe_def)
next
  case False
  obtain q where q: "check_seq_segment seg p = Some (fst (admit_segment seg (segs p)), q)"
    "segs q = snd (admit_segment seg (segs p))" "seq_shape q"
    "fst (admit_segment seg (segs p)) \<Longrightarrow> q = p"
    using check_seq_segment_refines [OF assms(1), of seg] by blast
  show ?thesis
  proof (cases "fst (admit_segment seg (segs p))")
    case False
    with q assms \<open>\<not> (n = 0 \<or> th_seq h = 0)\<close> show ?thesis
      by (auto simp: assert_seq_number_def observe_def track_def Let_def split: prod.splits)
  next
    case True
    let ?as = "segs_above seg (segs p)" and ?bs = "segs_below seg (segs p)"
    obtain rest where rest: "seq_list p = ?as @ ?bs @ rest" 
      "seq_list_len p = length ?as + length ?bs"
      using seq_shape_split [OF assms(1)] above_below [of seg "segs p"]
      by (metis append.assoc length_append)
    have ne: "?as @ ?bs \<noteq> []" using True above_below [of seg "segs p"]
      by (auto simp: admit_segment_def split: if_splits list.splits)
    have qp: "q = p" "snd (admit_segment seg (segs p)) = segs p" using q True by auto
    have ab: "?as = segs_above seg (?as @ ?bs)" by (simp add: above_below)
    obtain flag xs where c: "check_and_update_continuous_segment
       (if ?bs \<noteq> [] then Some (length ?as) else None)
       (if ?as \<noteq> [] then Some (length ?as - 1) else None) seg (seq_list p) = (flag, xs)"
      by fastforce
    have code: "assert_seq_number h n p =
      (if seg_retrans seg ?as ?bs then Some (SeqRetrans, p)
       else if seg_error seg ?as then Some (SeqError, p)
       else match_continuous_flags flag (length ?as) seg (p\<lparr>seq_list := xs\<rparr>))"
      unfolding assert_seq_number_def
      using q qp True \<open>\<not> (n = 0 \<or> th_seq h = 0)\<close> c assms(2) search_split [OF rest ab ne]
       is_retrans_segment_refines [OF rest(1) ne last_above hd_below]
       is_error_segment_refines [OF rest(1)]
      by (simp add: Let_def)
    have spec: "r = (if seg_retrans seg ?as ?bs then (SeqRetrans, segs p)
       else if seg_error seg ?as then (SeqError, segs p) else place_segment seg ?as ?bs)"
      using assms(3) True qp(2) \<open>\<not> (n = 0 \<or> th_seq h = 0)\<close>
      by (simp add: observe_def track_def case_prod_unfold assms(2) [symmetric])
    show ?thesis
      using code spec assms(1) place_segment_refines [OF assms(1) rest ne c]
        place_segment_kind [of seg ?as ?bs]
      by (cases "seg_retrans seg ?as ?bs"; cases "seg_error seg ?as") auto
  qed
qed

text \<open>The operations touch the two fields of the list only.\<close>

lemma seq_ops_more:
  "insert_seq_segment i seg p = Some p' \<Longrightarrow> seq_state.more p' = seq_state.more p"
  "merge_seq_list i p = Some p' \<Longrightarrow> seq_state.more p' = seq_state.more p"
  by (auto simp: insert_seq_segment_def merge_seq_list_def Let_def bind_eq_Some_conv split: if_splits)

lemma check_seq_segment_more:
  "check_seq_segment seg p = Some (b, p') \<Longrightarrow> seq_state.more p' = seq_state.more p"
  by (auto simp: check_seq_segment_def Let_def bind_eq_Some_conv dest!: seq_ops_more split: if_splits)

lemma match_continuous_flags_more:
  "match_continuous_flags fl i seg p = Some (r, p') \<Longrightarrow> seq_state.more p' = seq_state.more p"
  by (auto simp: match_continuous_flags_def bind_eq_Some_conv dest!: seq_ops_more split: if_splits)

lemma assert_seq_number_more:
  "assert_seq_number h n p = Some (r, p') \<Longrightarrow> seq_state.more p' = seq_state.more p"
  by (auto simp: assert_seq_number_def bind_eq_Some_conv Let_def case_prod_unfold
      dest!: check_seq_segment_more match_continuous_flags_more split: if_splits)

subsection \<open>The bytes that are tracked\<close>

text \<open>
  A tracked segment is not empty and its end does not wrap; the segments descend both in
  their start and in their end.
\<close>

definition seg_bytes :: "seq_segment \<Rightarrow> nat set" where
  "seg_bytes s = {unat (seg_seq s) ..< unat (seg_seq s) + unat (seg_len s)}"

definition tracked :: "seq_segment list \<Rightarrow> nat set" where
  "tracked ss = (\<Union>s \<in> set ss. seg_bytes s)"

definition seg_ok :: "seq_segment \<Rightarrow> bool" where
  "seg_ok s \<longleftrightarrow> 0 < seg_len s \<and> unat (seg_seq s) + unat (seg_len s) < 2 ^ 32"

definition seg_le :: "seq_segment \<Rightarrow> seq_segment \<Rightarrow> bool" where
  "seg_le b a \<longleftrightarrow> seg_seq b \<le> seg_seq a \<and> seg_limit b \<le> seg_limit a"

definition tracked_wf :: "seq_segment list \<Rightarrow> bool" where
  "tracked_wf ss \<longleftrightarrow> (\<forall>s \<in> set ss. seg_ok s) \<and> sorted_wrt (\<lambda>a b. seg_le b a) ss"

lemma tracked_simps [simp]:
  "tracked [] = {}" "tracked (s # ss) = seg_bytes s \<union> tracked ss"
  "tracked (as @ bs) = tracked as \<union> tracked bs"
  by (auto simp: tracked_def)

lemma unat_seg_limit: "seg_ok s \<Longrightarrow> unat (seg_limit s) = unat (seg_seq s) + unat (seg_len s)"
  by (simp add: seg_ok_def seg_limit_def unat_add_exact)

lemma seg_ok_seq_less_limit: "seg_ok s \<Longrightarrow> seg_seq s < seg_limit s"
  using unat_seg_limit [of s] by (auto simp: word_less_nat_alt seg_ok_def unat_gt_0)

lemma seg_okI: "\<not> seg_limit s < seg_seq s \<Longrightarrow> 0 < seg_len s \<Longrightarrow> seg_ok s"
  by (simp add: seg_ok_def seg_limit_def wrapping_add_less_iff)

lemma seg_le_trans [trans]: "seg_le a b \<Longrightarrow> seg_le b c \<Longrightarrow> seg_le a c"
  by (auto simp: seg_le_def)

text \<open>Two segments that touch join to one.\<close>

lemma join_segments:
  assumes "seg_ok a" "seg_ok b" "seg_limit a = seg_seq b"
    and c: "c = \<lparr>seg_seq = seg_seq a, seg_len = seg_len a + seg_len b\<rparr>"
  shows "seg_ok c" "seg_bytes c = seg_bytes a \<union> seg_bytes b" "seg_limit c = seg_limit b"
proof -
  have b: "unat (seg_seq b) = unat (seg_seq a) + unat (seg_len a)"
    using unat_seg_limit [OF assms(1)] assms(3) by simp
  have "unat (seg_len a + seg_len b) = unat (seg_len a) + unat (seg_len b)"
    using assms(2) b by (intro unat_add_exact) (simp add: seg_ok_def)
  with b assms(1,2) show "seg_ok c" "seg_bytes c = seg_bytes a \<union> seg_bytes b"
    by (auto simp: seg_ok_def seg_bytes_def c word_less_nat_alt)
  show "seg_limit c = seg_limit b" using assms(3) by (simp add: seg_limit_def c algebra_simps)
qed

lemma merge_segments_ok:
  assumes "seg_ok g" "seg_ok l" "seg_le l g"
  shows "seg_ok (merge_segments g l)" "seg_limit (merge_segments g l) = seg_limit g"
    "seg_bytes (merge_segments g l) =
       seg_bytes g \<union> seg_bytes l \<union> {unat (seg_limit l) ..< unat (seg_seq g)}"
proof -
  have le: "unat (seg_seq l) \<le> unat (seg_seq g)" "seg_seq l \<le> seg_seq g"
    "unat (seg_seq l) + unat (seg_len l) \<le> unat (seg_seq g) + unat (seg_len g)"
    using assms unat_seg_limit [of g] unat_seg_limit [of l]
    by (simp_all add: word_le_nat_alt seg_le_def)
  have "unat (seg_seq g - seg_seq l + seg_len g)
      = unat (seg_seq g) - unat (seg_seq l) + unat (seg_len g)"
    using assms(1) le by (subst unat_add_exact) (auto simp: unat_sub_exact seg_ok_def)
  with le assms(1) show "seg_ok (merge_segments g l)"
    "seg_bytes (merge_segments g l) =
       seg_bytes g \<union> seg_bytes l \<union> {unat (seg_limit l) ..< unat (seg_seq g)}"
    by (auto simp: seg_ok_def seg_bytes_def merge_segments_def word_less_nat_alt
        unat_seg_limit [OF assms(2)])
  show "seg_limit (merge_segments g l) = seg_limit g"
    by (simp add: seg_limit_def merge_segments_def)
qed

lemma tracked_wf_Cons:
  "tracked_wf (s # ss) \<longleftrightarrow> seg_ok s \<and> (\<forall>t \<in> set ss. seg_le t s) \<and> tracked_wf ss"
  by (auto simp: tracked_wf_def)

lemma tracked_wf_append:
  "tracked_wf (as @ bs) \<longleftrightarrow> tracked_wf as \<and> tracked_wf bs
    \<and> (\<forall>a \<in> set as. \<forall>b \<in> set bs. seg_le b a)"
  by (auto simp: tracked_wf_def sorted_wrt_append)

lemma tracked_wf_Nil [simp]: "tracked_wf []"
  by (simp add: tracked_wf_def)

lemma above_ge: "s \<in> set (segs_above seg ss) \<Longrightarrow> seg_seq seg \<le> seg_seq s"
  unfolding segs_above_def by (metis set_takeWhileD)

lemma below_less:
  assumes "tracked_wf ss" "s \<in> set (segs_below seg ss)"
  shows "seg_seq s < seg_seq seg"
proof -
  have "tracked_wf (segs_below seg ss)" using assms(1) above_below [of seg ss]
    by (metis tracked_wf_append)
  with assms(2) hd_below [of seg ss] show ?thesis
    by (cases "segs_below seg ss") (auto simp: tracked_wf_Cons seg_le_def intro: le_less_trans)
qed

lemma merge_lowest_correct:
  assumes "tracked_wf (us @ [g, l])"
  shows "tracked_wf (merge_lowest (us @ [g, l]))"
    "tracked (merge_lowest (us @ [g, l])) =
       tracked (us @ [g, l]) \<union> {unat (seg_limit l) ..< unat (seg_seq g)}"
proof -
  have gl: "seg_ok g" "seg_ok l" "seg_le l g" "\<forall>u \<in> set us. seg_le g u" "tracked_wf us"
    using assms by (auto simp: tracked_wf_append tracked_wf_Cons)
  note m = merge_segments_ok [OF gl(1-3)]
  have "seg_le (merge_segments g l) g"
    using gl(3) m(2) by (simp add: seg_le_def merge_segments_def)
  with gl m(1) show "tracked_wf (merge_lowest (us @ [g, l]))"
    by (auto simp: merge_lowest_def tracked_wf_append tracked_wf_Cons butlast_append
        intro: seg_le_trans)
  show "tracked (merge_lowest (us @ [g, l])) =
       tracked (us @ [g, l]) \<union> {unat (seg_limit l) ..< unat (seg_seq g)}"
    using m(3) by (auto simp: merge_lowest_def butlast_append)
qed

lemma place_segment_correct:
  assumes wf: "tracked_wf (as @ bs)" and ok: "seg_ok seg"
    and as: "\<forall>s \<in> set as. seg_le seg s"
    and bs: "\<forall>s \<in> set bs. seg_limit s \<le> seg_seq seg"
    and place: "place_segment seg as bs = (r, ss)"
    and len: "length as + length bs \<noteq> 0"
  shows "tracked_wf ss \<and> tracked (as @ bs) \<union> seg_bytes seg \<subseteq> tracked ss
    \<and> (r \<noteq> SeqMerge \<longrightarrow> tracked ss = tracked (as @ bs) \<union> seg_bytes seg)"
proof -
  have bs': "\<forall>s \<in> set bs. seg_le s seg"
    using bs wf seg_ok_seq_less_limit seg_ok_seq_less_limit [OF ok]
    by (fastforce simp: seg_le_def tracked_wf_def)
  have wf': "tracked_wf (as @ seg # bs)"
    using wf ok as bs' by (auto simp: tracked_wf_append tracked_wf_Cons)
  consider (both) as' g l bs' where "as = as' @ [g]" "bs = l # bs'" "seg_limit l = seg_seq seg"
      "seg_limit seg = seg_seq g"
    | (lt) l bs' where "bs = l # bs'" "seg_limit l = seg_seq seg"
      "\<not> (as \<noteq> [] \<and> seg_limit seg = seg_seq (last as))"
    | (gte) as' g where "as = as' @ [g]" "seg_limit seg = seg_seq g"
       "\<not> (bs \<noteq> [] \<and> seg_limit (hd bs) = seg_seq seg)"
    | (new) "\<not> (as \<noteq> [] \<and> seg_limit seg = seg_seq (last as))"
       "\<not> (bs \<noteq> [] \<and> seg_limit (hd bs) = seg_seq seg)"
    by (cases bs; cases as rule: rev_cases) auto
  then show ?thesis
  proof cases
    case both
    let ?c = "\<lparr>seg_seq = seg_seq l, seg_len = seg_len l + seg_len seg\<rparr>"
    have okl: "seg_ok l" "seg_ok g" using wf both by (auto simp: tracked_wf_def)
    note j = join_segments [OF okl(1) ok both(3) refl]
    note j2 = join_segments [OF j(1) okl(2) _ refl, unfolded j(3), OF both(4)]
    show ?thesis
      using place both wf' j j2
      by (auto simp: place_segment_def tracked_wf_append tracked_wf_Cons seg_le_def)
  next
    case lt
    have "seg_ok l" using wf lt by (auto simp: tracked_wf_def)
    note j = join_segments [OF this ok lt(2) refl]
    show ?thesis
      using place lt wf' j
      by (auto simp: place_segment_def tracked_wf_append tracked_wf_Cons seg_le_def)
  next
    case gte
    have "seg_ok g" using wf gte by (auto simp: tracked_wf_def)
    note j = join_segments [OF ok this gte(2) refl]
    show ?thesis
      using place gte wf' j
      by (auto simp: place_segment_def tracked_wf_append tracked_wf_Cons seg_le_def add.commute)
  next
    case new
    have "length (as @ seg # bs) = Suc (Suc (length as + length bs - 1))" using len by auto
    then obtain us g l where us: "as @ seg # bs = us @ [g, l]" by (rule split_last_two)
    have tr: "tracked (us @ [g, l]) = tracked (as @ bs) \<union> seg_bytes seg"
      unfolding us [symmetric] by auto
    have "r \<noteq> SeqMerge \<and> ss = us @ [g, l] \<or> r = SeqMerge \<and> ss = merge_lowest (us @ [g, l])"
      using place new us by (simp add: place_segment_def split: if_splits)
    with merge_lowest_correct [OF wf' [unfolded us]] wf' [unfolded us] tr show ?thesis
      by (elim disjE) (simp_all only: tr, blast+)
  qed
qed

lemma admit_segment_cases:
  assumes "admit_segment seg ss = (ok, ss')" "0 < seg_len seg"
  shows "ok \<and> ss' = ss \<and> ss \<noteq> [] \<and> seg_ok seg \<or> \<not> ok \<and> (ss' = ss \<or> ss' = [seg] \<and> seg_ok seg)"
  using assms seg_okI [of seg] by (auto simp: admit_segment_def split: list.splits if_splits)

lemma not_retrans_below:
  assumes "tracked_wf ss" "\<not> seg_retrans seg (segs_above seg ss) (segs_below seg ss)"
    and "s \<in> set (segs_below seg ss)"
  shows "seg_limit s \<le> seg_seq seg"
proof -
  have "tracked_wf (segs_below seg ss)" using assms(1) above_below [of seg ss] by (metis tracked_wf_append)
  with assms(2,3) show ?thesis
    by (cases "segs_below seg ss") (auto simp: tracked_wf_Cons seg_retrans_def seg_le_def)
qed

lemma not_error_above:
  assumes "tracked_wf ss" "\<not> seg_error seg (segs_above seg ss)" "s \<in> set (segs_above seg ss)"
  shows "seg_le seg s"
proof -
  have "tracked_wf (segs_above seg ss)" using assms(1) above_below [of seg ss] by (metis tracked_wf_append)
  moreover have "segs_above seg ss \<noteq> []" using assms(3) by auto
  then have "seg_le seg (last (segs_above seg ss))"
    using assms(2) last_above [of seg ss] by (auto simp: seg_error_def seg_le_def)
  ultimately show ?thesis using assms(3)
    by (cases "segs_above seg ss" rule: rev_cases)
      (auto simp: tracked_wf_append tracked_wf_Cons intro: seg_le_trans)
qed

lemma is_retrans_tracked:
  assumes "tracked_wf ss" "ss \<noteq> []" "seg_retrans seg (segs_above seg ss) (segs_below seg ss)"
  shows "unat (seg_seq seg) \<in> tracked ss"
proof -
  obtain s where s: "s \<in> set ss" "seg_seq s \<le> seg_seq seg" "seg_seq seg < seg_limit s"
  proof (cases "segs_below seg ss = []")
    case True
    then have "segs_above seg ss = ss" using above_below [of seg ss] by simp
    with True assms that [of "last ss"] show thesis by (auto simp: seg_retrans_def)
  next
    case False
    then have "hd (segs_below seg ss) \<in> set ss"
      unfolding segs_below_def using hd_in_set set_dropWhileD by metis
    with False assms(3) hd_below [of seg ss] that [of "hd (segs_below seg ss)"] show thesis
      by (auto simp: seg_retrans_def)
  qed
  moreover have "seg_ok s" using s(1) assms(1) by (simp add: tracked_wf_def)
  ultimately show ?thesis
    by (auto simp: tracked_def seg_bytes_def word_le_nat_alt word_less_nat_alt unat_seg_limit)
qed

lemma track_cases:
  assumes wf: "tracked_wf ss" and len: "0 < seg_len seg" and tr: "track seg ss = (r, ss')"
  obtains (ignored) "r = SeqNotCare" "ss' = ss"
    | (reset) "r = SeqNotCare" "ss' = [seg]" "seg_ok seg"
    | (retrans) "r = SeqRetrans" "ss' = ss" "unat (seg_seq seg) \<in> tracked ss"
    | (error) "r = SeqError" "ss' = ss"
    | (placed) "r \<in> {SeqContinuous, SeqBothContinuous, SeqDiscontinuous}"
        "tracked_wf ss'" "tracked ss' = tracked ss \<union> seg_bytes seg"
    | (merged) "r = SeqMerge" "tracked_wf ss'" "tracked ss \<union> seg_bytes seg \<subseteq> tracked ss'"
proof -
  obtain ok t where adm: "admit_segment seg ss = (ok, t)" by fastforce
  let ?as = "segs_above seg ss" and ?bs = "segs_below seg ss"
  consider "\<not> ok" | "ok" "seg_retrans seg ?as ?bs" | "ok" "\<not> seg_retrans seg ?as ?bs" "seg_error seg ?as"
    | "ok" "\<not> seg_retrans seg ?as ?bs" "\<not> seg_error seg ?as" by blast
  then show thesis
  proof cases
    case 1
    with adm tr admit_segment_cases [OF adm len] show thesis
      by (auto simp: track_def intro: ignored reset)
  next
    case 2
    with adm tr admit_segment_cases [OF adm len] is_retrans_tracked [OF wf] show thesis
      by (auto simp: track_def intro: retrans)
  next
    case 3
    with adm tr admit_segment_cases [OF adm len] show thesis
      by (auto simp: track_def intro: error)
  next
    case 4
    then have t: "t = ss" "seg_ok seg" "place_segment seg ?as ?bs = (r, ss')" "ss \<noteq> []"
      using adm tr admit_segment_cases [OF adm len] by (auto simp: track_def)
    then have ne: "length ?as + length ?bs \<noteq> 0"
      using above_below [of seg ss] by (metis length_append length_0_conv)
    have "tracked_wf ss' \<and> tracked ss \<union> seg_bytes seg \<subseteq> tracked ss'
      \<and> (r \<noteq> SeqMerge \<longrightarrow> tracked ss' = tracked ss \<union> seg_bytes seg)"
      using place_segment_correct [OF _ t(2) _ _ t(3) ne] wf not_error_above [OF wf 4(3)]
       not_retrans_below [OF wf 4(2)] by (simp add: above_below)
    moreover have "r \<in> {SeqContinuous, SeqBothContinuous, SeqDiscontinuous, SeqMerge}"
      using t(3) by (auto simp: place_segment_def Let_def split: if_splits)
    ultimately show thesis by (auto intro: placed merged)
  qed
qed

subsection \<open>Histories\<close>

text \<open>The packets handled so far, each with the verdict it got.\<close>

type_synonym seq_event = "tcp_header \<times> u16 \<times> packet_seq_type"

definition seq_fresh :: "'a seq_state_scheme \<Rightarrow> bool" where
  "seq_fresh p \<longleftrightarrow> seq_list p = replicate SEQ_LIST_MAX_LEN default_segment \<and> seq_list_len p = 0"

definition seq_step :: "'a seq_state_scheme \<Rightarrow> seq_event \<Rightarrow> 'a seq_state_scheme \<Rightarrow> bool" where
  "seq_step p e p' \<longleftrightarrow>
     (case e of (h, n, r) \<Rightarrow> assert_seq_number h n p = Some (r, p'))"

definition packet_bytes :: "tcp_header \<Rightarrow> u16 \<Rightarrow> nat set" where
  "packet_bytes h n = {unat (th_seq h) ..< unat (th_seq h) + unat n}"

definition event_bytes :: "seq_event list \<Rightarrow> nat set" where
  "event_bytes es = (\<Union>(h, n, r) \<in> set es. packet_bytes h n)"

definition no_merge :: "seq_event list \<Rightarrow> bool" where
  "no_merge es \<longleftrightarrow> (\<forall>(h, n, r) \<in> set es. r \<noteq> SeqMerge)"

definition seq_history :: "seq_event list \<Rightarrow> 'a seq_state_scheme \<Rightarrow> bool" where
  "seq_history es p \<longleftrightarrow> seq_shape p \<and> tracked_wf (segs p)
     \<and> (no_merge es \<longrightarrow> tracked (segs p) \<subseteq> event_bytes es)"

lemma seg_bytes_packet: "seg_bytes \<lparr>seg_seq = th_seq h, seg_len = ucast n\<rparr> = packet_bytes h n"
  by (simp add: seg_bytes_def packet_bytes_def unat_ucast_up)

lemma event_bytes_simps [simp]:
  "event_bytes [] = {}" "event_bytes (es @ [(h, n, r)]) = event_bytes es \<union> packet_bytes h n"
  by (auto simp: event_bytes_def)

lemma ucast_pos: "n \<noteq> 0 \<Longrightarrow> 0 < (ucast n :: u32)" for n :: u16
  using unat_ucast_up [of n, where 'b = 32] by (simp add: word_less_nat_alt unat_gt_0)

lemma seq_history_start: "seq_fresh p \<Longrightarrow> seq_history [] p"
  by (simp add: seq_fresh_def seq_history_def seq_shape_def segs_def SEQ_LIST_MAX_LEN_def)

lemma observe_cases:
  assumes wf: "tracked_wf ss" and ob: "observe h n ss = (r, ss')"
  shows "tracked_wf ss'" "r \<noteq> SeqMerge \<Longrightarrow> tracked ss' \<subseteq> tracked ss \<union> packet_bytes h n"
    "r = SeqRetrans \<Longrightarrow> unat (th_seq h) \<in> tracked ss"
    "r \<in> {SeqContinuous, SeqBothContinuous, SeqDiscontinuous, SeqMerge} \<Longrightarrow>
       tracked ss \<union> packet_bytes h n \<subseteq> tracked ss'"
proof -
  let ?g = "\<lparr>seg_seq = th_seq h, seg_len = ucast n\<rparr>"
  have "tracked_wf ss' \<and> (r \<noteq> SeqMerge \<longrightarrow> tracked ss' \<subseteq> tracked ss \<union> packet_bytes h n)
    \<and> (r = SeqRetrans \<longrightarrow> unat (th_seq h) \<in> tracked ss)
    \<and> (r \<in> {SeqContinuous, SeqBothContinuous, SeqDiscontinuous, SeqMerge} \<longrightarrow>
       tracked ss \<union> packet_bytes h n \<subseteq> tracked ss')"
  proof (cases "n = 0 \<or> th_seq h = 0")
    case True
    then show ?thesis using assms by (auto simp: observe_def)
  next
    case False
    then have "track ?g ss = (r, ss')" "0 < seg_len ?g"
      using ob ucast_pos [of n] by (auto simp: observe_def)
    then show ?thesis using wf
      by (cases rule: track_cases [OF wf, of ?g r ss'])
        (auto simp: seg_bytes_packet tracked_wf_Cons)
  qed
  then show "tracked_wf ss'" "r \<noteq> SeqMerge \<Longrightarrow> tracked ss' \<subseteq> tracked ss \<union> packet_bytes h n"
    "r = SeqRetrans \<Longrightarrow> unat (th_seq h) \<in> tracked ss"
    "r \<in> {SeqContinuous, SeqBothContinuous, SeqDiscontinuous, SeqMerge} \<Longrightarrow>
       tracked ss \<union> packet_bytes h n \<subseteq> tracked ss'"
    by blast+
qed

lemma assert_seq_numberD:
  assumes "seq_shape p" "assert_seq_number h n p = Some (r, p')"
  shows "seq_shape p'" "observe h n (segs p) = (r, segs p')"
  using assert_seq_number_refines [OF assms(1) refl refl, of h n] assms(2) by (auto simp: prod_eq_iff)

lemma seq_history_step:
  assumes "seq_history es p" "seq_step p e p'"
  shows "seq_history (es @ [e]) p'"
proof -
  obtain h n r where e: "e = (h, n, r)" and code: "assert_seq_number h n p = Some (r, p')"
    using assms(2) by (cases e) (auto simp: seq_step_def)
  have p: "seq_shape p" "tracked_wf (segs p)" using assms(1) by (simp_all add: seq_history_def)
  note q = assert_seq_numberD [OF p(1) code]
  have "no_merge (es @ [e]) \<longleftrightarrow> no_merge es \<and> r \<noteq> SeqMerge" by (auto simp: no_merge_def e)
  with assms(1) q(1) observe_cases(1,2) [OF p(2) q(2)] show ?thesis
    unfolding seq_history_def e by simp blast
qed

interpretation seqs: history_invariant seq_step seq_fresh seq_history
  by (unfold_locales; fact seq_history_start seq_history_step)

text \<open>
  C5: For every history of packets of one side of a connection and every next packet,
  \<^verbatim>\<open>assert_seq_number\<close> does not panic (no index or slice is out of range, the assertion of
  the merge and the \<^verbatim>\<open>unreachable!\<close> are never hit), gives the verdict and the segments of
  the specification, leaves at most 15 segments in use, and keeps them non-empty,
  descending and free of wrap-around.  The specification \<^verbatim>\<open>observe\<close> follows the code where
  the code and its unit test disagree: a packet that starts in a tracked segment and reaches
  beyond its end is a retransmission, not an error (lemma \<^verbatim>\<open>session_peer_test\<close>).
\<close>

theorem assert_seq_number_total:
  assumes "seq_fresh p" "run seq_step p es q"
  shows "\<exists>r q'. assert_seq_number h n q = Some (r, q') \<and> seq_list_len q' \<le> 15
     \<and> (r, segs q') = observe h n (segs q) \<and> tracked_wf (segs q')"
proof -
  have q: "seq_shape q" "tracked_wf (segs q)"
    using seqs.inv_run [OF assms(2,1)] by (simp_all add: seq_history_def)
  obtain q' where q': "assert_seq_number h n q = Some (fst (observe h n (segs q)), q')"
    "segs q' = snd (observe h n (segs q))" "seq_shape q'"
    using assert_seq_number_refines [OF q(1) refl refl, of h n] by blast
  with observe_cases(1) [OF q(2), of h n] show ?thesis
    by (auto simp: seq_shape_def SEQ_LIST_MAX_LEN_def prod_eq_iff)
qed

text \<open>
  C17: A packet reported as a retransmission changes nothing, and, as long as the list never
  overflowed into a merge, its first byte was carried by a packet handled before.
\<close>

theorem retransmission_sound:
  assumes "seq_fresh p" "run seq_step p es q" "no_merge es"
    and "assert_seq_number h n q = Some (SeqRetrans, q')"
  shows "q' = q \<and> (\<exists>(h', n', r') \<in> set es. unat (th_seq h) \<in> packet_bytes h' n')"
proof -
  have q: "seq_shape q" "tracked_wf (segs q)" "tracked (segs q) \<subseteq> event_bytes es"
    using seqs.inv_run [OF assms(2,1)] assms(3) by (simp_all add: seq_history_def)
  have "observe h n (segs q) = (SeqRetrans, segs q')"
    by (rule assert_seq_numberD [OF q(1) assms(4)])
  from observe_cases(3) [OF q(2) this] q(3) have "unat (th_seq h) \<in> event_bytes es" by blast
  moreover have "q' = q"
    using assert_seq_number_refines [OF q(1) refl refl, of h n] assms(4) by auto
  ultimately show ?thesis by (auto simp: event_bytes_def)
qed

text \<open>
  A packet reported as continuous with a neighbour, continuous with both, or as
  discontinuous adds exactly its bytes to the bytes that are tracked.
\<close>

theorem tracked_bytes_grow:
  assumes "seq_fresh p" "run seq_step p es q"
    and "assert_seq_number h n q = Some (r, q')"
    and "r = SeqContinuous \<or> r = SeqBothContinuous \<or> r = SeqDiscontinuous"
  shows "tracked (segs q') = tracked (segs q) \<union> packet_bytes h n"
proof -
  have q: "seq_shape q" "tracked_wf (segs q)"
    using seqs.inv_run [OF assms(2,1)] by (simp_all add: seq_history_def)
  have "observe h n (segs q) = (r, segs q')"
    by (rule assert_seq_numberD [OF q(1) assms(3)])
  from observe_cases(2,4) [OF q(2) this] assms(4) show ?thesis by auto
qed


definition segs_disjoint :: "seq_segment list \<Rightarrow> bool" where
  "segs_disjoint ss \<longleftrightarrow> sorted_wrt (\<lambda>a b. seg_limit b \<le> seg_seq a) ss"

lemma seg_bytes_iff:
  "seg_ok s \<Longrightarrow> unat q \<in> seg_bytes s \<longleftrightarrow> seg_seq s \<le> q \<and> q < seg_limit s"
  by (simp add: seg_bytes_def word_le_nat_alt word_less_nat_alt unat_seg_limit)

lemma tracked_iff:
  "tracked_wf ss \<Longrightarrow> unat q \<in> tracked ss \<longleftrightarrow> (\<exists>s \<in> set ss. seg_seq s \<le> q \<and> q < seg_limit s)"
  by (auto simp: tracked_def tracked_wf_def seg_bytes_iff)

lemma tracked_wf_seq_less_limit: "tracked_wf ss \<Longrightarrow> s \<in> set ss \<Longrightarrow> seg_seq s < seg_limit s"
  by (simp add: tracked_wf_def seg_ok_seq_less_limit)

lemma is_retrans_iff_lowest:
  assumes wf: "tracked_wf (us @ [l])" and dis: "segs_disjoint (us @ [l])"
    and ge: "\<forall>s \<in> set (us @ [l]). q \<le> seg_seq s"
  shows "q = seg_seq l \<longleftrightarrow> unat q \<in> tracked (us @ [l]) \<and> (\<forall>s \<in> set us. seg_seq s \<noteq> q)"
proof -
  have "unat q \<in> tracked (us @ [l]) \<longleftrightarrow> (\<exists>s \<in> set (us @ [l]). seg_seq s = q)"
    unfolding tracked_iff [OF wf] using ge tracked_wf_seq_less_limit [OF wf]
    by (metis order.refl order.antisym)
  moreover have "\<forall>u \<in> set us. seg_seq u \<noteq> seg_seq l"
    using dis tracked_wf_seq_less_limit [OF wf, of l]
    by (auto simp: segs_disjoint_def sorted_wrt_append)
  ultimately show ?thesis by auto
qed

lemma is_retrans_iff_between:
  assumes wf: "tracked_wf (as @ b # bs)" and dis: "segs_disjoint (as @ b # bs)"
    and ge: "\<forall>s \<in> set as. q \<le> seg_seq s" and less: "\<forall>s \<in> set (b # bs). seg_seq s < q"
  shows "q < seg_limit b \<longleftrightarrow>
    unat q \<in> tracked (as @ b # bs) \<and> (\<forall>s \<in> set as. seg_seq s \<noteq> q)"
proof -
  have low: "\<forall>s \<in> set bs. seg_limit s < q" "\<forall>s \<in> set as. seg_limit b \<le> seg_seq s"
    using dis less by (auto simp: segs_disjoint_def sorted_wrt_append intro: le_less_trans)
  have "unat q \<in> tracked (as @ b # bs) \<longleftrightarrow> q < seg_limit b \<or> (\<exists>s \<in> set as. seg_seq s = q)"
    unfolding tracked_iff [OF wf] using ge less low(1) tracked_wf_seq_less_limit [OF wf]
    by (simp add: bex_Un) (metis less_imp_le not_less order.refl order.antisym)
  with low(2) show ?thesis by auto
qed

lemma is_retrans_iff:
  assumes wf: "tracked_wf ss" and dis: "segs_disjoint ss" and "ss \<noteq> []"
  shows "seg_retrans seg (segs_above seg ss) (segs_below seg ss) \<longleftrightarrow>
    unat (seg_seq seg) \<in> tracked ss \<and> (\<forall>s \<in> set (butlast ss). seg_seq s \<noteq> seg_seq seg)"
proof (cases "segs_below seg ss")
  case Nil
  then have as: "segs_above seg ss = ss" using above_below [of seg ss] by simp
  obtain us l where ss: "ss = us @ [l]" using assms(3) by (cases ss rule: rev_cases) auto
  have "\<forall>s \<in> set (us @ [l]). seg_seq seg \<le> seg_seq s"
    using above_ge [of _ seg ss] as ss by simp
  from is_retrans_iff_lowest [OF wf [unfolded ss] dis [unfolded ss] this] show ?thesis
    using Nil as ss tracked_wf_seq_less_limit [OF wf, of l] by (auto simp: seg_retrans_def)
next
  case (Cons b bs)
  have ss: "ss = segs_above seg ss @ b # bs" using Cons above_below [of seg ss] by simp
  have less: "\<forall>s \<in> set (b # bs). seg_seq s < seg_seq seg"
    using below_less [OF wf, of _ seg] Cons by simp
  have wf': "tracked_wf (segs_above seg ss @ b # bs)" "segs_disjoint (segs_above seg ss @ b # bs)"
    using wf dis ss by simp_all
  have butlast: "set (butlast ss) = set (segs_above seg ss) \<union> set (butlast (b # bs))"
    by (subst ss) (simp add: butlast_append)
  have "seg_seq s \<noteq> seg_seq seg" if "s \<in> set (butlast (b # bs))" for s
    using less in_set_butlastD [OF that] by auto
  with is_retrans_iff_between [OF wf' _ less] above_ge [of _ seg ss] show ?thesis
    using Cons butlast ss by (auto simp: seg_retrans_def)
qed

definition tracking_admits :: "tcp_header \<Rightarrow> u16 \<Rightarrow> seq_segment list \<Rightarrow> bool" where
  "tracking_admits h n ss \<longleftrightarrow> n \<noteq> 0 \<and> th_seq h \<noteq> 0
     \<and> fst (admit_segment \<lparr>seg_seq = th_seq h, seg_len = ucast n\<rparr> ss)"

text \<open>
  C21: Which packets are recognised as retransmissions, exactly: on a list of disjoint
  segments a packet that is not set aside by the wrap-around checks is reported as a
  retransmission if and only if its first byte is tracked and it does not start where a
  segment other than the lowest one starts.  So the exact retransmission of a tracked
  segment that follows a hole is missed, although its bytes are tracked; the witness has
  the segments 1000..1100 and 2000..2100 and the packet at 2000, reported as discontinuous.
  The length of the packet does not matter: one that starts at a tracked byte and reaches
  beyond the tracked bytes is a retransmission too, where the unit test
  \<^verbatim>\<open>session_peer_seq_no_assert\<close> expects an error (lemma \<^verbatim>\<open>session_peer_test\<close>).
\<close>

theorem retransmission_exact:
  assumes "seq_shape p" "tracked_wf (segs p)" "segs_disjoint (segs p)"
    and "tracking_admits h n (segs p)"
    and "assert_seq_number h n p = Some (r, p')"
  shows "r = SeqRetrans \<longleftrightarrow> unat (th_seq h) \<in> tracked (segs p)
     \<and> (\<forall>s \<in> set (butlast (segs p)). seg_seq s \<noteq> th_seq h)"
proof -
  let ?g = "\<lparr>seg_seq = th_seq h, seg_len = ucast n\<rparr>"
  have n: "n \<noteq> 0" "th_seq h \<noteq> 0" "fst (admit_segment ?g (segs p))"
    using assms(4) by (auto simp: tracking_admits_def)
  have ad: "admit_segment ?g (segs p) = (True, segs p)" "segs p \<noteq> []"
    using admit_segment_cases [of ?g "segs p" True] n ucast_pos [of n]
    by (auto simp: prod_eq_iff)
  have "observe h n (segs p) = (r, segs p')"
    by (rule assert_seq_numberD [OF assms(1,5)])
  then have "r = SeqRetrans \<longleftrightarrow> seg_retrans ?g (segs_above ?g (segs p)) (segs_below ?g (segs p))"
    using n ad(1) place_segment_kind(1) [of ?g "segs_above ?g (segs p)" "segs_below ?g (segs p)"]
    by (auto simp: observe_def track_def Let_def split: if_splits)
  with is_retrans_iff [OF assms(2,3) ad(2), of ?g] show ?thesis by simp
qed


subsection \<open>Witnesses\<close>

definition data_packet :: "u32 \<Rightarrow> tcp_header" where
  "data_packet q = \<lparr>th_seq = q, th_ack = 1, th_win_size = 1024, th_flags = PSH_ACK,
     th_data_offset = 5, th_win_scale = 0\<rparr>"

definition fresh_seqs :: seq_state where
  "fresh_seqs = \<lparr>seq_list = replicate SEQ_LIST_MAX_LEN default_segment, seq_list_len = 0\<rparr>"

text \<open>
  The packets of the unit test \<^verbatim>\<open>session_peer_seq_no_assert\<close> with the verdicts it expects, and
  the verdicts and the segments the code gives.
\<close>

definition test_packets :: "(u32 \<times> u16 \<times> packet_seq_type) list" where
  "test_packets =
    [(0, 0, SeqNotCare), (0, 1, SeqNotCare), (10, 10, SeqNotCare), (20, 10, SeqContinuous),
     (10, 10, SeqRetrans), (20, 10, SeqRetrans), (40, 20, SeqDiscontinuous), (10, 21, SeqError),
     (29, 5, SeqError), (10, 20, SeqRetrans), (31, 4, SeqDiscontinuous), (30, 1, SeqBothContinuous),
     (35, 2, SeqContinuous), (39, 1, SeqContinuous), (38, 7, SeqError), (10, 28, SeqError),
     (35, 5, SeqError), (5, 5, SeqContinuous), (1, 3, SeqDiscontinuous)]"

fun replay :: "(u32 \<times> u16 \<times> 'a) list \<Rightarrow> seq_state \<Rightarrow> (packet_seq_type list \<times> seq_state) may_panic" where
  "replay [] p = Some ([], p)"
| "replay ((q, n, _) # ps) p = do {
     (r, p) \<leftarrow> assert_seq_number (data_packet q) n p;
     (rs, p) \<leftarrow> replay ps p;
     Some (r # rs, p) }"

text \<open>
  The test and the code disagree on four packets, which start in a tracked segment and reach
  beyond its end: the test expects \<^verbatim>\<open>Error\<close>, but \<^verbatim>\<open>is_retrans_segment\<close> is asked
  before \<^verbatim>\<open>is_error_segment\<close> and looks at the first byte only, so that they are
  retransmissions.  Both leave the segments as the test expects them at its end.
\<close>

lemma session_peer_test:
  "map_option (\<lambda>(rs, p). (filter (\<lambda>((q, n, expected), r). expected \<noteq> r) (zip test_packets rs), segs p))
     (replay test_packets fresh_seqs) =
   Some ([((10, 21, SeqError), SeqRetrans), ((29, 5, SeqError), SeqRetrans),
          ((10, 28, SeqError), SeqRetrans), ((35, 5, SeqError), SeqRetrans)],
     [\<lparr>seg_seq = 39, seg_len = 21\<rparr>, \<lparr>seg_seq = 5, seg_len = 32\<rparr>, \<lparr>seg_seq = 1, seg_len = 3\<rparr>])"
  by code_simp
definition holed_seqs :: seq_state where
  "holed_seqs = \<lparr>seq_list = [\<lparr>seg_seq = 2000, seg_len = 100\<rparr>, \<lparr>seg_seq = 1000, seg_len = 100\<rparr>]
     @ replicate 14 default_segment, seq_list_len = 2\<rparr>"

definition two_events :: "seq_event list" where
  "two_events = [(data_packet 1000, 100, SeqNotCare), (data_packet 1100, 50, SeqContinuous)]"

definition two_seqs :: seq_state where
  "two_seqs = \<lparr>seq_list = \<lparr>seg_seq = 1000, seg_len = 150\<rparr> # replicate 15 default_segment,
     seq_list_len = 1\<rparr>"

lemma two_seqs_run: "run seq_step fresh_seqs two_events two_seqs"
proof -
  have 1: "assert_seq_number (data_packet 1000) 100 fresh_seqs =
    Some (SeqNotCare, two_seqs\<lparr>seq_list := (seq_list two_seqs)[0 := \<lparr>seg_seq = 1000, seg_len = 100\<rparr>]\<rparr>)"
    by code_simp
  have 2: "assert_seq_number (data_packet 1100) 50
     (two_seqs\<lparr>seq_list := (seq_list two_seqs)[0 := \<lparr>seg_seq = 1000, seg_len = 100\<rparr>]\<rparr>) =
    Some (SeqContinuous, two_seqs)"
    by code_simp
  from 1 2 show ?thesis by (auto simp: two_events_def run_Cons_iff seq_step_def)
qed

theorem assert_seq_number_total_witness:
  "\<exists>r q'. assert_seq_number (data_packet 1050) 10 two_seqs = Some (r, q') \<and> seq_list_len q' \<le> 15
     \<and> (r, segs q') = observe (data_packet 1050) 10 (segs two_seqs) \<and> tracked_wf (segs q')"
  by (rule assert_seq_number_total [OF _ two_seqs_run]) (simp add: seq_fresh_def fresh_seqs_def)

theorem retransmission_sound_witness:
  "assert_seq_number (data_packet 1050) 10 two_seqs = Some (SeqRetrans, two_seqs)
    \<and> (\<exists>(h', n', r') \<in> set two_events. unat (th_seq (data_packet 1050)) \<in> packet_bytes h' n')"
proof -
  have a: "assert_seq_number (data_packet 1050) 10 two_seqs = Some (SeqRetrans, two_seqs)"
    by code_simp
  have "seq_fresh fresh_seqs" "no_merge two_events"
    by (simp_all add: seq_fresh_def fresh_seqs_def no_merge_def two_events_def)
  from retransmission_sound [OF this(1) two_seqs_run this(2) a] a show ?thesis by blast
qed

theorem tracked_bytes_grow_witness:
  "\<exists>q'. assert_seq_number (data_packet 1200) 10 two_seqs = Some (SeqDiscontinuous, q')
     \<and> tracked (segs q') = tracked (segs two_seqs) \<union> packet_bytes (data_packet 1200) 10"
proof -
  let ?q = "two_seqs\<lparr>seq_list := \<lparr>seg_seq = 1200, seg_len = 10\<rparr> # \<lparr>seg_seq = 1000, seg_len = 150\<rparr>
     # replicate 14 default_segment, seq_list_len := 2\<rparr>"
  have a: "assert_seq_number (data_packet 1200) 10 two_seqs = Some (SeqDiscontinuous, ?q)"
    by code_simp
  have "tracked (segs ?q) = tracked (segs two_seqs) \<union> packet_bytes (data_packet 1200) 10"
    by (rule tracked_bytes_grow [OF _ two_seqs_run a]) (simp_all add: seq_fresh_def fresh_seqs_def)
  with a show ?thesis by blast
qed

theorem retransmission_exact_witness:
  "(\<exists>p'. assert_seq_number (data_packet 2000) 100 holed_seqs = Some (SeqDiscontinuous, p'))
    \<and> (SeqDiscontinuous = SeqRetrans \<longleftrightarrow> unat (th_seq (data_packet 2000)) \<in> tracked (segs holed_seqs)
     \<and> (\<forall>s \<in> set (butlast (segs holed_seqs)). seg_seq s \<noteq> th_seq (data_packet 2000)))"
proof -
  have a: "assert_seq_number (data_packet 2000) 100 holed_seqs = Some (SeqDiscontinuous,
    holed_seqs\<lparr>seq_list := \<lparr>seg_seq = 2000, seg_len = 100\<rparr> # \<lparr>seg_seq = 2000, seg_len = 100\<rparr>
     # \<lparr>seg_seq = 1000, seg_len = 100\<rparr> # replicate 13 default_segment, seq_list_len := 3\<rparr>)"
    by code_simp
  have "SeqDiscontinuous = SeqRetrans \<longleftrightarrow> unat (th_seq (data_packet 2000)) \<in> tracked (segs holed_seqs)
     \<and> (\<forall>s \<in> set (butlast (segs holed_seqs)). seg_seq s \<noteq> th_seq (data_packet 2000))"
  proof (rule retransmission_exact [OF _ _ _ _ a])
    show "seq_shape holed_seqs" by code_simp
    show "tracked_wf (segs holed_seqs)"
      by (simp add: tracked_wf_def holed_seqs_def segs_def seg_ok_def seg_le_def seg_limit_def)
    show "segs_disjoint (segs holed_seqs)"
      by (simp add: segs_disjoint_def holed_seqs_def segs_def seg_limit_def)
    show "tracking_admits (data_packet 2000) 100 (segs holed_seqs)" by code_simp
  qed
  with a show ?thesis by blast
qed

end
