(* ===== verification/Merging.thy ===== *)
theory Merging
  imports Rust_Prelude "HOL-Library.Multiset"
begin

section \<open>Counters that are merged\<close>

text \<open>
  The statistics of the agent are collected piecewise (per second, per thread, per
  direction) and brought together by methods called \<^verbatim>\<open>sequential_merge\<close>, which add counters
  and keep maxima.  The locale states the contract such a merge has when the result does
  not depend on the order or the grouping of the pieces; the theories of the counters
  interpret it on their merge functions.
\<close>

text \<open>\<^verbatim>\<open>if self.x < other.x { self.x = other.x }\<close>\<close>

definition raise_to :: "'a::linorder \<Rightarrow> 'a \<Rightarrow> 'a" where
  "raise_to a b = (if a < b then b else a)"

lemma raise_to_max [simp]: "raise_to a b = max a b"
  by (auto simp: raise_to_def max_def)

lemma max_word_zero [simp]: "max a 0 = a" "max 0 a = a" for a :: "'a::len word"
  by (simp_all add: max_def)

lemmas merge_ac = add.assoc add.commute add.left_commute max.assoc max.commute max.left_commute

locale mergeable =
  fixes merge :: "'a \<Rightarrow> 'a \<Rightarrow> 'a"
    and zero :: 'a
  assumes merge_assoc: "merge (merge a b) c = merge a (merge b c)"
    and merge_commute: "merge a b = merge b a"
    and merge_zero: "merge a zero = a"
begin

lemma merge_zero_left: "merge zero a = a"
  using merge_commute merge_zero by metis

lemma merge_left_commute: "merge a (merge b c) = merge b (merge a c)"
  using merge_assoc merge_commute by metis

lemmas merge_laws = merge_assoc merge_commute merge_left_commute merge_zero merge_zero_left

lemma foldl_acc: "foldl merge a xs = merge a (foldl merge zero xs)"
proof (induction xs arbitrary: a)
  case (Cons x xs)
  have "foldl merge a (x # xs) = merge a (merge x (foldl merge zero xs))"
    by (simp add: Cons [of "merge a x"] merge_assoc)
  also have "merge x (foldl merge zero xs) = foldl merge zero (x # xs)"
    using Cons [of x] by (simp add: merge_zero_left)
  finally show ?case .
qed (simp add: merge_zero)

text \<open>Merging in batches is merging one by one.\<close>

lemma foldl_append: "foldl merge zero (xs @ ys) = merge (foldl merge zero xs) (foldl merge zero ys)"
  using foldl_acc [of "foldl merge zero xs" ys] by simp

lemma foldl_batches:
  "foldl merge zero (concat xss) = foldl merge zero (map (foldl merge zero) xss)"
proof (induction xss rule: rev_induct)
  case (snoc xs xss)
  have "foldl merge zero (concat (xss @ [xs])) = merge (foldl merge zero (concat xss)) (foldl merge zero xs)"
    by (simp only: concat_append concat.simps append_Nil2 foldl_append)
  also have "\<dots> = foldl merge zero (map (foldl merge zero) (xss @ [xs]))"
    by (simp add: snoc)
  finally show ?case .
qed simp

lemma foldl_remove1:
  "x \<in> set xs \<Longrightarrow> foldl merge zero xs = merge x (foldl merge zero (remove1 x xs))"
proof (induction xs)
  case (Cons y xs)
  have step: "foldl merge zero (y # zs) = merge y (foldl merge zero zs)" for zs
    using foldl_acc [of y zs] by (simp add: merge_zero_left)
  show ?case
  proof (cases "x = y")
    case True
    then show ?thesis unfolding step by simp
  next
    case False
    with Cons show ?thesis unfolding step by (simp add: step merge_left_commute del: foldl.simps)
  qed
qed simp

text \<open>The order of the pieces does not matter.\<close>

lemma foldl_order: "mset xs = mset ys \<Longrightarrow> foldl merge zero xs = foldl merge zero ys"
proof (induction xs arbitrary: ys)
  case (Cons x xs)
  have x: "x \<in> set ys" "mset xs = mset (remove1 x ys)"
    using Cons.prems by (metis list.set_intros(1) set_mset_mset, simp flip: Cons.prems)
  have "foldl merge zero (x # xs) = merge x (foldl merge zero xs)"
    using foldl_acc [of x xs] by (simp add: merge_zero_left)
  also have "\<dots> = merge x (foldl merge zero (remove1 x ys))" using Cons.IH [OF x(2)] by simp
  also have "\<dots> = foldl merge zero ys" using foldl_remove1 [OF x(1)] by simp
  finally show ?case .
qed simp

end

end
