(* ===== verification/Meters.thy ===== *)
theory Meters
  imports Merging
begin

section \<open>Meters\<close>

text \<open>
  \<^verbatim>\<open>agent/src/metric/meter.rs\<close>: the counters of a document, with the merge of two
  documents of the same second and the swap of the directions.  The conversions to the
  generated protocol buffer types are not modelled.
\<close>

subsection \<open>The parts of a flow meter\<close>

record traffic =
  tr_packet_tx :: u64
  tr_packet_rx :: u64
  tr_byte_tx :: u64
  tr_byte_rx :: u64
  tr_l3_byte_tx :: u64
  tr_l3_byte_rx :: u64
  tr_l4_byte_tx :: u64
  tr_l4_byte_rx :: u64
  tr_new_flow :: u64
  tr_closed_flow :: u64
  tr_l7_request :: u32
  tr_l7_response :: u32
  tr_syn :: u32
  tr_synack :: u32
  tr_direction_score :: u8

definition traffic_merge :: "traffic \<Rightarrow> traffic \<Rightarrow> traffic" where
  "traffic_merge a b =
     \<lparr>tr_packet_tx = tr_packet_tx a + tr_packet_tx b,
      tr_packet_rx = tr_packet_rx a + tr_packet_rx b, tr_byte_tx = tr_byte_tx a + tr_byte_tx b,
      tr_byte_rx = tr_byte_rx a + tr_byte_rx b,
      tr_l3_byte_tx = tr_l3_byte_tx a + tr_l3_byte_tx b,
      tr_l3_byte_rx = tr_l3_byte_rx a + tr_l3_byte_rx b,
      tr_l4_byte_tx = tr_l4_byte_tx a + tr_l4_byte_tx b,
      tr_l4_byte_rx = tr_l4_byte_rx a + tr_l4_byte_rx b,
      tr_new_flow = tr_new_flow a + tr_new_flow b,
      tr_closed_flow = tr_closed_flow a + tr_closed_flow b,
      tr_l7_request = tr_l7_request a + tr_l7_request b,
      tr_l7_response = tr_l7_response a + tr_l7_response b, tr_syn = tr_syn a + tr_syn b,
      tr_synack = tr_synack a + tr_synack b,
      tr_direction_score = max (tr_direction_score a) (tr_direction_score b)\<rparr>"

definition default_traffic :: traffic where
  "default_traffic =
     \<lparr>tr_packet_tx = 0, tr_packet_rx = 0, tr_byte_tx = 0, tr_byte_rx = 0,
      tr_l3_byte_tx = 0, tr_l3_byte_rx = 0, tr_l4_byte_tx = 0, tr_l4_byte_rx = 0,
      tr_new_flow = 0, tr_closed_flow = 0, tr_l7_request = 0, tr_l7_response = 0, tr_syn = 0,
      tr_synack = 0, tr_direction_score = 0\<rparr>"

definition traffic_reverse :: "traffic \<Rightarrow> traffic" where
  "traffic_reverse a = a
     \<lparr>tr_packet_tx := tr_packet_rx a, tr_packet_rx := tr_packet_tx a,
      tr_byte_tx := tr_byte_rx a, tr_byte_rx := tr_byte_tx a, tr_l3_byte_tx := tr_l3_byte_rx a,
      tr_l3_byte_rx := tr_l3_byte_tx a, tr_l4_byte_tx := tr_l4_byte_rx a,
      tr_l4_byte_rx := tr_l4_byte_tx a, tr_direction_score := 0\<rparr>"

record latency =
  la_rtt_max :: u32
  la_rtt_client_max :: u32
  la_rtt_server_max :: u32
  la_srt_max :: u32
  la_art_max :: u32
  la_rrt_max :: u32
  la_cit_max :: u32
  la_tls_rtt_max :: u32
  la_rtt_sum :: u64
  la_rtt_client_sum :: u64
  la_rtt_server_sum :: u64
  la_srt_sum :: u64
  la_art_sum :: u64
  la_rrt_sum :: u64
  la_cit_sum :: u64
  la_tls_rtt_sum :: u64
  la_rtt_count :: u32
  la_rtt_client_count :: u32
  la_rtt_server_count :: u32
  la_srt_count :: u32
  la_art_count :: u32
  la_rrt_count :: u32
  la_cit_count :: u32
  la_tls_rtt_count :: u32

definition latency_merge :: "latency \<Rightarrow> latency \<Rightarrow> latency" where
  "latency_merge a b =
     \<lparr>la_rtt_max = raise_to (la_rtt_max a) (la_rtt_max b),
      la_rtt_client_max = raise_to (la_rtt_client_max a) (la_rtt_client_max b),
      la_rtt_server_max = raise_to (la_rtt_server_max a) (la_rtt_server_max b),
      la_srt_max = raise_to (la_srt_max a) (la_srt_max b),
      la_art_max = raise_to (la_art_max a) (la_art_max b),
      la_rrt_max = raise_to (la_rrt_max a) (la_rrt_max b),
      la_cit_max = raise_to (la_cit_max a) (la_cit_max b),
      la_tls_rtt_max = raise_to (la_tls_rtt_max a) (la_tls_rtt_max b),
      la_rtt_sum = la_rtt_sum a + la_rtt_sum b,
      la_rtt_client_sum = la_rtt_client_sum a + la_rtt_client_sum b,
      la_rtt_server_sum = la_rtt_server_sum a + la_rtt_server_sum b,
      la_srt_sum = la_srt_sum a + la_srt_sum b, la_art_sum = la_art_sum a + la_art_sum b,
      la_rrt_sum = la_rrt_sum a + la_rrt_sum b, la_cit_sum = la_cit_sum a + la_cit_sum b,
      la_tls_rtt_sum = la_tls_rtt_sum a + la_tls_rtt_sum b,
      la_rtt_count = la_rtt_count a + la_rtt_count b,
      la_rtt_client_count = la_rtt_client_count a + la_rtt_client_count b,
      la_rtt_server_count = la_rtt_server_count a + la_rtt_server_count b,
      la_srt_count = la_srt_count a + la_srt_count b,
      la_art_count = la_art_count a + la_art_count b,
      la_rrt_count = la_rrt_count a + la_rrt_count b,
      la_cit_count = la_cit_count a + la_cit_count b,
      la_tls_rtt_count = la_tls_rtt_count a + la_tls_rtt_count b\<rparr>"

definition default_latency :: latency where
  "default_latency =
     \<lparr>la_rtt_max = 0, la_rtt_client_max = 0, la_rtt_server_max = 0, la_srt_max = 0,
      la_art_max = 0, la_rrt_max = 0, la_cit_max = 0, la_tls_rtt_max = 0, la_rtt_sum = 0,
      la_rtt_client_sum = 0, la_rtt_server_sum = 0, la_srt_sum = 0, la_art_sum = 0,
      la_rrt_sum = 0, la_cit_sum = 0, la_tls_rtt_sum = 0, la_rtt_count = 0,
      la_rtt_client_count = 0, la_rtt_server_count = 0, la_srt_count = 0, la_art_count = 0,
      la_rrt_count = 0, la_cit_count = 0, la_tls_rtt_count = 0\<rparr>"

record performance =
  pf_retrans_tx :: u64
  pf_retrans_rx :: u64
  pf_zero_win_tx :: u64
  pf_zero_win_rx :: u64
  pf_retrans_syn :: u32
  pf_retrans_synack :: u32

definition performance_merge :: "performance \<Rightarrow> performance \<Rightarrow> performance" where
  "performance_merge a b =
     \<lparr>pf_retrans_tx = pf_retrans_tx a + pf_retrans_tx b,
      pf_retrans_rx = pf_retrans_rx a + pf_retrans_rx b,
      pf_zero_win_tx = pf_zero_win_tx a + pf_zero_win_tx b,
      pf_zero_win_rx = pf_zero_win_rx a + pf_zero_win_rx b,
      pf_retrans_syn = pf_retrans_syn a + pf_retrans_syn b,
      pf_retrans_synack = pf_retrans_synack a + pf_retrans_synack b\<rparr>"

definition default_performance :: performance where
  "default_performance =
     \<lparr>pf_retrans_tx = 0, pf_retrans_rx = 0, pf_zero_win_tx = 0, pf_zero_win_rx = 0,
      pf_retrans_syn = 0, pf_retrans_synack = 0\<rparr>"

record anomaly =
  an_client_rst_flow :: u64
  an_server_rst_flow :: u64
  an_client_ack_miss :: u64
  an_server_syn_miss :: u64
  an_client_half_close_flow :: u64
  an_server_half_close_flow :: u64
  an_client_source_port_reuse :: u64
  an_client_establish_reset :: u64
  an_server_reset :: u64
  an_server_queue_lack :: u64
  an_server_establish_reset :: u64
  an_tcp_timeout :: u64
  an_l7_client_error :: u32
  an_l7_server_error :: u32
  an_l7_timeout :: u32

definition anomaly_merge :: "anomaly \<Rightarrow> anomaly \<Rightarrow> anomaly" where
  "anomaly_merge a b =
     \<lparr>an_client_rst_flow = an_client_rst_flow a + an_client_rst_flow b,
      an_server_rst_flow = an_server_rst_flow a + an_server_rst_flow b,
      an_client_ack_miss = an_client_ack_miss a + an_client_ack_miss b,
      an_server_syn_miss = an_server_syn_miss a + an_server_syn_miss b,
      an_client_half_close_flow = an_client_half_close_flow a + an_client_half_close_flow b,
      an_server_half_close_flow = an_server_half_close_flow a + an_server_half_close_flow b,
      an_client_source_port_reuse = an_client_source_port_reuse a + an_client_source_port_reuse b,
      an_client_establish_reset = an_client_establish_reset a + an_client_establish_reset b,
      an_server_reset = an_server_reset a + an_server_reset b,
      an_server_queue_lack = an_server_queue_lack a + an_server_queue_lack b,
      an_server_establish_reset = an_server_establish_reset a + an_server_establish_reset b,
      an_tcp_timeout = an_tcp_timeout a + an_tcp_timeout b,
      an_l7_client_error = an_l7_client_error a + an_l7_client_error b,
      an_l7_server_error = an_l7_server_error a + an_l7_server_error b,
      an_l7_timeout = an_l7_timeout a + an_l7_timeout b\<rparr>"

definition default_anomaly :: anomaly where
  "default_anomaly =
     \<lparr>an_client_rst_flow = 0, an_server_rst_flow = 0, an_client_ack_miss = 0,
      an_server_syn_miss = 0, an_client_half_close_flow = 0, an_server_half_close_flow = 0,
      an_client_source_port_reuse = 0, an_client_establish_reset = 0, an_server_reset = 0,
      an_server_queue_lack = 0, an_server_establish_reset = 0, an_tcp_timeout = 0,
      an_l7_client_error = 0, an_l7_server_error = 0, an_l7_timeout = 0\<rparr>"

record flow_load =
  fl_load :: u64
  fl_flow_count :: u64

definition default_flow_load :: flow_load where
  "default_flow_load =
     \<lparr>fl_load = 0, fl_flow_count = 0\<rparr>"

text \<open>The load of a second counts the flows open at its start and those opened in it.\<close>

definition flow_load_merge :: "flow_load \<Rightarrow> traffic \<Rightarrow> flow_load" where
  "flow_load_merge a t =
     (let load = fl_flow_count a + tr_new_flow t
      in \<lparr>fl_load = load,
          fl_flow_count = (if load > tr_closed_flow t then load - tr_closed_flow t else 0)\<rparr>)"

record flow_meter =
  fm_traffic :: traffic
  fm_latency :: latency
  fm_performance :: performance
  fm_anomaly :: anomaly
  fm_flow_load :: flow_load

definition default_flow_meter :: flow_meter where
  "default_flow_meter =
     \<lparr>fm_traffic = default_traffic, fm_latency = default_latency,
      fm_performance = default_performance, fm_anomaly = default_anomaly,
      fm_flow_load = default_flow_load\<rparr>"

definition flow_meter_merge :: "flow_meter \<Rightarrow> flow_meter \<Rightarrow> flow_meter" where
  "flow_meter_merge a b =
     \<lparr>fm_traffic = traffic_merge (fm_traffic a) (fm_traffic b),
      fm_latency = latency_merge (fm_latency a) (fm_latency b),
      fm_performance = performance_merge (fm_performance a) (fm_performance b),
      fm_anomaly = anomaly_merge (fm_anomaly a) (fm_anomaly b),
      fm_flow_load = flow_load_merge (fm_flow_load a) (fm_traffic b)\<rparr>"

definition flow_meter_reverse :: "flow_meter \<Rightarrow> flow_meter" where
  "flow_meter_reverse a = a\<lparr>fm_traffic := traffic_reverse (fm_traffic a)\<rparr>"

subsection \<open>Application and usage meters\<close>

record app_traffic =
  at_request :: u32
  at_response :: u32
  at_direction_score :: u8

definition app_traffic_merge :: "app_traffic \<Rightarrow> app_traffic \<Rightarrow> app_traffic" where
  "app_traffic_merge a b =
     \<lparr>at_request = at_request a + at_request b,
      at_response = at_response a + at_response b,
      at_direction_score = max (at_direction_score a) (at_direction_score b)\<rparr>"

definition default_app_traffic :: app_traffic where
  "default_app_traffic =
     \<lparr>at_request = 0, at_response = 0, at_direction_score = 0\<rparr>"

definition app_traffic_reverse :: "app_traffic \<Rightarrow> app_traffic" where
  "app_traffic_reverse a = a
     \<lparr>at_request := at_response a, at_response := at_request a, at_direction_score := 0\<rparr>"

record app_latency =
  al_rrt_max :: u32
  al_rrt_sum :: u64
  al_rrt_count :: u32

definition app_latency_merge :: "app_latency \<Rightarrow> app_latency \<Rightarrow> app_latency" where
  "app_latency_merge a b =
     \<lparr>al_rrt_max = raise_to (al_rrt_max a) (al_rrt_max b),
      al_rrt_sum = al_rrt_sum a + al_rrt_sum b, al_rrt_count = al_rrt_count a + al_rrt_count b\<rparr>"

definition default_app_latency :: app_latency where
  "default_app_latency =
     \<lparr>al_rrt_max = 0, al_rrt_sum = 0, al_rrt_count = 0\<rparr>"

record app_anomaly =
  aa_client_error :: u32
  aa_server_error :: u32
  aa_timeout :: u32

definition app_anomaly_merge :: "app_anomaly \<Rightarrow> app_anomaly \<Rightarrow> app_anomaly" where
  "app_anomaly_merge a b =
     \<lparr>aa_client_error = aa_client_error a + aa_client_error b,
      aa_server_error = aa_server_error a + aa_server_error b,
      aa_timeout = aa_timeout a + aa_timeout b\<rparr>"

definition default_app_anomaly :: app_anomaly where
  "default_app_anomaly =
     \<lparr>aa_client_error = 0, aa_server_error = 0, aa_timeout = 0\<rparr>"

record app_meter =
  am_traffic :: app_traffic
  am_latency :: app_latency
  am_anomaly :: app_anomaly

definition default_app_meter :: app_meter where
  "default_app_meter =
     \<lparr>am_traffic = default_app_traffic, am_latency = default_app_latency,
      am_anomaly = default_app_anomaly\<rparr>"

definition app_meter_merge :: "app_meter \<Rightarrow> app_meter \<Rightarrow> app_meter" where
  "app_meter_merge a b =
     \<lparr>am_traffic = app_traffic_merge (am_traffic a) (am_traffic b),
      am_latency = app_latency_merge (am_latency a) (am_latency b),
      am_anomaly = app_anomaly_merge (am_anomaly a) (am_anomaly b)\<rparr>"

definition app_meter_reverse :: "app_meter \<Rightarrow> app_meter" where
  "app_meter_reverse a = a\<lparr>am_traffic := app_traffic_reverse (am_traffic a)\<rparr>"

record usage_meter =
  um_packet_tx :: u64
  um_packet_rx :: u64
  um_byte_tx :: u64
  um_byte_rx :: u64
  um_l3_byte_tx :: u64
  um_l3_byte_rx :: u64
  um_l4_byte_tx :: u64
  um_l4_byte_rx :: u64

definition usage_meter_merge :: "usage_meter \<Rightarrow> usage_meter \<Rightarrow> usage_meter" where
  "usage_meter_merge a b =
     \<lparr>um_packet_tx = um_packet_tx a + um_packet_tx b,
      um_packet_rx = um_packet_rx a + um_packet_rx b, um_byte_tx = um_byte_tx a + um_byte_tx b,
      um_byte_rx = um_byte_rx a + um_byte_rx b,
      um_l3_byte_tx = um_l3_byte_tx a + um_l3_byte_tx b,
      um_l3_byte_rx = um_l3_byte_rx a + um_l3_byte_rx b,
      um_l4_byte_tx = um_l4_byte_tx a + um_l4_byte_tx b,
      um_l4_byte_rx = um_l4_byte_rx a + um_l4_byte_rx b\<rparr>"

definition default_usage_meter :: usage_meter where
  "default_usage_meter =
     \<lparr>um_packet_tx = 0, um_packet_rx = 0, um_byte_tx = 0, um_byte_rx = 0,
      um_l3_byte_tx = 0, um_l3_byte_rx = 0, um_l4_byte_tx = 0, um_l4_byte_rx = 0\<rparr>"

definition usage_meter_reverse :: "usage_meter \<Rightarrow> usage_meter" where
  "usage_meter_reverse a = a
     \<lparr>um_packet_tx := um_packet_rx a, um_packet_rx := um_packet_tx a,
      um_byte_tx := um_byte_rx a, um_byte_rx := um_byte_tx a, um_l3_byte_tx := um_l3_byte_rx a,
      um_l3_byte_rx := um_l3_byte_tx a, um_l4_byte_tx := um_l4_byte_rx a,
      um_l4_byte_rx := um_l4_byte_tx a\<rparr>"

subsection \<open>Meters of the three kinds\<close>

datatype meter = MFlow flow_meter | MApp app_meter | MUsage usage_meter

fun meter_merge :: "meter \<Rightarrow> meter \<Rightarrow> meter may_panic" where
  "meter_merge (MFlow m) (MFlow n) = Some (MFlow (flow_meter_merge m n))"
| "meter_merge (MApp m) (MApp n) = Some (MApp (app_meter_merge m n))"
| "meter_merge (MUsage m) (MUsage n) = Some (MUsage (usage_meter_merge m n))"
| "meter_merge _ _ = None"

fun meter_reverse :: "meter \<Rightarrow> meter" where
  "meter_reverse (MFlow m) = MFlow (flow_meter_reverse m)"
| "meter_reverse (MApp m) = MApp (app_meter_reverse m)"
| "meter_reverse (MUsage m) = MUsage (usage_meter_reverse m)"

subsection \<open>The merges meet the contract\<close>

interpretation traffics: mergeable traffic_merge default_traffic
  by unfold_locales (simp_all add: traffic_merge_def default_traffic_def merge_ac)

interpretation latencies: mergeable latency_merge default_latency
  by unfold_locales (simp_all add: latency_merge_def default_latency_def merge_ac)

interpretation performances: mergeable performance_merge default_performance
  by unfold_locales (simp_all add: performance_merge_def default_performance_def merge_ac)

interpretation anomalies: mergeable anomaly_merge default_anomaly
  by unfold_locales (simp_all add: anomaly_merge_def default_anomaly_def merge_ac)

interpretation app_traffics: mergeable app_traffic_merge default_app_traffic
  by unfold_locales (simp_all add: app_traffic_merge_def default_app_traffic_def merge_ac)

interpretation app_latencies: mergeable app_latency_merge default_app_latency
  by unfold_locales (simp_all add: app_latency_merge_def default_app_latency_def merge_ac)

interpretation app_anomalies: mergeable app_anomaly_merge default_app_anomaly
  by unfold_locales (simp_all add: app_anomaly_merge_def default_app_anomaly_def merge_ac)

interpretation usage_meters: mergeable usage_meter_merge default_usage_meter
  by unfold_locales (simp_all add: usage_meter_merge_def default_usage_meter_def merge_ac)

interpretation app_meters: mergeable app_meter_merge default_app_meter
  by unfold_locales
    (simp_all add: app_meter_merge_def default_app_meter_def app_traffics.merge_laws
      app_latencies.merge_laws app_anomalies.merge_laws)

subsection \<open>Properties\<close>

lemma flow_meter_foldl:
  "fm_traffic (foldl flow_meter_merge a ms) = foldl traffic_merge (fm_traffic a) (map fm_traffic ms)"
  "fm_latency (foldl flow_meter_merge a ms) = foldl latency_merge (fm_latency a) (map fm_latency ms)"
  "fm_performance (foldl flow_meter_merge a ms)
     = foldl performance_merge (fm_performance a) (map fm_performance ms)"
  "fm_anomaly (foldl flow_meter_merge a ms) = foldl anomaly_merge (fm_anomaly a) (map fm_anomaly ms)"
  "fm_flow_load (foldl flow_meter_merge a ms)
     = foldl flow_load_merge (fm_flow_load a) (map fm_traffic ms)"
  by (induction ms arbitrary: a) (simp_all add: flow_meter_merge_def)

text \<open>
  The order in which the meters of a key are merged does not matter: two sequences
  with the same meters give the same application meter, the same usage meter, and flow
  meters with the same traffic, latency, performance and anomaly counters (the load, which
  follows the order of the seconds, apart).
\<close>

theorem meter_merge_order:
  assumes "mset as = mset as'" "mset us = mset us'" "mset fs = mset fs'"
    and "m = foldl flow_meter_merge default_flow_meter fs"
    and "m' = foldl flow_meter_merge default_flow_meter fs'"
  shows "foldl app_meter_merge default_app_meter as = foldl app_meter_merge default_app_meter as'
       \<and> foldl usage_meter_merge default_usage_meter us
         = foldl usage_meter_merge default_usage_meter us'
       \<and> fm_traffic m = fm_traffic m' \<and> fm_latency m = fm_latency m'
       \<and> fm_performance m = fm_performance m' \<and> fm_anomaly m = fm_anomaly m'"
proof -
  have map: "mset (map f fs) = mset (map f fs')" for f :: "flow_meter \<Rightarrow> 'b"
    using assms(3) by simp
  have def_sel: "fm_traffic default_flow_meter = default_traffic"
    "fm_latency default_flow_meter = default_latency"
    "fm_performance default_flow_meter = default_performance"
    "fm_anomaly default_flow_meter = default_anomaly"
    by (simp_all add: default_flow_meter_def)
  show ?thesis
    unfolding assms(4,5) flow_meter_foldl def_sel
    by (intro conjI traffics.foldl_order latencies.foldl_order performances.foldl_order
        anomalies.foldl_order app_meters.foldl_order usage_meters.foldl_order map assms)
qed

definition opened :: "traffic list \<Rightarrow> nat" where
  "opened ts = (\<Sum>t \<leftarrow> ts. unat (tr_new_flow t))"

definition closed :: "traffic list \<Rightarrow> nat" where
  "closed ts = (\<Sum>t \<leftarrow> ts. unat (tr_closed_flow t))"

text \<open>No prefix of the seconds closes more flows than it opens.\<close>

definition balanced :: "traffic list \<Rightarrow> bool" where
  "balanced ts \<longleftrightarrow> (\<forall>n \<le> length ts. closed (take n ts) \<le> opened (take n ts))"

lemma opened_closed_simps [simp]:
  "opened [] = 0" "closed [] = 0"
  "opened (ts @ [t]) = opened ts + unat (tr_new_flow t)"
  "closed (ts @ [t]) = closed ts + unat (tr_closed_flow t)"
  by (simp_all add: opened_def closed_def)

lemma balanced_snoc:
  "balanced (ts @ [t]) \<longleftrightarrow> balanced ts
    \<and> closed ts + unat (tr_closed_flow t) \<le> opened ts + unat (tr_new_flow t)"
  by (auto simp: balanced_def le_Suc_eq)

lemma balanced_le: "balanced ts \<Longrightarrow> closed ts \<le> opened ts"
  by (auto simp: balanced_def)

lemma flow_load_step:
  assumes "unat (fl_flow_count l) + unat (tr_new_flow t) < 2 ^ 64"
    and "unat (tr_closed_flow t) \<le> unat (fl_flow_count l) + unat (tr_new_flow t)"
  shows "unat (fl_load (flow_load_merge l t)) = unat (fl_flow_count l) + unat (tr_new_flow t)"
    and "unat (fl_flow_count (flow_load_merge l t))
      = unat (fl_flow_count l) + unat (tr_new_flow t) - unat (tr_closed_flow t)"
proof -
  have load: "unat (fl_flow_count l + tr_new_flow t) = unat (fl_flow_count l) + unat (tr_new_flow t)"
    using assms(1) by (intro unat_add_exact) simp
  then show "unat (fl_load (flow_load_merge l t)) = unat (fl_flow_count l) + unat (tr_new_flow t)"
    by (simp add: flow_load_merge_def Let_def)
  show "unat (fl_flow_count (flow_load_merge l t))
      = unat (fl_flow_count l) + unat (tr_new_flow t) - unat (tr_closed_flow t)"
    using load unat_sub_exact [of "tr_closed_flow t" "fl_flow_count l + tr_new_flow t"]
    by (auto simp: flow_load_merge_def Let_def word_less_nat_alt word_le_nat_alt not_less)
qed

lemma flow_load_counts:
  assumes "opened ts < 2 ^ 64" "balanced ts"
  shows "unat (fl_flow_count (foldl flow_load_merge default_flow_load ts)) = opened ts - closed ts"
  using assms
proof (induction ts rule: rev_induct)
  case Nil
  then show ?case by (simp add: default_flow_load_def)
next
  case (snoc t ts)
  let ?l = "foldl flow_load_merge default_flow_load ts"
  have IH: "unat (fl_flow_count ?l) = opened ts - closed ts"
    using snoc by (simp add: balanced_snoc)
  have c: "closed ts \<le> opened ts"
    using snoc.prems(2) by (simp add: balanced_snoc balanced_le)
  have "unat (fl_flow_count (flow_load_merge ?l t))
    = unat (fl_flow_count ?l) + unat (tr_new_flow t) - unat (tr_closed_flow t)"
    using snoc.prems IH c by (intro flow_load_step) (auto simp: balanced_snoc)
  then show ?case using IH c by simp
qed

text \<open>
  The load of the flow meter follows the number of open flows: when in every prefix of
  the seconds no more flows were closed than opened and the total fits 64 bits, then after
  merging the seconds one by one the flow count is the number of flows opened minus the
  number closed, and the load of the last second is the flows open before it plus those
  it opened.
\<close>

theorem flow_load_tracks_open_flows:
  assumes "opened (ts @ [t]) < 2 ^ 64" "balanced (ts @ [t])"
    and "l = foldl flow_load_merge default_flow_load (ts @ [t])"
  shows "unat (fl_flow_count l) = opened (ts @ [t]) - closed (ts @ [t])
      \<and> unat (fl_load l) = opened ts - closed ts + unat (tr_new_flow t)"
proof -
  let ?l = "foldl flow_load_merge default_flow_load ts"
  have l: "unat (fl_flow_count ?l) = opened ts - closed ts"
    using assms(1,2) by (intro flow_load_counts) (simp_all add: balanced_snoc)
  have "closed ts \<le> opened ts" using assms(2) by (simp add: balanced_snoc balanced_le)
  with l assms(1,2) flow_load_step(1) [of ?l t] have
    "unat (fl_load (flow_load_merge ?l t)) = unat (fl_flow_count ?l) + unat (tr_new_flow t)"
    by (auto simp: balanced_snoc)
  with l flow_load_counts [OF assms(1,2)] show ?thesis by (simp add: assms(3))
qed

theorem flow_load_tracks_open_flows_witness:
  "let t1 = default_traffic\<lparr>tr_new_flow := 5, tr_closed_flow := 2\<rparr>;
       t2 = default_traffic\<lparr>tr_new_flow := 4, tr_closed_flow := 6\<rparr>;
       l = foldl flow_load_merge default_flow_load ([t1] @ [t2])
   in unat (fl_flow_count l) = opened ([t1] @ [t2]) - closed ([t1] @ [t2])
      \<and> unat (fl_load l) = opened [t1] - closed [t1] + unat (tr_new_flow t2)"
  unfolding Let_def
  by (rule flow_load_tracks_open_flows)
    (simp_all add: balanced_def opened_def closed_def le_Suc_eq default_traffic_def)

theorem meter_merge_order_witness:
  "let u = default_usage_meter\<lparr>um_packet_tx := 3\<rparr>; v = default_usage_meter\<lparr>um_byte_rx := 7\<rparr>;
       f = default_flow_meter; g = f\<lparr>fm_traffic := default_traffic\<lparr>tr_new_flow := 1\<rparr>\<rparr>;
       m = foldl flow_meter_merge default_flow_meter [f, g];
       m' = foldl flow_meter_merge default_flow_meter [g, f]
   in foldl app_meter_merge default_app_meter [] = foldl app_meter_merge default_app_meter []
      \<and> foldl usage_meter_merge default_usage_meter [u, v]
        = foldl usage_meter_merge default_usage_meter [v, u]
      \<and> fm_traffic m = fm_traffic m' \<and> fm_latency m = fm_latency m'
      \<and> fm_performance m = fm_performance m' \<and> fm_anomaly m = fm_anomaly m'"
  unfolding Let_def
  by (rule meter_merge_order [OF _ _ _ refl refl]) simp_all

text \<open>
  Swapping the directions and merging commute, and swapping twice restores everything but
  the direction score.
\<close>

lemma meter_reverse_laws:
  "traffic_reverse (traffic_merge a b) = traffic_merge (traffic_reverse a) (traffic_reverse b)"
  "traffic_reverse (traffic_reverse a) = a\<lparr>tr_direction_score := 0\<rparr>"
  "usage_meter_reverse (usage_meter_merge u v)
    = usage_meter_merge (usage_meter_reverse u) (usage_meter_reverse v)"
  "usage_meter_reverse (usage_meter_reverse u) = u"
  by (simp_all add: traffic_reverse_def traffic_merge_def usage_meter_reverse_def
      usage_meter_merge_def)

end
