(* ===== verification/Flow_Stats.thy ===== *)
theory Flow_Stats
  imports Merging Tcp_Flags Timestamps
begin

section \<open>Statistics of a flow\<close>

text \<open>
  The statistics of \<^verbatim>\<open>agent/src/common/flow.rs\<close>: the TCP performance counters, the
  application counters and the traffic of the two sides of a flow, with their merges and
  the swap of the two sides.  An array of two peers is a pair.  The hash map of the
  application counters is a map; a merge visits every key of the other map once, so its
  order does not matter and the model is pointwise.
\<close>

subsection \<open>TCP performance\<close>

record tcp_counts_peer =
  cp_retrans_count :: u32
  cp_zero_win_count :: u32

definition counts_peer_merge :: "tcp_counts_peer \<Rightarrow> tcp_counts_peer \<Rightarrow> tcp_counts_peer" where
  "counts_peer_merge a b =
     \<lparr>cp_retrans_count = cp_retrans_count a + cp_retrans_count b,
      cp_zero_win_count = cp_zero_win_count a + cp_zero_win_count b\<rparr>"

definition default_counts_peer :: tcp_counts_peer where
  "default_counts_peer =
     \<lparr>cp_retrans_count = 0, cp_zero_win_count = 0\<rparr>"

record tcp_perf_stats =
  tp_rtt_client_max :: u32
  tp_rtt_server_max :: u32
  tp_srt_max :: u32
  tp_art_max :: u32
  tp_cit_max :: u32
  tp_rtt :: u32
  tp_rtt_client_sum :: u32
  tp_rtt_server_sum :: u32
  tp_srt_sum :: u32
  tp_art_sum :: u32
  tp_cit_sum :: u32
  tp_rtt_client_count :: u32
  tp_rtt_server_count :: u32
  tp_srt_count :: u32
  tp_art_count :: u32
  tp_cit_count :: u32
  tp_syn_count :: u32
  tp_synack_count :: u32
  tp_retrans_syn_count :: u32
  tp_retrans_synack_count :: u32
  tp_counts_peers :: "tcp_counts_peer \<times> tcp_counts_peer"
  tp_total_retrans_count :: u32

definition tcp_stats_merge :: "tcp_perf_stats \<Rightarrow> tcp_perf_stats \<Rightarrow> tcp_perf_stats" where
  "tcp_stats_merge a b =
     \<lparr>tp_rtt_client_max = raise_to (tp_rtt_client_max a) (tp_rtt_client_max b),
      tp_rtt_server_max = raise_to (tp_rtt_server_max a) (tp_rtt_server_max b),
      tp_srt_max = raise_to (tp_srt_max a) (tp_srt_max b),
      tp_art_max = raise_to (tp_art_max a) (tp_art_max b),
      tp_cit_max = raise_to (tp_cit_max a) (tp_cit_max b),
      tp_rtt = raise_to (tp_rtt a) (tp_rtt b),
      tp_rtt_client_sum = tp_rtt_client_sum a + tp_rtt_client_sum b,
      tp_rtt_server_sum = tp_rtt_server_sum a + tp_rtt_server_sum b,
      tp_srt_sum = tp_srt_sum a + tp_srt_sum b, tp_art_sum = tp_art_sum a + tp_art_sum b,
      tp_cit_sum = tp_cit_sum a + tp_cit_sum b,
      tp_rtt_client_count = tp_rtt_client_count a + tp_rtt_client_count b,
      tp_rtt_server_count = tp_rtt_server_count a + tp_rtt_server_count b,
      tp_srt_count = tp_srt_count a + tp_srt_count b,
      tp_art_count = tp_art_count a + tp_art_count b,
      tp_cit_count = tp_cit_count a + tp_cit_count b,
      tp_syn_count = tp_syn_count a + tp_syn_count b,
      tp_synack_count = tp_synack_count a + tp_synack_count b,
      tp_retrans_syn_count = tp_retrans_syn_count a + tp_retrans_syn_count b,
      tp_retrans_synack_count = tp_retrans_synack_count a + tp_retrans_synack_count b,
      tp_counts_peers = (counts_peer_merge (fst (tp_counts_peers a)) (fst (tp_counts_peers b)),
        counts_peer_merge (snd (tp_counts_peers a)) (snd (tp_counts_peers b))),
      tp_total_retrans_count = tp_total_retrans_count a + tp_total_retrans_count b\<rparr>"

definition default_tcp_stats :: tcp_perf_stats where
  "default_tcp_stats =
     \<lparr>tp_rtt_client_max = 0, tp_rtt_server_max = 0, tp_srt_max = 0, tp_art_max = 0,
      tp_cit_max = 0, tp_rtt = 0, tp_rtt_client_sum = 0, tp_rtt_server_sum = 0, tp_srt_sum = 0,
      tp_art_sum = 0, tp_cit_sum = 0, tp_rtt_client_count = 0, tp_rtt_server_count = 0,
      tp_srt_count = 0, tp_art_count = 0, tp_cit_count = 0, tp_syn_count = 0,
      tp_synack_count = 0, tp_retrans_syn_count = 0, tp_retrans_synack_count = 0,
      tp_counts_peers = (default_counts_peer, default_counts_peer), tp_total_retrans_count = 0\<rparr>"

definition tcp_stats_reverse :: "tcp_perf_stats \<Rightarrow> tcp_perf_stats" where
  "tcp_stats_reverse a = a
     \<lparr>tp_rtt_client_sum := tp_rtt_server_sum a, tp_rtt_server_sum := tp_rtt_client_sum a,
      tp_rtt_client_count := tp_rtt_server_count a, tp_rtt_server_count := tp_rtt_client_count a,
      tp_counts_peers := prod.swap (tp_counts_peers a)\<rparr>"

subsection \<open>Application performance\<close>

record l7_perf_stats =
  l7_request_count :: u32
  l7_response_count :: u32
  l7_err_client_count :: u32
  l7_err_server_count :: u32
  l7_err_timeout :: u32
  l7_rrt_count :: u32
  l7_rrt_sum :: u64
  l7_rrt_max :: u32
  l7_tls_rtt :: u32

definition l7_stats_merge :: "l7_perf_stats \<Rightarrow> l7_perf_stats \<Rightarrow> l7_perf_stats" where
  "l7_stats_merge a b =
     \<lparr>l7_request_count = l7_request_count a + l7_request_count b,
      l7_response_count = l7_response_count a + l7_response_count b,
      l7_err_client_count = l7_err_client_count a + l7_err_client_count b,
      l7_err_server_count = l7_err_server_count a + l7_err_server_count b,
      l7_err_timeout = l7_err_timeout a + l7_err_timeout b,
      l7_rrt_count = l7_rrt_count a + l7_rrt_count b, l7_rrt_sum = l7_rrt_sum a + l7_rrt_sum b,
      l7_rrt_max = raise_to (l7_rrt_max a) (l7_rrt_max b),
      l7_tls_rtt = l7_tls_rtt a + l7_tls_rtt b\<rparr>"

definition default_l7_stats :: l7_perf_stats where
  "default_l7_stats =
     \<lparr>l7_request_count = 0, l7_response_count = 0, l7_err_client_count = 0,
      l7_err_server_count = 0, l7_err_timeout = 0, l7_rrt_count = 0, l7_rrt_sum = 0,
      l7_rrt_max = 0, l7_tls_rtt = 0\<rparr>"

definition merge_perf ::
  "u32 \<Rightarrow> u32 \<Rightarrow> u32 \<Rightarrow> u32 \<Rightarrow> u64 \<Rightarrow> u64 \<Rightarrow> l7_perf_stats \<Rightarrow> l7_perf_stats" where
  "merge_perf req_count resp_count req_err resp_err rrt tls_rtt s =
     (let s = s\<lparr>l7_request_count := l7_request_count s + req_count,
                l7_response_count := l7_response_count s + resp_count,
                l7_err_client_count := l7_err_client_count s + req_err,
                l7_err_server_count := l7_err_server_count s + resp_err\<rparr>;
          s = (if rrt \<noteq> 0
               then s\<lparr>l7_rrt_max := max (l7_rrt_max s) (ucast rrt),
                      l7_rrt_sum := l7_rrt_sum s + rrt,
                      l7_rrt_count := l7_rrt_count s + 1\<rparr>
               else s)
      in if tls_rtt \<noteq> 0 then s\<lparr>l7_tls_rtt := l7_tls_rtt s + ucast tls_rtt\<rparr> else s)"

definition inc_req :: "l7_perf_stats \<Rightarrow> l7_perf_stats" where
  "inc_req = merge_perf 1 0 0 0 0 0"

definition inc_resp :: "l7_perf_stats \<Rightarrow> l7_perf_stats" where
  "inc_resp = merge_perf 0 1 0 0 0 0"

definition inc_req_err :: "l7_perf_stats \<Rightarrow> l7_perf_stats" where
  "inc_req_err = merge_perf 0 0 1 0 0 0"

definition inc_resp_err :: "l7_perf_stats \<Rightarrow> l7_perf_stats" where
  "inc_resp_err = merge_perf 0 0 0 1 0 0"

definition update_rrt :: "u64 \<Rightarrow> l7_perf_stats \<Rightarrow> l7_perf_stats" where
  "update_rrt rrt = merge_perf 0 0 0 0 rrt 0"

definition update_tls_rtt :: "u64 \<Rightarrow> l7_perf_stats \<Rightarrow> l7_perf_stats" where
  "update_tls_rtt tls_rtt = merge_perf 0 0 0 0 0 tls_rtt"

subsection \<open>All statistics of a flow\<close>

datatype l4_protocol = L4Unknown | L4Tcp | L4Udp | L4Icmp

datatype l7_protocol =
  L7Unknown | L7Http1 | L7Http2 | L7Dubbo | L7Grpc | L7SofaRPC | L7FastCGI | L7Brpc | L7Tars
  | L7SomeIp | L7MySQL | L7PostgreSQL | L7Oracle | L7Redis | L7MongoDB | L7Memcached | L7Kafka
  | L7MQTT | L7AMQP | L7OpenWire | L7NATS | L7Pulsar | L7ZMTP | L7RocketMQ | L7DNS | L7TLS
  | L7Ping | L7Custom | L7Max

record l7_stats_key =
  lk_endpoint :: "string option"
  lk_time_span :: u32
  lk_biz_type :: u8

record flow_perf_stats =
  fp_tcp :: tcp_perf_stats
  fp_l7 :: "l7_stats_key \<rightharpoonup> l7_perf_stats"
  fp_l4_protocol :: l4_protocol
  fp_l7_protocol :: l7_protocol
  fp_l7_failed_count :: u32

definition default_flow_perf_stats :: flow_perf_stats where
  "default_flow_perf_stats =
     \<lparr>fp_tcp = default_tcp_stats, fp_l7 = Map.empty, fp_l4_protocol = L4Unknown,
      fp_l7_protocol = L7Unknown, fp_l7_failed_count = 0\<rparr>"

definition l7_map_merge ::
  "(l7_stats_key \<rightharpoonup> l7_perf_stats) \<Rightarrow> (l7_stats_key \<rightharpoonup> l7_perf_stats) \<Rightarrow>
   (l7_stats_key \<rightharpoonup> l7_perf_stats)" where
  "l7_map_merge m n = (\<lambda>k. case n k of
     None \<Rightarrow> m k
   | Some v \<Rightarrow> (case m k of Some l7 \<Rightarrow> Some (l7_stats_merge l7 v) | None \<Rightarrow> Some v))"

definition flow_perf_merge :: "flow_perf_stats \<Rightarrow> flow_perf_stats \<Rightarrow> flow_perf_stats" where
  "flow_perf_merge a b =
     \<lparr>fp_tcp = tcp_stats_merge (fp_tcp a) (fp_tcp b),
      fp_l7 = l7_map_merge (fp_l7 a) (fp_l7 b),
      fp_l4_protocol = (if fp_l4_protocol a = L4Unknown then fp_l4_protocol b else fp_l4_protocol a),
      fp_l7_protocol = (if fp_l7_protocol a = L7Unknown \<and> fp_l7_protocol b \<noteq> L7Unknown
                        then fp_l7_protocol b else fp_l7_protocol a),
      fp_l7_failed_count = max (fp_l7_failed_count a) (fp_l7_failed_count b)\<rparr>"

definition flow_perf_reverse :: "flow_perf_stats \<Rightarrow> flow_perf_stats" where
  "flow_perf_reverse a = a\<lparr>fp_tcp := tcp_stats_reverse (fp_tcp a)\<rparr>"

definition reset_on_plugin_reload :: "flow_perf_stats \<Rightarrow> flow_perf_stats" where
  "reset_on_plugin_reload a =
     (if fp_l7_protocol a = L7Custom
      then a\<lparr>fp_l7 := Map.empty, fp_l7_protocol := L7Unknown, fp_l7_failed_count := 0\<rparr> else a)"

subsection \<open>The merges meet the contract\<close>

interpretation counts_peers: mergeable counts_peer_merge default_counts_peer
  by unfold_locales (simp_all add: counts_peer_merge_def default_counts_peer_def merge_ac)

interpretation tcp_stats: mergeable tcp_stats_merge default_tcp_stats
  by unfold_locales
    (simp_all add: tcp_stats_merge_def default_tcp_stats_def merge_ac counts_peers.merge_laws)

interpretation l7_stats: mergeable l7_stats_merge default_l7_stats
  by unfold_locales (simp_all add: l7_stats_merge_def default_l7_stats_def merge_ac)

lemma l7_map_merge_assoc: "l7_map_merge (l7_map_merge m n) r = l7_map_merge m (l7_map_merge n r)"
  by (rule ext) (simp add: l7_map_merge_def l7_stats.merge_assoc split: option.splits)

lemma l7_map_merge_commute: "l7_map_merge m n = l7_map_merge n m"
  by (rule ext) (simp add: l7_map_merge_def l7_stats.merge_commute split: option.splits)

lemma l7_map_merge_empty: "l7_map_merge m Map.empty = m"
  by (rule ext) (simp add: l7_map_merge_def)

interpretation l7_maps: mergeable l7_map_merge Map.empty
  by unfold_locales (fact l7_map_merge_assoc l7_map_merge_commute l7_map_merge_empty)+

subsection \<open>Properties\<close>

lemma flow_perf_foldl:
  "fp_tcp (foldl flow_perf_merge a ss) = foldl tcp_stats_merge (fp_tcp a) (map fp_tcp ss)"
  "fp_l7 (foldl flow_perf_merge a ss) = foldl l7_map_merge (fp_l7 a) (map fp_l7 ss)"
  by (induction ss arbitrary: a) (simp_all add: flow_perf_merge_def)

lemma flow_perf_merge_assoc:
  "flow_perf_merge (flow_perf_merge a b) c = flow_perf_merge a (flow_perf_merge b c)"
  by (simp add: flow_perf_merge_def tcp_stats.merge_assoc l7_map_merge_assoc max.assoc)













text \<open>
  The totals do not depend on how the pieces are brought together: the TCP
  counters and the application counters of every endpoint are the same for every order of
  the pieces, and merging batches of pieces first and then the batches gives the same
  statistics as merging all pieces one by one.
\<close>

theorem flow_perf_merge_order:
  assumes "mset ss = mset ss'" "ss = concat bs"
    and "s = foldl flow_perf_merge default_flow_perf_stats ss"
    and "s' = foldl flow_perf_merge default_flow_perf_stats ss'"
  shows "fp_tcp s = fp_tcp s' \<and> fp_l7 s = fp_l7 s'
    \<and> fp_tcp s = foldl tcp_stats_merge default_tcp_stats
        (map (\<lambda>b. foldl tcp_stats_merge default_tcp_stats (map fp_tcp b)) bs)
    \<and> fp_l7 s = foldl l7_map_merge Map.empty (map (\<lambda>b. foldl l7_map_merge Map.empty (map fp_l7 b)) bs)"
proof (intro conjI)
  have map: "mset (map f ss) = mset (map f ss')" for f :: "flow_perf_stats \<Rightarrow> 'b"
    using assms(1) by simp
  have sel: "fp_tcp default_flow_perf_stats = default_tcp_stats"
    "fp_l7 default_flow_perf_stats = Map.empty"
    by (simp_all add: default_flow_perf_stats_def)
  note fold = flow_perf_foldl [where a = default_flow_perf_stats, unfolded sel]
  show "fp_tcp s = fp_tcp s'" "fp_l7 s = fp_l7 s'"
    unfolding assms(3,4) fold by (intro tcp_stats.foldl_order l7_maps.foldl_order map)+
  show "fp_tcp s = foldl tcp_stats_merge default_tcp_stats
        (map (\<lambda>b. foldl tcp_stats_merge default_tcp_stats (map fp_tcp b)) bs)"
    using tcp_stats.foldl_batches [of "map (map fp_tcp) bs"]
    unfolding assms(2,3) fold by (simp add: map_concat comp_def)
  show "fp_l7 s = foldl l7_map_merge Map.empty (map (\<lambda>b. foldl l7_map_merge Map.empty (map fp_l7 b)) bs)"
    using l7_maps.foldl_batches [of "map (map fp_l7) bs"]
    unfolding assms(2,3) fold by (simp add: map_concat comp_def)
qed

text \<open>The largest of the round trip times is no more than their sum.\<close>

definition rtt_consistent :: "tcp_perf_stats \<Rightarrow> bool" where
  "rtt_consistent s \<longleftrightarrow> tp_rtt_client_max s \<le> tp_rtt_client_sum s
     \<and> tp_rtt_server_max s \<le> tp_rtt_server_sum s"

text \<open>
  Swapping the sides of the TCP statistics is its own inverse and commutes with merging,
  but it swaps the sums and the counts of the client and server round trip times and not
  their maxima, so that statistics whose maxima are at most their sums become statistics in
  which the largest round trip time of a side exceeds the sum of all of them.
\<close>

theorem tcp_stats_reverse_laws:
  "tcp_stats_reverse (tcp_stats_reverse a) = a
   \<and> tcp_stats_reverse (tcp_stats_merge a b)
     = tcp_stats_merge (tcp_stats_reverse a) (tcp_stats_reverse b)
   \<and> tcp_stats_reverse default_tcp_stats = default_tcp_stats
   \<and> (\<exists>s. rtt_consistent s \<and> \<not> rtt_consistent (tcp_stats_reverse s))"
proof (intro conjI)
  let ?s = "default_tcp_stats\<lparr>tp_rtt_client_max := 40, tp_rtt_client_sum := 70\<rparr>"
  have "rtt_consistent ?s" "\<not> rtt_consistent (tcp_stats_reverse ?s)"
    by (simp_all add: rtt_consistent_def tcp_stats_reverse_def default_tcp_stats_def)
  then show "\<exists>s. rtt_consistent s \<and> \<not> rtt_consistent (tcp_stats_reverse s)" by blast
qed (simp_all add: tcp_stats_reverse_def tcp_stats_merge_def default_tcp_stats_def)

text \<open>
  Every update of the application counters is a merge with the counters of that single
  event, response times truncated to 32 bits included, so counting events one by one and
  merging the counters of single events agree.
\<close>

theorem merge_perf_is_merge:
  "merge_perf req resp req_err resp_err rrt tls s
    = l7_stats_merge s (merge_perf req resp req_err resp_err rrt tls default_l7_stats)"
  by (simp add: merge_perf_def l7_stats_merge_def default_l7_stats_def Let_def)

end
