(* ===== verification/Tcp_Perf.thy ===== *)
theory Tcp_Perf
  imports Seq_List Flow_Stats
begin

section \<open>Performance counters of a TCP flow\<close>

text \<open>
  The rest of \<^verbatim>\<open>agent/src/flow_generator/perf/tcp.rs\<close>: the two peers of a session, the
  counters of a reporting period and \<^verbatim>\<open>TcpPerf\<close>, which reads the packets of a flow and
  measures round trip, system response, application response and client idle times,
  retransmissions and zero windows.

  \<open>fpd\<close> tells whether a packet travels in the direction of the first packet of the flow.
  The mutable references \<^verbatim>\<open>same_dir\<close> and \<^verbatim>\<open>oppo_dir\<close> to the two peers are values that are
  taken out of the state by \<open>ctrl_of\<close> and put back by \<open>put_ctrl\<close>.  The shared counters of
  ignored and invalid packets are part of the state.
\<close>

definition SRT_MAX :: timestamp where "SRT_MAX = from_secs 10"
definition RTT_FULL_MAX :: timestamp where "RTT_FULL_MAX = from_secs 30"
definition RTT_MAX :: timestamp where "RTT_MAX = from_secs 30"
definition ART_MAX :: timestamp where "ART_MAX = from_secs 30"

definition adjust_rtt :: "timestamp \<Rightarrow> timestamp \<Rightarrow> timestamp" where
  "adjust_rtt d mx = (if d > mx then ts_zero else d)"

definition WIN_SCALE_MAX :: u8 where "WIN_SCALE_MAX = 14"
definition WIN_SCALE_MASK :: u8 where "WIN_SCALE_MASK = 0x0f"
definition WIN_SCALE_FLAG :: u8 where "WIN_SCALE_FLAG = 0x80"

subsection \<open>The peers of a session\<close>

record session_peer = seq_state +
  sp_timestamp :: timestamp
  sp_first_handshake_timestamp :: timestamp
  sp_seq_threshold :: u32
  sp_seq :: u32
  sp_payload_len :: u32
  sp_win_size :: u16
  sp_win_scale :: u8
  sp_syn_transmitted :: bool
  sp_is_handshake_ack_packet :: bool
  sp_srt_calculable :: bool
  sp_rtt_calculable :: bool
  sp_art_calculable :: bool
  sp_rtt_full_precondition :: bool
  sp_rtt_full_calculable :: bool

definition default_session_peer :: session_peer where
  "default_session_peer =
     \<lparr>seq_list = replicate SEQ_LIST_MAX_LEN default_segment, seq_list_len = 0,
      sp_timestamp = ts_zero, sp_first_handshake_timestamp = ts_zero, sp_seq_threshold = 0,
      sp_seq = 0, sp_payload_len = 0, sp_win_size = 0, sp_win_scale = 0,
      sp_syn_transmitted = False, sp_is_handshake_ack_packet = False,
      sp_srt_calculable = False, sp_rtt_calculable = False, sp_art_calculable = False,
      sp_rtt_full_precondition = False, sp_rtt_full_calculable = False\<rparr>"

definition is_sync_ack_ack_packet :: "session_peer \<Rightarrow> meta_packet \<Rightarrow> bool" where
  "is_sync_ack_ack_packet s p = (case mp_protocol_data p of
     TcpHeader h \<Rightarrow> is_ack p \<and> th_ack h = sp_seq_threshold s
   | _ \<Rightarrow> False)"

definition is_reply_packet :: "session_peer \<Rightarrow> meta_packet \<Rightarrow> bool" where
  "is_reply_packet s p = (case mp_protocol_data p of
     TcpHeader h \<Rightarrow> th_ack h = sp_seq s + sp_payload_len s
   | _ \<Rightarrow> False)"

definition is_next_packet :: "session_peer \<Rightarrow> meta_packet \<Rightarrow> bool" where
  "is_next_packet s p = (case mp_protocol_data p of
     TcpHeader h \<Rightarrow> th_seq h = sp_seq s + sp_payload_len s
   | _ \<Rightarrow> False)"

text \<open>\<^verbatim>\<open>unreachable!\<close> for a packet without a TCP header.\<close>

definition tcp_data_of :: "meta_packet \<Rightarrow> tcp_header may_panic" where
  "tcp_data_of p = (case mp_protocol_data p of TcpHeader h \<Rightarrow> Some h | _ \<Rightarrow> None)"

definition update_data :: "meta_packet \<Rightarrow> session_peer \<Rightarrow> session_peer may_panic" where
  "update_data p s = do {
     h \<leftarrow> tcp_data_of p;
     Some (s\<lparr>sp_timestamp := mp_timestamp p,
             sp_payload_len := (if contains_flags (th_flags h) SYN then 1
                                else ucast (mp_payload_len p)),
             sp_seq := th_seq h,
             sp_win_size := th_win_size h\<rparr>)
   }"

subsection \<open>The counters of a reporting period\<close>

record time_stats =
  tm_count :: u32
  tm_sum :: timestamp
  tm_max :: timestamp
  tm_updated :: bool

definition default_time_stats :: time_stats where
  "default_time_stats = \<lparr>tm_count = 0, tm_sum = ts_zero, tm_max = ts_zero, tm_updated = False\<rparr>"

definition time_update :: "timestamp \<Rightarrow> time_stats \<Rightarrow> time_stats" where
  "time_update d s = \<lparr>tm_count = tm_count s + 1, tm_sum = ts_add (tm_sum s) d,
     tm_max = (if tm_max s < d then d else tm_max s), tm_updated = True\<rparr>"

record perf_data =
  pd_rtt_0 :: time_stats
  pd_rtt_1 :: time_stats
  pd_art_0 :: time_stats
  pd_art_1 :: time_stats
  pd_srt_0 :: time_stats
  pd_srt_1 :: time_stats
  pd_cit :: time_stats
  pd_retrans_sum :: u32
  pd_rtt_full :: timestamp
  pd_retrans_0 :: u32
  pd_retrans_1 :: u32
  pd_retrans_syn_0 :: u32
  pd_retrans_syn_1 :: u32
  pd_psh_urg_count_0 :: u32
  pd_psh_urg_count_1 :: u32
  pd_zero_win_count_0 :: u32
  pd_zero_win_count_1 :: u32
  pd_syn :: u32
  pd_synack :: u32
  pd_retrans_syn :: u32
  pd_retrans_synack :: u32
  pd_updated :: bool

definition default_perf_data :: perf_data where
  "default_perf_data =
     \<lparr>pd_rtt_0 = default_time_stats, pd_rtt_1 = default_time_stats,
      pd_art_0 = default_time_stats, pd_art_1 = default_time_stats,
      pd_srt_0 = default_time_stats, pd_srt_1 = default_time_stats,
      pd_cit = default_time_stats, pd_retrans_sum = 0, pd_rtt_full = ts_zero,
      pd_retrans_0 = 0, pd_retrans_1 = 0, pd_retrans_syn_0 = 0, pd_retrans_syn_1 = 0,
      pd_psh_urg_count_0 = 0, pd_psh_urg_count_1 = 0, pd_zero_win_count_0 = 0,
      pd_zero_win_count_1 = 0, pd_syn = 0, pd_synack = 0, pd_retrans_syn = 0,
      pd_retrans_synack = 0, pd_updated = False\<rparr>"

definition calc_art :: "timestamp \<Rightarrow> bool \<Rightarrow> perf_data \<Rightarrow> perf_data" where
  "calc_art d fpd s =
     (if fpd then s\<lparr>pd_art_0 := time_update d (pd_art_0 s)\<rparr>
      else s\<lparr>pd_art_1 := time_update d (pd_art_1 s)\<rparr>)\<lparr>pd_updated := True\<rparr>"

definition calc_srt :: "timestamp \<Rightarrow> bool \<Rightarrow> perf_data \<Rightarrow> perf_data" where
  "calc_srt d fpd s =
     (if fpd then s\<lparr>pd_srt_0 := time_update d (pd_srt_0 s)\<rparr>
      else s\<lparr>pd_srt_1 := time_update d (pd_srt_1 s)\<rparr>)\<lparr>pd_updated := True\<rparr>"

definition calc_rtt_full :: "timestamp \<Rightarrow> perf_data \<Rightarrow> perf_data" where
  "calc_rtt_full d s = s\<lparr>pd_rtt_full := d, pd_updated := True\<rparr>"

definition calc_rtt :: "timestamp \<Rightarrow> bool \<Rightarrow> perf_data \<Rightarrow> perf_data" where
  "calc_rtt d fpd s =
     (if fpd then s\<lparr>pd_rtt_0 := time_update d (pd_rtt_0 s)\<rparr>
      else s\<lparr>pd_rtt_1 := time_update d (pd_rtt_1 s)\<rparr>)\<lparr>pd_updated := True\<rparr>"

definition calc_retrans :: "bool \<Rightarrow> perf_data \<Rightarrow> perf_data" where
  "calc_retrans fpd s =
     (if fpd then s\<lparr>pd_retrans_0 := pd_retrans_0 s + 1\<rparr>
      else s\<lparr>pd_retrans_1 := pd_retrans_1 s + 1\<rparr>)
     \<lparr>pd_retrans_sum := pd_retrans_sum s + 1, pd_updated := True\<rparr>"

definition calc_retrans_syn :: "bool \<Rightarrow> perf_data \<Rightarrow> perf_data" where
  "calc_retrans_syn fpd s =
     (calc_retrans fpd
       (if fpd then s\<lparr>pd_retrans_syn_0 := pd_retrans_syn_0 s + 1\<rparr>
        else s\<lparr>pd_retrans_syn_1 := pd_retrans_syn_1 s + 1\<rparr>))\<lparr>pd_updated := True\<rparr>"

definition calc_zero_win :: "bool \<Rightarrow> perf_data \<Rightarrow> perf_data" where
  "calc_zero_win fpd s =
     (if fpd then s\<lparr>pd_zero_win_count_0 := pd_zero_win_count_0 s + 1\<rparr>
      else s\<lparr>pd_zero_win_count_1 := pd_zero_win_count_1 s + 1\<rparr>)\<lparr>pd_updated := True\<rparr>"

definition calc_psh_urg :: "bool \<Rightarrow> perf_data \<Rightarrow> perf_data" where
  "calc_psh_urg fpd s =
     (if fpd then s\<lparr>pd_psh_urg_count_0 := pd_psh_urg_count_0 s + 1\<rparr>
      else s\<lparr>pd_psh_urg_count_1 := pd_psh_urg_count_1 s + 1\<rparr>)\<lparr>pd_updated := True\<rparr>"

definition calc_syn :: "perf_data \<Rightarrow> perf_data" where
  "calc_syn s = s\<lparr>pd_syn := pd_syn s + 1, pd_updated := True\<rparr>"

definition calc_synack :: "perf_data \<Rightarrow> perf_data" where
  "calc_synack s = s\<lparr>pd_synack := pd_synack s + 1, pd_updated := True\<rparr>"

definition calc_retran_syn :: "perf_data \<Rightarrow> perf_data" where
  "calc_retran_syn s = s\<lparr>pd_retrans_syn := pd_retrans_syn s + 1, pd_updated := True\<rparr>"

definition calc_retrans_synack :: "perf_data \<Rightarrow> perf_data" where
  "calc_retrans_synack s = s\<lparr>pd_retrans_synack := pd_retrans_synack s + 1, pd_updated := True\<rparr>"

definition calc_cit :: "timestamp \<Rightarrow> perf_data \<Rightarrow> perf_data" where
  "calc_cit d s = s\<lparr>pd_cit := time_update d (pd_cit s), pd_updated := True\<rparr>"

lemmas calc_defs = calc_art_def calc_srt_def calc_rtt_full_def calc_rtt_def calc_retrans_def
  calc_retrans_syn_def calc_zero_win_def calc_psh_urg_def calc_syn_def calc_synack_def
  calc_retran_syn_def calc_retrans_synack_def calc_cit_def

text \<open>Time statistics in microseconds, truncated to 32 bits.\<close>

definition micros32 :: "timestamp \<Rightarrow> u32" where
  "micros32 t = ucast (as_micros t)"

definition update_perf_stats ::
  "perf_data \<Rightarrow> flow_perf_stats \<Rightarrow> bool \<Rightarrow> perf_data \<times> flow_perf_stats" where
  "update_perf_stats d fs flow_reversed =
     (if \<not> pd_updated d then (d, fs)
      else
        let s = fp_tcp fs;
            s = s\<lparr>tp_counts_peers :=
                   (\<lparr>cp_retrans_count = pd_retrans_0 d, cp_zero_win_count = pd_zero_win_count_0 d\<rparr>,
                    \<lparr>cp_retrans_count = pd_retrans_1 d, cp_zero_win_count = pd_zero_win_count_1 d\<rparr>),
                  tp_total_retrans_count := pd_retrans_sum d,
                  tp_syn_count := pd_syn d, tp_synack_count := pd_synack d,
                  tp_retrans_syn_count := pd_retrans_syn d,
                  tp_retrans_synack_count := pd_retrans_synack d,
                  tp_rtt := micros32 (pd_rtt_full d)\<rparr>;
            art = (if flow_reversed then pd_art_0 d else pd_art_1 d);
            srt = (if flow_reversed then pd_srt_0 d else pd_srt_1 d);
            s = (if tm_updated art
                 then s\<lparr>tp_art_max := micros32 (tm_max art), tp_art_sum := micros32 (tm_sum art),
                        tp_art_count := tm_count art\<rparr> else s);
            s = (if tm_updated srt
                 then s\<lparr>tp_srt_max := micros32 (tm_max srt), tp_srt_sum := micros32 (tm_sum srt),
                        tp_srt_count := tm_count srt\<rparr> else s);
            s = (if flow_reversed then tcp_stats_reverse s else s);
            s = (if tm_updated (pd_rtt_0 d)
                 then s\<lparr>tp_rtt_client_max := micros32 (tm_max (pd_rtt_0 d)),
                        tp_rtt_client_sum := micros32 (tm_sum (pd_rtt_0 d)),
                        tp_rtt_client_count := tm_count (pd_rtt_0 d)\<rparr> else s);
            s = (if tm_updated (pd_rtt_1 d)
                 then s\<lparr>tp_rtt_server_max := micros32 (tm_max (pd_rtt_1 d)),
                        tp_rtt_server_sum := micros32 (tm_sum (pd_rtt_1 d)),
                        tp_rtt_server_count := tm_count (pd_rtt_1 d)\<rparr> else s);
            s = (if tm_updated (pd_cit d)
                 then s\<lparr>tp_cit_max := micros32 (tm_max (pd_cit d)),
                        tp_cit_sum := micros32 (tm_sum (pd_cit d)),
                        tp_cit_count := tm_count (pd_cit d)\<rparr> else s)
        in (d\<lparr>pd_updated := False\<rparr>, fs\<lparr>fp_tcp := s\<rparr>))"

subsection \<open>The packet handlers\<close>

record tcp_perf =
  tf_ctrl_0 :: session_peer
  tf_ctrl_1 :: session_peer
  tf_perf_data :: perf_data
  tf_handshaking :: bool
  tf_ignored_packet_count :: u64
  tf_invalid_packet_count :: u64

definition tcp_perf_new :: tcp_perf where
  "tcp_perf_new =
     \<lparr>tf_ctrl_0 = default_session_peer, tf_ctrl_1 = default_session_peer,
      tf_perf_data = default_perf_data, tf_handshaking = False,
      tf_ignored_packet_count = 0, tf_invalid_packet_count = 0\<rparr>"

definition tcp_perf_reset :: "tcp_perf \<Rightarrow> tcp_perf" where
  "tcp_perf_reset t = t\<lparr>tf_ctrl_0 := default_session_peer, tf_ctrl_1 := default_session_peer,
     tf_perf_data := default_perf_data, tf_handshaking := False\<rparr>"

definition ctrl_of :: "bool \<Rightarrow> tcp_perf \<Rightarrow> session_peer \<times> session_peer" where
  "ctrl_of fpd t = (if fpd then (tf_ctrl_0 t, tf_ctrl_1 t) else (tf_ctrl_1 t, tf_ctrl_0 t))"

definition put_ctrl :: "bool \<Rightarrow> session_peer \<Rightarrow> session_peer \<Rightarrow> tcp_perf \<Rightarrow> tcp_perf" where
  "put_ctrl fpd same oppo t =
     (if fpd then t\<lparr>tf_ctrl_0 := same, tf_ctrl_1 := oppo\<rparr>
      else t\<lparr>tf_ctrl_0 := oppo, tf_ctrl_1 := same\<rparr>)"

abbreviation map_data :: "(perf_data \<Rightarrow> perf_data) \<Rightarrow> tcp_perf \<Rightarrow> tcp_perf" where
  "map_data f t \<equiv> t\<lparr>tf_perf_data := f (tf_perf_data t)\<rparr>"

definition is_invalid_retrans_packet ::
  "meta_packet \<Rightarrow> bool \<Rightarrow> tcp_perf \<Rightarrow> ((bool \<times> bool) \<times> tcp_perf) may_panic" where
  "is_invalid_retrans_packet p fpd t = do {
     h \<leftarrow> tcp_data_of p;
     let (same, oppo) = ctrl_of fpd t;
     if is_syn p then
       let (same, t) =
             (if sp_seq_threshold same = 0 then
                (same\<lparr>sp_seq_threshold := th_seq h + 1,
                      sp_first_handshake_timestamp := mp_timestamp p\<rparr>,
                 t\<lparr>tf_handshaking := True\<rparr>)
              else if sp_syn_transmitted same then
                (same, map_data (calc_retran_syn \<circ> calc_retrans_syn fpd) t)
              else (same, t));
           same = same\<lparr>sp_syn_transmitted := True\<rparr>
       in Some ((False, False), put_ctrl fpd same oppo t)
     else if is_syn_ack p then
       if sp_seq_threshold same = 0 then
         let same = same\<lparr>sp_first_handshake_timestamp := mp_timestamp p,
                         sp_seq_threshold := th_seq h + 1\<rparr>;
             oppo = (if sp_seq_threshold oppo = 0 then oppo\<lparr>sp_seq_threshold := th_ack h\<rparr>
                     else oppo\<lparr>sp_rtt_full_precondition := True\<rparr>)
         in Some ((False, False), put_ctrl fpd same oppo t)
       else
         Some ((False, False), map_data (calc_retrans_synack \<circ> calc_retrans_syn fpd) t)
     else if is_ack p then Some ((False, False), t\<lparr>tf_handshaking := fpd\<rparr>)
     else if \<not> has_valid_payload p then Some ((False, False), t)
     else do {
       (r, same) \<leftarrow> assert_seq_number h (mp_payload_len p) same;
       let t = put_ctrl fpd same oppo t;
       case r of
         SeqRetrans \<Rightarrow> Some ((False, True), map_data (calc_retrans fpd) t)
       | SeqError \<Rightarrow>
           Some ((True, False), t\<lparr>tf_invalid_packet_count := tf_invalid_packet_count t + 1\<rparr>)
       | _ \<Rightarrow> Some ((False, False), t) }
   }"

definition is_abnormal_tcp_flags :: "tcp_flags \<Rightarrow> bool" where
  "is_abnormal_tcp_flags f =
     (if (if contains_flags f SYN then intersects_flags f (FIN OR RST)
          else \<not> intersects_flags f (ACK OR RST)) then True
      else if \<not> contains_flags f ACK \<and> intersects_flags f (PSH OR FIN OR URG) then True
      else False)"

definition is_unconcerned_tcp_flags :: "tcp_flags \<Rightarrow> bool" where
  "is_unconcerned_tcp_flags f = intersects_flags f (FIN OR RST)"

definition is_handshake_ack :: "session_peer \<Rightarrow> meta_packet \<Rightarrow> bool" where
  "is_handshake_ack oppo p = (case mp_protocol_data p of
     TcpHeader h \<Rightarrow> is_ack p \<and> sp_seq_threshold oppo = th_ack h
   | _ \<Rightarrow> False)"

text \<open>
  The two measurements of \<^verbatim>\<open>flow_opening\<close>, of \<^verbatim>\<open>flow_established\<close> and the client idle time
  have the same shape: a difference of time stamps that is dropped when it is above a limit
  and counted when it is not zero.
\<close>

definition measure_rtt :: "meta_packet \<Rightarrow> bool \<Rightarrow> session_peer \<Rightarrow> session_peer \<Rightarrow> perf_data \<Rightarrow> perf_data may_panic" where
  "measure_rtt p fpd same oppo d =
     (if sp_rtt_calculable same \<and> is_reply_packet oppo p
         \<and> (is_handshake_ack oppo p \<or> is_syn_ack p)
         \<and> \<not> ts_is_zero (sp_first_handshake_timestamp oppo)
      then do {
        diff \<leftarrow> ts_sub (mp_timestamp p) (sp_first_handshake_timestamp oppo);
        let rtt = adjust_rtt diff RTT_MAX;
        Some (if \<not> ts_is_zero rtt then calc_rtt rtt fpd d else d) }
      else Some d)"

definition measure_rtt_full :: "meta_packet \<Rightarrow> session_peer \<Rightarrow> session_peer \<Rightarrow> perf_data \<Rightarrow> perf_data may_panic" where
  "measure_rtt_full p same oppo d =
     (if sp_rtt_full_calculable same \<and> is_sync_ack_ack_packet oppo p
      then do {
        diff \<leftarrow> ts_sub (mp_timestamp p) (sp_first_handshake_timestamp same);
        let rtt_full = adjust_rtt diff RTT_FULL_MAX;
        Some (if \<not> ts_is_zero rtt_full then calc_rtt_full rtt_full d else d) }
      else Some d)"

definition opening_flags ::
  "meta_packet \<Rightarrow> tcp_header \<Rightarrow> session_peer \<Rightarrow> session_peer \<Rightarrow> bool \<times> session_peer \<times> session_peer" where
  "opening_flags p h same oppo =
     (if is_syn p \<or> is_syn_ack p then
        let same = (if th_win_scale h > 0
                    then same\<lparr>sp_win_scale := WIN_SCALE_FLAG OR min (th_win_scale h) WIN_SCALE_MAX\<rparr>
                    else same);
            same = same\<lparr>sp_rtt_calculable := True, sp_srt_calculable := False,
                        sp_art_calculable := False\<rparr>;
            oppo = oppo\<lparr>sp_rtt_calculable := True, sp_srt_calculable := False,
                        sp_art_calculable := False\<rparr>;
            oppo = (if is_syn_ack p \<and> sp_rtt_full_precondition oppo
                    then oppo\<lparr>sp_rtt_full_calculable := True\<rparr> else oppo)
        in (True, same, oppo)
      else
        let (same, oppo) =
              (if \<not> is_ack p
               then (same\<lparr>sp_rtt_calculable := False, sp_rtt_full_calculable := False\<rparr>,
                     oppo\<lparr>sp_rtt_calculable := False\<rparr>)
               else (same, oppo))
        in (is_ack p, same, oppo))"

definition flow_opening :: "meta_packet \<Rightarrow> bool \<Rightarrow> tcp_perf \<Rightarrow> (bool \<times> tcp_perf) may_panic" where
  "flow_opening p fpd t = do {
     let (same, oppo) = ctrl_of fpd t;
     d \<leftarrow> measure_rtt p fpd same oppo (tf_perf_data t);
     d \<leftarrow> measure_rtt_full p same oppo d;
     h \<leftarrow> tcp_data_of p;
     let (is_opening, same, oppo) = opening_flags p h same oppo;
     let same = (if is_handshake_ack oppo p
                 then same\<lparr>sp_is_handshake_ack_packet := True\<rparr> else same);
     Some (is_opening, put_ctrl fpd same oppo (t\<lparr>tf_perf_data := d\<rparr>))
   }"

definition measure_srt :: "meta_packet \<Rightarrow> bool \<Rightarrow> session_peer \<Rightarrow> session_peer \<Rightarrow> perf_data \<Rightarrow> perf_data may_panic" where
  "measure_srt p fpd same oppo d =
     (if sp_srt_calculable same \<and> is_ack p \<and> is_reply_packet oppo p
      then do {
        diff \<leftarrow> ts_sub (mp_timestamp p) (sp_timestamp oppo);
        let srt = adjust_rtt diff SRT_MAX;
        Some (if \<not> ts_is_zero srt then calc_srt srt fpd d else d) }
      else Some d)"

definition measure_art :: "meta_packet \<Rightarrow> bool \<Rightarrow> session_peer \<Rightarrow> session_peer \<Rightarrow> perf_data \<Rightarrow> perf_data may_panic" where
  "measure_art p fpd same oppo d =
     (if sp_art_calculable same \<and> has_valid_payload p \<and> is_next_packet same p
      then do {
        diff \<leftarrow> ts_sub (mp_timestamp p) (sp_timestamp oppo);
        let art = adjust_rtt diff ART_MAX;
        Some (if \<not> ts_is_zero art then calc_art art fpd d else d) }
      else Some d)"

definition established_flags :: "meta_packet \<Rightarrow> session_peer \<Rightarrow> session_peer \<Rightarrow> session_peer \<times> session_peer" where
  "established_flags p same oppo =
     (if is_ack p then
        (same\<lparr>sp_srt_calculable := False\<rparr>,
         oppo\<lparr>sp_srt_calculable := False, sp_art_calculable := False\<rparr>)
      else if is_psh_ack p then
        (same\<lparr>sp_srt_calculable := False, sp_art_calculable := False\<rparr>,
         oppo\<lparr>sp_srt_calculable := True, sp_art_calculable := True\<rparr>)
      else
        (same\<lparr>sp_srt_calculable := False, sp_art_calculable := False\<rparr>,
         oppo\<lparr>sp_srt_calculable := False, sp_art_calculable := False\<rparr>))"

definition window_size :: "tcp_header \<Rightarrow> session_peer \<Rightarrow> session_peer \<Rightarrow> u32" where
  "window_size h same oppo =
     (let win_size = ucast (th_win_size h) :: u32
      in if 0 < (sp_win_scale same AND sp_win_scale oppo AND WIN_SCALE_FLAG)
         then push_bit (unat (sp_win_scale same AND WIN_SCALE_MASK)) win_size
         else win_size)"

definition measure_cit ::
  "meta_packet \<Rightarrow> bool \<Rightarrow> session_peer \<Rightarrow> session_peer \<Rightarrow> perf_data \<Rightarrow>
    (session_peer \<times> perf_data) may_panic" where
  "measure_cit p fpd same oppo d =
     (if fpd \<and> is_psh_ack p \<and> mp_payload_len p > 1 then
        if sp_is_handshake_ack_packet same then do {
          let same' = same\<lparr>sp_is_handshake_ack_packet := False\<rparr>;
          c \<leftarrow> ts_sub (mp_timestamp p) (max (sp_timestamp same) (sp_timestamp oppo));
          Some (same', calc_cit c d) }
        else if sp_payload_len oppo > 1
            \<and> (sp_payload_len same \<le> 1 \<or> sp_timestamp oppo > sp_timestamp same) then do {
          c \<leftarrow> ts_sub (mp_timestamp p) (sp_timestamp oppo);
          Some (same, calc_cit c d) }
        else Some (same, d)
      else Some (same, d))"

definition flow_established :: "meta_packet \<Rightarrow> bool \<Rightarrow> tcp_perf \<Rightarrow> tcp_perf may_panic" where
  "flow_established p fpd t = do {
     let (same, oppo) = ctrl_of fpd t;
     d \<leftarrow> measure_srt p fpd same oppo (tf_perf_data t);
     d \<leftarrow> measure_art p fpd same oppo d;
     let (same, oppo) = established_flags p same oppo;
     h \<leftarrow> tcp_data_of p;
     let d = (if window_size h same oppo = 0 then calc_zero_win fpd d else d);
     let d = (if th_flags h AND MASK = PSH_ACK_URG then calc_psh_urg fpd d else d);
     (same, d) \<leftarrow> measure_cit p fpd same oppo d;
     Some (put_ctrl fpd same oppo (t\<lparr>tf_perf_data := d\<rparr>))
   }"

definition not_calculable :: "session_peer \<Rightarrow> session_peer" where
  "not_calculable s = s\<lparr>sp_srt_calculable := False, sp_art_calculable := False\<rparr>"

definition count_syn :: "meta_packet \<Rightarrow> bool \<Rightarrow> perf_data \<Rightarrow> perf_data" where
  "count_syn p is_retrans d =
     (let d = (if is_syn p then calc_syn (if is_retrans then calc_retran_syn d else d) else d)
      in if is_syn_ack p
         then calc_synack (if is_retrans then calc_retrans_synack d else d) else d)"

definition calculate :: "meta_packet \<Rightarrow> bool \<Rightarrow> tcp_perf \<Rightarrow> (bool \<times> tcp_perf) may_panic" where
  "calculate p fpd t = do {
     ((is_invalid, is_retrans), t) \<leftarrow> is_invalid_retrans_packet p fpd t;
     if is_invalid then
       Some (is_retrans, t\<lparr>tf_ctrl_0 := not_calculable (tf_ctrl_0 t),
                           tf_ctrl_1 := not_calculable (tf_ctrl_1 t)\<rparr>)
     else do {
       t \<leftarrow> (if tf_handshaking t then do {
               (is_opening, t) \<leftarrow> flow_opening p fpd t;
               Some (t\<lparr>tf_handshaking := is_opening\<rparr>) }
             else Some t);
       t \<leftarrow> (if \<not> tf_handshaking t then flow_established p fpd t else Some t);
       Some (is_retrans, map_data (count_syn p is_retrans) t) }
   }"

definition is_interested_packet :: "meta_packet \<Rightarrow> tcp_perf \<Rightarrow> (bool \<times> tcp_perf) may_panic" where
  "is_interested_packet p t = do {
     h \<leftarrow> tcp_data_of p;
     Some (if th_data_offset h = 0 then (False, t)
           else if is_abnormal_tcp_flags (th_flags h) then
             (False, t\<lparr>tf_ignored_packet_count := tf_ignored_packet_count t + 1\<rparr>)
           else if is_unconcerned_tcp_flags (th_flags h) then (False, t)
           else (True, t))
   }"

definition uninterested :: "session_peer \<Rightarrow> session_peer" where
  "uninterested s = s\<lparr>sp_srt_calculable := False, sp_art_calculable := False,
     sp_rtt_full_precondition := False, sp_rtt_full_calculable := False\<rparr>"

definition tcp_parse ::
  "meta_packet \<Rightarrow> bool \<Rightarrow> tcp_perf \<Rightarrow> ((perf_error + unit) \<times> tcp_perf) may_panic" where
  "tcp_parse p fpd t = do {
     (interested, t) \<leftarrow> is_interested_packet p t;
     if \<not> interested then
       Some (Inr (), t\<lparr>tf_ctrl_0 := uninterested (tf_ctrl_0 t),
                       tf_ctrl_1 := uninterested (tf_ctrl_1 t)\<rparr>)
     else if mp_timestamp p < sp_timestamp (tf_ctrl_0 t)
          \<or> mp_timestamp p < sp_timestamp (tf_ctrl_1 t) then
       Some (Inl InvalidPacketTimestamp,
             t\<lparr>tf_invalid_packet_count := tf_invalid_packet_count t + 1\<rparr>)
     else do {
       (is_retrans, t) \<leftarrow> calculate p fpd t;
       let (same, oppo) = ctrl_of fpd t;
       same \<leftarrow> update_data p same;
       Some (if is_retrans then Inl RetransPacket else Inr (), put_ctrl fpd same oppo t) }
   }"

definition tcp_data_updated :: "tcp_perf \<Rightarrow> bool" where
  "tcp_data_updated t = pd_updated (tf_perf_data t)"

definition tcp_copy_and_reset_data :: "bool \<Rightarrow> tcp_perf \<Rightarrow> flow_perf_stats \<times> tcp_perf" where
  "tcp_copy_and_reset_data flow_reversed t =
     (let stats = default_flow_perf_stats\<lparr>fp_l4_protocol := L4Tcp\<rparr>;
          (_, stats) = update_perf_stats (tf_perf_data t) stats flow_reversed
      in (stats, t\<lparr>tf_perf_data := default_perf_data\<rparr>))"

subsection \<open>The invariant of the handlers\<close>

text \<open>
  Measured times are at most their limits, a part that is not marked as updated is empty,
  and the retransmissions of the two sides add up.
\<close>

definition time_ok :: "timestamp \<Rightarrow> time_stats \<Rightarrow> bool" where
  "time_ok mx s \<longleftrightarrow> tm_max s \<le> mx \<and> (tm_updated s \<or> s = default_time_stats)"

definition data_ok :: "perf_data \<Rightarrow> bool" where
  "data_ok d \<longleftrightarrow> time_ok RTT_MAX (pd_rtt_0 d) \<and> time_ok RTT_MAX (pd_rtt_1 d)
     \<and> time_ok ART_MAX (pd_art_0 d) \<and> time_ok ART_MAX (pd_art_1 d)
     \<and> time_ok SRT_MAX (pd_srt_0 d) \<and> time_ok SRT_MAX (pd_srt_1 d)
     \<and> (tm_updated (pd_cit d) \<or> pd_cit d = default_time_stats)
     \<and> pd_rtt_full d \<le> RTT_FULL_MAX
     \<and> pd_retrans_sum d = pd_retrans_0 d + pd_retrans_1 d
     \<and> (pd_updated d \<or> d = default_perf_data)"

lemma time_ok_default [simp]: "time_ok mx default_time_stats"
  by (simp add: time_ok_def default_time_stats_def)

lemma time_ok_update: "time_ok mx s \<Longrightarrow> d \<le> mx \<Longrightarrow> time_ok mx (time_update d s)"
  by (simp add: time_ok_def time_update_def)

lemma tm_updated_update [simp]: "tm_updated (time_update d s)"
  by (simp add: time_update_def)

lemma adjust_rtt_le [intro]: "adjust_rtt d mx \<le> mx"
  by (auto simp: adjust_rtt_def)

lemma data_ok_default [simp]: "data_ok default_perf_data"
  by (simp add: data_ok_def default_perf_data_def)

lemma data_ok_calc [intro]:
  "data_ok d \<Longrightarrow> x \<le> RTT_MAX \<Longrightarrow> data_ok (calc_rtt x fpd d)"
  "data_ok d \<Longrightarrow> x \<le> SRT_MAX \<Longrightarrow> data_ok (calc_srt x fpd d)"
  "data_ok d \<Longrightarrow> x \<le> ART_MAX \<Longrightarrow> data_ok (calc_art x fpd d)"
  "data_ok d \<Longrightarrow> x \<le> RTT_FULL_MAX \<Longrightarrow> data_ok (calc_rtt_full x d)"
  "data_ok d \<Longrightarrow> data_ok (calc_retrans fpd d)"
  "data_ok d \<Longrightarrow> data_ok (calc_retrans_syn fpd d)"
  "data_ok d \<Longrightarrow> data_ok (calc_zero_win fpd d)"
  "data_ok d \<Longrightarrow> data_ok (calc_psh_urg fpd d)"
  "data_ok d \<Longrightarrow> data_ok (calc_syn d)"
  "data_ok d \<Longrightarrow> data_ok (calc_synack d)"
  "data_ok d \<Longrightarrow> data_ok (calc_retran_syn d)"
  "data_ok d \<Longrightarrow> data_ok (calc_retrans_synack d)"
  "data_ok d \<Longrightarrow> data_ok (calc_cit x d)"
  by (simp_all add: data_ok_def calc_defs time_ok_update)

lemmas data_ok_adjust [intro] = data_ok_calc(1-4) [OF _ adjust_rtt_le]

text \<open>The peer the packet belongs to, while the packet is handled, and the other one.\<close>

definition peer_now :: "meta_packet \<Rightarrow> session_peer \<Rightarrow> bool" where
  "peer_now p s \<longleftrightarrow> seq_shape s \<and> tracked_wf (segs s) \<and> sp_timestamp s \<le> mp_timestamp p
     \<and> sp_first_handshake_timestamp s \<le> mp_timestamp p"

definition peer_ok :: "session_peer \<Rightarrow> bool" where
  "peer_ok s \<longleftrightarrow> seq_shape s \<and> tracked_wf (segs s) \<and> sp_first_handshake_timestamp s \<le> sp_timestamp s"

definition handling :: "meta_packet \<Rightarrow> bool \<Rightarrow> tcp_perf \<Rightarrow> bool" where
  "handling p fpd t \<longleftrightarrow> (case ctrl_of fpd t of (same, oppo) \<Rightarrow>
     peer_now p same \<and> peer_ok oppo \<and> sp_timestamp oppo \<le> mp_timestamp p) \<and> data_ok (tf_perf_data t)"

lemma ctrl_simps [simp]:
  "ctrl_of fpd (put_ctrl fpd s o' t) = (s, o')"
  "tf_perf_data (put_ctrl fpd s o' t) = tf_perf_data t"
  "ctrl_of fpd (t\<lparr>tf_perf_data := d\<rparr>) = ctrl_of fpd t"
  "ctrl_of fpd (t\<lparr>tf_handshaking := b\<rparr>) = ctrl_of fpd t"
  "ctrl_of fpd (t\<lparr>tf_ignored_packet_count := n\<rparr>) = ctrl_of fpd t"
  "ctrl_of fpd (t\<lparr>tf_invalid_packet_count := n\<rparr>) = ctrl_of fpd t"
  by (simp_all add: ctrl_of_def put_ctrl_def)

lemmas peer_defs = peer_now_def peer_ok_def seq_shape_def segs_def

lemma peer_more_eq:
  "seq_state.more s = seq_state.more s' \<Longrightarrow> sp_timestamp s = sp_timestamp s'
    \<and> sp_first_handshake_timestamp s = sp_first_handshake_timestamp s'" for s s' :: session_peer
  by (cases s; cases s') simp

lemma assert_seq_number_peer:
  assumes "peer_now p s"
  shows "\<exists>r s'. assert_seq_number h n s = Some (r, s') \<and> peer_now p s'"
proof -
  have s: "seq_shape s" "tracked_wf (segs s)" using assms by (simp_all add: peer_now_def)
  obtain s' where s': "assert_seq_number h n s = Some (fst (observe h n (segs s)), s')"
    "segs s' = snd (observe h n (segs s))" "seq_shape s'"
    using assert_seq_number_refines [OF s(1) refl refl, of h n] by blast
  have "tracked_wf (segs s')" using s'(2) observe_cases(1) [OF s(2), of h n] by (metis prod.collapse)
  with s' assms peer_more_eq [OF assert_seq_number_more [OF s'(1)]] show ?thesis
    by (auto simp: peer_now_def)
qed

lemma is_invalid_retrans_handling:
  assumes "handling p fpd t" "tcp_data_of p = Some h"
  shows "\<exists>r t'. is_invalid_retrans_packet p fpd t = Some (r, t') \<and> handling p fpd t'"
proof -
  obtain same oppo where c: "ctrl_of fpd t = (same, oppo)" by fastforce
  have ok: "peer_now p same" "peer_ok oppo" "sp_timestamp oppo \<le> mp_timestamp p" "data_ok (tf_perf_data t)"
    using assms(1) c by (simp_all add: handling_def)
  consider "is_syn p" | "\<not> is_syn p" "is_syn_ack p" | "\<not> is_syn p" "\<not> is_syn_ack p" "is_ack p \<or> \<not> has_valid_payload p"
    | "\<not> is_syn p" "\<not> is_syn_ack p" "\<not> is_ack p" "has_valid_payload p" by blast
  then show ?thesis
  proof cases
    case 1
    with ok c assms(2) show ?thesis
      by (auto simp: is_invalid_retrans_packet_def handling_def peer_defs)
  next
    case 2
    with ok c assms(2) show ?thesis
      by (auto simp: is_invalid_retrans_packet_def handling_def peer_defs)
  next
    case 3
    with ok c assms show ?thesis
      by (auto simp: is_invalid_retrans_packet_def handling_def)
  next
    case 4
    obtain r s' where "assert_seq_number h (mp_payload_len p) same = Some (r, s')" "peer_now p s'"
      using assert_seq_number_peer [OF ok(1)] by blast
    with 4 ok c assms(2) show ?thesis
      by (cases r) (auto simp: is_invalid_retrans_packet_def handling_def Let_def)
  qed
qed


lemma measure_handling:
  assumes "data_ok d" "sp_timestamp oppo \<le> mp_timestamp p"
    "sp_first_handshake_timestamp oppo \<le> mp_timestamp p"
    "sp_first_handshake_timestamp same \<le> mp_timestamp p"
  shows "\<exists>d'. measure_rtt p fpd same oppo d = Some d' \<and> data_ok d'"
    "\<exists>d'. measure_rtt_full p same oppo d = Some d' \<and> data_ok d'"
    "\<exists>d'. measure_srt p fpd same oppo d = Some d' \<and> data_ok d'"
    "\<exists>d'. measure_art p fpd same oppo d = Some d' \<and> data_ok d'"
proof -
  have sub: "\<exists>x. ts_sub (mp_timestamp p) y = Some x" if "y \<le> mp_timestamp p" for y
    using that by (simp add: ts_sub_Some_iff)
  note facts = sub [OF assms(2)] sub [OF assms(3)] sub [OF assms(4)] assms(1)
  show "\<exists>d'. measure_rtt p fpd same oppo d = Some d' \<and> data_ok d'"
    "\<exists>d'. measure_rtt_full p same oppo d = Some d' \<and> data_ok d'"
    "\<exists>d'. measure_srt p fpd same oppo d = Some d' \<and> data_ok d'"
    "\<exists>d'. measure_art p fpd same oppo d = Some d' \<and> data_ok d'"
    using facts
    by (auto simp: measure_rtt_def measure_rtt_full_def measure_srt_def measure_art_def Let_def)
qed

lemma opening_flags_ok:
  assumes "peer_now p same" "peer_ok oppo" "opening_flags p h same oppo = (b, same', oppo')"
  shows "peer_now p same'" "peer_ok oppo'" "sp_timestamp oppo' = sp_timestamp oppo"
  using assms by (auto simp: opening_flags_def peer_defs Let_def split: if_splits)

lemma flow_opening_handling:
  assumes "handling p fpd t" "tcp_data_of p = Some h"
  shows "\<exists>b t'. flow_opening p fpd t = Some (b, t') \<and> handling p fpd t'"
proof -
  obtain same oppo where c: "ctrl_of fpd t = (same, oppo)" by fastforce
  have ok: "peer_now p same" "peer_ok oppo" "sp_timestamp oppo \<le> mp_timestamp p" "data_ok (tf_perf_data t)"
    using assms(1) c by (simp_all add: handling_def)
  have first: "sp_first_handshake_timestamp oppo \<le> mp_timestamp p"
    "sp_first_handshake_timestamp same \<le> mp_timestamp p"
    using ok by (auto simp: peer_ok_def peer_now_def)
  obtain d where d: "measure_rtt p fpd same oppo (tf_perf_data t) = Some d" "data_ok d"
    using measure_handling(1) [OF ok(4,3) first] by blast
  obtain d' where d': "measure_rtt_full p same oppo d = Some d'" "data_ok d'"
    using measure_handling(2) [OF d(2) ok(3) first] by blast
  obtain b same' oppo' where o: "opening_flags p h same oppo = (b, same', oppo')"
    by (cases "opening_flags p h same oppo") auto
  note oo = opening_flags_ok [OF ok(1,2) o]
  with c d d' o assms(2) ok(3) show ?thesis
    by (auto simp: flow_opening_def handling_def peer_defs)
qed

lemma established_flags_ok:
  assumes "peer_now p same" "peer_ok oppo" "established_flags p same oppo = (same', oppo')"
  shows "peer_now p same'" "peer_ok oppo'" "sp_timestamp oppo' = sp_timestamp oppo"
  using assms by (auto simp: established_flags_def peer_defs split: if_splits)

lemma measure_cit_handling:
  assumes "data_ok d" "peer_now p same" "sp_timestamp oppo \<le> mp_timestamp p"
  shows "\<exists>same' d'. measure_cit p fpd same oppo d = Some (same', d') \<and> data_ok d' \<and> peer_now p same'"
proof -
  have "max (sp_timestamp same) (sp_timestamp oppo) \<le> mp_timestamp p"
    using assms by (simp add: peer_now_def)
  then obtain x y where "ts_sub (mp_timestamp p) (max (sp_timestamp same) (sp_timestamp oppo)) = Some x"
    "ts_sub (mp_timestamp p) (sp_timestamp oppo) = Some y"
    using assms(3) by (metis ts_sub_Some_iff)
  with assms(1,2) show ?thesis
    by (auto simp: measure_cit_def peer_defs Let_def)
qed

lemma flow_established_handling:
  assumes "handling p fpd t" "tcp_data_of p = Some h"
  shows "\<exists>t'. flow_established p fpd t = Some t' \<and> handling p fpd t'"
proof -
  obtain same oppo where c: "ctrl_of fpd t = (same, oppo)" by fastforce
  have ok: "peer_now p same" "peer_ok oppo" "sp_timestamp oppo \<le> mp_timestamp p" "data_ok (tf_perf_data t)"
    using assms(1) c by (simp_all add: handling_def)
  have first: "sp_first_handshake_timestamp oppo \<le> mp_timestamp p"
    "sp_first_handshake_timestamp same \<le> mp_timestamp p"
    using ok by (auto simp: peer_ok_def peer_now_def)
  obtain d where d: "measure_srt p fpd same oppo (tf_perf_data t) = Some d" "data_ok d"
    using measure_handling(3) [OF ok(4,3) first] by blast
  obtain d' where d': "measure_art p fpd same oppo d = Some d'" "data_ok d'"
    using measure_handling(4) [OF d(2) ok(3) first] by blast
  obtain same' oppo' where o: "established_flags p same oppo = (same', oppo')" by fastforce
  note oo = established_flags_ok [OF ok(1,2) o]
  define d2 where "d2 = (if window_size h same' oppo' = 0 then calc_zero_win fpd d' else d')"
  define d3 where "d3 = (if th_flags h AND MASK = PSH_ACK_URG then calc_psh_urg fpd d2 else d2)"
  have "data_ok d3" using d'(2) by (auto simp: d2_def d3_def)
  then obtain s d4 where m: "measure_cit p fpd same' oppo' d3 = Some (s, d4)" "data_ok d4" "peer_now p s"
    using measure_cit_handling [of d3 p same' oppo' fpd] oo ok(3) by auto
  have "flow_established p fpd t = Some (put_ctrl fpd s oppo' (t\<lparr>tf_perf_data := d4\<rparr>))"
    using c d(1) d'(1) o assms(2) m(1) [unfolded d3_def d2_def]
    by (simp add: flow_established_def Let_def split del: if_split)
  with m oo ok(3) show ?thesis by (simp add: handling_def)
qed


lemma count_syn_ok: "data_ok d \<Longrightarrow> data_ok (count_syn p b d)"
  by (auto simp: count_syn_def)

lemma handling_frame [simp]:
  "handling p fpd (t\<lparr>tf_handshaking := b\<rparr>) = handling p fpd t"
  "handling p fpd (map_data f t) = ((case ctrl_of fpd t of (same, oppo) \<Rightarrow>
     peer_now p same \<and> peer_ok oppo \<and> sp_timestamp oppo \<le> mp_timestamp p) \<and> data_ok (f (tf_perf_data t)))"
  by (simp_all add: handling_def)

lemma not_calculable_handling:
  "handling p fpd t \<Longrightarrow> handling p fpd (t\<lparr>tf_ctrl_0 := not_calculable (tf_ctrl_0 t),
     tf_ctrl_1 := not_calculable (tf_ctrl_1 t)\<rparr>)"
  by (auto simp: handling_def ctrl_of_def not_calculable_def peer_defs split: if_splits)

lemma calculate_handling:
  assumes "handling p fpd t" "tcp_data_of p = Some h"
  shows "\<exists>r t'. calculate p fpd t = Some (r, t') \<and> handling p fpd t'"
proof -
  obtain inv ret t1 where 1: "is_invalid_retrans_packet p fpd t = Some ((inv, ret), t1)" "handling p fpd t1"
    using is_invalid_retrans_handling [OF assms] by auto
  show ?thesis
  proof (cases inv)
    case True
    with 1 not_calculable_handling [OF 1(2)] show ?thesis by (simp add: calculate_def)
  next
    case False
    obtain b t2 where 2: "flow_opening p fpd t1 = Some (b, t2)" "handling p fpd t2"
      using flow_opening_handling [OF 1(2) assms(2)] by blast
    define t3 where "t3 = (if tf_handshaking t1 then t2\<lparr>tf_handshaking := b\<rparr> else t1)"
    have 3: "handling p fpd t3" using 1 2 by (simp add: t3_def)
    obtain t4 where 4: "flow_established p fpd t3 = Some t4" "handling p fpd t4"
      using flow_established_handling [OF 3 assms(2)] by blast
    define t5 where "t5 = (if tf_handshaking t3 then t3 else t4)"
    have 5: "handling p fpd t5" using 3 4 by (simp add: t5_def)
    have "calculate p fpd t = Some (ret, map_data (count_syn p ret) t5)"
      using 1(1) False 2(1) 4(1) by (auto simp: calculate_def t3_def t5_def)
    moreover have "handling p fpd (map_data (count_syn p ret) t5)"
      using 5 count_syn_ok by (simp add: handling_def)
    ultimately show ?thesis by blast
  qed
qed

definition tcp_perf_ok :: "tcp_perf \<Rightarrow> bool" where
  "tcp_perf_ok t \<longleftrightarrow> peer_ok (tf_ctrl_0 t) \<and> peer_ok (tf_ctrl_1 t) \<and> data_ok (tf_perf_data t)"

lemma tcp_perf_new_ok: "tcp_perf_ok tcp_perf_new"
  by (simp add: tcp_perf_ok_def tcp_perf_new_def default_session_peer_def peer_defs
      SEQ_LIST_MAX_LEN_def)

lemma tcp_perf_ok_handling:
  assumes "tcp_perf_ok t" "\<not> mp_timestamp p < sp_timestamp (tf_ctrl_0 t)"
    "\<not> mp_timestamp p < sp_timestamp (tf_ctrl_1 t)"
  shows "handling p fpd t"
  using assms by (auto simp: handling_def tcp_perf_ok_def ctrl_of_def peer_now_def peer_ok_def)

lemma update_data_ok:
  assumes "handling p fpd t" "tcp_data_of p = Some h" "ctrl_of fpd t = (same, oppo)"
  shows "\<exists>s. update_data p same = Some s \<and> tcp_perf_ok (put_ctrl fpd s oppo t)"
  using assms
  by (auto simp: update_data_def handling_def tcp_perf_ok_def put_ctrl_def peer_defs)

definition interesting :: "tcp_header \<Rightarrow> bool" where
  "interesting h \<longleftrightarrow> th_data_offset h \<noteq> 0 \<and> \<not> is_abnormal_tcp_flags (th_flags h)
     \<and> \<not> is_unconcerned_tcp_flags (th_flags h)"

lemma is_interested_packet_ok:
  assumes "tcp_data_of p = Some h"
  shows "\<exists>n. is_interested_packet p t = Some (interesting h, t\<lparr>tf_ignored_packet_count := n\<rparr>)"
  using assms
  by (intro exI [of _ "if th_data_offset h \<noteq> 0 \<and> is_abnormal_tcp_flags (th_flags h)
        then tf_ignored_packet_count t + 1 else tf_ignored_packet_count t"])
    (simp add: is_interested_packet_def interesting_def)

lemma tcp_parse_ok:
  assumes "tcp_perf_ok t" "tcp_data_of p = Some h"
  shows "\<exists>r t'. tcp_parse p fpd t = Some (r, t') \<and> tcp_perf_ok t'"
proof -
  obtain b n where i: "is_interested_packet p t = Some (b, t\<lparr>tf_ignored_packet_count := n\<rparr>)"
    using is_interested_packet_ok [OF assms(2)] by blast
  let ?t = "t\<lparr>tf_ignored_packet_count := n\<rparr>"
  have t: "tcp_perf_ok ?t" using assms(1) by (simp add: tcp_perf_ok_def)
  consider "\<not> b" | "b" "mp_timestamp p < sp_timestamp (tf_ctrl_0 ?t) \<or> mp_timestamp p < sp_timestamp (tf_ctrl_1 ?t)"
    | "b" "\<not> mp_timestamp p < sp_timestamp (tf_ctrl_0 ?t)" "\<not> mp_timestamp p < sp_timestamp (tf_ctrl_1 ?t)"
    by blast
  then show ?thesis
  proof cases
    case 1
    with i t show ?thesis by (simp add: tcp_parse_def tcp_perf_ok_def uninterested_def peer_defs)
  next
    case 2
    with i t show ?thesis by (simp add: tcp_parse_def tcp_perf_ok_def)
  next
    case 3
    obtain ret t1 where c: "calculate p fpd ?t = Some (ret, t1)" "handling p fpd t1"
      using calculate_handling [OF tcp_perf_ok_handling [OF t 3(2,3)] assms(2)] by blast
    obtain same oppo where s: "ctrl_of fpd t1 = (same, oppo)" by fastforce
    with update_data_ok [OF c(2) assms(2) s] c(1) 3 i show ?thesis
      by (auto simp: tcp_parse_def)
  qed
qed

subsection \<open>Properties\<close>

lemma calculate_retrans:
  assumes "calculate p fpd t = Some (b, t')"
  shows "\<exists>iv t1. is_invalid_retrans_packet p fpd t = Some ((iv, b), t1)"
  using assms by (auto simp: calculate_def bind_eq_Some_conv split: if_splits)

lemma is_invalid_retrans_iff:
  assumes "is_invalid_retrans_packet p fpd t = Some ((iv, b), t')" "tcp_data_of p = Some h"
  shows "b \<longleftrightarrow> \<not> is_syn p \<and> \<not> is_syn_ack p \<and> \<not> is_ack p \<and> has_valid_payload p
    \<and> (\<exists>s. assert_seq_number h (mp_payload_len p) (fst (ctrl_of fpd t)) = Some (SeqRetrans, s))"
  using assms
  by (auto simp: is_invalid_retrans_packet_def bind_eq_Some_conv case_prod_unfold Let_def
      split: if_splits packet_seq_type.splits) (metis packet_seq_type.exhaust)+

text \<open>
  C22: What the handler of a TCP packet returns: the time stamp error exactly for packets it
  looks at that are older than the last packet of either side, the retransmission error
  exactly for packets with a payload, other than handshake packets and pure
  acknowledgements, that the sequence list of their side recognises, and success otherwise.
\<close>

theorem tcp_parse_result:
  assumes "tcp_perf_ok t" "tcp_data_of p = Some h" "tcp_parse p fpd t = Some (r, t')"
    and "stale \<longleftrightarrow> mp_timestamp p < sp_timestamp (tf_ctrl_0 t) \<or> mp_timestamp p < sp_timestamp (tf_ctrl_1 t)"
  shows "(r = Inl InvalidPacketTimestamp \<longleftrightarrow> interesting h \<and> stale)
    \<and> (r = Inl RetransPacket \<longleftrightarrow> interesting h \<and> \<not> stale \<and> \<not> is_syn p \<and> \<not> is_syn_ack p
         \<and> \<not> is_ack p \<and> has_valid_payload p
         \<and> (\<exists>s. assert_seq_number h (mp_payload_len p) (fst (ctrl_of fpd t)) = Some (SeqRetrans, s)))
    \<and> r \<in> {Inr (), Inl InvalidPacketTimestamp, Inl RetransPacket}"
proof -
  obtain n where i: "is_interested_packet p t = Some (interesting h, t\<lparr>tf_ignored_packet_count := n\<rparr>)"
    using is_interested_packet_ok [OF assms(2)] by blast
  let ?t = "t\<lparr>tf_ignored_packet_count := n\<rparr>"
  consider "\<not> interesting h" | "interesting h" stale | "interesting h" "\<not> stale" by blast
  then show ?thesis
  proof cases
    case 3
    with assms(3,4) i obtain b t1 where c: "calculate p fpd ?t = Some (b, t1)"
      "r = (if b then Inl RetransPacket else Inr ())"
      by (auto simp: tcp_parse_def bind_eq_Some_conv case_prod_unfold Let_def)
    obtain iv t2 where "is_invalid_retrans_packet p fpd ?t = Some ((iv, b), t2)"
      using calculate_retrans [OF c(1)] by blast
    from is_invalid_retrans_iff [OF this assms(2)] c(2) 3 show ?thesis by auto
  qed (use assms(3,4) i in \<open>auto simp: tcp_parse_def\<close>)
qed

lemma micros32_le:
  assumes "t \<le> from_secs n" "unat n * 1000000 < 2 ^ 32"
  shows "unat (micros32 t) \<le> unat n * 1000000" "unat (micros32 t) = to_duration t div 1000"
proof -
  have n: "to_duration (from_secs n) = unat n * 1000000000"
    using assms(2) by (intro to_duration_from_secs) simp
  have le: "to_duration t div 1000 \<le> unat n * 1000000"
    using assms(1) n by (simp add: to_duration_mono)
  have "unat (micros32 t) = to_duration t div 1000 mod 2 ^ 32"
    unfolding micros32_def by (simp add: unsigned_ucast_eq take_bit_eq_mod unat_as_micros)
  with le assms(2) show "unat (micros32 t) = to_duration t div 1000" by simp
  with le show "unat (micros32 t) \<le> unat n * 1000000" by simp
qed

lemma time_ok_micros:
  "time_ok (from_secs n) s \<Longrightarrow> unat n * 1000000 < 2 ^ 32 \<Longrightarrow> unat (micros32 (tm_max s)) \<le> unat n * 1000000"
  by (rule micros32_le) (simp_all add: time_ok_def)

lemmas max_defs = RTT_MAX_def RTT_FULL_MAX_def ART_MAX_def SRT_MAX_def

lemma tcp_report_limits:
  assumes "tcp_perf_ok t" "tcp_copy_and_reset_data flow_reversed t = (stats, t')" "s = fp_tcp stats"
  shows "unat (tp_rtt s) \<le> 30000000 \<and> unat (tp_rtt_client_max s) \<le> 30000000
    \<and> unat (tp_rtt_server_max s) \<le> 30000000 \<and> unat (tp_srt_max s) \<le> 10000000
    \<and> unat (tp_art_max s) \<le> 30000000
    \<and> tp_total_retrans_count s
      = cp_retrans_count (fst (tp_counts_peers s)) + cp_retrans_count (snd (tp_counts_peers s))"
proof -
  let ?d = "tf_perf_data t"
  have d: "data_ok ?d" using assms(1) by (simp add: tcp_perf_ok_def)
  have b30: "unat (micros32 x) \<le> 30000000" if "x \<le> from_secs 30" for x
    using micros32_le(1) [OF that] by simp
  have b10: "unat (micros32 x) \<le> 10000000" if "x \<le> from_secs 10" for x
    using micros32_le(1) [OF that] by simp
  have times: "unat (micros32 (pd_rtt_full ?d)) \<le> 30000000"
    "unat (micros32 (tm_max (pd_rtt_0 ?d))) \<le> 30000000" "unat (micros32 (tm_max (pd_rtt_1 ?d))) \<le> 30000000"
    "unat (micros32 (tm_max (pd_art_0 ?d))) \<le> 30000000" "unat (micros32 (tm_max (pd_art_1 ?d))) \<le> 30000000"
    "unat (micros32 (tm_max (pd_srt_0 ?d))) \<le> 10000000" "unat (micros32 (tm_max (pd_srt_1 ?d))) \<le> 10000000"
    using d by (auto simp: data_ok_def time_ok_def max_defs intro!: b30 b10)
  have sum: "pd_retrans_sum ?d = pd_retrans_0 ?d + pd_retrans_1 ?d" using d by (simp add: data_ok_def)
  have "s = fp_tcp (snd (update_perf_stats ?d (default_flow_perf_stats\<lparr>fp_l4_protocol := L4Tcp\<rparr>) flow_reversed))"
    using assms(2,3) by (auto simp: tcp_copy_and_reset_data_def Let_def case_prod_unfold)
  then show ?thesis
    using times sum
    by (cases flow_reversed) (simp_all add: update_perf_stats_def default_flow_perf_stats_def
      default_tcp_stats_def default_counts_peer_def tcp_stats_reverse_def Let_def add.commute)
qed

definition tcp_packet :: "timestamp \<Rightarrow> packet_direction \<Rightarrow> tcp_flags \<Rightarrow> u32 \<Rightarrow> u32 \<Rightarrow> u16 \<Rightarrow> meta_packet" where
  "tcp_packet ts dir flags q a n =
     \<lparr>mp_timestamp = ts, mp_direction = dir, mp_is_ipv4 = True, mp_payload_len = n,
      mp_protocol_data = TcpHeader \<lparr>th_seq = q, th_ack = a, th_win_size = 1024, th_flags = flags,
        th_data_offset = 5, th_win_scale = 0\<rparr>\<rparr>"

definition after_syn :: "timestamp \<Rightarrow> u32 \<Rightarrow> tcp_perf" where
  "after_syn t0 q0 =
     \<lparr>tf_ctrl_0 = default_session_peer
        \<lparr>sp_timestamp := t0, sp_first_handshake_timestamp := t0, sp_seq_threshold := q0 + 1,
         sp_seq := q0, sp_payload_len := 1, sp_win_size := 1024, sp_syn_transmitted := True,
         sp_rtt_calculable := True\<rparr>,
      tf_ctrl_1 = default_session_peer\<lparr>sp_rtt_calculable := True\<rparr>,
      tf_perf_data = default_perf_data\<lparr>pd_syn := 1, pd_updated := True\<rparr>,
      tf_handshaking = True, tf_ignored_packet_count = 0, tf_invalid_packet_count = 0\<rparr>"

lemma tcp_packet_preds [simp]:
  "is_syn (tcp_packet ts dir f q a n) \<longleftrightarrow> f AND MASK = SYN"
  "is_syn_ack (tcp_packet ts dir f q a n) \<longleftrightarrow> f AND MASK = SYN_ACK \<and> n = 0"
  "is_ack (tcp_packet ts dir f q a n) \<longleftrightarrow> f AND MASK = ACK \<and> n = 0"
  "is_psh_ack (tcp_packet ts dir f q a n) \<longleftrightarrow> f AND MASK = PSH_ACK \<and> 1 < n"
  "has_valid_payload (tcp_packet ts dir f q a n) \<longleftrightarrow> 1 < n"
  "mp_timestamp (tcp_packet ts dir f q a n) = ts"
  "mp_payload_len (tcp_packet ts dir f q a n) = n"
  "is_reply_packet s (tcp_packet ts dir f q a n) \<longleftrightarrow> a = sp_seq s + sp_payload_len s"
  "is_handshake_ack s (tcp_packet ts dir f q a n) \<longleftrightarrow> f AND MASK = ACK \<and> n = 0 \<and> sp_seq_threshold s = a"
  "is_sync_ack_ack_packet s (tcp_packet ts dir f q a n) \<longleftrightarrow> f AND MASK = ACK \<and> n = 0 \<and> a = sp_seq_threshold s"
  "tcp_data_of (tcp_packet ts dir f q a n) = Some \<lparr>th_seq = q, th_ack = a, th_win_size = 1024, th_flags = f,
        th_data_offset = 5, th_win_scale = 0\<rparr>"
  by (simp_all add: packet_defs tcp_packet_def is_reply_packet_def is_handshake_ack_def
      is_sync_ack_ack_packet_def tcp_data_of_def)

lemmas handler_defs = tcp_parse_def is_interested_packet_def calculate_def is_invalid_retrans_packet_def
  flow_opening_def measure_rtt_def measure_rtt_full_def opening_flags_def count_syn_def update_data_def
  ctrl_of_def put_ctrl_def is_abnormal_tcp_flags_def is_unconcerned_tcp_flags_def
  contains_flags_def intersects_flags_def Let_def

lemma parse_syn:
  "tcp_parse (tcp_packet t0 dir SYN q0 0 0) True tcp_perf_new = Some (Inr (), after_syn t0 q0)"
  by (simp add: handler_defs flag_simps tcp_perf_new_def after_syn_def default_session_peer_def calc_defs
    not_less default_perf_data_def)


lemma not_less_ts_zero [simp]: "\<not> t < ts_zero"
  by (simp add: not_less)

lemma ts_sub_cases:
  assumes "a < b" "ts_sub b a = Some d" "d \<le> mx"
  shows "\<not> ts_is_zero d" "adjust_rtt d mx = d" "\<not> b < a" "a \<le> b"
proof -
  have "d = Timestamp (as_nanos b - as_nanos a)" using assms(2) by (simp add: ts_sub_eq_Some)
  then show "\<not> ts_is_zero d" using assms(1) by (auto simp: ts_is_zero_def less_timestamp_def)
qed (use assms in \<open>auto simp: adjust_rtt_def\<close>)

definition single_time :: "timestamp \<Rightarrow> time_stats" where
  "single_time d = \<lparr>tm_count = 1, tm_sum = d, tm_max = d, tm_updated = True\<rparr>"

lemma time_update_default: "\<not> ts_is_zero d \<Longrightarrow> time_update d default_time_stats = single_time d"
  by (cases d) (auto simp: time_update_def default_time_stats_def single_time_def ts_add_def ts_zero_def
      ts_is_zero_def word_gt_0)

definition after_syn_ack :: "timestamp \<Rightarrow> u32 \<Rightarrow> timestamp \<Rightarrow> u32 \<Rightarrow> timestamp \<Rightarrow> tcp_perf" where
  "after_syn_ack t0 q0 t1 q1 d1 =
     (after_syn t0 q0)
     \<lparr>tf_ctrl_0 := (tf_ctrl_0 (after_syn t0 q0))
        \<lparr>sp_rtt_full_precondition := True, sp_rtt_full_calculable := True\<rparr>,
      tf_ctrl_1 := default_session_peer
        \<lparr>sp_timestamp := t1, sp_first_handshake_timestamp := t1, sp_seq_threshold := q1 + 1,
         sp_seq := q1, sp_payload_len := 1, sp_win_size := 1024, sp_rtt_calculable := True\<rparr>,
      tf_perf_data := default_perf_data
        \<lparr>pd_syn := 1, pd_synack := 1, pd_rtt_1 := single_time d1, pd_updated := True\<rparr>\<rparr>"

lemma parse_syn_ack:
  assumes "q0 + 1 \<noteq> 0" "t0 \<noteq> ts_zero" "t0 < t1" "ts_sub t1 t0 = Some d1" "d1 \<le> RTT_MAX"
  shows "tcp_parse (tcp_packet t1 dir SYN_ACK q1 (q0 + 1) 0) False (after_syn t0 q0)
    = Some (Inr (), after_syn_ack t0 q0 t1 q1 d1)"
  using assms(1,2,4) ts_sub_cases [OF assms(3-5)] time_update_default [of d1]
  by (simp add: handler_defs flag_simps after_syn_def after_syn_ack_def default_session_peer_def calc_defs
    default_perf_data_def ts_is_zero_iff)

lemma parse_handshake_ack:
  assumes "q0 + 1 \<noteq> 0" "t0 \<noteq> ts_zero" "t0 < t1" "t1 < t2"
    and "ts_sub t2 t1 = Some d2" "d2 \<le> RTT_MAX" "ts_sub t2 t0 = Some d3" "d3 \<le> RTT_FULL_MAX"
  shows "\<exists>t. tcp_parse (tcp_packet t2 dir ACK (q0 + 1) (q1 + 1) 0) True (after_syn_ack t0 q0 t1 q1 d1)
    = Some (Inr (), t) \<and> tf_perf_data t = default_perf_data
        \<lparr>pd_syn := 1, pd_synack := 1, pd_rtt_0 := single_time d2, pd_rtt_1 := single_time d1,
         pd_rtt_full := d3, pd_updated := True\<rparr>"
proof -
  have t: "t0 < t2" "t1 \<noteq> ts_zero" using assms(2-4) ts_zero_le [of t0] by (auto simp: not_less [symmetric])
  show ?thesis
  using assms(1,2,5,7) t(2) ts_sub_cases [OF assms(4-6)] ts_sub_cases [OF t(1) assms(7,8)] time_update_default [of d2]
  by (simp add: handler_defs flag_simps after_syn_def after_syn_ack_def default_session_peer_def calc_defs
    default_perf_data_def ts_is_zero_iff)
qed


text \<open>Durations of differences.\<close>

lemma to_duration_sub:
  assumes "a \<le> b"
  shows "\<exists>d. ts_sub b a = Some d \<and> to_duration d = to_duration b - to_duration a"
  using assms
  by (simp add: ts_sub_eq_Some to_duration_def unat_sub_exact less_eq_timestamp_def)

lemma to_duration_secs_le: "unat n < 2 ^ 32 \<Longrightarrow> d \<le> from_secs n \<longleftrightarrow> to_duration d \<le> unat n * 1000000000"
  by (simp add: to_duration_mono to_duration_from_secs)

lemma seq_succ_zero: "q + 1 = 0 \<longleftrightarrow> q = 0xffffffff" for q :: u32
proof -
  have "(- 1 :: u32) = 0xffffffff" by code_simp
  then show ?thesis using add_eq_0_iff2 [of q 1] by (simp only:)
qed

text \<open>
  C16: A three way handshake within 30 seconds is measured exactly: for all sequence numbers
  (the initial one not being the largest) and all increasing non-zero time stamps, the
  packets are accepted, and the report has the server side round trip time from SYN to
  SYN-ACK, the client side one from SYN-ACK to ACK and the full one from SYN to ACK, in
  microseconds, one sample each and no retransmission.

  The comments of tcp.rs name the two fields the other way round: on the declaration of
  PerfData (398-399) and in flow_opening (748-759) they give rtt_0, which update_perf_stats
  reports as rtt_client, as the time from SYN to SYN-ACK, and rtt_1 as the time from SYN-ACK
  to ACK.  calc_rtt files the sample under the direction of the packet that ends it, so the
  SYN-ACK of the server fills rtt_1 and the ACK of the client rtt_0; the theorem states what
  the code does.
\<close>

theorem handshake_rtt:
  assumes "q0 \<noteq> 0xffffffff" "t0 \<noteq> ts_zero" "t0 < t1" "t1 < t2"
    and "to_duration t2 - to_duration t0 \<le> 30000000000"
  shows "\<exists>a b c s. tcp_parse (tcp_packet t0 ClientToServer SYN q0 0 0) True tcp_perf_new = Some (Inr (), a)
    \<and> tcp_parse (tcp_packet t1 ServerToClient SYN_ACK q1 (q0 + 1) 0) False a = Some (Inr (), b)
    \<and> tcp_parse (tcp_packet t2 ClientToServer ACK (q0 + 1) (q1 + 1) 0) True b = Some (Inr (), c)
    \<and> s = fp_tcp (fst (tcp_copy_and_reset_data False c))
    \<and> unat (tp_rtt_server_max s) = (to_duration t1 - to_duration t0) div 1000
    \<and> unat (tp_rtt_client_max s) = (to_duration t2 - to_duration t1) div 1000
    \<and> unat (tp_rtt s) = (to_duration t2 - to_duration t0) div 1000
    \<and> tp_rtt_client_count s = 1 \<and> tp_rtt_server_count s = 1
    \<and> tp_syn_count s = 1 \<and> tp_synack_count s = 1 \<and> tp_total_retrans_count s = 0"
proof -
  obtain d1 d2 d3 where d: "ts_sub t1 t0 = Some d1" "to_duration d1 = to_duration t1 - to_duration t0"
    "ts_sub t2 t1 = Some d2" "to_duration d2 = to_duration t2 - to_duration t1"
    "ts_sub t2 t0 = Some d3" "to_duration d3 = to_duration t2 - to_duration t0"
    using to_duration_sub assms(3,4) by (meson less_imp_le less_trans)
  have "to_duration t0 \<le> to_duration t1" "to_duration t1 \<le> to_duration t2"
    using assms(3,4) by (simp_all flip: to_duration_mono)
  then have le: "d1 \<le> from_secs 30" "d2 \<le> from_secs 30" "d3 \<le> from_secs 30"
    using d assms(5) by (simp_all add: to_duration_secs_le)
  obtain c where c: "tcp_parse (tcp_packet t2 ClientToServer ACK (q0 + 1) (q1 + 1) 0) True
      (after_syn_ack t0 q0 t1 q1 d1) = Some (Inr (), c)"
    "tf_perf_data c = default_perf_data
        \<lparr>pd_syn := 1, pd_synack := 1, pd_rtt_0 := single_time d2, pd_rtt_1 := single_time d1,
         pd_rtt_full := d3, pd_updated := True\<rparr>"
    using parse_handshake_ack [of q0 t0 t1 t2 d2 d3 ClientToServer q1 d1] assms d(3,5) le
    by (auto simp: RTT_MAX_def RTT_FULL_MAX_def seq_succ_zero)
  have b: "tcp_parse (tcp_packet t1 ServerToClient SYN_ACK q1 (q0 + 1) 0) False (after_syn t0 q0)
    = Some (Inr (), after_syn_ack t0 q0 t1 q1 d1)"
    using assms(1-3) d(1) le(1) by (intro parse_syn_ack) (simp_all add: RTT_MAX_def seq_succ_zero)
  note m = micros32_le(2) [OF le(1)] micros32_le(2) [OF le(2)] micros32_le(2) [OF le(3)]
  have "s = fp_tcp (fst (tcp_copy_and_reset_data False c)) \<Longrightarrow>
    unat (tp_rtt_server_max s) = (to_duration t1 - to_duration t0) div 1000
    \<and> unat (tp_rtt_client_max s) = (to_duration t2 - to_duration t1) div 1000
    \<and> unat (tp_rtt s) = (to_duration t2 - to_duration t0) div 1000
    \<and> tp_rtt_client_count s = 1 \<and> tp_rtt_server_count s = 1
    \<and> tp_syn_count s = 1 \<and> tp_synack_count s = 1 \<and> tp_total_retrans_count s = 0" for s
    using m d(2,4,6)
    by (simp add: tcp_copy_and_reset_data_def update_perf_stats_def c(2) single_time_def
        default_perf_data_def default_time_stats_def default_flow_perf_stats_def default_tcp_stats_def Let_def)
  with parse_syn b c(1) show ?thesis by blast
qed

text \<open>
  A repeated SYN is counted as a SYN and as a retransmission, unless its sequence number
  is the largest one: then the next expected sequence number wraps to zero, which the
  handler takes for an unset one, and the retransmission is missed.
\<close>

theorem syn_retransmission:
  assumes "t0 \<le> t1"
  shows "\<exists>a b. tcp_parse (tcp_packet t0 ClientToServer SYN q 0 0) True tcp_perf_new = Some (Inr (), a)
    \<and> tcp_parse (tcp_packet t1 ClientToServer SYN q 0 0) True a = Some (Inr (), b)
    \<and> pd_syn (tf_perf_data b) = 2
    \<and> pd_retrans_syn (tf_perf_data b) = (if q = 0xffffffff then 0 else 1)
    \<and> pd_retrans_sum (tf_perf_data b) = (if q = 0xffffffff then 0 else 1)"
proof -
  have "\<exists>b. tcp_parse (tcp_packet t1 ClientToServer SYN q 0 0) True (after_syn t0 q) = Some (Inr (), b)
    \<and> pd_syn (tf_perf_data b) = 2
    \<and> pd_retrans_syn (tf_perf_data b) = (if q + 1 = 0 then 0 else 1)
    \<and> pd_retrans_sum (tf_perf_data b) = (if q + 1 = 0 then 0 else 1)"
    using assms
    by (cases "q + 1 = 0")
      (simp_all add: handler_defs flag_simps after_syn_def default_session_peer_def calc_defs
        default_perf_data_def not_less)
  with parse_syn show ?thesis unfolding seq_succ_zero by blast
qed

lemma win_scale_and_le: "unat (s AND WIN_SCALE_MASK) \<le> 15"
proof -
  have "s AND WIN_SCALE_MASK \<le> WIN_SCALE_MASK" by (rule word_and_le1)
  then show ?thesis by (simp add: word_le_nat_alt WIN_SCALE_MASK_def)
qed

lemma push_bit_eq_0:
  assumes "k \<le> 15" shows "push_bit k (ucast (w :: u16) :: u32) = 0 \<longleftrightarrow> w = 0"
proof -
  have lt: "unat w * 2 ^ k < 2 ^ 32"
  proof -
    have "unat w * 2 ^ k \<le> unat w * 2 ^ 15" using assms by (intro mult_le_mono power_increasing) simp_all
    also have "\<dots> < 2 ^ 16 * 2 ^ 15" using unsigned_less [of w] by simp
    finally show ?thesis by simp
  qed
  have "unat (push_bit k (ucast w :: u32)) = unat w * 2 ^ k mod 2 ^ 32"
    unfolding unsigned_push_bit_eq by (simp add: push_bit_eq_mult take_bit_eq_mod unat_ucast_up)
  also have "\<dots> = unat w * 2 ^ k" using lt by simp
  finally have "unat (push_bit k (ucast w :: u32)) = 0 \<longleftrightarrow> unat w = 0" by simp
  then show ?thesis by (simp only: unat_eq_zero)
qed

text \<open>
  Shifting the window by the negotiated scale never changes the zero window test: the
  scale is at most 15 bits and the window is widened to 32 bits first, so the scaled window
  is zero exactly when the field of the packet is.
\<close>

theorem zero_window_unscaled: "window_size h same oppo = 0 \<longleftrightarrow> th_win_size h = 0"
  using push_bit_eq_0 [OF win_scale_and_le, of "sp_win_scale same" "th_win_size h"]
    push_bit_eq_0 [of 0 "th_win_size h"]
  by (simp add: window_size_def Let_def)

theorem handshake_rtt_witness:
  "\<exists>a b c s. tcp_parse (tcp_packet (from_millis 1000) ClientToServer SYN 7 0 0) True tcp_perf_new = Some (Inr (), a)
    \<and> tcp_parse (tcp_packet (from_millis 1030) ServerToClient SYN_ACK 99 8 0) False a = Some (Inr (), b)
    \<and> tcp_parse (tcp_packet (from_millis 1035) ClientToServer ACK 8 100 0) True b = Some (Inr (), c)
    \<and> s = fp_tcp (fst (tcp_copy_and_reset_data False c))
    \<and> unat (tp_rtt_server_max s) = 30000 \<and> unat (tp_rtt_client_max s) = 5000
    \<and> unat (tp_rtt s) = 35000
    \<and> tp_rtt_client_count s = 1 \<and> tp_rtt_server_count s = 1
    \<and> tp_syn_count s = 1 \<and> tp_synack_count s = 1 \<and> tp_total_retrans_count s = 0"
  using handshake_rtt [of 7 "from_millis 1000" "from_millis 1030" "from_millis 1035" 99]
  by (simp add: from_millis_def nanos_defs to_duration_def ts_zero_def)

theorem syn_retransmission_witness:
  "\<exists>a b. tcp_parse (tcp_packet (from_millis 1000) ClientToServer SYN 0xffffffff 0 0) True tcp_perf_new = Some (Inr (), a)
    \<and> tcp_parse (tcp_packet (from_millis 4000) ClientToServer SYN 0xffffffff 0 0) True a = Some (Inr (), b)
    \<and> pd_syn (tf_perf_data b) = 2 \<and> pd_retrans_syn (tf_perf_data b) = 0 \<and> pd_retrans_sum (tf_perf_data b) = 0"
  using syn_retransmission [of "from_millis 1000" "from_millis 4000" "0xffffffff"]
  by (simp add: from_millis_def nanos_defs)

theorem tcp_parse_result_witness:
  "\<exists>r t. tcp_parse (tcp_packet (from_millis 900) ClientToServer ACK 8 1 0) True (after_syn (from_millis 1000) 7) = Some (r, t)
     \<and> r = Inl InvalidPacketTimestamp"
proof -
  let ?p = "tcp_packet (from_millis 900) ClientToServer ACK 8 1 0"
  let ?t = "after_syn (from_millis 1000) 7"
  have ok: "tcp_perf_ok ?t"
    using tcp_parse_ok [OF tcp_perf_new_ok, of "tcp_packet (from_millis 1000) ClientToServer SYN 7 0 0" _ True]
      parse_syn [of "from_millis 1000" ClientToServer 7] by auto
  obtain h where h: "tcp_data_of ?p = Some h" "interesting h"
    by (auto simp: interesting_def is_abnormal_tcp_flags_def is_unconcerned_tcp_flags_def
        contains_flags_def intersects_flags_def flag_simps)
  obtain r t' where r: "tcp_parse ?p True ?t = Some (r, t')" using tcp_parse_ok [OF ok h(1)] by blast
  have stale: "mp_timestamp ?p < sp_timestamp (tf_ctrl_0 ?t)"
    by (simp add: after_syn_def from_millis_def nanos_defs)
  from tcp_parse_result [OF ok h(1) r refl] h(2) stale r show ?thesis by auto
qed

end
