(* ===== verification/L4_Perf.thy ===== *)
theory L4_Perf
  imports Tcp_Perf
begin

section \<open>Performance counters of UDP and ICMP flows, and of every flow\<close>

text \<open>
  \<^verbatim>\<open>agent/src/flow_generator/perf/udp.rs\<close>, \<^verbatim>\<open>icmp.rs\<close> and the trait \<^verbatim>\<open>L4FlowPerf\<close> with
  its dispatching enum of \<^verbatim>\<open>mod.rs\<close>.  The trait is a locale: what the flow map relies on
  when it feeds packets to a flow and collects its reports.  It is interpreted on the TCP,
  UDP and ICMP counters and on the enum.

  The numbers of the ICMP message types are constants of the pnet crate, so they are a
  parameter of the ICMP parser.
\<close>

subsection \<open>UDP\<close>

record udp_perf =
  up_req_timestamp :: timestamp
  up_art_max :: timestamp
  up_art_sum :: timestamp
  up_art_count :: u32
  up_last_pkt_direction :: packet_direction
  up_data_update_flag :: bool

definition udp_perf_new :: udp_perf where
  "udp_perf_new = \<lparr>up_req_timestamp = ts_zero, up_art_max = ts_zero, up_art_sum = ts_zero,
     up_art_count = 0, up_last_pkt_direction = ClientToServer, up_data_update_flag = False\<rparr>"

definition udp_parse :: "meta_packet \<Rightarrow> bool \<Rightarrow> udp_perf \<Rightarrow> ((perf_error + unit) \<times> udp_perf) may_panic" where
  "udp_parse p fpd u =
     (if mp_payload_len p = 0 then Some (Inl ZeroPayloadLen, u)
      else do {
        u \<leftarrow> (if mp_direction p = ClientToServer then Some (u\<lparr>up_req_timestamp := mp_timestamp p\<rparr>)
              else if up_req_timestamp u \<noteq> ts_zero \<and> up_req_timestamp u \<le> mp_timestamp p
                   \<and> mp_direction p \<noteq> up_last_pkt_direction u
              then do {
                art \<leftarrow> ts_sub (mp_timestamp p) (up_req_timestamp u);
                Some (if art \<le> ART_MAX
                      then u\<lparr>up_art_max := max (up_art_max u) art,
                             up_art_sum := ts_add (up_art_sum u) art,
                             up_art_count := up_art_count u + 1,
                             up_data_update_flag := True\<rparr>
                      else u) }
              else Some u);
        Some (Inr (), u\<lparr>up_last_pkt_direction := mp_direction p\<rparr>) })"

definition udp_data_updated :: "udp_perf \<Rightarrow> bool" where
  "udp_data_updated u = up_data_update_flag u"

text \<open>The quotient \<^verbatim>\<open>as_nanos() / from_micros(1).as_nanos()\<close> as \<^verbatim>\<open>u32\<close>.\<close>

definition nanos_to_micros32 :: "timestamp \<Rightarrow> u32" where
  "nanos_to_micros32 t = ucast (as_nanos t div as_nanos (from_micros 1))"

definition udp_copy_and_reset_data :: "bool \<Rightarrow> udp_perf \<Rightarrow> flow_perf_stats \<times> udp_perf" where
  "udp_copy_and_reset_data flow_reversed u =
     (let stats = default_flow_perf_stats\<lparr>fp_l4_protocol := L4Udp\<rparr>;
          tcp = (fp_tcp stats)\<lparr>tp_art_max := nanos_to_micros32 (up_art_max u),
                 tp_art_sum := nanos_to_micros32 (up_art_sum u), tp_art_count := up_art_count u\<rparr>
      in (stats\<lparr>fp_tcp := tcp\<rparr>, udp_perf_new))"

subsection \<open>ICMP\<close>

record icmp_types =
  echo_request_v4 :: u8
  echo_reply_v4 :: u8
  echo_request_v6 :: u8
  echo_reply_v6 :: u8

definition MAX_CACHE_COUNT :: nat where "MAX_CACHE_COUNT = 16"

record last_icmp =
  li_timestamp :: timestamp
  li_id_and_seq :: u32

record icmp_perf =
  ip_srt_max :: timestamp
  ip_srt_sum :: timestamp
  ip_srt_count :: u32
  ip_last_requests :: "last_icmp list"
  ip_last_replies :: "last_icmp list"
  ip_data_update_flag :: bool

definition icmp_perf_new :: icmp_perf where
  "icmp_perf_new = \<lparr>ip_srt_max = ts_zero, ip_srt_sum = ts_zero, ip_srt_count = 0,
     ip_last_requests = [], ip_last_replies = [], ip_data_update_flag = False\<rparr>"

definition set_srt :: "timestamp \<Rightarrow> icmp_perf \<Rightarrow> icmp_perf" where
  "set_srt srt i =
     (if srt \<le> ART_MAX
      then i\<lparr>ip_srt_max := max (ip_srt_max i) srt, ip_srt_sum := ts_add (ip_srt_sum i) srt,
             ip_srt_count := ip_srt_count i + 1, ip_data_update_flag := True\<rparr>
      else i)"

definition icmp_reset :: "icmp_perf \<Rightarrow> icmp_perf" where
  "icmp_reset i = i\<lparr>ip_srt_max := ts_zero, ip_srt_sum := ts_zero, ip_srt_count := 0,
     ip_data_update_flag := False\<rparr>"

text \<open>\<^verbatim>\<open>position\<close> of the first entry with the identifier, and \<^verbatim>\<open>remove\<close>.\<close>

fun position_of :: "u32 \<Rightarrow> last_icmp list \<Rightarrow> nat option" where
  "position_of x [] = None"
| "position_of x (l # ls) =
     (if li_id_and_seq l = x then Some 0 else map_option Suc (position_of x ls))"

definition remove_at :: "nat \<Rightarrow> 'a list \<Rightarrow> 'a list" where
  "remove_at i xs = take i xs @ drop (Suc i) xs"

definition push_bounded :: "last_icmp \<Rightarrow> last_icmp list \<Rightarrow> last_icmp list" where
  "push_bounded l ls = (if length ls \<ge> MAX_CACHE_COUNT then tl ls else ls) @ [l]"

definition icmp_kind :: "icmp_types \<Rightarrow> meta_packet \<Rightarrow> icmp_data \<Rightarrow> bool \<times> bool" where
  "icmp_kind k p d =
     (if mp_is_ipv4 p
      then (icmp_type d = echo_request_v4 k, icmp_type d = echo_reply_v4 k)
      else (icmp_type d = echo_request_v6 k, icmp_type d = echo_reply_v6 k))"

definition icmp_on_request :: "timestamp \<Rightarrow> u32 \<Rightarrow> icmp_perf \<Rightarrow> icmp_perf may_panic" where
  "icmp_on_request ts x i =
     (case position_of x (ip_last_replies i) of
        Some n \<Rightarrow> do {
          let last = li_timestamp (ip_last_replies i ! n);
          i \<leftarrow> (if ts \<le> last then do {
                  srt \<leftarrow> ts_sub last ts;
                  Some (set_srt srt i) }
                else Some i);
          Some (i\<lparr>ip_last_replies := remove_at n (ip_last_replies i)\<rparr>) }
      | None \<Rightarrow>
          Some (i\<lparr>ip_last_requests :=
            push_bounded \<lparr>li_timestamp = ts, li_id_and_seq = x\<rparr> (ip_last_requests i)\<rparr>))"

definition icmp_on_reply :: "timestamp \<Rightarrow> u32 \<Rightarrow> icmp_perf \<Rightarrow> icmp_perf may_panic" where
  "icmp_on_reply ts x i =
     (case position_of x (ip_last_requests i) of
        Some n \<Rightarrow> do {
          let last = li_timestamp (ip_last_requests i ! n);
          i \<leftarrow> (if ts \<ge> last then do {
                  srt \<leftarrow> ts_sub ts last;
                  Some (set_srt srt i) }
                else Some i);
          Some (i\<lparr>ip_last_requests := remove_at n (ip_last_requests i)\<rparr>) }
      | None \<Rightarrow>
          Some (i\<lparr>ip_last_replies :=
            push_bounded \<lparr>li_timestamp = ts, li_id_and_seq = x\<rparr> (ip_last_replies i)\<rparr>))"

definition icmp_parse ::
  "icmp_types \<Rightarrow> meta_packet \<Rightarrow> bool \<Rightarrow> icmp_perf \<Rightarrow> ((perf_error + unit) \<times> icmp_perf) may_panic" where
  "icmp_parse k p fpd i =
     (if mp_payload_len p = 0 then Some (Inl ZeroPayloadLen, i)
      else case mp_protocol_data p of
        TcpHeader _ \<Rightarrow> Some (Inl InvalidIpProtocol, i)
      | IcmpData d \<Rightarrow> do {
          let (is_request, is_reply) = icmp_kind k p d;
          i \<leftarrow> (if is_request then icmp_on_request (mp_timestamp p) (echo_id_seq d) i
                else if is_reply then icmp_on_reply (mp_timestamp p) (echo_id_seq d) i
                else Some i);
          Some (Inr (), i) })"

definition icmp_data_updated :: "icmp_perf \<Rightarrow> bool" where
  "icmp_data_updated i = ip_data_update_flag i"

text \<open>The loop of \<^verbatim>\<open>copy_and_reset_data\<close>, over the indices from the last one down.\<close>

fun icmp_pair :: "nat list \<Rightarrow> icmp_perf \<Rightarrow> icmp_perf may_panic" where
  "icmp_pair [] i = Some i"
| "icmp_pair (n # ns) i = do {
     assert_that (n < length (ip_last_requests i));
     let request = ip_last_requests i ! n;
     i \<leftarrow> (case position_of (li_id_and_seq request) (ip_last_replies i) of
            Some m \<Rightarrow> do {
              let reply = ip_last_replies i ! m;
              i \<leftarrow> (if li_timestamp request \<le> li_timestamp reply then do {
                      srt \<leftarrow> ts_sub (li_timestamp reply) (li_timestamp request);
                      Some (set_srt srt i) }
                    else Some i);
              Some (i\<lparr>ip_last_requests := remove_at n (ip_last_requests i),
                      ip_last_replies := remove_at m (ip_last_replies i)\<rparr>) }
          | None \<Rightarrow> Some i);
     icmp_pair ns i
   }"

definition icmp_copy_and_reset_data :: "bool \<Rightarrow> icmp_perf \<Rightarrow> (flow_perf_stats \<times> icmp_perf) may_panic" where
  "icmp_copy_and_reset_data flow_reversed i = do {
     i \<leftarrow> icmp_pair (rev [0..<length (ip_last_requests i)]) i;
     let stats = default_flow_perf_stats\<lparr>fp_l4_protocol := L4Icmp\<rparr>;
     let tcp = (fp_tcp stats)\<lparr>tp_srt_max := nanos_to_micros32 (ip_srt_max i),
                tp_srt_sum := nanos_to_micros32 (ip_srt_sum i), tp_srt_count := ip_srt_count i\<rparr>;
     Some (stats\<lparr>fp_tcp := tcp\<rparr>, icmp_reset i)
   }"

subsection \<open>The counters of a flow of any protocol\<close>

datatype l4_perf_table = TcpTable tcp_perf | UdpTable udp_perf | IcmpTable icmp_perf

fun table_parse ::
  "icmp_types \<Rightarrow> meta_packet \<Rightarrow> bool \<Rightarrow> l4_perf_table \<Rightarrow> ((perf_error + unit) \<times> l4_perf_table) may_panic" where
  "table_parse k p fpd (TcpTable t) = map_option (map_prod id TcpTable) (tcp_parse p fpd t)"
| "table_parse k p fpd (UdpTable t) = map_option (map_prod id UdpTable) (udp_parse p fpd t)"
| "table_parse k p fpd (IcmpTable t) = map_option (map_prod id IcmpTable) (icmp_parse k p fpd t)"

fun table_data_updated :: "l4_perf_table \<Rightarrow> bool" where
  "table_data_updated (TcpTable t) = tcp_data_updated t"
| "table_data_updated (UdpTable t) = udp_data_updated t"
| "table_data_updated (IcmpTable t) = icmp_data_updated t"

fun table_copy_and_reset_data ::
  "bool \<Rightarrow> l4_perf_table \<Rightarrow> (flow_perf_stats \<times> l4_perf_table) may_panic" where
  "table_copy_and_reset_data b (TcpTable t) = Some (map_prod id TcpTable (tcp_copy_and_reset_data b t))"
| "table_copy_and_reset_data b (UdpTable t) = Some (map_prod id UdpTable (udp_copy_and_reset_data b t))"
| "table_copy_and_reset_data b (IcmpTable t) =
     map_option (map_prod id IcmpTable) (icmp_copy_and_reset_data b t)"

subsection \<open>The contract of the counters\<close>

datatype l4_op = Parse meta_packet bool | Report bool

fun l4_exec ::
  "(meta_packet \<Rightarrow> bool \<Rightarrow> 's \<Rightarrow> ((perf_error + unit) \<times> 's) may_panic) \<Rightarrow>
   (bool \<Rightarrow> 's \<Rightarrow> (flow_perf_stats \<times> 's) may_panic) \<Rightarrow>
   l4_op list \<Rightarrow> 's \<Rightarrow> (flow_perf_stats list \<times> 's) may_panic" where
  "l4_exec parse report [] s = Some ([], s)"
| "l4_exec parse report (Parse p fpd # ops) s = do {
     (r, s) \<leftarrow> parse p fpd s;
     l4_exec parse report ops s }"
| "l4_exec parse report (Report b # ops) s = do {
     (st, s) \<leftarrow> report b s;
     (sts, s) \<leftarrow> l4_exec parse report ops s;
     Some (st # sts, s) }"

definition empty_report :: "l4_protocol \<Rightarrow> flow_perf_stats" where
  "empty_report proto = default_flow_perf_stats\<lparr>fp_l4_protocol := proto\<rparr>"

definition report_ok :: "l4_protocol \<Rightarrow> flow_perf_stats \<Rightarrow> bool" where
  "report_ok proto st \<longleftrightarrow> fp_l4_protocol st = proto \<and> unat (tp_rtt (fp_tcp st)) \<le> 30000000
     \<and> unat (tp_rtt_client_max (fp_tcp st)) \<le> 30000000
     \<and> unat (tp_rtt_server_max (fp_tcp st)) \<le> 30000000
     \<and> unat (tp_srt_max (fp_tcp st)) \<le> 30000000 \<and> unat (tp_art_max (fp_tcp st)) \<le> 30000000"

fun op_accepted :: "(meta_packet \<Rightarrow> bool) \<Rightarrow> l4_op \<Rightarrow> bool" where
  "op_accepted ok (Parse p fpd) = ok p"
| "op_accepted ok (Report b) = True"

locale l4_flow_perf =
  fixes parse :: "meta_packet \<Rightarrow> bool \<Rightarrow> 's \<Rightarrow> ((perf_error + unit) \<times> 's) may_panic"
    and data_updated :: "'s \<Rightarrow> bool"
    and report :: "bool \<Rightarrow> 's \<Rightarrow> (flow_perf_stats \<times> 's) may_panic"
    and inv :: "'s \<Rightarrow> bool"
    and accepts :: "'s \<Rightarrow> meta_packet \<Rightarrow> bool"
    and proto :: "'s \<Rightarrow> l4_protocol"
  assumes parse_total: "inv s \<Longrightarrow> accepts s p \<Longrightarrow>
      \<exists>r s'. parse p fpd s = Some (r, s') \<and> inv s' \<and> accepts s' = accepts s \<and> proto s' = proto s"
    and report_total: "inv s \<Longrightarrow> \<exists>st s'. report b s = Some (st, s') \<and> inv s' \<and> \<not> data_updated s'
      \<and> report_ok (proto s) st \<and> accepts s' = accepts s \<and> proto s' = proto s"
    and idle_report: "inv s \<Longrightarrow> \<not> data_updated s \<Longrightarrow> report b s = Some (st, s') \<Longrightarrow>
      st = empty_report (proto s)"
begin

lemma exec_total:
  assumes "inv s" "\<forall>op \<in> set ops. op_accepted (accepts s) op"
  shows "\<exists>sts s'. l4_exec parse report ops s = Some (sts, s') \<and> inv s' \<and> accepts s' = accepts s
    \<and> proto s' = proto s \<and> (\<forall>st \<in> set sts. report_ok (proto s) st)"
  using assms
proof (induction ops arbitrary: s)
  case (Cons op ops)
  show ?case
  proof (cases op)
    case (Parse p fpd)
    with Cons.prems obtain r s1 where "parse p fpd s = Some (r, s1)" "inv s1" "accepts s1 = accepts s"
      "proto s1 = proto s"
      using parse_total [of s p fpd] by auto
    with Cons.IH [of s1] Cons.prems Parse show ?thesis by auto
  next
    case (Report b)
    with Cons.prems obtain st s1 where "report b s = Some (st, s1)" "inv s1" "accepts s1 = accepts s"
      "proto s1 = proto s" "report_ok (proto s) st"
      using report_total [of s b] by auto
    with Cons.IH [of s1] Cons.prems Report show ?thesis by fastforce
  qed
qed simp

lemma report_after_report:
  assumes "inv s" "report b s = Some (st, s1)"
  shows "\<exists>s2. report b' s1 = Some (empty_report (proto s), s2)"
proof -
  have s1: "inv s1" "\<not> data_updated s1" "proto s1 = proto s"
    using report_total [OF assms(1), of b] assms(2) by auto
  from report_total [OF s1(1), of b'] idle_report [OF s1(1,2), of b'] s1(3) show ?thesis by fastforce
qed

end

subsection \<open>The three counters meet it\<close>

lemma tcp_idle_report:
  assumes "tcp_perf_ok t" "\<not> tcp_data_updated t"
  shows "fst (tcp_copy_and_reset_data b t) = empty_report L4Tcp"
  using assms
  by (simp add: tcp_copy_and_reset_data_def tcp_data_updated_def update_perf_stats_def empty_report_def)

definition is_tcp :: "meta_packet \<Rightarrow> bool" where
  "is_tcp p \<longleftrightarrow> tcp_data_of p \<noteq> None"

lemma tcp_copy_total:
  assumes "tcp_perf_ok t"
  shows "report_ok L4Tcp (fst (tcp_copy_and_reset_data b t))"
    and "tcp_perf_ok (snd (tcp_copy_and_reset_data b t))"
    and "\<not> tcp_data_updated (snd (tcp_copy_and_reset_data b t))"
proof -
  show "tcp_perf_ok (snd (tcp_copy_and_reset_data b t))"
    "\<not> tcp_data_updated (snd (tcp_copy_and_reset_data b t))"
    using assms by (simp_all add: tcp_copy_and_reset_data_def tcp_perf_ok_def tcp_data_updated_def
      default_perf_data_def [THEN arg_cong, of pd_updated] case_prod_unfold)
  have "fp_l4_protocol (fst (tcp_copy_and_reset_data b t)) = L4Tcp"
    by (simp add: tcp_copy_and_reset_data_def update_perf_stats_def case_prod_unfold Let_def)
  with tcp_report_limits [OF assms surjective_pairing refl, of b]
  show "report_ok L4Tcp (fst (tcp_copy_and_reset_data b t))" by (simp add: report_ok_def)
qed

interpretation tcp: l4_flow_perf tcp_parse tcp_data_updated "\<lambda>b t. Some (tcp_copy_and_reset_data b t)"
  tcp_perf_ok "\<lambda>_. is_tcp" "\<lambda>_. L4Tcp"
proof
  show "\<exists>r s'. tcp_parse p fpd s = Some (r, s') \<and> tcp_perf_ok s' \<and> is_tcp = is_tcp \<and> L4Tcp = L4Tcp"
    if "tcp_perf_ok s" "is_tcp p" for s p fpd
    using that tcp_parse_ok by (auto simp: is_tcp_def)
  show "\<exists>st s'. Some (tcp_copy_and_reset_data b s) = Some (st, s') \<and> tcp_perf_ok s' \<and> \<not> tcp_data_updated s'
      \<and> report_ok L4Tcp st \<and> is_tcp = is_tcp \<and> L4Tcp = L4Tcp" if "tcp_perf_ok s" for s b
    using tcp_copy_total [OF that, of b] by (cases "tcp_copy_and_reset_data b s") auto
  show "st = empty_report L4Tcp" if "tcp_perf_ok s" "\<not> tcp_data_updated s"
    "Some (tcp_copy_and_reset_data b s) = Some (st, s')" for s b st s'
    using tcp_idle_report [OF that(1,2), of b] that(3) by auto
qed

lemma nanos_to_micros32 [simp]: "nanos_to_micros32 t = micros32 t"
  by (simp add: nanos_to_micros32_def micros32_def as_micros_def from_micros_def nanos_defs)

lemma micros32_zero [simp]: "micros32 ts_zero = 0"
  by (simp add: micros32_def as_micros_def ts_zero_def)

lemma micros32_art: "t \<le> ART_MAX \<Longrightarrow> unat (micros32 t) \<le> 30000000"
  using micros32_le(1) [of t 30] by (simp add: ART_MAX_def)

definition udp_ok :: "udp_perf \<Rightarrow> bool" where
  "udp_ok u \<longleftrightarrow> up_art_max u \<le> ART_MAX \<and>
     (up_data_update_flag u \<or> up_art_max u = ts_zero \<and> up_art_sum u = ts_zero \<and> up_art_count u = 0)"

lemma udp_perf_new_ok: "udp_ok udp_perf_new"
  by (simp add: udp_ok_def udp_perf_new_def)

lemma udp_parse_ok: "udp_ok u \<Longrightarrow> \<exists>r u'. udp_parse p fpd u = Some (r, u') \<and> udp_ok u'"
  by (auto simp: udp_parse_def udp_ok_def ts_sub_exact)

interpretation udp: l4_flow_perf udp_parse udp_data_updated "\<lambda>b u. Some (udp_copy_and_reset_data b u)"
  udp_ok "\<lambda>_ _. True" "\<lambda>_. L4Udp"
proof
  show "\<exists>r s'. udp_parse p fpd s = Some (r, s') \<and> udp_ok s' \<and> (\<lambda>_. True) = (\<lambda>_. True) \<and> L4Udp = L4Udp"
    if "udp_ok s" for s p fpd using udp_parse_ok [OF that] by simp
qed (auto simp: udp_copy_and_reset_data_def udp_data_updated_def udp_perf_new_ok report_ok_def
    default_flow_perf_stats_def default_tcp_stats_def micros32_art udp_ok_def udp_perf_new_def
    empty_report_def Let_def)

lemma position_of_None: "position_of x ls = None \<longleftrightarrow> x \<notin> li_id_and_seq ` set ls"
  by (induction ls) auto

lemma position_of_NoneD: "position_of x ls = None \<Longrightarrow> l \<in> set ls \<Longrightarrow> li_id_and_seq l \<noteq> x"
  by (auto simp: position_of_None)

lemma position_of_Some: "position_of x ls = Some n \<Longrightarrow> n < length ls \<and> li_id_and_seq (ls ! n) = x"
  by (induction ls arbitrary: n) (auto split: if_splits)

definition icmp_ok :: "icmp_perf \<Rightarrow> bool" where
  "icmp_ok i \<longleftrightarrow> ip_srt_max i \<le> ART_MAX
     \<and> (ip_data_update_flag i \<or> ip_srt_max i = ts_zero \<and> ip_srt_sum i = ts_zero \<and> ip_srt_count i = 0)
     \<and> li_id_and_seq ` set (ip_last_requests i) \<inter> li_id_and_seq ` set (ip_last_replies i) = {}
     \<and> length (ip_last_requests i) \<le> MAX_CACHE_COUNT \<and> length (ip_last_replies i) \<le> MAX_CACHE_COUNT"

lemma icmp_perf_new_ok: "icmp_ok icmp_perf_new"
  by (simp add: icmp_ok_def icmp_perf_new_def)

lemma set_remove_at: "set (remove_at n ls) \<subseteq> set ls"
  by (auto simp: remove_at_def dest: in_set_takeD in_set_dropD)

lemma length_remove_at: "length (remove_at n ls) \<le> length ls"
  by (simp add: remove_at_def)

lemma set_push_bounded: "set (push_bounded l ls) \<subseteq> insert l (set ls)"
  by (cases ls) (auto simp: push_bounded_def)

lemma length_push_bounded: "length ls \<le> MAX_CACHE_COUNT \<Longrightarrow> length (push_bounded l ls) \<le> MAX_CACHE_COUNT"
  by (auto simp: push_bounded_def MAX_CACHE_COUNT_def)

lemma icmp_ok_set_srt: "icmp_ok i \<Longrightarrow> icmp_ok (set_srt srt i)"
  by (simp add: icmp_ok_def set_srt_def)

lemma icmp_ok_remove:
  assumes "icmp_ok i"
  shows "icmp_ok (i\<lparr>ip_last_requests := remove_at n (ip_last_requests i)\<rparr>)"
    "icmp_ok (i\<lparr>ip_last_replies := remove_at n (ip_last_replies i)\<rparr>)"
  using assms set_remove_at [of n "ip_last_requests i"] set_remove_at [of n "ip_last_replies i"]
    length_remove_at [of n "ip_last_requests i"] length_remove_at [of n "ip_last_replies i"]
  by (auto simp: icmp_ok_def)

lemma disjoint_insert_mono: "P \<subseteq> insert c Q \<Longrightarrow> Q \<inter> R = {} \<Longrightarrow> c \<notin> R \<Longrightarrow> P \<inter> R = {}"
  by blast

lemma disjoint_ids_insert:
  assumes "f ` A \<inter> f ` B = {}" "X \<subseteq> insert y A" "f y \<notin> f ` B"
  shows "f ` X \<inter> f ` B = {}" "f ` B \<inter> f ` X = {}"
proof -
  have "f ` X \<subseteq> insert (f y) (f ` A)" using image_mono [OF assms(2), of f] by simp
  then show "f ` X \<inter> f ` B = {}" using assms(1,3) by (rule disjoint_insert_mono)
  then show "f ` B \<inter> f ` X = {}" by (simp add: Int_commute)
qed

lemma icmp_ok_push:
  assumes "icmp_ok i"
  shows "li_id_and_seq l \<notin> li_id_and_seq ` set (ip_last_replies i) \<Longrightarrow>
      icmp_ok (i\<lparr>ip_last_requests := push_bounded l (ip_last_requests i)\<rparr>)"
    "li_id_and_seq l \<notin> li_id_and_seq ` set (ip_last_requests i) \<Longrightarrow>
      icmp_ok (i\<lparr>ip_last_replies := push_bounded l (ip_last_replies i)\<rparr>)"
proof -
  have dis: "li_id_and_seq ` set (ip_last_requests i) \<inter> li_id_and_seq ` set (ip_last_replies i) = {}"
    using assms by (simp add: icmp_ok_def)
  show "icmp_ok (i\<lparr>ip_last_requests := push_bounded l (ip_last_requests i)\<rparr>)"
    if "li_id_and_seq l \<notin> li_id_and_seq ` set (ip_last_replies i)"
    using assms disjoint_ids_insert(1) [OF dis set_push_bounded that]
    by (simp add: icmp_ok_def length_push_bounded)
  show "icmp_ok (i\<lparr>ip_last_replies := push_bounded l (ip_last_replies i)\<rparr>)"
    if "li_id_and_seq l \<notin> li_id_and_seq ` set (ip_last_requests i)"
    using assms disjoint_ids_insert(2) [OF dis [THEN trans [OF Int_commute]] set_push_bounded that]
    by (simp add: icmp_ok_def length_push_bounded)
qed

lemma icmp_on_request_ok: "icmp_ok i \<Longrightarrow> \<exists>i'. icmp_on_request ts x i = Some i' \<and> icmp_ok i'"
  by (cases "position_of x (ip_last_replies i)")
    (auto simp: icmp_on_request_def Let_def ts_sub_exact
      dest: position_of_NoneD intro!: icmp_ok_remove icmp_ok_push icmp_ok_set_srt)

lemma icmp_on_reply_ok: "icmp_ok i \<Longrightarrow> \<exists>i'. icmp_on_reply ts x i = Some i' \<and> icmp_ok i'"
  by (cases "position_of x (ip_last_requests i)")
    (auto simp: icmp_on_reply_def Let_def ts_sub_exact
      dest: position_of_NoneD intro!: icmp_ok_remove icmp_ok_push icmp_ok_set_srt)

lemma icmp_parse_ok:
  assumes "icmp_ok i"
  shows "\<exists>r i'. icmp_parse k p fpd i = Some (r, i') \<and> icmp_ok i'"
proof (cases "mp_protocol_data p")
  case (IcmpData d)
  obtain i1 i2 where
    "icmp_on_request (mp_timestamp p) (echo_id_seq d) i = Some i1" "icmp_ok i1"
    "icmp_on_reply (mp_timestamp p) (echo_id_seq d) i = Some i2" "icmp_ok i2"
    using icmp_on_request_ok [OF assms] icmp_on_reply_ok [OF assms] by meson
  with IcmpData assms show ?thesis
    by (cases "icmp_kind k p d") (auto simp: icmp_parse_def)
qed (use assms in \<open>auto simp: icmp_parse_def\<close>)

text \<open>No request and reply wait for each other, so the loop of the report pairs nothing.\<close>

lemma icmp_pair_idle:
  assumes "icmp_ok i" "\<forall>n \<in> set ns. n < length (ip_last_requests i)"
  shows "icmp_pair ns i = Some i"
  using assms(2)
proof (induction ns)
  case (Cons n ns)
  have "position_of (li_id_and_seq (ip_last_requests i ! n)) (ip_last_replies i) = None"
  proof -
    have "li_id_and_seq (ip_last_requests i ! n) \<in> li_id_and_seq ` set (ip_last_requests i)"
      using Cons.prems by simp
    then show ?thesis
      using assms(1) unfolding position_of_None icmp_ok_def disjoint_iff by metis
  qed
  with Cons show ?case by simp
qed simp

lemma icmp_copy_eq:
  assumes "icmp_ok i"
  shows "icmp_copy_and_reset_data b i = Some (default_flow_perf_stats
     \<lparr>fp_l4_protocol := L4Icmp,
      fp_tcp := default_tcp_stats\<lparr>tp_srt_max := micros32 (ip_srt_max i),
        tp_srt_sum := micros32 (ip_srt_sum i), tp_srt_count := ip_srt_count i\<rparr>\<rparr>, icmp_reset i)"
  using icmp_pair_idle [OF assms, of "rev [0..<length (ip_last_requests i)]"]
  by (simp add: icmp_copy_and_reset_data_def Let_def default_flow_perf_stats_def)

lemma icmp_reset_ok: "icmp_ok i \<Longrightarrow> icmp_ok (icmp_reset i)"
  by (simp add: icmp_ok_def icmp_reset_def)

interpretation icmp: l4_flow_perf "icmp_parse k" icmp_data_updated icmp_copy_and_reset_data
  icmp_ok "\<lambda>_ _. True" "\<lambda>_. L4Icmp" for k
proof
  show "\<exists>r s'. icmp_parse k p fpd s = Some (r, s') \<and> icmp_ok s' \<and> (\<lambda>_. True) = (\<lambda>_. True) \<and> L4Icmp = L4Icmp"
    if "icmp_ok s" for s p fpd using icmp_parse_ok [OF that] by simp
  show "\<exists>st s'. icmp_copy_and_reset_data b s = Some (st, s') \<and> icmp_ok s' \<and> \<not> icmp_data_updated s'
      \<and> report_ok L4Icmp st \<and> (\<lambda>_. True) = (\<lambda>_. True) \<and> L4Icmp = L4Icmp" if "icmp_ok s" for s b
    using that icmp_reset_ok [OF that] micros32_art [of "ip_srt_max s"] unfolding icmp_copy_eq [OF that]
    by (simp add: icmp_data_updated_def icmp_reset_def report_ok_def icmp_ok_def default_tcp_stats_def)
  show "st = empty_report L4Icmp" if "icmp_ok s" "\<not> icmp_data_updated s"
    "icmp_copy_and_reset_data b s = Some (st, s')" for s b st s'
    using that(1,2) that(3) [unfolded icmp_copy_eq [OF that(1)]]
    by (auto simp: icmp_ok_def icmp_data_updated_def empty_report_def default_flow_perf_stats_def
        default_tcp_stats_def)
qed

subsection \<open>The enum\<close>

fun table_ok :: "l4_perf_table \<Rightarrow> bool" where
  "table_ok (TcpTable t) = tcp_perf_ok t"
| "table_ok (UdpTable t) = udp_ok t"
| "table_ok (IcmpTable t) = icmp_ok t"

fun table_accepts :: "l4_perf_table \<Rightarrow> meta_packet \<Rightarrow> bool" where
  "table_accepts (TcpTable t) = is_tcp"
| "table_accepts (UdpTable t) = (\<lambda>_. True)"
| "table_accepts (IcmpTable t) = (\<lambda>_. True)"

fun table_proto :: "l4_perf_table \<Rightarrow> l4_protocol" where
  "table_proto (TcpTable t) = L4Tcp"
| "table_proto (UdpTable t) = L4Udp"
| "table_proto (IcmpTable t) = L4Icmp"

interpretation l4: l4_flow_perf "table_parse k" table_data_updated table_copy_and_reset_data
  table_ok table_accepts table_proto for k
proof
  fix s p fpd assume "table_ok s" "table_accepts s p"
  then show "\<exists>r s'. table_parse k p fpd s = Some (r, s') \<and> table_ok s' \<and> table_accepts s' = table_accepts s
    \<and> table_proto s' = table_proto s"
    using tcp.parse_total [of _ p fpd] udp.parse_total [of _ p fpd] icmp_parse_ok [of _ k p fpd]
    by (cases s) fastforce+
next
  fix s b assume "table_ok s"
  then show "\<exists>st s'. table_copy_and_reset_data b s = Some (st, s') \<and> table_ok s' \<and> \<not> table_data_updated s'
      \<and> report_ok (table_proto s) st \<and> table_accepts s' = table_accepts s \<and> table_proto s' = table_proto s"
    using tcp.report_total [of _ b] udp.report_total [of _ b] icmp.report_total [of _ b]
    by (cases s) fastforce+
next
  fix s b st s' assume "table_ok s" "\<not> table_data_updated s" "table_copy_and_reset_data b s = Some (st, s')"
  then show "st = empty_report (table_proto s)"
    using tcp.idle_report [of _ b] udp.idle_report [of _ b] icmp.idle_report [of _ b]
    by (cases s) (auto simp: map_prod_def split: prod.splits)
qed

subsection \<open>Properties\<close>

definition example_icmp_types :: icmp_types where
  "example_icmp_types = \<lparr>echo_request_v4 = 8, echo_reply_v4 = 0, echo_request_v6 = 128, echo_reply_v6 = 129\<rparr>"

text \<open>
  C14: The counters of a flow of any protocol never panic, whatever packets of the flow are
  parsed and reports taken in whatever order (for TCP, packets with a TCP header): every
  report carries the protocol of the flow and latencies of at most 30 seconds, and a report
  taken directly after another one is empty.
\<close>

theorem l4_reports_ok:
  assumes "t = TcpTable tcp_perf_new \<or> t = UdpTable udp_perf_new \<or> t = IcmpTable icmp_perf_new"
    and "\<forall>op \<in> set ops. op_accepted (table_accepts t) op"
  shows "\<exists>sts t'. l4_exec (table_parse k) table_copy_and_reset_data ops t = Some (sts, t')
    \<and> (\<forall>st \<in> set sts. report_ok (table_proto t) st)
    \<and> (\<exists>st t1 t2. table_copy_and_reset_data b t' = Some (st, t1)
        \<and> table_copy_and_reset_data b' t1 = Some (empty_report (table_proto t), t2))"
proof -
  have "table_ok t"
    using assms(1) tcp_perf_new_ok udp_perf_new_ok icmp_perf_new_ok by auto
  from l4.exec_total [OF this assms(2), of k] obtain sts t' where
    run: "l4_exec (table_parse k) table_copy_and_reset_data ops t = Some (sts, t')" "table_ok t'"
    "table_proto t' = table_proto t" "\<forall>st \<in> set sts. report_ok (table_proto t) st"
    by blast
  obtain st t1 where "table_copy_and_reset_data b t' = Some (st, t1)"
    using l4.report_total [OF run(2), of b] by blast
  with l4.report_after_report [OF run(2) this, of b'] run show ?thesis by auto
qed

theorem l4_reports_ok_witness:
  "\<exists>sts t'. l4_exec (table_parse example_icmp_types)
      table_copy_and_reset_data
      [Parse (tcp_packet (from_millis 7) ClientToServer SYN 5 0 0) True, Report False]
      (TcpTable tcp_perf_new) = Some (sts, t')
    \<and> (\<forall>st \<in> set sts. report_ok (table_proto (TcpTable tcp_perf_new)) st)
    \<and> (\<exists>st t1 t2. table_copy_and_reset_data False t' = Some (st, t1)
        \<and> table_copy_and_reset_data True t1 = Some (empty_report (table_proto (TcpTable tcp_perf_new)), t2))"
  by (rule l4_reports_ok) (simp_all add: is_tcp_def)

text \<open>
  In every state an ICMP flow can reach, the loop of the report that pairs cached
  requests with cached replies finds no pair and changes nothing, because a packet whose
  counterpart is cached is paired when it arrives; the caches never hold more than 16
  entries each.
\<close>

theorem icmp_report_pairs_nothing:
  assumes "l4_exec (icmp_parse k) icmp_copy_and_reset_data ops icmp_perf_new = Some (sts, i)"
  shows "icmp_pair (rev [0..<length (ip_last_requests i)]) i = Some i
    \<and> length (ip_last_requests i) \<le> 16 \<and> length (ip_last_replies i) \<le> 16"
proof -
  have "\<forall>op \<in> set ops. op_accepted (\<lambda>_. True) op"
  proof
    show "op_accepted (\<lambda>_. True) op" for op by (cases op) simp_all
  qed
  from icmp.exec_total [OF icmp_perf_new_ok this, of k] assms have "icmp_ok i" by auto
  with icmp_pair_idle [OF this, of "rev [0..<length (ip_last_requests i)]"] show ?thesis
    by (simp add: icmp_ok_def MAX_CACHE_COUNT_def)
qed

definition icmp_packet :: "timestamp \<Rightarrow> u8 \<Rightarrow> u32 \<Rightarrow> meta_packet" where
  "icmp_packet ts ty x =
     \<lparr>mp_timestamp = ts, mp_direction = ClientToServer, mp_is_ipv4 = True, mp_payload_len = 64,
      mp_protocol_data = IcmpData \<lparr>icmp_type = ty, echo_id_seq = x\<rparr>\<rparr>"

theorem icmp_report_pairs_nothing_witness:
  "\<exists>sts i. l4_exec (icmp_parse example_icmp_types) icmp_copy_and_reset_data
      [Parse (icmp_packet (from_millis 3) 8 77) True] icmp_perf_new = Some (sts, i)
    \<and> icmp_pair (rev [0..<length (ip_last_requests i)]) i = Some i
    \<and> length (ip_last_requests i) \<le> 16 \<and> length (ip_last_replies i) \<le> 16"
proof -
  obtain sts i where e: "l4_exec (icmp_parse example_icmp_types) icmp_copy_and_reset_data
      [Parse (icmp_packet (from_millis 3) 8 77) True] icmp_perf_new = Some (sts, i)"
    by (simp add: icmp_parse_def icmp_packet_def icmp_kind_def example_icmp_types_def icmp_on_request_def
        icmp_perf_new_def)
  from icmp_report_pairs_nothing [OF e] e show ?thesis by blast
qed

text \<open>
  An echo request and its reply are measured exactly, in whichever order they are
  captured: for a request at \<open>t0\<close> and a reply with the same identifier at \<open>t1\<close>, at most 30
  seconds later, the report counts one sample with the difference in microseconds.
  The two message types being different is the only thing required of their numbers.
\<close>

theorem icmp_echo_measured:
  assumes "echo_request_v4 k \<noteq> echo_reply_v4 k" "t0 \<le> t1"
    and "to_duration t1 - to_duration t0 \<le> 30000000000"
    and "rq = icmp_packet t0 (echo_request_v4 k) x" "rp = icmp_packet t1 (echo_reply_v4 k) x"
    and "ps = [rq, rp] \<or> ps = [rp, rq]"
  shows "\<exists>st i. l4_exec (icmp_parse k) icmp_copy_and_reset_data
       (map (\<lambda>p. Parse p True) ps @ [Report False]) icmp_perf_new = Some ([st], i)
    \<and> tp_srt_count (fp_tcp st) = 1
    \<and> unat (tp_srt_max (fp_tcp st)) = (to_duration t1 - to_duration t0) div 1000
    \<and> ip_last_requests i = [] \<and> ip_last_replies i = []"
proof -
  obtain d where d: "ts_sub t1 t0 = Some d" "to_duration d = to_duration t1 - to_duration t0"
    using to_duration_sub [OF assms(2)] by blast
  have le: "d \<le> from_secs 30" using d(2) assms(3) by (simp add: to_duration_secs_le)
  have m: "unat (micros32 d) = (to_duration t1 - to_duration t0) div 1000"
    using micros32_le(2) [OF le] d(2) by simp
  have mx: "max ts_zero d = d" by (simp add: max_def)
  note defs = icmp_parse_def icmp_packet_def icmp_kind_def icmp_on_request_def icmp_on_reply_def
    icmp_perf_new_def push_bounded_def MAX_CACHE_COUNT_def remove_at_def set_srt_def ART_MAX_def
    icmp_copy_and_reset_data_def icmp_reset_def default_flow_perf_stats_def default_tcp_stats_def Let_def
  from assms(6) show ?thesis
  proof
    assume "ps = [rq, rp]"
    then show ?thesis using d(1) le m mx assms(1,2) by (simp add: assms(4,5) defs)
  next
    assume "ps = [rp, rq]"
    then show ?thesis using d(1) le m mx assms(1,2) by (simp add: assms(4,5) defs)
  qed
qed

theorem icmp_echo_measured_witness:
  "\<exists>st i. l4_exec (icmp_parse example_icmp_types) icmp_copy_and_reset_data
       (map (\<lambda>p. Parse p True) [icmp_packet (from_millis 12) 0 9, icmp_packet (from_millis 5) 8 9]
         @ [Report False]) icmp_perf_new = Some ([st], i)
    \<and> tp_srt_count (fp_tcp st) = 1 \<and> unat (tp_srt_max (fp_tcp st)) = 7000
    \<and> ip_last_requests i = [] \<and> ip_last_replies i = []"
  using icmp_echo_measured [of example_icmp_types "from_millis 5" "from_millis 12" _ 9, OF _ _ _ refl refl disjI2 [OF refl]]
  by (simp add: example_icmp_types_def from_millis_def nanos_defs to_duration_def)

definition udp_packet :: "timestamp \<Rightarrow> packet_direction \<Rightarrow> meta_packet" where
  "udp_packet ts dir =
     \<lparr>mp_timestamp = ts, mp_direction = dir, mp_is_ipv4 = True, mp_payload_len = 32,
      mp_protocol_data = TcpHeader \<lparr>th_seq = 0, th_ack = 0, th_win_size = 0, th_flags = 0,
        th_data_offset = 0, th_win_scale = 0\<rparr>\<rparr>"

abbreviation udp_exec :: "l4_op list \<Rightarrow> udp_perf \<Rightarrow> (flow_perf_stats list \<times> udp_perf) may_panic" where
  "udp_exec \<equiv> l4_exec udp_parse (\<lambda>b u. Some (udp_copy_and_reset_data b u))"

lemma udp_exec_requests:
  assumes "\<forall>p \<in> set qs. mp_direction p = ClientToServer"
  shows "\<exists>ts. udp_exec (map (\<lambda>p. Parse p True) qs @ ops) (udp_perf_new\<lparr>up_req_timestamp := ts0\<rparr>)
    = udp_exec ops (udp_perf_new\<lparr>up_req_timestamp := ts\<rparr>)"
  using assms
proof (induction qs arbitrary: ts0)
  case (Cons q qs)
  have "\<exists>r ts. udp_parse q True (udp_perf_new\<lparr>up_req_timestamp := ts0\<rparr>)
    = Some (r, udp_perf_new\<lparr>up_req_timestamp := ts\<rparr>)"
    using Cons.prems by (auto simp: udp_parse_def udp_perf_new_def)
  then obtain r ts where "udp_parse q True (udp_perf_new\<lparr>up_req_timestamp := ts0\<rparr>)
    = Some (r, udp_perf_new\<lparr>up_req_timestamp := ts\<rparr>)" by blast
  with Cons.IH [of ts] Cons.prems show ?case by simp
qed auto

lemma udp_exec_responses:
  assumes "\<forall>p \<in> set rs. mp_direction p = ServerToClient" "up_last_pkt_direction u = ServerToClient"
  shows "udp_exec (map (\<lambda>p. Parse p True) rs @ ops) u = udp_exec ops u"
  using assms(1)
proof (induction rs)
  case (Cons q rs)
  have "\<exists>r. udp_parse q True u = Some (r, u)"
    using Cons.prems assms(2) by (auto simp: udp_parse_def)
  with Cons show ?case by auto
qed simp

text \<open>
  A UDP request repeated any number of times and then answered is measured from its last
  repetition: the report has one sample, the time from the last request to the first
  response, and further responses add none.
\<close>

theorem udp_response_measured:
  assumes "t0 \<noteq> ts_zero" "t0 \<le> t1" "to_duration t1 - to_duration t0 \<le> 30000000000"
    and "\<forall>p \<in> set qs. mp_direction p = ClientToServer"
    and "\<forall>p \<in> set rs. mp_direction p = ServerToClient"
    and "ps = qs @ udp_packet t0 ClientToServer # udp_packet t1 ServerToClient # rs"
  shows "\<exists>st u. l4_exec udp_parse (\<lambda>b u. Some (udp_copy_and_reset_data b u))
       (map (\<lambda>p. Parse p True) ps @ [Report False]) udp_perf_new = Some ([st], u)
    \<and> tp_art_count (fp_tcp st) = 1
    \<and> unat (tp_art_max (fp_tcp st)) = (to_duration t1 - to_duration t0) div 1000"
proof -
  obtain d where d: "ts_sub t1 t0 = Some d" "to_duration d = to_duration t1 - to_duration t0"
    using to_duration_sub [OF assms(2)] by blast
  have le: "d \<le> from_secs 30" using d(2) assms(3) by (simp add: to_duration_secs_le)
  have mx: "max ts_zero d = d" "ts_add ts_zero d = d"
    by (simp add: max_def, cases d) (simp add: ts_add_def ts_zero_def)
  define u where "u = udp_perf_new\<lparr>up_req_timestamp := t0, up_art_max := d, up_art_sum := d,
     up_art_count := 1, up_last_pkt_direction := ServerToClient, up_data_update_flag := True\<rparr>"
  have pair: "udp_parse (udp_packet t0 ClientToServer) True (udp_perf_new\<lparr>up_req_timestamp := ts\<rparr>)
      = Some (Inr (), udp_perf_new\<lparr>up_req_timestamp := t0\<rparr>)"
    "udp_parse (udp_packet t1 ServerToClient) True (udp_perf_new\<lparr>up_req_timestamp := t0\<rparr>) = Some (Inr (), u)" for ts
    using assms(1,2) d(1) le mx
    by (simp_all add: udp_parse_def udp_packet_def udp_perf_new_def u_def ART_MAX_def)
  have new: "udp_perf_new\<lparr>up_req_timestamp := ts_zero\<rparr> = udp_perf_new" by (simp add: udp_perf_new_def)
  have dir: "up_last_pkt_direction u = ServerToClient" by (simp add: u_def)
  let ?ops = "Parse (udp_packet t0 ClientToServer) True # Parse (udp_packet t1 ServerToClient) True
    # map (\<lambda>p. Parse p True) rs @ [Report False]"
  obtain ts where "udp_exec (map (\<lambda>p. Parse p True) ps @ [Report False]) udp_perf_new
    = udp_exec ?ops (udp_perf_new\<lparr>up_req_timestamp := ts\<rparr>)"
    using udp_exec_requests [OF assms(4), of ?ops ts_zero, unfolded new]
    unfolding assms(6) map_append append.assoc list.map append_Cons by blast
  also have "\<dots> = udp_exec [Report False] u"
    using udp_exec_responses [OF assms(5) dir] by (simp add: pair)
  finally show ?thesis using micros32_le(2) [OF le] d(2)
    by (simp add: udp_copy_and_reset_data_def u_def default_flow_perf_stats_def default_tcp_stats_def Let_def)
qed

theorem udp_response_measured_witness:
  "\<exists>st u. l4_exec udp_parse (\<lambda>b u. Some (udp_copy_and_reset_data b u))
       (map (\<lambda>p. Parse p True) ([udp_packet (from_millis 1) ClientToServer]
          @ udp_packet (from_millis 4) ClientToServer # udp_packet (from_millis 9) ServerToClient # [])
        @ [Report False]) udp_perf_new = Some ([st], u)
    \<and> tp_art_count (fp_tcp st) = 1 \<and> unat (tp_art_max (fp_tcp st)) = 5000"
  using udp_response_measured [of "from_millis 4" "from_millis 9"
      "[udp_packet (from_millis 1) ClientToServer]" "[]", OF _ _ _ _ _ refl]
  by (simp add: from_millis_def nanos_defs to_duration_def ts_zero_def udp_packet_def)

end
