(* ===== verification/Net_Bytes.thy ===== *)
theory Net_Bytes
  imports Rust_Prelude
begin

section \<open>Reading and writing packet bytes\<close>

text \<open>
  A packet is a list of bytes and a \<^verbatim>\<open>usize\<close> is a natural number; where the sources
  subtract and may go below zero the wrap-around of the 64 bit word is written out.  Slicing
  and indexing out of range panic, and so do the readers and writers of
  \<^verbatim>\<open>agent/crates/public/src/bytes.rs\<close> on a slice that is too short.  The offsets
  and sizes are those of \<^verbatim>\<open>agent/crates/public/src/consts.rs\<close>.
\<close>

named_theorems net_consts "offsets, sizes and protocol numbers"
named_theorems byte_ops "definitions of the accesses to packets"

type_synonym bytes = "u8 list"

subsection \<open>Slices\<close>

text \<open>\<^verbatim>\<open>&xs[i..]\<close>, \<^verbatim>\<open>xs[i]\<close> and \<^verbatim>\<open>xs.copy_within(0..n, dest)\<close>.\<close>

definition slice_from :: "'a list \<Rightarrow> nat \<Rightarrow> 'a list may_panic" where [byte_ops]:
  "slice_from xs i = (if i \<le> length xs then Some (drop i xs) else None)"

definition index_at :: "'a list \<Rightarrow> nat \<Rightarrow> 'a may_panic" where [byte_ops]:
  "index_at xs i = (if i < length xs then Some (xs ! i) else None)"

definition copy_within :: "'a list \<Rightarrow> nat \<Rightarrow> nat \<Rightarrow> 'a list may_panic" where [byte_ops]:
  "copy_within xs n dest =
     (if n \<le> length xs \<and> dest \<le> length xs - n
      then Some (take dest xs @ take n xs @ drop (dest + n) xs) else None)"

text \<open>Arithmetic of \<^verbatim>\<open>usize\<close> without overflow checks.\<close>

definition usize_add :: "nat \<Rightarrow> nat \<Rightarrow> nat" where
  "usize_add a b = (a + b) mod 2 ^ 64"

definition usize_sub :: "nat \<Rightarrow> nat \<Rightarrow> nat" where
  "usize_sub a b = (if b \<le> a then a - b else a + 2 ^ 64 - b)"

lemma usize_add_exact: "a + b < 2 ^ 64 \<Longrightarrow> usize_add a b = a + b"
  by (simp add: usize_add_def)

lemma usize_add_sub: "a < 2 ^ 64 \<Longrightarrow> b < 2 ^ 64 \<Longrightarrow> usize_add b (usize_sub a b) = a"
  by (auto simp: usize_add_def usize_sub_def)

lemma usize_sub_eq_0: "a < 2 ^ 64 \<Longrightarrow> b < 2 ^ 64 \<Longrightarrow> usize_sub a b = 0 \<longleftrightarrow> a = b"
  by (auto simp: usize_sub_def)

subsection \<open>Integers in packets\<close>

definition read_u16_be :: "bytes \<Rightarrow> u16 may_panic" where [byte_ops]:
  "read_u16_be bs = do {
     assert_that (2 \<le> length bs);
     Some (push_bit 8 (ucast (bs ! 0)) OR ucast (bs ! 1)) }"

definition read_u16_le :: "bytes \<Rightarrow> u16 may_panic" where [byte_ops]:
  "read_u16_le bs = do {
     assert_that (2 \<le> length bs);
     Some (push_bit 8 (ucast (bs ! 1)) OR ucast (bs ! 0)) }"

definition read_u32_be :: "bytes \<Rightarrow> u32 may_panic" where [byte_ops]:
  "read_u32_be bs = do {
     assert_that (4 \<le> length bs);
     Some (push_bit 24 (ucast (bs ! 0)) OR push_bit 16 (ucast (bs ! 1)) OR
           push_bit 8 (ucast (bs ! 2)) OR ucast (bs ! 3)) }"

definition write_u16_be :: "bytes \<Rightarrow> u16 \<Rightarrow> bytes may_panic" where [byte_ops]:
  "write_u16_be bs v = do {
     assert_that (2 \<le> length bs);
     Some ([ucast (drop_bit 8 v), ucast v] @ drop 2 bs) }"

subsection \<open>Offsets, sizes and protocol numbers\<close>

definition FIELD_OFFSET_DA :: nat where [net_consts]: "FIELD_OFFSET_DA = 0"
definition FIELD_OFFSET_SA :: nat where [net_consts]: "FIELD_OFFSET_SA = 6"
definition FIELD_OFFSET_ETH_TYPE :: nat where [net_consts]: "FIELD_OFFSET_ETH_TYPE = 12"
definition FIELD_OFFSET_PROTO :: nat where [net_consts]: "FIELD_OFFSET_PROTO = 23"
definition FIELD_OFFSET_SIP :: nat where [net_consts]: "FIELD_OFFSET_SIP = 26"
definition FIELD_OFFSET_DIP :: nat where [net_consts]: "FIELD_OFFSET_DIP = 30"
definition FIELD_OFFSET_SPORT :: nat where [net_consts]: "FIELD_OFFSET_SPORT = 34"
definition FIELD_OFFSET_DPORT :: nat where [net_consts]: "FIELD_OFFSET_DPORT = 36"
definition FIELD_OFFSET_VXLAN_FLAGS :: nat where [net_consts]: "FIELD_OFFSET_VXLAN_FLAGS = 42"
definition FIELD_OFFSET_VXLAN_VNI :: nat where [net_consts]: "FIELD_OFFSET_VXLAN_VNI = 46"
definition MAC_ADDR_LEN :: nat where [net_consts]: "MAC_ADDR_LEN = 6"
definition PORT_LEN :: nat where [net_consts]: "PORT_LEN = 2"
definition ETH_TYPE_LEN :: nat where [net_consts]: "ETH_TYPE_LEN = 2"
definition ETH_HEADER_SIZE :: nat where [net_consts]: "ETH_HEADER_SIZE = MAC_ADDR_LEN * 2 + ETH_TYPE_LEN"
definition VLAN_HEADER_SIZE :: nat where [net_consts]: "VLAN_HEADER_SIZE = 4"
definition IPV4_HEADER_SIZE :: nat where [net_consts]: "IPV4_HEADER_SIZE = 20"
definition IPV6_HEADER_SIZE :: nat where [net_consts]: "IPV6_HEADER_SIZE = 40"
definition UDP_HEADER_SIZE :: nat where [net_consts]: "UDP_HEADER_SIZE = 8"
definition VXLAN_HEADER_SIZE :: nat where [net_consts]: "VXLAN_HEADER_SIZE = 8"
definition ERSPAN_III_HEADER_SIZE :: nat where [net_consts]: "ERSPAN_III_HEADER_SIZE = 12"
definition ERSPAN_III_SUBHEADER_SIZE :: nat where [net_consts]: "ERSPAN_III_SUBHEADER_SIZE = 8"
definition GENEVE_HEADER_SIZE :: nat where [net_consts]: "GENEVE_HEADER_SIZE = 8"
definition IPV4_PACKET_SIZE :: nat where [net_consts]: "IPV4_PACKET_SIZE = ETH_HEADER_SIZE + IPV4_HEADER_SIZE"
definition UDP_PACKET_SIZE :: nat where [net_consts]: "UDP_PACKET_SIZE = IPV4_PACKET_SIZE + UDP_HEADER_SIZE"
definition IPV6_PACKET_SIZE :: nat where [net_consts]: "IPV6_PACKET_SIZE = ETH_HEADER_SIZE + IPV6_HEADER_SIZE"
definition UDP6_PACKET_SIZE :: nat where [net_consts]: "UDP6_PACKET_SIZE = IPV6_PACKET_SIZE + UDP_HEADER_SIZE"
definition GRE_HEADER_SIZE_DECAP :: nat where [net_consts]: "GRE_HEADER_SIZE_DECAP = 4"
definition GRE_FLAGS_OFFSET :: nat where [net_consts]: "GRE_FLAGS_OFFSET = 0"
definition GRE_PROTOCOL_OFFSET :: nat where [net_consts]: "GRE_PROTOCOL_OFFSET = 2"
definition GENEVE_VERSION_OFFSET :: nat where [net_consts]: "GENEVE_VERSION_OFFSET = 0"
definition GENEVE_PROTOCOL_OFFSET :: nat where [net_consts]: "GENEVE_PROTOCOL_OFFSET = 2"
definition GENEVE_VNI_OFFSET :: nat where [net_consts]: "GENEVE_VNI_OFFSET = 4"
definition IP_IHL_OFFSET :: nat where [net_consts]: "IP_IHL_OFFSET = 0"
definition IP6_PROTO_OFFSET :: nat where [net_consts]: "IP6_PROTO_OFFSET = 6"
definition IP6_SIP_OFFSET :: nat where [net_consts]: "IP6_SIP_OFFSET = 20"
definition IP6_DIP_OFFSET :: nat where [net_consts]: "IP6_DIP_OFFSET = 36"
definition UDP_DPORT_OFFSET :: nat where [net_consts]: "UDP_DPORT_OFFSET = 2"
definition VXLAN_FLAGS_OFFSET_DECAP :: nat where [net_consts]: "VXLAN_FLAGS_OFFSET_DECAP = 0"
definition VXLAN_VNI_OFFSET_DECAP :: nat where [net_consts]: "VXLAN_VNI_OFFSET_DECAP = 4"
definition VLAN_ID_MASK :: u16 where [net_consts]: "VLAN_ID_MASK = 0xFFF"
definition LE_IPV4_PROTO_TYPE_I :: u16 where [net_consts]: "LE_IPV4_PROTO_TYPE_I = 0x0008"
definition LE_IPV6_PROTO_TYPE_I :: u16 where [net_consts]: "LE_IPV6_PROTO_TYPE_I = 0xDD86"
definition LE_ERSPAN_PROTO_TYPE_II :: u16 where [net_consts]: "LE_ERSPAN_PROTO_TYPE_II = 0xBE88"
definition LE_ERSPAN_PROTO_TYPE_III :: u16 where [net_consts]: "LE_ERSPAN_PROTO_TYPE_III = 0xEB22"
definition LE_VXLAN_PROTO_UDP_DPORT :: u16 where [net_consts]: "LE_VXLAN_PROTO_UDP_DPORT = 0xB512"
definition LE_GPE_VXLAN_PROTO_UDP_DPORT :: u16 where [net_consts]: "LE_GPE_VXLAN_PROTO_UDP_DPORT = 0xB612"
definition LE_VXLAN_PROTO_UDP_DPORT2 :: u16 where [net_consts]: "LE_VXLAN_PROTO_UDP_DPORT2 = 0x1821"
definition LE_VXLAN_PROTO_UDP_DPORT3 :: u16 where [net_consts]: "LE_VXLAN_PROTO_UDP_DPORT3 = 0x801A"
definition LE_TRANSPARENT_ETHERNET_BRIDGEING :: u16 where [net_consts]: "LE_TRANSPARENT_ETHERNET_BRIDGEING = 0x5865"
definition LE_GENEVE_PROTO_UDP_DPORT :: u16 where [net_consts]: "LE_GENEVE_PROTO_UDP_DPORT = 0xC117"
definition VXLAN_FLAGS :: u8 where [net_consts]: "VXLAN_FLAGS = 8"
definition TUNNEL_TIER_LIMIT :: u8 where [net_consts]: "TUNNEL_TIER_LIMIT = 2"
definition GENEVE_OPTION_LENGTH_MASK :: u8 where [net_consts]: "GENEVE_OPTION_LENGTH_MASK = 0x3F"

text \<open>\<^verbatim>\<open>EthernetType\<close> and \<^verbatim>\<open>IpProtocol\<close> are newtypes around their number.\<close>

definition ETH_IPV4 :: u16 where [net_consts]: "ETH_IPV4 = 0x0800"
definition ETH_IPV6 :: u16 where [net_consts]: "ETH_IPV6 = 0x86DD"
definition ETH_DOT1Q :: u16 where [net_consts]: "ETH_DOT1Q = 0x8100"
definition IP_IPV4 :: u8 where [net_consts]: "IP_IPV4 = 4"
definition IP_UDP :: u8 where [net_consts]: "IP_UDP = 17"
definition IP_IPV6 :: u8 where [net_consts]: "IP_IPV6 = 41"
definition IP_GRE :: u8 where [net_consts]: "IP_GRE = 47"

subsection \<open>Facts on accesses\<close>

lemma slice_from_Some [simp]: "i \<le> length xs \<Longrightarrow> slice_from xs i = Some (drop i xs)"
  by (simp add: slice_from_def)

lemma slice_from_append [simp]: "length xs = n \<Longrightarrow> slice_from (xs @ ys) n = Some ys"
  by (simp add: slice_from_def)

lemma index_at_Some [simp]: "i < length xs \<Longrightarrow> index_at xs i = Some (xs ! i)"
  by (simp add: index_at_def)

text \<open>
  The value of a field of a packet.  A read of a field in range answers it, and whether a
  read is in range depends on the length only.
\<close>

definition u16_be_at :: "bytes \<Rightarrow> nat \<Rightarrow> u16" where
  "u16_be_at xs i = push_bit 8 (ucast (xs ! i)) OR ucast (xs ! (i + 1))"

definition u16_le_at :: "bytes \<Rightarrow> nat \<Rightarrow> u16" where
  "u16_le_at xs i = push_bit 8 (ucast (xs ! (i + 1))) OR ucast (xs ! i)"

definition u32_be_at :: "bytes \<Rightarrow> nat \<Rightarrow> u32" where
  "u32_be_at xs i = push_bit 24 (ucast (xs ! i)) OR push_bit 16 (ucast (xs ! (i + 1))) OR
     push_bit 8 (ucast (xs ! (i + 2))) OR ucast (xs ! (i + 3))"

lemma read_field [simp]:
  "i + 2 \<le> length xs \<Longrightarrow> read_u16_be (drop i xs) = Some (u16_be_at xs i)"
  "i + 2 \<le> length xs \<Longrightarrow> read_u16_le (drop i xs) = Some (u16_le_at xs i)"
  "i + 4 \<le> length xs \<Longrightarrow> read_u32_be (drop i xs) = Some (u32_be_at xs i)"
  by (auto simp: read_u16_be_def read_u16_le_def read_u32_be_def u16_be_at_def u16_le_at_def
      u32_be_at_def)

lemma read_field_None:
  "length xs < i + 2 \<Longrightarrow> (slice_from xs i \<bind> read_u16_be) = None"
  "length xs < i + 2 \<Longrightarrow> (slice_from xs i \<bind> read_u16_le) = None"
  by (auto simp: slice_from_def read_u16_be_def read_u16_le_def)

lemma bytes_of_u16:
  "push_bit 8 (ucast (ucast (drop_bit 8 v) :: u8)) OR ucast (ucast v :: u8) = v" for v :: u16
  by (rule bit_word_eqI) (auto simp: bit_simps)

lemma write_u16_be_read: "write_u16_be bs v = Some bs' \<Longrightarrow> read_u16_be bs' = Some v"
  by (auto simp: write_u16_be_def read_u16_be_def bytes_of_u16 split: if_splits)

end
