(* ===== verification/Decapsulate.thy ===== *)
theory Decapsulate
  imports Net_Bytes
begin

section \<open>Removing tunnel encapsulations\<close>

text \<open>
  \<^verbatim>\<open>TunnelInfo\<close> of \<^verbatim>\<open>agent/src/common/decapsulate.rs\<close>: it inspects the IP packet
  behind an Ethernet header, records the outermost tunnel and answers the distance from the
  start of the IP packet to the encapsulated frame (0: no tunnel).  The discriminants of
  \<^verbatim>\<open>TunnelType\<close> come from the generated enum \<^verbatim>\<open>DecapType\<close> and are a
  parameter; the compiler rejects equal discriminants, and the source notes that 15 is the
  largest.
\<close>

subsection \<open>Tunnel types\<close>

datatype tunnel_type =
  TunnelNone | Vxlan | Ipip | TencentGre | Geneve | VxlanNsh | Erspan | Teb

record decap_type =
  DT_None :: u8
  DT_Vxlan :: u8
  DT_Ipip :: u8
  DT_Tencent :: u8
  DT_Geneve :: u8
  DT_VxlanNsh :: u8

text \<open>\<^verbatim>\<open>t as u8\<close>\<close>

fun tunnel_type_as_u8 :: "decap_type \<Rightarrow> tunnel_type \<Rightarrow> u8" where
  "tunnel_type_as_u8 D TunnelNone = DT_None D"
| "tunnel_type_as_u8 D Vxlan = DT_Vxlan D"
| "tunnel_type_as_u8 D Ipip = DT_Ipip D"
| "tunnel_type_as_u8 D TencentGre = DT_Tencent D"
| "tunnel_type_as_u8 D Geneve = DT_Geneve D"
| "tunnel_type_as_u8 D VxlanNsh = DT_VxlanNsh D"
| "tunnel_type_as_u8 D Erspan = DT_VxlanNsh D + 1"
| "tunnel_type_as_u8 D Teb = DT_VxlanNsh D + 2"

definition all_tunnel_types :: "tunnel_type list" where
  "all_tunnel_types =
     [TunnelNone, Vxlan, Ipip, TencentGre, Geneve, VxlanNsh, Erspan, Teb]"

text \<open>What the declaration of the enum relies on.\<close>

definition discriminants_ok :: "decap_type \<Rightarrow> bool" where
  "discriminants_ok D \<longleftrightarrow>
     distinct (map (tunnel_type_as_u8 D) all_tunnel_types) \<and>
     list_all (\<lambda>t. tunnel_type_as_u8 D t \<le> 15) all_tunnel_types"

text \<open>The derived \<^verbatim>\<open>TryFromPrimitive\<close>.\<close>

definition tunnel_type_try_from :: "decap_type \<Rightarrow> u8 \<Rightarrow> tunnel_type option" where
  "tunnel_type_try_from D n = find (\<lambda>t. tunnel_type_as_u8 D t = n) all_tunnel_types"

definition to_ascii_uppercase :: "string \<Rightarrow> string" where
  "to_ascii_uppercase =
     map (\<lambda>c. let n = of_char c in if 97 \<le> n \<and> n \<le> 122 then char_of (n - (32::nat)) else c)"

definition tunnel_type_from_str :: "string \<Rightarrow> tunnel_type" where
  "tunnel_type_from_str value =
     (let value = to_ascii_uppercase value in
      if value = ''VXLAN'' then Vxlan
      else if value = ''ERSPAN'' then Erspan
      else if value = ''TEB'' then Teb
      else if value = ''VXLAN-NSH'' then VxlanNsh
      else TunnelNone)"

subsection \<open>Sets of tunnel types\<close>

text \<open>\<^verbatim>\<open>TunnelTypeBitmap\<close> is a \<^verbatim>\<open>u16\<close>; a shift distance is taken modulo its width.\<close>

type_synonym tunnel_type_bitmap = u16

definition shl_u16 :: "u16 \<Rightarrow> u8 \<Rightarrow> u16" where
  "shl_u16 w n = push_bit (unat n mod 16) w"

definition bitmap_add :: "decap_type \<Rightarrow> tunnel_type_bitmap \<Rightarrow> tunnel_type \<Rightarrow> tunnel_type_bitmap" where
  "bitmap_add D b t = b OR shl_u16 1 (tunnel_type_as_u8 D t)"

definition bitmap_has :: "decap_type \<Rightarrow> tunnel_type_bitmap \<Rightarrow> tunnel_type \<Rightarrow> bool" where
  "bitmap_has D b t \<longleftrightarrow> b AND shl_u16 1 (tunnel_type_as_u8 D t) \<noteq> 0"

definition bitmap_is_empty :: "tunnel_type_bitmap \<Rightarrow> bool" where
  "bitmap_is_empty b \<longleftrightarrow> b = 0"

fun bitmap_new_loop :: "decap_type \<Rightarrow> tunnel_type_bitmap \<Rightarrow> tunnel_type list \<Rightarrow> tunnel_type_bitmap" where
  "bitmap_new_loop D b [] = b"
| "bitmap_new_loop D b (t # ts) = bitmap_new_loop D (b OR shl_u16 1 (tunnel_type_as_u8 D t)) ts"

definition bitmap_new :: "decap_type \<Rightarrow> tunnel_type list \<Rightarrow> tunnel_type_bitmap" where
  "bitmap_new D ts = bitmap_new_loop D 0 ts"

fun init_from_strings :: "decap_type \<Rightarrow> tunnel_type_bitmap \<Rightarrow> string list \<Rightarrow> tunnel_type_bitmap" where
  "init_from_strings D b [] = b"
| "init_from_strings D b (s # ss) =
     (let t = tunnel_type_from_str s in
      if t = TunnelNone then init_from_strings D b ss
      else init_from_strings D (bitmap_add D b t) ss)"

fun or_slices :: "tunnel_type_bitmap \<Rightarrow> u8 list \<Rightarrow> tunnel_type_bitmap" where
  "or_slices b [] = b"
| "or_slices b (n # ns) = or_slices (b OR shl_u16 1 n) ns"

definition from_slices :: "decap_type \<Rightarrow> u8 list \<Rightarrow> string list \<Rightarrow> tunnel_type_bitmap" where
  "from_slices D ns ss = init_from_strings D (or_slices 0 ns) ss"

definition from_strings :: "decap_type \<Rightarrow> string list \<Rightarrow> tunnel_type_bitmap" where
  "from_strings D ss = init_from_strings D 0 ss"

subsection \<open>Tunnel information\<close>

record tunnel_info =
  ti_src :: u32
  ti_dst :: u32
  ti_mac_src :: u32
  ti_mac_dst :: u32
  ti_id :: u32
  ti_tunnel_type :: tunnel_type
  ti_tier :: u8
  ti_is_ipv6 :: bool
  ti_from :: u32

definition default_tunnel_info :: tunnel_info where
  "default_tunnel_info = \<lparr> ti_src = 0, ti_dst = 0, ti_mac_src = 0, ti_mac_dst = 0, ti_id = 0,
     ti_tunnel_type = TunnelNone, ti_tier = 0, ti_is_ipv6 = False, ti_from = 0 \<rparr>"

definition reset_and_retain_erspan_from :: "tunnel_info \<Rightarrow> tunnel_info" where
  "reset_and_retain_erspan_from t =
     (let from = if ti_tunnel_type t = Erspan then ti_src t else 0 in
      default_tunnel_info\<lparr> ti_from := from \<rparr>)"

definition decapsulate_addr :: "tunnel_info \<Rightarrow> bytes \<Rightarrow> tunnel_info may_panic" where
  "decapsulate_addr t l3_packet = do {
     src \<leftarrow> slice_from l3_packet (FIELD_OFFSET_SIP - ETH_HEADER_SIZE) \<bind> read_u32_be;
     dst \<leftarrow> slice_from l3_packet (FIELD_OFFSET_DIP - ETH_HEADER_SIZE) \<bind> read_u32_be;
     Some (t\<lparr> ti_src := src, ti_dst := dst \<rparr>) }"

definition decapsulate_mac :: "tunnel_info \<Rightarrow> bytes \<Rightarrow> tunnel_info may_panic" where
  "decapsulate_mac t packet = do {
     src \<leftarrow> slice_from packet (FIELD_OFFSET_SA + 2) \<bind> read_u32_be;
     dst \<leftarrow> slice_from packet (FIELD_OFFSET_DA + 2) \<bind> read_u32_be;
     Some (t\<lparr> ti_mac_src := src, ti_mac_dst := dst \<rparr>) }"

definition decapsulate_v6_addr :: "tunnel_info \<Rightarrow> bytes \<Rightarrow> tunnel_info may_panic" where
  "decapsulate_v6_addr t l3_packet = do {
     src \<leftarrow> slice_from l3_packet IP6_SIP_OFFSET \<bind> read_u32_be;
     dst \<leftarrow> slice_from l3_packet IP6_DIP_OFFSET \<bind> read_u32_be;
     Some (t\<lparr> ti_src := src, ti_dst := dst \<rparr>) }"

text \<open>
  Every decapsulation answers the updated information, the packet (which the IPIP case
  rewrites) and the offset.
\<close>

type_synonym decap_result = "(tunnel_info \<times> bytes \<times> nat) may_panic"

definition add_tier :: "tunnel_info \<Rightarrow> tunnel_info" where
  "add_tier t = t\<lparr> ti_tier := ti_tier t + 1 \<rparr>"

definition decapsulate_vxlan :: "tunnel_info \<Rightarrow> bytes \<Rightarrow> nat \<Rightarrow> decap_result" where
  "decapsulate_vxlan t packet l2_len = do {
     l3_packet \<leftarrow> slice_from packet l2_len;
     if length l3_packet < FIELD_OFFSET_VXLAN_FLAGS + VXLAN_HEADER_SIZE then Some (t, packet, 0)
     else do {
       flags \<leftarrow> index_at l3_packet (FIELD_OFFSET_VXLAN_FLAGS - ETH_HEADER_SIZE);
       if flags \<noteq> VXLAN_FLAGS then Some (t, packet, 0)
       else do {
         t \<leftarrow> (if ti_tier t = 0 then do {
                 t \<leftarrow> decapsulate_addr t l3_packet;
                 t \<leftarrow> decapsulate_mac t packet;
                 vni \<leftarrow> slice_from l3_packet (FIELD_OFFSET_VXLAN_VNI - ETH_HEADER_SIZE)
                          \<bind> read_u32_be;
                 Some (t\<lparr> ti_tunnel_type := Vxlan, ti_id := drop_bit 8 vni \<rparr>) }
               else Some t);
         Some (add_tier t, packet,
               FIELD_OFFSET_VXLAN_FLAGS - ETH_HEADER_SIZE + VXLAN_HEADER_SIZE) } } }"

text \<open>The functions of the \<^verbatim>\<open>tunnel\<close> plugin of this repository answer nothing.\<close>

definition plugin_decapsulate_gpe_vxlan :: "bytes \<Rightarrow> nat \<Rightarrow> (nat \<times> u32) option" where
  "plugin_decapsulate_gpe_vxlan packet l2_len = None"

definition plugin_decapsulate_erspan :: "bytes \<Rightarrow> nat \<Rightarrow> u16 \<Rightarrow> u16 \<Rightarrow> nat \<Rightarrow> (nat \<times> u32) option" where
  "plugin_decapsulate_erspan packet l2_len flags gre_protocol_type ip_header_size = None"

definition plugin_decapsulate_teb :: "bytes \<Rightarrow> nat \<Rightarrow> u16 \<Rightarrow> nat \<Rightarrow> (nat \<times> u32) option" where
  "plugin_decapsulate_teb packet l2_len flags ip_header_size = None"

definition plugin_decapsulate_tencent_gre :: "bytes \<Rightarrow> nat \<Rightarrow> u16 \<Rightarrow> u16 \<Rightarrow> nat \<Rightarrow> (nat \<times> u32) option" where
  "plugin_decapsulate_tencent_gre packet l2_len flags gre_protocol_type ip_header_size = None"

text \<open>What the callers do with an answer of the plugin.\<close>

definition record_plugin :: "tunnel_info \<Rightarrow> bytes \<Rightarrow> nat \<Rightarrow> tunnel_type \<Rightarrow> (nat \<times> u32) option \<Rightarrow> decap_result" where
  "record_plugin t packet l2_len ty answer = (case answer of
     None \<Rightarrow> Some (t, packet, 0)
   | Some (offset, tid) \<Rightarrow> do {
       t \<leftarrow> (if ti_tier t = 0 then do {
               l3_packet \<leftarrow> slice_from packet l2_len;
               t \<leftarrow> decapsulate_addr t l3_packet;
               t \<leftarrow> decapsulate_mac t packet;
               Some (t\<lparr> ti_tunnel_type := ty, ti_id := tid \<rparr>) }
             else Some t);
       Some (add_tier t, packet, offset) })"

definition decapsulate_gpe_vxlan :: "tunnel_info \<Rightarrow> bytes \<Rightarrow> nat \<Rightarrow> decap_result" where
  "decapsulate_gpe_vxlan t packet l2_len =
     record_plugin t packet l2_len VxlanNsh (plugin_decapsulate_gpe_vxlan packet l2_len)"

definition decapsulate_erspan :: "tunnel_info \<Rightarrow> bytes \<Rightarrow> nat \<Rightarrow> u16 \<Rightarrow> u16 \<Rightarrow> nat \<Rightarrow> decap_result" where
  "decapsulate_erspan t packet l2_len flags gre_protocol_type ip_header_size =
     record_plugin t packet l2_len Erspan
       (plugin_decapsulate_erspan packet l2_len flags gre_protocol_type ip_header_size)"

definition decapsulate_tencent_gre :: "tunnel_info \<Rightarrow> bytes \<Rightarrow> nat \<Rightarrow> u16 \<Rightarrow> u16 \<Rightarrow> nat \<Rightarrow> decap_result" where
  "decapsulate_tencent_gre t packet l2_len flags gre_protocol_type ip_header_size =
     record_plugin t packet l2_len TencentGre
       (plugin_decapsulate_tencent_gre packet l2_len flags gre_protocol_type ip_header_size)"

definition decapsulate_teb :: "tunnel_info \<Rightarrow> bytes \<Rightarrow> nat \<Rightarrow> u16 \<Rightarrow> nat \<Rightarrow> decap_result" where
  "decapsulate_teb t packet l2_len flags ip_header_size =
     record_plugin t packet l2_len Teb (plugin_decapsulate_teb packet l2_len flags ip_header_size)"

definition decapsulate_geneve_header :: "bytes \<Rightarrow> (u32 \<times> nat) may_panic" where
  "decapsulate_geneve_header l4_payload =
     (if length l4_payload < GENEVE_HEADER_SIZE then Some (0, 0)
      else do {
        version_and_option_length \<leftarrow> index_at l4_payload GENEVE_VERSION_OFFSET;
        if drop_bit 6 version_and_option_length \<noteq> 0 then Some (0, 0)
        else do {
          let option_length =
            unat (push_bit 2 (version_and_option_length AND GENEVE_OPTION_LENGTH_MASK));
          let geneve_header_size = option_length + GENEVE_HEADER_SIZE;
          if length l4_payload < geneve_header_size then Some (0, 0)
          else do {
            protocol_type \<leftarrow> slice_from l4_payload GENEVE_PROTOCOL_OFFSET \<bind> read_u16_le;
            if protocol_type \<noteq> LE_TRANSPARENT_ETHERNET_BRIDGEING then Some (0, 0)
            else do {
              vni \<leftarrow> slice_from l4_payload GENEVE_VNI_OFFSET \<bind> read_u32_be;
              Some (drop_bit 8 vni, geneve_header_size) } } } })"

definition decapsulate_geneve :: "tunnel_info \<Rightarrow> bytes \<Rightarrow> nat \<Rightarrow> decap_result" where
  "decapsulate_geneve t packet l2_len = do {
     l3_packet \<leftarrow> slice_from packet l2_len;
     if length l3_packet < UDP_PACKET_SIZE + GENEVE_HEADER_SIZE then Some (t, packet, 0)
     else do {
       l4_payload \<leftarrow> slice_from l3_packet (IPV4_HEADER_SIZE + UDP_HEADER_SIZE);
       (tunnel_id, geneve_header_size) \<leftarrow> decapsulate_geneve_header l4_payload;
       if geneve_header_size = 0 then Some (t, packet, 0)
       else do {
         t \<leftarrow> (if ti_tier t = 0 then do {
                 t \<leftarrow> decapsulate_addr t l3_packet;
                 t \<leftarrow> decapsulate_mac t packet;
                 Some (t\<lparr> ti_tunnel_type := Geneve, ti_id := tunnel_id \<rparr>) }
               else Some t);
         Some (add_tier t, packet, UDP_PACKET_SIZE - ETH_HEADER_SIZE + geneve_header_size) } } }"

definition decapsulate_v6_geneve :: "tunnel_info \<Rightarrow> bytes \<Rightarrow> nat \<Rightarrow> decap_result" where
  "decapsulate_v6_geneve t packet l2_len = do {
     l3_packet \<leftarrow> slice_from packet l2_len;
     if length l3_packet < UDP6_PACKET_SIZE + GENEVE_HEADER_SIZE then Some (t, packet, 0)
     else do {
       l4_payload \<leftarrow> slice_from l3_packet (IPV6_HEADER_SIZE + UDP_HEADER_SIZE);
       (tunnel_id, geneve_header_size) \<leftarrow> decapsulate_geneve_header l4_payload;
       if geneve_header_size = 0 then Some (t, packet, 0)
       else do {
         t \<leftarrow> (if ti_tier t = 0 then do {
                 t \<leftarrow> decapsulate_v6_addr t l3_packet;
                 t \<leftarrow> decapsulate_mac t packet;
                 Some (t\<lparr> ti_tunnel_type := Geneve, ti_id := tunnel_id, ti_is_ipv6 := True \<rparr>) }
               else Some t);
         Some (add_tier t, packet, UDP_PACKET_SIZE - ETH_HEADER_SIZE + geneve_header_size) } } }"

definition decapsulate_v6_vxlan :: "tunnel_info \<Rightarrow> bytes \<Rightarrow> nat \<Rightarrow> decap_result" where
  "decapsulate_v6_vxlan t packet l2_len = do {
     l3_packet \<leftarrow> slice_from packet l2_len;
     if length l3_packet < FIELD_OFFSET_VXLAN_FLAGS + VXLAN_HEADER_SIZE then Some (t, packet, 0)
     else do {
       flags \<leftarrow> index_at l3_packet (IPV6_HEADER_SIZE + UDP_HEADER_SIZE + VXLAN_FLAGS_OFFSET_DECAP);
       if flags \<noteq> VXLAN_FLAGS then Some (t, packet, 0)
       else do {
         t \<leftarrow> (if ti_tier t = 0 then do {
                 t \<leftarrow> decapsulate_v6_addr t l3_packet;
                 t \<leftarrow> decapsulate_mac t packet;
                 vni \<leftarrow> slice_from l3_packet
                          (IPV6_HEADER_SIZE + UDP_HEADER_SIZE + VXLAN_VNI_OFFSET_DECAP)
                          \<bind> read_u32_be;
                 Some (t\<lparr> ti_tunnel_type := Vxlan, ti_id := drop_bit 8 vni, ti_is_ipv6 := True \<rparr>) }
               else Some t);
         Some (add_tier t, packet, IPV6_HEADER_SIZE + UDP_HEADER_SIZE + VXLAN_HEADER_SIZE) } } }"

text \<open>
  The IPIP case moves the Ethernet header in front of the inner IP header and rewrites its
  type.  The last subtraction wraps when the outer IP header is shorter than the Ethernet
  header.
\<close>

definition decapsulate_ipip :: "tunnel_info \<Rightarrow> bytes \<Rightarrow> nat \<Rightarrow> bool \<Rightarrow> bool \<Rightarrow> decap_result" where
  "decapsulate_ipip t packet l2_len underlay_ipv6 overlay_ipv6 = do {
     t \<leftarrow> (if ti_tier t = 0 then decapsulate_mac t packet else Some t);
     l3_packet \<leftarrow> slice_from packet l2_len;
     underlay_ip_header_size \<leftarrow>
       (if underlay_ipv6 then Some IPV6_HEADER_SIZE
        else do {
          ihl \<leftarrow> index_at l3_packet IP_IHL_OFFSET;
          Some (unat (push_bit 2 (ihl AND 0xF))) });
     t \<leftarrow> (if ti_tier t = 0 then do {
             t \<leftarrow> (if underlay_ipv6 then do {
                     t \<leftarrow> decapsulate_v6_addr t l3_packet;
                     Some (t\<lparr> ti_is_ipv6 := True \<rparr>) }
                   else decapsulate_addr t l3_packet);
             Some (t\<lparr> ti_tunnel_type := Ipip, ti_id := 0 \<rparr>) }
           else Some t);
     let start = l2_len + underlay_ip_header_size - l2_len;
     packet \<leftarrow> copy_within packet l2_len start;
     tl \<leftarrow> slice_from packet (start + l2_len - 2);
     tl \<leftarrow> write_u16_be tl (if \<not> overlay_ipv6 then ETH_IPV4 else ETH_IPV6);
     Some (add_tier t, take (start + l2_len - 2) packet @ tl, usize_sub start l2_len) }"

definition decapsulate_udp :: "decap_type \<Rightarrow> tunnel_info \<Rightarrow> bytes \<Rightarrow> nat \<Rightarrow> tunnel_type_bitmap \<Rightarrow> decap_result" where
  "decapsulate_udp D t packet l2_len tunnel_types = do {
     mac_prefix_0 \<leftarrow> index_at packet 0;
     mac_prefix_1 \<leftarrow> index_at packet 1;
     l3_packet \<leftarrow> slice_from packet l2_len;
     let dst_port_offset = FIELD_OFFSET_DPORT - ETH_HEADER_SIZE;
     if dst_port_offset + PORT_LEN > length l3_packet then Some (t, packet, 0)
     else do {
       dst_port \<leftarrow> slice_from l3_packet (FIELD_OFFSET_DPORT - ETH_HEADER_SIZE) \<bind> read_u16_le;
       if dst_port \<in> {LE_VXLAN_PROTO_UDP_DPORT, LE_VXLAN_PROTO_UDP_DPORT2,
                       LE_VXLAN_PROTO_UDP_DPORT3} \<and> bitmap_has D tunnel_types Vxlan
       then decapsulate_vxlan t packet l2_len
       else if dst_port = LE_GPE_VXLAN_PROTO_UDP_DPORT \<and> bitmap_has D tunnel_types VxlanNsh
       then decapsulate_gpe_vxlan t packet l2_len
       else if dst_port = LE_GENEVE_PROTO_UDP_DPORT \<and> bitmap_has D tunnel_types Geneve
       then decapsulate_geneve t packet l2_len
       else if mac_prefix_0 = 0xFF \<and> mac_prefix_1 = 0xFF \<and> bitmap_has D tunnel_types Vxlan
       then do {
         src_port \<leftarrow> slice_from l3_packet (FIELD_OFFSET_SPORT - ETH_HEADER_SIZE) \<bind> read_u16_le;
         if src_port = dst_port then decapsulate_vxlan t packet l2_len
         else Some (t, packet, 0) }
       else Some (t, packet, 0) } }"

definition decapsulate_gre :: "decap_type \<Rightarrow> tunnel_info \<Rightarrow> bytes \<Rightarrow> nat \<Rightarrow> tunnel_type_bitmap \<Rightarrow> decap_result" where
  "decapsulate_gre D t packet l2_len tunnel_types = do {
     l3_packet \<leftarrow> slice_from packet l2_len;
     ihl \<leftarrow> index_at l3_packet IP_IHL_OFFSET;
     let ip_header_size = push_bit 2 (unat ihl AND 0xF);
     flags \<leftarrow> slice_from l3_packet (ip_header_size + GRE_FLAGS_OFFSET) \<bind> read_u16_be;
     gre_protocol_type \<leftarrow>
       slice_from l3_packet (ip_header_size + GRE_PROTOCOL_OFFSET) \<bind> read_u16_le;
     if gre_protocol_type \<in> {LE_ERSPAN_PROTO_TYPE_II, LE_ERSPAN_PROTO_TYPE_III} \<and>
        bitmap_has D tunnel_types Erspan
     then decapsulate_erspan t packet l2_len flags gre_protocol_type ip_header_size
     else if gre_protocol_type \<in> {LE_IPV4_PROTO_TYPE_I, LE_IPV6_PROTO_TYPE_I} \<and>
             bitmap_has D tunnel_types TencentGre
     then decapsulate_tencent_gre t packet l2_len flags gre_protocol_type ip_header_size
     else if gre_protocol_type = LE_TRANSPARENT_ETHERNET_BRIDGEING \<and> bitmap_has D tunnel_types Teb
     then decapsulate_teb t packet l2_len flags ip_header_size
     else Some (t, packet, 0) }"

definition decapsulate :: "decap_type \<Rightarrow> tunnel_info \<Rightarrow> bytes \<Rightarrow> nat \<Rightarrow> tunnel_type_bitmap \<Rightarrow> decap_result" where
  "decapsulate D t packet l2_len tunnel_types =
     (if bitmap_is_empty tunnel_types \<or> ti_tier t = TUNNEL_TIER_LIMIT then Some (t, packet, 0)
      else do {
        l3_packet \<leftarrow> slice_from packet l2_len;
        if length l3_packet < IPV4_HEADER_SIZE + GRE_HEADER_SIZE_DECAP +
             ERSPAN_III_HEADER_SIZE + ERSPAN_III_SUBHEADER_SIZE
        then Some (t, packet, 0)
        else do {
          protocol \<leftarrow> index_at l3_packet (FIELD_OFFSET_PROTO - ETH_HEADER_SIZE);
          if protocol = IP_UDP then decapsulate_udp D t packet l2_len tunnel_types
          else if protocol = IP_GRE then decapsulate_gre D t packet l2_len tunnel_types
          else if protocol = IP_IPV4 \<and> bitmap_has D tunnel_types Ipip
          then decapsulate_ipip t packet l2_len False False
          else if protocol = IP_IPV6 \<and> bitmap_has D tunnel_types Ipip
          then decapsulate_ipip t packet l2_len False True
          else Some (t, packet, 0) } })"

definition decapsulate_v6_udp :: "decap_type \<Rightarrow> tunnel_info \<Rightarrow> bytes \<Rightarrow> nat \<Rightarrow> tunnel_type_bitmap \<Rightarrow> decap_result" where
  "decapsulate_v6_udp D t packet l2_len tunnel_types = do {
     mac_prefix_0 \<leftarrow> index_at packet 0;
     mac_prefix_1 \<leftarrow> index_at packet 1;
     l3_packet \<leftarrow> slice_from packet l2_len;
     let dst_port_offset = IPV6_HEADER_SIZE + UDP_DPORT_OFFSET;
     if dst_port_offset + PORT_LEN > length l3_packet then Some (t, packet, 0)
     else do {
       dst_port \<leftarrow> slice_from l3_packet dst_port_offset \<bind> read_u16_le;
       if dst_port \<in> {LE_VXLAN_PROTO_UDP_DPORT, LE_VXLAN_PROTO_UDP_DPORT2,
                       LE_VXLAN_PROTO_UDP_DPORT3} \<and> bitmap_has D tunnel_types Vxlan
       then decapsulate_v6_vxlan t packet l2_len
       else if dst_port = LE_GENEVE_PROTO_UDP_DPORT \<and> bitmap_has D tunnel_types Geneve
       then decapsulate_v6_geneve t packet l2_len
       else if mac_prefix_0 = 0xFF \<and> mac_prefix_1 = 0xFF \<and> bitmap_has D tunnel_types Vxlan
       then do {
         src_port \<leftarrow> slice_from l3_packet (dst_port_offset - 2) \<bind> read_u16_le;
         if src_port = dst_port then decapsulate_v6_vxlan t packet l2_len
         else Some (t, packet, 0) }
       else Some (t, packet, 0) } }"

definition decapsulate_v6 :: "decap_type \<Rightarrow> tunnel_info \<Rightarrow> bytes \<Rightarrow> nat \<Rightarrow> tunnel_type_bitmap \<Rightarrow> decap_result" where
  "decapsulate_v6 D t packet l2_len tunnel_types =
     (if bitmap_is_empty tunnel_types \<or> ti_tier t = TUNNEL_TIER_LIMIT then Some (t, packet, 0)
      else do {
        l3_packet \<leftarrow> slice_from packet l2_len;
        if length l3_packet < IPV6_HEADER_SIZE + GRE_HEADER_SIZE_DECAP +
             ERSPAN_III_HEADER_SIZE + ERSPAN_III_SUBHEADER_SIZE
        then Some (t, packet, 0)
        else do {
          protocol \<leftarrow> index_at l3_packet IP6_PROTO_OFFSET;
          if protocol = IP_UDP then decapsulate_v6_udp D t packet l2_len tunnel_types
          else if protocol = IP_IPV4 \<and> bitmap_has D tunnel_types Ipip
          then decapsulate_ipip t packet l2_len True False
          else if protocol = IP_IPV6 \<and> bitmap_has D tunnel_types Ipip
          then decapsulate_ipip t packet l2_len True True
          else Some (t, packet, 0) } })"

subsection \<open>What the functions do\<close>

lemma ihl_size:
  "push_bit 2 (unat w AND 0xF) = 4 * (unat w mod 16)"
  "unat (push_bit 2 (w AND 0xF)) = 4 * (unat w mod 16)" for w :: u8
proof -
  have m: "w AND 0xF = take_bit 4 w" "unat w AND 15 = take_bit 4 (unat w)"
    by (simp_all add: mask_eq_exp_minus_1 take_bit_eq_mask)
  show n: "push_bit 2 (unat w AND 0xF) = 4 * (unat w mod 16)"
    unfolding m by (simp add: take_bit_eq_mod push_bit_eq_mult)
  have "unat w mod 16 < 16" by simp
  then have "4 * (unat w mod 16) < 2 ^ 8" by simp
  moreover have "unat (push_bit 2 (w AND 0xF)) = take_bit 8 (push_bit 2 (unat w AND 0xF))"
    by (simp add: m unsigned_push_bit_eq unsigned_take_bit_eq)
  ultimately show "unat (push_bit 2 (w AND 0xF)) = 4 * (unat w mod 16)"
    unfolding n by (simp add: take_bit_eq_mod)
qed

definition ip_header_size :: "bytes \<Rightarrow> nat" where
  "ip_header_size l3_packet = 4 * (unat (l3_packet ! 0) mod 16)"

lemma ip_header_size_le: "ip_header_size p \<le> 60"
proof -
  have "unat (p ! 0) mod 16 \<le> 15" using pos_mod_bound [of 16] by (simp add: less_Suc_eq_le [symmetric])
  then show ?thesis by (simp add: ip_header_size_def)
qed


text \<open>What is recorded of the addresses.\<close>

definition with_macs :: "tunnel_info \<Rightarrow> bytes \<Rightarrow> tunnel_info" where
  "with_macs t packet = t\<lparr> ti_mac_src := u32_be_at packet 8, ti_mac_dst := u32_be_at packet 2 \<rparr>"

definition with_addrs :: "tunnel_info \<Rightarrow> bytes \<Rightarrow> nat \<Rightarrow> nat \<Rightarrow> tunnel_info" where
  "with_addrs t l3_packet i j = t\<lparr> ti_src := u32_be_at l3_packet i, ti_dst := u32_be_at l3_packet j \<rparr>"

lemma decapsulate_addr_eq [simp]:
  "20 \<le> length l3 \<Longrightarrow> decapsulate_addr t l3 = Some (with_addrs t l3 12 16)"
  by (simp add: decapsulate_addr_def with_addrs_def net_consts)

lemma decapsulate_v6_addr_eq [simp]:
  "40 \<le> length l3 \<Longrightarrow> decapsulate_v6_addr t l3 = Some (with_addrs t l3 20 36)"
  by (simp add: decapsulate_v6_addr_def with_addrs_def net_consts)

lemma decapsulate_mac_eq [simp]:
  "12 \<le> length p \<Longrightarrow> decapsulate_mac t p = Some (with_macs t p)"
  by (simp add: decapsulate_mac_def with_macs_def net_consts del: add_2_eq_Suc add_2_eq_Suc')

text \<open>The information on the outermost tunnel is recorded once.\<close>

definition record_outer :: "tunnel_info \<Rightarrow> tunnel_info \<Rightarrow> tunnel_info" where
  "record_outer t t' = add_tier (if ti_tier t = 0 then t' else t)"

lemma decapsulate_vxlan_eq:
  assumes "l2_len \<le> length packet" "12 \<le> length packet"
  shows "decapsulate_vxlan t packet l2_len = Some
    (if length packet < l2_len + 50 \<or> packet ! (l2_len + 28) \<noteq> 8 then (t, packet, 0)
     else (record_outer t ((with_macs (with_addrs t (drop l2_len packet) 12 16) packet)
             \<lparr> ti_tunnel_type := Vxlan, ti_id := drop_bit 8 (u32_be_at packet (l2_len + 32)) \<rparr>), packet, 36))"
  using assms by (auto simp add: decapsulate_vxlan_def record_outer_def net_consts add.commute less_diff_conv)


lemma decapsulate_v6_vxlan_eq:
  assumes "12 \<le> length packet" "l2_len + 64 \<le> length packet"
  shows "decapsulate_v6_vxlan t packet l2_len = Some
    (if packet ! (l2_len + 48) \<noteq> 8 then (t, packet, 0)
     else (record_outer t ((with_macs (with_addrs t (drop l2_len packet) 20 36) packet)
             \<lparr> ti_tunnel_type := Vxlan, ti_id := drop_bit 8 (u32_be_at packet (l2_len + 52)),
               ti_is_ipv6 := True \<rparr>), packet, 56))"
  using assms by (auto simp add: decapsulate_v6_vxlan_def record_outer_def net_consts add.commute less_diff_conv)

text \<open>The size of a Geneve header, and whether there is one.\<close>

definition geneve_size :: "bytes \<Rightarrow> nat" where
  "geneve_size p = unat (push_bit 2 (p ! 0 AND 0x3F)) + 8"

definition is_geneve :: "bytes \<Rightarrow> bool" where
  "is_geneve p \<longleftrightarrow> 8 \<le> length p \<and> drop_bit 6 (p ! 0) = 0 \<and> geneve_size p \<le> length p \<and>
     u16_le_at p 2 = 0x5865"

lemma decapsulate_geneve_header_eq:
  "decapsulate_geneve_header p =
     Some (if is_geneve p then (drop_bit 8 (u32_be_at p 4), geneve_size p) else (0, 0))"
proof (cases "8 \<le> length p")
  case True
  then have "p \<noteq> []" by auto
  with True show ?thesis
    by (auto simp: decapsulate_geneve_header_def is_geneve_def geneve_size_def net_consts Let_def)
next
  case False
  then show ?thesis by (simp add: decapsulate_geneve_header_def is_geneve_def net_consts)
qed

lemma geneve_size_pos [simp]: "geneve_size p \<noteq> 0"
  by (simp add: geneve_size_def)

lemma decapsulate_geneve_eq:
  assumes "l2_len \<le> length packet" "12 \<le> length packet"
  shows "decapsulate_geneve t packet l2_len = Some
    (if length packet < l2_len + 50 \<or> \<not> is_geneve (drop (l2_len + 28) packet) then (t, packet, 0)
     else (record_outer t ((with_macs (with_addrs t (drop l2_len packet) 12 16) packet)
             \<lparr> ti_tunnel_type := Geneve, ti_id := drop_bit 8 (u32_be_at (drop (l2_len + 28) packet) 4) \<rparr>),
           packet, 28 + geneve_size (drop (l2_len + 28) packet)))"
  using assms
  by (auto simp add: decapsulate_geneve_def decapsulate_geneve_header_eq record_outer_def net_consts
      add.commute less_diff_conv)

lemma decapsulate_v6_geneve_eq:
  assumes "l2_len \<le> length packet" "12 \<le> length packet"
  shows "decapsulate_v6_geneve t packet l2_len = Some
    (if length packet < l2_len + 70 \<or> \<not> is_geneve (drop (l2_len + 48) packet) then (t, packet, 0)
     else (record_outer t ((with_macs (with_addrs t (drop l2_len packet) 20 36) packet)
             \<lparr> ti_tunnel_type := Geneve, ti_id := drop_bit 8 (u32_be_at (drop (l2_len + 48) packet) 4),
               ti_is_ipv6 := True \<rparr>),
           packet, 28 + geneve_size (drop (l2_len + 48) packet)))"
  using assms
  by (auto simp add: decapsulate_v6_geneve_def decapsulate_geneve_header_eq record_outer_def net_consts
      add.commute less_diff_conv)

text \<open>The packet after an IPIP header of \<open>n\<close> bytes was removed, and its information.\<close>

definition ipip_packet :: "bytes \<Rightarrow> nat \<Rightarrow> nat \<Rightarrow> bool \<Rightarrow> bytes" where
  "ipip_packet packet l2_len n v6 =
     take n packet @ take (l2_len - 2) packet @ (if v6 then [0x86, 0xDD] else [0x08, 0x00]) @
     drop (n + l2_len) packet"

definition ipip_info :: "tunnel_info \<Rightarrow> bytes \<Rightarrow> nat \<Rightarrow> bool \<Rightarrow> tunnel_info" where
  "ipip_info t packet l2_len v6 =
     (if v6 then (with_addrs (with_macs t packet) (drop l2_len packet) 20 36)
                   \<lparr> ti_is_ipv6 := True, ti_tunnel_type := Ipip, ti_id := 0 \<rparr>
      else (with_addrs (with_macs t packet) (drop l2_len packet) 12 16)
                   \<lparr> ti_tunnel_type := Ipip, ti_id := 0 \<rparr>)"

lemma write_eth_type:
  "2 \<le> length bs \<Longrightarrow> write_u16_be bs ETH_IPV4 = Some ([0x08, 0x00] @ drop 2 bs)"
  "2 \<le> length bs \<Longrightarrow> write_u16_be bs ETH_IPV6 = Some ([0x86, 0xDD] @ drop 2 bs)"
  by (simp_all add: write_u16_be_def net_consts)

lemma ti_tier_with [simp]:
  "ti_tier (with_macs t p) = ti_tier t" "ti_tier (with_addrs t p i j) = ti_tier t"
  by (simp_all add: with_macs_def with_addrs_def)

lemma decapsulate_ipip_eq:
  assumes l2: "14 \<le> l2_len"
    and len: "l2_len + (if u6 then 40 else 20) \<le> length packet"
  defines "n \<equiv> (if u6 then 40 else ip_header_size (drop l2_len packet))"
  shows "decapsulate_ipip t packet l2_len u6 o6 =
    (if length packet < l2_len + n then None
     else Some (record_outer t (ipip_info t packet l2_len u6),
                ipip_packet packet l2_len n o6, usize_sub n l2_len))"
proof -
  have macs: "12 \<le> length packet" and addrs: "(if u6 then 40 else 20) \<le> length (drop l2_len packet)"
    using l2 len by auto
  have hdr: "(if u6 then Some IPV6_HEADER_SIZE
      else do { ihl \<leftarrow> index_at (drop l2_len packet) IP_IHL_OFFSET; Some (unat (push_bit 2 (ihl AND 0xF))) }) = Some n"
    using len by (auto simp: n_def ihl_size ip_header_size_def net_consts simp del: push_bit_and)
  let ?t = "if ti_tier t = 0 then with_macs t packet else t"
  have t1: "(if ti_tier t = 0 then decapsulate_mac t packet else Some t) = Some ?t"
    using macs by simp
  have t2: "(if ti_tier ?t = 0 then do {
             t \<leftarrow> (if u6 then do {
                     t \<leftarrow> decapsulate_v6_addr ?t (drop l2_len packet);
                     Some (t\<lparr> ti_is_ipv6 := True \<rparr>) }
                   else decapsulate_addr ?t (drop l2_len packet));
             Some (t\<lparr> ti_tunnel_type := Ipip, ti_id := 0 \<rparr>) }
           else Some ?t) = Some (if ti_tier t = 0 then ipip_info t packet l2_len u6 else t)"
    using addrs by (auto simp: ipip_info_def)
  have cp: "copy_within packet l2_len n =
    (if length packet < l2_len + n then None
     else Some (take n packet @ take l2_len packet @ drop (n + l2_len) packet))"
    using len by (auto simp: copy_within_def)
  let ?p = "take n packet @ take l2_len packet @ drop (n + l2_len) packet"
  have split: "drop (n + l2_len - 2) ?p = drop (l2_len - 2) (take l2_len packet) @ drop (n + l2_len) packet"
    "take (n + l2_len - 2) ?p = take n packet @ take (l2_len - 2) packet"
    "2 \<le> length (drop (n + l2_len - 2) ?p)" "n + l2_len - 2 \<le> length ?p"
    "drop 2 (drop (n + l2_len - 2) ?p) = drop (n + l2_len) packet"
    if "\<not> length packet < l2_len + n"
    using that l2 by auto
  show ?thesis
    unfolding decapsulate_ipip_def t1 bind.bind_lunit
    using len l2 split
    by (simp only: bind.bind_lunit slice_from_Some hdr t2 Let_def diff_add_inverse cp)
      (simp add: write_eth_type record_outer_def ipip_packet_def)
qed

lemma plugin_silent [simp]:
  "decapsulate_gpe_vxlan t packet l2_len = Some (t, packet, 0)"
  "decapsulate_erspan t packet l2_len flags ty n = Some (t, packet, 0)"
  "decapsulate_tencent_gre t packet l2_len flags ty n = Some (t, packet, 0)"
  "decapsulate_teb t packet l2_len flags n = Some (t, packet, 0)"
  by (simp_all add: decapsulate_gpe_vxlan_def plugin_decapsulate_gpe_vxlan_def
      decapsulate_erspan_def plugin_decapsulate_erspan_def
      decapsulate_tencent_gre_def plugin_decapsulate_tencent_gre_def
      decapsulate_teb_def plugin_decapsulate_teb_def record_plugin_def)

text \<open>
  What a decapsulation may do: find no tunnel and change nothing, or add a tier, record the
  type of the outermost tunnel and answer an offset within the packet.
\<close>

definition decap_step :: "tunnel_info \<Rightarrow> bytes \<Rightarrow> nat \<Rightarrow> tunnel_info \<times> bytes \<times> nat \<Rightarrow> bool" where
  "decap_step t packet l2_len r = (case r of (t', packet', offset) \<Rightarrow>
     t' = t \<and> packet' = packet \<and> offset = 0 \<or>
     ti_tier t' = ti_tier t + 1 \<and> (ti_tier t = 0 \<longrightarrow> ti_tunnel_type t' \<noteq> TunnelNone) \<and>
     (ti_tier t \<noteq> 0 \<longrightarrow> t' = add_tier t) \<and> length packet' = length packet \<and>
     offset \<noteq> 0 \<and> usize_add l2_len offset \<le> length packet)"

lemma decap_step_none [simp]: "decap_step t packet l2_len (t, packet, 0)"
  by (simp add: decap_step_def)

lemma decap_step_record:
  assumes "ti_tier t' = ti_tier t" "ti_tunnel_type t' \<noteq> TunnelNone"
    and "length packet' = length packet" "offset \<noteq> 0" "usize_add l2_len offset \<le> length packet"
  shows "decap_step t packet l2_len (record_outer t t', packet', offset)"
  using assms by (auto simp: decap_step_def record_outer_def add_tier_def)

text \<open>A well-formed Ethernet header: the bytes before the IP packet.\<close>

definition frame_ok :: "bytes \<Rightarrow> nat \<Rightarrow> bool" where
  "frame_ok packet l2_len \<longleftrightarrow>
     14 \<le> l2_len \<and> l2_len mod 4 = 2 \<and> l2_len \<le> length packet \<and> length packet < 2 ^ 63"

lemma decapsulate_vxlan_step:
  assumes "frame_ok packet l2_len"
  shows "\<exists>r. decapsulate_vxlan t packet l2_len = Some r \<and> decap_step t packet l2_len r"
proof -
  have "usize_add l2_len 36 \<le> length packet" if "l2_len + 50 \<le> length packet"
    using assms that by (simp add: frame_ok_def usize_add_exact)
  then show ?thesis
    using assms by (auto simp: frame_ok_def decapsulate_vxlan_eq intro!: decap_step_record)
qed

lemma decapsulate_v6_vxlan_step:
  assumes "frame_ok packet l2_len" "l2_len + 64 \<le> length packet"
  shows "\<exists>r. decapsulate_v6_vxlan t packet l2_len = Some r \<and> decap_step t packet l2_len r"
proof -
  have "usize_add l2_len 56 \<le> length packet"
    using assms by (simp add: frame_ok_def usize_add_exact)
  then show ?thesis
    using assms by (auto simp: frame_ok_def decapsulate_v6_vxlan_eq intro!: decap_step_record)
qed

lemma decapsulate_geneve_step:
  assumes "frame_ok packet l2_len"
  shows "\<exists>r. decapsulate_geneve t packet l2_len = Some r \<and> decap_step t packet l2_len r"
proof -
  have "usize_add l2_len (28 + geneve_size (drop (l2_len + 28) packet)) \<le> length packet"
    if "l2_len + 50 \<le> length packet" "is_geneve (drop (l2_len + 28) packet)"
    using assms that by (auto simp: frame_ok_def is_geneve_def usize_add_def)
  then show ?thesis
    using assms by (auto simp: frame_ok_def decapsulate_geneve_eq not_less intro!: decap_step_record)
qed

lemma decapsulate_v6_geneve_step:
  assumes "frame_ok packet l2_len"
  shows "\<exists>r. decapsulate_v6_geneve t packet l2_len = Some r \<and> decap_step t packet l2_len r"
proof -
  have "usize_add l2_len (28 + geneve_size (drop (l2_len + 48) packet)) \<le> length packet"
    if "l2_len + 70 \<le> length packet" "is_geneve (drop (l2_len + 48) packet)"
    using assms that by (auto simp: frame_ok_def is_geneve_def usize_add_def)
  then show ?thesis
    using assms by (auto simp: frame_ok_def decapsulate_v6_geneve_eq not_less intro!: decap_step_record)
qed

lemma ip_header_size_mod: "ip_header_size p mod 4 = 0"
  by (simp add: ip_header_size_def)

lemma decapsulate_ipip_step:
  assumes "frame_ok packet l2_len" "l2_len + (if u6 then 40 else 20) \<le> length packet"
  defines "n \<equiv> (if u6 then 40 else ip_header_size (drop l2_len packet))"
  shows "if length packet < l2_len + n then decapsulate_ipip t packet l2_len u6 o6 = None
         else \<exists>r. decapsulate_ipip t packet l2_len u6 o6 = Some r \<and> decap_step t packet l2_len r"
proof -
  have "n \<le> 60" "n mod 4 = 0" using ip_header_size_le ip_header_size_mod by (auto simp: n_def)
  then have off: "usize_sub n l2_len \<noteq> 0" "usize_add l2_len (usize_sub n l2_len) = n"
    using assms(1) by (auto simp: frame_ok_def usize_sub_eq_0 usize_add_sub)
  show ?thesis
    using assms(1) decapsulate_ipip_eq [of l2_len u6 packet t o6] assms(2) off
    unfolding n_def [symmetric]
    by (auto simp: frame_ok_def ipip_packet_def ipip_info_def intro!: decap_step_record)
qed

text \<open>The port numbers decide.\<close>

definition is_vxlan_port :: "u16 \<Rightarrow> bool" where
  "is_vxlan_port p \<longleftrightarrow> p \<in> {0xB512, 0x1821, 0x801A}"

definition balanced_vxlan :: "bytes \<Rightarrow> u16 \<Rightarrow> u16 \<Rightarrow> bool" where
  "balanced_vxlan packet src_port dst_port \<longleftrightarrow>
     packet ! 0 = 0xFF \<and> packet ! 1 = 0xFF \<and> src_port = dst_port"

lemma decapsulate_udp_eq:
  assumes "14 \<le> l2_len" "l2_len + 44 \<le> length packet"
  shows "decapsulate_udp D t packet l2_len bm =
    (let dst_port = u16_le_at packet (l2_len + 22); src_port = u16_le_at packet (l2_len + 20) in
     if is_vxlan_port dst_port \<and> bitmap_has D bm Vxlan then decapsulate_vxlan t packet l2_len
     else if dst_port = 0xB612 \<and> bitmap_has D bm VxlanNsh then Some (t, packet, 0)
     else if dst_port = 0xC117 \<and> bitmap_has D bm Geneve then decapsulate_geneve t packet l2_len
     else if balanced_vxlan packet src_port dst_port \<and> bitmap_has D bm Vxlan
     then decapsulate_vxlan t packet l2_len
     else Some (t, packet, 0))"
proof -
  have "packet \<noteq> []" using assms by auto
  with assms show ?thesis
    by (auto simp: decapsulate_udp_def is_vxlan_port_def balanced_vxlan_def net_consts Let_def
        add.commute)
qed

lemma decapsulate_v6_udp_eq:
  assumes "14 \<le> l2_len" "l2_len + 64 \<le> length packet"
  shows "decapsulate_v6_udp D t packet l2_len bm =
    (let dst_port = u16_le_at packet (l2_len + 42); src_port = u16_le_at packet (l2_len + 40) in
     if is_vxlan_port dst_port \<and> bitmap_has D bm Vxlan then decapsulate_v6_vxlan t packet l2_len
     else if dst_port = 0xC117 \<and> bitmap_has D bm Geneve then decapsulate_v6_geneve t packet l2_len
     else if balanced_vxlan packet src_port dst_port \<and> bitmap_has D bm Vxlan
     then decapsulate_v6_vxlan t packet l2_len
     else Some (t, packet, 0))"
proof -
  have "packet \<noteq> []" using assms by auto
  with assms show ?thesis
    by (auto simp: decapsulate_v6_udp_def is_vxlan_port_def balanced_vxlan_def net_consts Let_def
        add.commute)
qed

lemma decapsulate_udp_step:
  assumes "frame_ok packet l2_len" "l2_len + 44 \<le> length packet"
  shows "\<exists>r. decapsulate_udp D t packet l2_len bm = Some r \<and> decap_step t packet l2_len r"
  using assms decapsulate_vxlan_step [OF assms(1), of t] decapsulate_geneve_step [OF assms(1), of t]
  by (simp add: decapsulate_udp_eq frame_ok_def Let_def)

lemma decapsulate_v6_udp_step:
  assumes "frame_ok packet l2_len" "l2_len + 64 \<le> length packet"
  shows "\<exists>r. decapsulate_v6_udp D t packet l2_len bm = Some r \<and> decap_step t packet l2_len r"
  using assms decapsulate_v6_vxlan_step [OF assms, of t] decapsulate_v6_geneve_step [OF assms(1), of t]
  by (simp add: decapsulate_v6_udp_eq frame_ok_def Let_def)

lemma decapsulate_gre_eq:
  assumes "l2_len + 44 \<le> length packet"
  defines "n \<equiv> ip_header_size (drop l2_len packet)"
  shows "decapsulate_gre D t packet l2_len bm =
    (if length packet < l2_len + n + 4 then None else Some (t, packet, 0))"
proof -
  have hdr: "index_at (drop l2_len packet) IP_IHL_OFFSET = Some (packet ! l2_len)"
    "push_bit 2 (unat (packet ! l2_len) AND 0xF) = n"
    using assms(1) by (simp_all add: net_consts n_def ip_header_size_def ihl_size del: push_bit_and)
  show ?thesis
  proof (cases "length packet < l2_len + n + 4")
    case True
    then have r: "(slice_from (drop l2_len packet) (n + GRE_PROTOCOL_OFFSET) \<bind> read_u16_le) = None"
      using assms(1) by (intro read_field_None) (simp add: net_consts)
    have l3: "slice_from packet l2_len = Some (drop l2_len packet)"
      using assms(1) by simp
    show ?thesis
      using True unfolding decapsulate_gre_def
      by (simp only: l3 bind.bind_lunit hdr Let_def r bind.bind_lzero bind_rzero if_True)
  next
    case False
    then show ?thesis
      using assms(1) by (simp add: decapsulate_gre_def hdr Let_def net_consts del: push_bit_and)
  qed
qed

text \<open>
  The accesses the guard of \<^verbatim>\<open>decapsulate\<close> does not cover: an IPv4 header whose length
  field reaches beyond the captured bytes, in front of GRE or of an inner IP header.
\<close>

definition header_overrun ::
  "decap_type \<Rightarrow> tunnel_info \<Rightarrow> bytes \<Rightarrow> nat \<Rightarrow> tunnel_type_bitmap \<Rightarrow> bool" where
  "header_overrun D t packet l2_len tunnel_types \<longleftrightarrow>
     tunnel_types \<noteq> 0 \<and> ti_tier t \<noteq> 2 \<and> l2_len + 44 \<le> length packet \<and>
     (let n = ip_header_size (drop l2_len packet); protocol = packet ! (l2_len + 9) in
      protocol = 47 \<and> length packet < l2_len + n + 4 \<or>
      protocol \<in> {4, 41} \<and> bitmap_has D tunnel_types Ipip \<and> length packet < l2_len + n)"

lemma decapsulate_eq:
  assumes "bm \<noteq> 0" "ti_tier t \<noteq> 2" "l2_len + 44 \<le> length packet"
  shows "decapsulate D t packet l2_len bm =
    (let protocol = packet ! (l2_len + 9) in
     if protocol = 17 then decapsulate_udp D t packet l2_len bm
     else if protocol = 47 then decapsulate_gre D t packet l2_len bm
     else if protocol = 4 \<and> bitmap_has D bm Ipip then decapsulate_ipip t packet l2_len False False
     else if protocol = 41 \<and> bitmap_has D bm Ipip then decapsulate_ipip t packet l2_len False True
     else Some (t, packet, 0))"
proof -
  have "\<not> length packet - l2_len < 44" using assms(3) by auto
  with assms show ?thesis
    by (simp add: decapsulate_def bitmap_is_empty_def net_consts Let_def)
qed

lemma decapsulate_cases:
  assumes "frame_ok packet l2_len"
  shows "if header_overrun D t packet l2_len bm then decapsulate D t packet l2_len bm = None
    else \<exists>r. decapsulate D t packet l2_len bm = Some r \<and> decap_step t packet l2_len r"
proof (cases "bm = 0 \<or> ti_tier t = 2 \<or> length packet < l2_len + 44")
  case True
  with assms show ?thesis
    by (auto simp: decapsulate_def bitmap_is_empty_def header_overrun_def frame_ok_def net_consts)
next
  case False
  then have len: "l2_len + 44 \<le> length packet" "l2_len + 20 \<le> length packet" by auto
  from False have e: "bm \<noteq> 0" "ti_tier t \<noteq> 2" by auto
  show ?thesis
    using False len decapsulate_udp_step [OF assms len(1), of D t bm]
      decapsulate_gre_eq [OF len(1), of D t bm]
      decapsulate_ipip_step [of packet l2_len False t False]
      decapsulate_ipip_step [of packet l2_len False t True] assms
    unfolding decapsulate_eq [OF e len(1)] header_overrun_def Let_def by auto
qed

lemma decapsulate_v6_eq:
  assumes "bm \<noteq> 0" "ti_tier t \<noteq> 2" "l2_len + 64 \<le> length packet"
  shows "decapsulate_v6 D t packet l2_len bm =
    (let protocol = packet ! (l2_len + 6) in
     if protocol = 17 then decapsulate_v6_udp D t packet l2_len bm
     else if protocol = 4 \<and> bitmap_has D bm Ipip then decapsulate_ipip t packet l2_len True False
     else if protocol = 41 \<and> bitmap_has D bm Ipip then decapsulate_ipip t packet l2_len True True
     else Some (t, packet, 0))"
proof -
  have "\<not> length packet - l2_len < 64" using assms(3) by auto
  with assms show ?thesis
    by (simp add: decapsulate_v6_def bitmap_is_empty_def net_consts Let_def)
qed

lemma decapsulate_v6_cases:
  assumes "frame_ok packet l2_len"
  shows "\<exists>r. decapsulate_v6 D t packet l2_len bm = Some r \<and> decap_step t packet l2_len r"
proof (cases "bm = 0 \<or> ti_tier t = 2 \<or> length packet < l2_len + 64")
  case True
  with assms show ?thesis
    by (auto simp: decapsulate_v6_def bitmap_is_empty_def frame_ok_def net_consts)
next
  case False
  then have len: "l2_len + 64 \<le> length packet" "l2_len + 40 \<le> length packet" by auto
  from False have e: "bm \<noteq> 0" "ti_tier t \<noteq> 2" by auto
  show ?thesis
    using False len decapsulate_v6_udp_step [OF assms len(1), of D t bm]
      decapsulate_ipip_step [of packet l2_len True t False]
      decapsulate_ipip_step [of packet l2_len True t True] assms
    unfolding decapsulate_v6_eq [OF e len(1)] Let_def by auto
qed

subsection \<open>Fields of concatenated headers\<close>

lemma fields_append:
  "length xs \<le> i \<Longrightarrow> u16_le_at (xs @ ys) i = u16_le_at ys (i - length xs)"
  "length xs \<le> i \<Longrightarrow> u32_be_at (xs @ ys) i = u32_be_at ys (i - length xs)"
  "i + 2 \<le> length xs \<Longrightarrow> u16_le_at (xs @ ys) i = u16_le_at xs i"
  "i + 4 \<le> length xs \<Longrightarrow> u32_be_at (xs @ ys) i = u32_be_at xs i"
  by (auto simp: u16_le_at_def u32_be_at_def nth_append Suc_diff_le numeral_eq_Suc)

subsection \<open>Properties\<close>

text \<open>A tunnel header behind a UDP header, as its RFC lays it out.\<close>

fun carries :: "tunnel_type \<Rightarrow> bytes \<Rightarrow> bytes \<Rightarrow> bool" where
  "carries Vxlan udp hdr \<longleftrightarrow>
     length udp = 8 \<and> udp ! 2 = 0x12 \<and> udp ! 3 = 0xB5 \<and> length hdr = 8 \<and> hdr ! 0 = 8"
| "carries Geneve udp hdr \<longleftrightarrow>
     length udp = 8 \<and> udp ! 2 = 0x17 \<and> udp ! 3 = 0xC1 \<and> hdr ! 0 < 64 \<and>
     length hdr = 8 + 4 * unat (hdr ! 0) \<and> hdr ! 2 = 0x65 \<and> hdr ! 3 = 0x58"
| "carries _ udp hdr \<longleftrightarrow> False"

lemma carries_port:
  "carries Vxlan udp hdr \<Longrightarrow> u16_le_at udp 2 = 0xB512"
  "carries Geneve udp hdr \<Longrightarrow> u16_le_at udp 2 = 0xC117"
  by (simp_all add: u16_le_at_def)

lemma geneve_first_byte:
  fixes b :: u8
  assumes "b < 64"
  shows "drop_bit 6 b = 0" "unat (push_bit 2 (b AND 0x3F)) = 4 * unat b"
proof -
  have n: "unat b < 64" using assms by (simp add: word_less_nat_alt)
  then show "drop_bit 6 b = 0"
    by (simp add: drop_bit_eq_div word_arith_nat_div)
  have m: "b AND 0x3F = take_bit 6 b" by (simp add: take_bit_eq_mask mask_eq_exp_minus_1)
  have "unat (push_bit 2 (b AND 0x3F)) = take_bit 8 (push_bit 2 (take_bit 6 (unat b)))"
    unfolding m by (simp add: unsigned_push_bit_eq unsigned_take_bit_eq)
  then show "unat (push_bit 2 (b AND 0x3F)) = 4 * unat b"
    using n by (simp add: take_bit_eq_mod push_bit_eq_mult del: push_bit_and)
qed

lemma carries_geneve:
  assumes "carries Geneve udp hdr"
  shows "is_geneve (hdr @ inner)" "geneve_size (hdr @ inner) = length hdr"
proof -
  from assms have b: "hdr ! 0 < 64" and l: "length hdr = 8 + 4 * unat (hdr ! 0)" by auto
  then have h: "(hdr @ inner) ! 0 = hdr ! 0" by (simp add: nth_append)
  show s: "geneve_size (hdr @ inner) = length hdr"
    using geneve_first_byte [OF b] l by (simp add: geneve_size_def h del: push_bit_and)
  have "u16_le_at (hdr @ inner) 2 = 0x5865"
    using assms by (simp add: fields_append) (simp add: u16_le_at_def)
  then show "is_geneve (hdr @ inner)"
    using geneve_first_byte [OF b] l by (simp add: is_geneve_def s h)
qed


lemma bitmap_has_nonzero: "bitmap_has D bm ty \<Longrightarrow> bm \<noteq> 0"
  by (auto simp: bitmap_has_def)

lemma tunnel_type_as_u8_inj:
  assumes "discriminants_ok D" "unat (tunnel_type_as_u8 D s) = unat (tunnel_type_as_u8 D t)"
  shows "s = t"
  using assms by (cases s; cases t) (auto simp: discriminants_ok_def all_tunnel_types_def word_unat_eq_iff)

lemma tunnel_type_as_u8_le: "discriminants_ok D \<Longrightarrow> unat (tunnel_type_as_u8 D t) mod 16 = unat (tunnel_type_as_u8 D t)"
  by (cases t) (auto simp: discriminants_ok_def all_tunnel_types_def word_le_nat_alt)

lemma bitmap_add_has:
  assumes "discriminants_ok D"
  shows "bitmap_has D (bitmap_add D bm s) t \<longleftrightarrow> s = t \<or> bitmap_has D bm t"
proof -
  have b: "bitmap_has D b t \<longleftrightarrow> bit b (unat (tunnel_type_as_u8 D t))" for b t
    using assms 
    by (simp add: bitmap_has_def shl_u16_def tunnel_type_as_u8_le push_bit_of_1 and_exp_eq_0_iff_not_bit)
  have "unat (tunnel_type_as_u8 D t) < 16"
    using tunnel_type_as_u8_le [OF assms, of t] by (metis mod_less_divisor zero_less_numeral)
  then have "bit (bitmap_add D bm s) (unat (tunnel_type_as_u8 D t)) \<longleftrightarrow>
      unat (tunnel_type_as_u8 D s) = unat (tunnel_type_as_u8 D t) \<or>
      bit bm (unat (tunnel_type_as_u8 D t))"
    by (auto simp: bitmap_add_def shl_u16_def tunnel_type_as_u8_le [OF assms] bit_simps)
  then show ?thesis
    using tunnel_type_as_u8_inj [OF assms, of s t] unfolding b by metis
qed

lemma bitmap_new_loop_has:
  "discriminants_ok D \<Longrightarrow> bitmap_has D (bitmap_new_loop D b ts) t \<longleftrightarrow> t \<in> set ts \<or> bitmap_has D b t"
  by (induction ts arbitrary: b) (auto simp: bitmap_add_has [unfolded bitmap_add_def])

lemma init_from_strings_has:
  "discriminants_ok D \<Longrightarrow> bitmap_has D (init_from_strings D b ss) t \<longleftrightarrow>
     t \<noteq> TunnelNone \<and> t \<in> tunnel_type_from_str ` set ss \<or> bitmap_has D b t"
  by (induction ss arbitrary: b) (auto simp: bitmap_add_has Let_def)


text \<open>
  The bitmaps of tunnel types are sets: with distinct discriminants below 16 a bitmap
  built from a list, from configured names, or from both has exactly the types listed; adding
  a type adds that type and no other.
\<close>

theorem bitmap_is_set:
  assumes "discriminants_ok D"
  shows "bitmap_has D (bitmap_new D ts) t = (t \<in> set ts) \<and>
    bitmap_has D (bitmap_add D bm s) t = (s = t \<or> bitmap_has D bm t) \<and>
    bitmap_has D (from_strings D ss) t = (t \<noteq> TunnelNone \<and> t \<in> tunnel_type_from_str ` set ss) \<and>
    bitmap_is_empty (bitmap_new D ts) = (ts = [])"
proof -
  have "bitmap_has D (bitmap_new D ts) (hd ts)" if "ts \<noteq> []"
    using that assms by (simp add: bitmap_new_def bitmap_new_loop_has)
  then have "bitmap_is_empty (bitmap_new D ts) = (ts = [])"
    using bitmap_has_nonzero by (auto simp: bitmap_is_empty_def) (simp add: bitmap_new_def)
  then show ?thesis
    using assms
    by (simp add: bitmap_new_def bitmap_new_loop_has bitmap_add_has from_strings_def init_from_strings_has)
      (simp add: bitmap_has_def)
qed

definition example_decap_type :: decap_type where
  "example_decap_type = \<lparr> DT_None = 0, DT_Vxlan = 1, DT_Ipip = 2, DT_Tencent = 3, DT_Geneve = 4,
     DT_VxlanNsh = 5 \<rparr>"

theorem bitmap_is_set_witness:
  "discriminants_ok example_decap_type \<and>
   bitmap_has example_decap_type (bitmap_new example_decap_type [Vxlan, Teb]) Teb = (Teb \<in> set [Vxlan, Teb])"
proof -
  have ok: "discriminants_ok example_decap_type" by code_simp
  then show ?thesis using bitmap_is_set [of example_decap_type "[Vxlan, Teb]" Teb] by blast
qed

text \<open>
  C7: decapsulation of IPv4 panics exactly when an IPv4 header with options reaches beyond
  the captured bytes: in front of GRE (whatever tunnel types are enabled), or in front of an
  inner IP header when IPIP is enabled.  The guard on 44 bytes, meant to keep every access in
  range, does not cover these two.  Decapsulation of IPv6 never panics.
\<close>

theorem decapsulate_panics_iff:
  assumes "frame_ok packet l2_len"
  shows "(decapsulate D t packet l2_len bm = None \<longleftrightarrow> header_overrun D t packet l2_len bm) \<and>
    decapsulate_v6 D t packet l2_len bm \<noteq> None"
  using decapsulate_cases [OF assms, of D t bm] decapsulate_v6_cases [OF assms, of D t bm]
  by (auto split: if_splits)

text \<open>A minimal Ethernet frame: IPv4 with a header length of 60 bytes in front of GRE.\<close>

definition overrun_frame :: bytes where
  "overrun_frame = replicate 14 0 @ [0x4F] @ replicate 8 0 @ [47] @ replicate 36 0"

theorem decapsulate_panics_iff_witness:
  "frame_ok overrun_frame 14 \<and> length overrun_frame = 60 \<and>
   header_overrun example_decap_type default_tunnel_info overrun_frame 14 2 \<and>
   decapsulate example_decap_type default_tunnel_info overrun_frame 14 2 = None"
proof -
  have f: "frame_ok overrun_frame 14" by (simp add: frame_ok_def overrun_frame_def)
  have "header_overrun example_decap_type default_tunnel_info overrun_frame 14 2" by code_simp
  with f show ?thesis
    using decapsulate_panics_iff [OF f, of example_decap_type default_tunnel_info 2]
    by (simp add: overrun_frame_def)
qed

lemma vxlan_inner_frame:
  assumes "14 \<le> length eth" "14 \<le> length inner" "carries Vxlan udp hdr" "bitmap_has D bm Vxlan"
    and "ti_tier t = 0" "length ip = 20" "ip ! 9 = 17"
  defines "p \<equiv> eth @ ip @ udp @ hdr @ inner"
  shows "\<exists>t'. decapsulate D t p (length eth) bm = Some (t', p, 36) \<and> ti_tunnel_type t' = Vxlan \<and>
    ti_tier t' = 1 \<and> ti_id t' = drop_bit 8 (u32_be_at hdr 4) \<and>
    ti_src t' = u32_be_at ip 12 \<and> ti_dst t' = u32_be_at ip 16"
proof -
  have len: "length eth + 44 \<le> length p" "length eth \<le> length p" "12 \<le> length p"
    using assms by auto
  have f: "p ! (length eth + 9) = 17" "u16_le_at p (length eth + 22) = 0xB512"
    "p ! (length eth + 28) = 8" "u32_be_at p (length eth + 32) = u32_be_at hdr 4"
    using assms carries_port(1) [OF assms(3)] by (auto simp: p_def fields_append nth_append)
  have "decapsulate D t p (length eth) bm = decapsulate_vxlan t p (length eth)"
    using assms f len
    by (simp add: decapsulate_eq decapsulate_udp_eq bitmap_has_nonzero is_vxlan_port_def)
  also have "\<dots> = Some (record_outer t ((with_macs (with_addrs t (drop (length eth) p) 12 16) p)
             \<lparr> ti_tunnel_type := Vxlan, ti_id := drop_bit 8 (u32_be_at hdr 4) \<rparr>), p, 36)"
    using assms f len by (simp add: decapsulate_vxlan_eq)
  finally show ?thesis
    using assms by (simp add: record_outer_def add_tier_def with_macs_def with_addrs_def fields_append)
qed

lemma vxlan_v6_inner_frame:
  assumes "14 \<le> length eth" "14 \<le> length inner" "carries Vxlan udp hdr" "bitmap_has D bm Vxlan"
    and "ti_tier t = 0" "length ip6 = 40" "ip6 ! 6 = 17"
  defines "p \<equiv> eth @ ip6 @ udp @ hdr @ inner"
  shows "\<exists>t'. decapsulate_v6 D t p (length eth) bm = Some (t', p, 56) \<and> ti_tunnel_type t' = Vxlan \<and>
    ti_is_ipv6 t' \<and> ti_id t' = drop_bit 8 (u32_be_at hdr 4)"
proof -
  have len: "length eth + 64 \<le> length p" "12 \<le> length p" using assms by auto
  have f: "p ! (length eth + 6) = 17" "u16_le_at p (length eth + 42) = 0xB512"
    "p ! (length eth + 48) = 8" "u32_be_at p (length eth + 52) = u32_be_at hdr 4"
    using assms carries_port(1) [OF assms(3)] by (auto simp: p_def fields_append nth_append)
  have "decapsulate_v6 D t p (length eth) bm = decapsulate_v6_vxlan t p (length eth)"
    using assms f len
    by (simp add: decapsulate_v6_eq decapsulate_v6_udp_eq bitmap_has_nonzero is_vxlan_port_def)
  also have "\<dots> = Some (record_outer t ((with_macs (with_addrs t (drop (length eth) p) 20 36) p)
             \<lparr> ti_tunnel_type := Vxlan, ti_id := drop_bit 8 (u32_be_at hdr 4), ti_is_ipv6 := True \<rparr>), p, 56)"
    using assms f len by (simp add: decapsulate_v6_vxlan_eq)
  finally show ?thesis
    using assms by (simp add: record_outer_def add_tier_def)
qed

lemma geneve_inner_frame:
  assumes "14 \<le> length eth" "14 \<le> length inner" "carries Geneve udp hdr" "bitmap_has D bm Geneve"
    and "ti_tier t = 0" "length ip = 20" "ip ! 9 = 17"
  defines "p \<equiv> eth @ ip @ udp @ hdr @ inner"
  shows "\<exists>t'. decapsulate D t p (length eth) bm = Some (t', p, 28 + length hdr) \<and>
    ti_tunnel_type t' = Geneve \<and> ti_tier t' = 1 \<and> ti_id t' = drop_bit 8 (u32_be_at hdr 4) \<and>
    ti_src t' = u32_be_at ip 12 \<and> ti_dst t' = u32_be_at ip 16"
proof -
  have len: "length eth + 50 \<le> length p" "length eth \<le> length p" "12 \<le> length p"
    using assms by auto
  have f: "p ! (length eth + 9) = 17" "u16_le_at p (length eth + 22) = 0xC117"
    "drop (length eth + 28) p = hdr @ inner"
    using assms carries_port(2) [OF assms(3)] by (auto simp: p_def fields_append nth_append)
  have "decapsulate D t p (length eth) bm = decapsulate_geneve t p (length eth)"
    using assms f len
    by (simp add: decapsulate_eq decapsulate_udp_eq bitmap_has_nonzero is_vxlan_port_def)
  also have "\<dots> = Some (record_outer t ((with_macs (with_addrs t (drop (length eth) p) 12 16) p)
             \<lparr> ti_tunnel_type := Geneve, ti_id := drop_bit 8 (u32_be_at (hdr @ inner) 4) \<rparr>), p, 28 + length hdr)"
    using f len carries_geneve [OF assms(3)] by (simp add: decapsulate_geneve_eq)
  finally show ?thesis
    using assms by (simp add: record_outer_def add_tier_def with_macs_def with_addrs_def fields_append)
qed

text \<open>
  C20: a frame carried by VXLAN over IPv4 or IPv6, or by Geneve (with any options) over IPv4,
  is found: the offset answered leads to the first byte of the inner frame, the packet is
  unchanged and the tunnel type, the virtual network and the outer addresses are recorded.
\<close>

theorem udp_tunnel_inner_frame:
  assumes "14 \<le> length eth" "14 \<le> length inner" "carries ty udp hdr" "bitmap_has D bm ty"
    and "ti_tier t = 0"
    and "length ip = 20 \<and> ip ! 9 = 17"
    and "length ip6 = 40 \<and> ip6 ! 6 = 17"
  shows "(\<exists>t' offset. decapsulate D t (eth @ ip @ udp @ hdr @ inner) (length eth) bm =
        Some (t', eth @ ip @ udp @ hdr @ inner, offset) \<and>
      drop (length eth + offset) (eth @ ip @ udp @ hdr @ inner) = inner \<and>
      ti_tunnel_type t' = ty \<and> ti_tier t' = 1 \<and> ti_id t' = drop_bit 8 (u32_be_at hdr 4) \<and>
      ti_src t' = u32_be_at ip 12 \<and> ti_dst t' = u32_be_at ip 16) \<and>
    (ty = Vxlan \<longrightarrow> (\<exists>t' offset. decapsulate_v6 D t (eth @ ip6 @ udp @ hdr @ inner) (length eth) bm =
        Some (t', eth @ ip6 @ udp @ hdr @ inner, offset) \<and>
      drop (length eth + offset) (eth @ ip6 @ udp @ hdr @ inner) = inner \<and>
      ti_tunnel_type t' = Vxlan \<and> ti_is_ipv6 t' \<and> ti_id t' = drop_bit 8 (u32_be_at hdr 4)))"
proof -
  have "ty = Vxlan \<or> ty = Geneve" using assms(3) by (cases ty) auto
  then show ?thesis
  proof
    assume ty: "ty = Vxlan"
    from vxlan_inner_frame [of eth inner udp hdr D bm t ip] vxlan_v6_inner_frame [of eth inner udp hdr D bm t ip6]
    show ?thesis using assms unfolding ty by (fastforce simp: drop_append)
  next
    assume ty: "ty = Geneve"
    from geneve_inner_frame [of eth inner udp hdr D bm t ip]
    show ?thesis using assms unfolding ty by (fastforce simp: drop_append)
  qed
qed

definition udp_header :: "u8 \<Rightarrow> u8 \<Rightarrow> bytes" where
  "udp_header hi lo = [0x30, 0x39, hi, lo, 0, 0, 0, 0]"

definition ip_header :: "nat \<Rightarrow> nat \<Rightarrow> u8 \<Rightarrow> bytes" where
  "ip_header n i proto = (replicate n 0)[0 := 0x45, i := proto]"

theorem udp_tunnel_inner_frame_witness:
  "\<exists>t' offset. decapsulate example_decap_type default_tunnel_info
      (replicate 14 0 @ ip_header 20 9 17 @ udp_header 0x17 0xC1 @ [1, 0, 0x65, 0x58, 0, 0, 7, 0, 9, 9, 9, 9] @
       replicate 20 1) 14 (bitmap_new example_decap_type [Geneve]) =
        Some (t', replicate 14 0 @ ip_header 20 9 17 @ udp_header 0x17 0xC1 @
          [1, 0, 0x65, 0x58, 0, 0, 7, 0, 9, 9, 9, 9] @ replicate 20 1, offset) \<and>
      drop (14 + offset) (replicate 14 0 @ ip_header 20 9 17 @ udp_header 0x17 0xC1 @
          [1, 0, 0x65, 0x58, 0, 0, 7, 0, 9, 9, 9, 9] @ replicate 20 1) = replicate 20 1 \<and>
      ti_tunnel_type t' = Geneve"
proof -
  let ?hdr = "[1, 0, 0x65, 0x58, 0, 0, 7, 0, 9, 9, 9, 9] :: bytes"
  have c: "carries Geneve (udp_header 0x17 0xC1) ?hdr" by (simp add: udp_header_def)
  have b: "bitmap_has example_decap_type (bitmap_new example_decap_type [Geneve]) Geneve" by code_simp
  have t: "ti_tier default_tunnel_info = 0" by (simp add: default_tunnel_info_def)
  have h: "length (ip_header 20 9 17) = 20 \<and> ip_header 20 9 17 ! 9 = 17"
    "length (ip_header 40 6 17) = 40 \<and> ip_header 40 6 17 ! 6 = 17"
    by (simp_all add: ip_header_def)
  show ?thesis
    using udp_tunnel_inner_frame [of "replicate 14 0" "replicate 20 1", OF _ _ c b t h] by auto
qed

text \<open>
  An offset of 20 bytes is lost for Geneve over IPv6: the offset answered counts an IPv4
  header, so the frame handed on starts 20 bytes before the inner frame.  (VXLAN over IPv6
  counts the IPv6 header.)
\<close>

theorem geneve_v6_offset_short:
  assumes "14 \<le> length eth" "14 \<le> length inner" "carries Geneve udp hdr" "bitmap_has D bm Geneve"
    and "ti_tier t = 0" "length ip6 = 40" "ip6 ! 6 = 17"
  shows "\<exists>t' offset. decapsulate_v6 D t (eth @ ip6 @ udp @ hdr @ inner) (length eth) bm =
      Some (t', eth @ ip6 @ udp @ hdr @ inner, offset) \<and>
    offset + 20 = length (ip6 @ udp @ hdr) \<and>
    drop (length eth + offset) (eth @ ip6 @ udp @ hdr @ inner) \<noteq> inner \<and>
    drop (length eth + offset + 20) (eth @ ip6 @ udp @ hdr @ inner) = inner"
proof -
  let ?p = "eth @ ip6 @ udp @ hdr @ inner"
  have u: "length udp = 8" "8 \<le> length hdr" using assms(3) by auto
  then have len: "length eth + 64 \<le> length ?p" "length eth + 70 \<le> length ?p" "12 \<le> length ?p"
    "length eth \<le> length ?p"
    using assms by auto
  have f: "?p ! (length eth + 6) = 17" "u16_le_at ?p (length eth + 42) = 0xC117"
    "drop (length eth + 48) ?p = hdr @ inner"
    using assms u carries_port(2) [OF assms(3)] by (auto simp: fields_append nth_append)
  have "decapsulate_v6 D t ?p (length eth) bm = decapsulate_v6_geneve t ?p (length eth)"
    using assms f len decapsulate_v6_eq [of bm t "length eth" ?p D] 
      decapsulate_v6_udp_eq [of "length eth" ?p D t bm]
    by (simp add: bitmap_has_nonzero is_vxlan_port_def)
  then obtain t' where "decapsulate_v6 D t ?p (length eth) bm = Some (t', ?p, 28 + length hdr)"
    using len f carries_geneve [OF assms(3)] decapsulate_v6_geneve_eq [OF len(4,3), of t] by auto
  moreover have "length (drop (length eth + (28 + length hdr)) ?p) \<noteq> length inner"
    using u assms by simp
  then have "drop (length eth + (28 + length hdr)) ?p \<noteq> inner" by metis
  moreover have "drop (length eth + (28 + length hdr) + 20) ?p = inner"
    using u assms by simp
  moreover have "28 + length hdr + 20 = length (ip6 @ udp @ hdr)" using u assms by simp
  ultimately show ?thesis by blast
qed

theorem geneve_v6_offset_short_witness:
  "\<exists>t' offset. decapsulate_v6 example_decap_type default_tunnel_info
      (replicate 14 0 @ ip_header 40 6 17 @ udp_header 0x17 0xC1 @ [0, 0, 0x65, 0x58, 0, 0, 7, 0] @
       replicate 20 1) 14 (bitmap_new example_decap_type [Geneve]) =
        Some (t', replicate 14 0 @ ip_header 40 6 17 @ udp_header 0x17 0xC1 @
          [0, 0, 0x65, 0x58, 0, 0, 7, 0] @ replicate 20 1, offset) \<and> offset + 20 = 56"
proof -
  let ?hdr = "[0, 0, 0x65, 0x58, 0, 0, 7, 0] :: bytes"
  have c: "carries Geneve (udp_header 0x17 0xC1) ?hdr" by (simp add: udp_header_def)
  have b: "bitmap_has example_decap_type (bitmap_new example_decap_type [Geneve]) Geneve" by code_simp
  have t: "ti_tier default_tunnel_info = 0" by (simp add: default_tunnel_info_def)
  have h: "length (ip_header 40 6 17) = 40" "ip_header 40 6 17 ! 6 = 17"
    by (simp_all add: ip_header_def)
  show ?thesis
    using geneve_v6_offset_short [of "replicate 14 0" "replicate 20 1", OF _ _ c b t h] h
    by (auto simp: udp_header_def)
qed

text \<open>
  C19: a packet encapsulated in IP over IP comes back as a frame: the Ethernet header is moved
  in front of the inner IP packet, its type names the version of the inner packet, and the
  offset answered leads to it, also for an outer header with options.
\<close>

theorem ipip_roundtrip:
  assumes "frame_ok (eth @ ip @ inner) (length eth)" "bitmap_has D bm Ipip" "ti_tier t \<noteq> 2"
    and "length ip = ip_header_size ip" "20 \<le> length ip" "44 \<le> length ip + length inner"
    and "ip ! 9 = 4 \<or> ip ! 9 = 41"
  shows "\<exists>t' packet' offset.
    decapsulate D t (eth @ ip @ inner) (length eth) bm = Some (t', packet', offset) \<and>
    drop (usize_add (length eth) offset) packet' =
      take (length eth - 2) eth @ (if ip ! 9 = 41 then [0x86, 0xDD] else [0x08, 0x00]) @ inner \<and>
    ti_tier t' = ti_tier t + 1 \<and> (ti_tier t = 0 \<longrightarrow> ti_tunnel_type t' = Ipip)"
proof -
  let ?p = "eth @ ip @ inner"
  let ?n = "length ip"
  let ?r = "ipip_packet ?p (length eth) ?n (ip ! 9 = 41)"
  have l2: "14 \<le> length eth" using assms(1) by (simp add: frame_ok_def)
  have ne: "ip \<noteq> []" using assms(5) by auto
  have n: "ip_header_size (drop (length eth) ?p) = ?n"
    using ne assms(4) by (cases ip) (simp_all add: ip_header_size_def)
  have off: "usize_add (length eth) (usize_sub ?n (length eth)) = ?n"
    using assms(1) by (intro usize_add_sub) (auto simp: frame_ok_def)
  have proto: "(ip @ inner) ! 9 = ip ! 9" using assms(5) by (simp add: nth_append)
  have "decapsulate D t ?p (length eth) bm = decapsulate_ipip t ?p (length eth) False (ip ! 9 = 41)"
    using assms decapsulate_eq [of bm t "length eth" ?p D] bitmap_has_nonzero [OF assms(2)]
    by (auto simp: proto Let_def)
  also have "\<dots> = Some (record_outer t (ipip_info t ?p (length eth) False), ?r, usize_sub ?n (length eth))"
    using decapsulate_ipip_eq [OF l2, of False ?p t "ip ! 9 = 41"] assms(5,6) n by simp
  finally have d: "decapsulate D t ?p (length eth) bm =
    Some (record_outer t (ipip_info t ?p (length eth) False), ?r, usize_sub ?n (length eth))" .
  have "drop ?n ?r = take (length eth - 2) eth @ (if ip ! 9 = 41 then [0x86, 0xDD] else [0x08, 0x00]) @ inner"
    using l2 by (simp add: ipip_packet_def)
  then show ?thesis
    using d off by (auto simp: record_outer_def add_tier_def ipip_info_def)
qed


theorem ipip_roundtrip_witness:
  "\<exists>t' packet' offset.
    decapsulate example_decap_type default_tunnel_info
      (replicate 14 5 @ ip_header 20 9 4 @ replicate 30 1) 14 (bitmap_new example_decap_type [Ipip]) =
        Some (t', packet', offset) \<and>
    drop (usize_add 14 offset) packet' = replicate 12 5 @ [0x08, 0x00] @ replicate 30 1"
proof -
  let ?p = "replicate 14 5 @ ip_header 20 9 4 @ replicate 30 1 :: bytes"
  have f: "frame_ok ?p (length (replicate 14 (5::u8)))" by (simp add: frame_ok_def ip_header_def)
  have b: "bitmap_has example_decap_type (bitmap_new example_decap_type [Ipip]) Ipip" by code_simp
  have t: "ti_tier default_tunnel_info \<noteq> 2" by (simp add: default_tunnel_info_def)
  have h: "length (ip_header 20 9 4) = ip_header_size (ip_header 20 9 4)"
    "20 \<le> length (ip_header 20 9 4)" "44 \<le> length (ip_header 20 9 4) + length (replicate 30 (1::u8))"
    "ip_header 20 9 4 ! 9 = 4 \<or> ip_header 20 9 4 ! 9 = 41"
    by (simp_all add: ip_header_def ip_header_size_def)
  have "ip_header 20 9 4 ! 9 \<noteq> 41" by (simp add: ip_header_def)
  then show ?thesis
    using ipip_roundtrip [OF f b t h] by auto
qed

end
