(* ===== verification/Tap_Types.thy ===== *)
theory Tap_Types
  imports Rust_Prelude
begin

section \<open>Capture network types\<close>

text \<open>
  \<^verbatim>\<open>CaptureNetworkType\<close> of \<^verbatim>\<open>agent/crates/public/src/enums.rs\<close> and the table
  \<^verbatim>\<open>CaptureNetworkTyper\<close> of \<^verbatim>\<open>agent/src/common/tap_types.rs\<close>, which names the
  network a VLAN or a flow exporter belongs to.  The table stores numbers and converts them
  back with \<^verbatim>\<open>unwrap\<close>; a lookup marks a VLAN it does not know so that the warning is
  printed once.  The atomics and locks are modelled by the order of the operations.
\<close>

datatype capture_network_type = CNT_Any | CNT_Idc u8 | CNT_Cloud | CNT_Max | CNT_Unknown

definition cnt_try_from :: "u16 \<Rightarrow> capture_network_type option" where
  "cnt_try_from t =
     (if t = 0 then Some CNT_Any
      else if t = 3 then Some CNT_Cloud
      else if t = 0xFFFF then Some CNT_Unknown
      else if t < 256 then Some (CNT_Idc (ucast t))
      else None)"

fun cnt_into :: "capture_network_type \<Rightarrow> u16" where
  "cnt_into CNT_Any = 0"
| "cnt_into (CNT_Idc v) = ucast v"
| "cnt_into CNT_Cloud = 3"
| "cnt_into CNT_Max = 256"
| "cnt_into CNT_Unknown = 0xFFFF"

definition VLAN_MAX :: u16 where
  "VLAN_MAX = 4096"

text \<open>\<^verbatim>\<open>XflowKey\<close>: the address of the exporter and its interface.\<close>

type_synonym xflow_key = "u32 \<times> u32"

record network_typer =
  nt_packet :: "u16 list"
  nt_xflow :: "xflow_key \<rightharpoonup> capture_network_type"
  nt_xflow_missed :: "xflow_key set"

definition typer_new :: network_typer where
  "typer_new = \<lparr> nt_packet = replicate (unat (VLAN_MAX + 1)) 0, nt_xflow = Map.empty,
     nt_xflow_missed = {} \<rparr>"

definition get_tap_type_by_vlan ::
  "network_typer \<Rightarrow> u16 \<Rightarrow> (network_typer \<times> capture_network_type option) may_panic" where
  "get_tap_type_by_vlan s vlan =
     (if vlan > VLAN_MAX then Some (s, None)
      else do {
        assert_that (unat vlan < length (nt_packet s));
        tt \<leftarrow> cnt_try_from (nt_packet s ! unat vlan);
        if tt = CNT_Any then
          Some (s\<lparr> nt_packet := (nt_packet s)[unat vlan := cnt_into CNT_Unknown] \<rparr>, None)
        else Some (s, Some tt) })"

definition get_tap_type_by_xflow_key ::
  "network_typer \<Rightarrow> xflow_key \<Rightarrow> network_typer \<times> capture_network_type option" where
  "get_tap_type_by_xflow_key s key = (case nt_xflow s key of
     Some t \<Rightarrow> (s, Some t)
   | None \<Rightarrow>
       (if key \<notin> nt_xflow_missed s
        then (s\<lparr> nt_xflow_missed := insert key (nt_xflow_missed s) \<rparr>, None)
        else (s, None)))"

text \<open>
  An entry of the configuration (a message of the generated \<^verbatim>\<open>agent\<close> protocol).  The
  address is a dotted string; \<^verbatim>\<open>Ipv4Addr::from_str\<close> takes four decimal numbers up to
  255 without leading zeros.
\<close>

record tap_type_config =
  tc_is_packet :: bool
  tc_vlan :: u32
  tc_network_type :: u32
  tc_port :: u32
  tc_source_ip :: string

definition digit_of :: "char \<Rightarrow> nat option" where
  "digit_of c = (let n = of_char c in if 48 \<le> n \<and> n \<le> 57 then Some (n - 48) else None)"

fun parse_digits :: "nat \<Rightarrow> string \<Rightarrow> nat option" where
  "parse_digits acc [] = Some acc"
| "parse_digits acc (c # cs) = do { d \<leftarrow> digit_of c; parse_digits (acc * 10 + d) cs }"

definition parse_octet :: "string \<Rightarrow> u8 option" where
  "parse_octet s =
     (if s = [] \<or> length s > 3 \<or> (hd s = CHR ''0'' \<and> length s > 1) then None
      else do { n \<leftarrow> parse_digits 0 s; if n \<le> 255 then Some (of_nat n) else None })"

fun split_dots :: "string \<Rightarrow> string \<Rightarrow> string list" where
  "split_dots acc [] = [rev acc]"
| "split_dots acc (c # cs) =
     (if c = CHR ''.'' then rev acc # split_dots [] cs else split_dots (c # acc) cs)"

definition ipv4_from_str :: "string \<Rightarrow> u32 option" where
  "ipv4_from_str s = (case split_dots [] s of
     [a, b, c, d] \<Rightarrow> do {
       a \<leftarrow> parse_octet a; b \<leftarrow> parse_octet b; c \<leftarrow> parse_octet c; d \<leftarrow> parse_octet d;
       Some (push_bit 24 (ucast a) OR push_bit 16 (ucast b) OR push_bit 8 (ucast c) OR ucast d) }
   | _ \<Rightarrow> None)"

text \<open>One round of the loop over the configuration, and the whole change.\<close>

definition apply_config ::
  "u16 list \<times> (xflow_key \<rightharpoonup> capture_network_type) \<Rightarrow> tap_type_config \<Rightarrow>
   (u16 list \<times> (xflow_key \<rightharpoonup> capture_network_type)) may_panic" where
  "apply_config s c = (case s of (packet, xflow) \<Rightarrow>
     if tc_is_packet c then
       (let vlan = ucast (tc_vlan c); tap = ucast (tc_network_type c) in
        if vlan > VLAN_MAX \<or> tap = 0 then Some (packet, xflow)
        else (case cnt_try_from tap of
          None \<Rightarrow> Some (packet, xflow)
        | Some _ \<Rightarrow> do {
            assert_that (unat vlan < length packet);
            Some (packet[unat vlan := tap], xflow) }))
     else
       (let tap = ucast (tc_network_type c); tap_idx = tc_port c; ip = ipv4_from_str (tc_source_ip c) in
        case ip of
          None \<Rightarrow> Some (packet, xflow)
        | Some ip \<Rightarrow>
            (if tap = 0 \<or> tap_idx = 0 then Some (packet, xflow)
             else (case cnt_try_from tap of
               Some t \<Rightarrow> Some (packet, xflow((ip, tap_idx) \<mapsto> t))
             | None \<Rightarrow> Some (packet, xflow)))))"

fun apply_configs ::
  "u16 list \<times> (xflow_key \<rightharpoonup> capture_network_type) \<Rightarrow> tap_type_config list \<Rightarrow>
   (u16 list \<times> (xflow_key \<rightharpoonup> capture_network_type)) may_panic" where
  "apply_configs s [] = Some s"
| "apply_configs s (c # cs) = do { s \<leftarrow> apply_config s c; apply_configs s cs }"

definition on_tap_types_change :: "network_typer \<Rightarrow> tap_type_config list \<Rightarrow> network_typer may_panic" where
  "on_tap_types_change s cs = do {
     (packet, xflow) \<leftarrow> apply_configs (map (\<lambda>_. cnt_into CNT_Any) (nt_packet s), Map.empty) cs;
     Some (s\<lparr> nt_packet := packet, nt_xflow := xflow \<rparr>) }"

subsection \<open>Conversions\<close>

lemma u8_of_u16: "n < 256 \<Longrightarrow> ucast (ucast n :: u8) = n" for n :: u16
  by (simp add: word_unat_eq_iff unat_ucast_up unsigned_ucast_eq take_bit_eq_mod word_less_nat_alt unat_mod)

lemma cnt_roundtrip: "cnt_try_from n = Some t \<Longrightarrow> cnt_into t = n"
  by (auto simp: cnt_try_from_def u8_of_u16 split: if_splits)

lemma cnt_try_from_known [simp]:
  "cnt_try_from 0 = Some CNT_Any" "cnt_try_from 0xFFFF = Some CNT_Unknown"
  by (simp_all add: cnt_try_from_def)

lemma cnt_try_from_Any [simp]: "cnt_try_from n = Some CNT_Any \<longleftrightarrow> n = 0"
  by (simp add: cnt_try_from_def)

subsection \<open>What the table promises\<close>

text \<open>
  The entry of a VLAN, and of an exporter, that a configuration gives: the last valid one.
\<close>

definition vlan_entry :: "tap_type_config \<Rightarrow> (u16 \<times> u16) option" where
  "vlan_entry c =
     (let vlan = ucast (tc_vlan c); tap = ucast (tc_network_type c) in
      if tc_is_packet c \<and> vlan \<le> VLAN_MAX \<and> tap \<noteq> 0 \<and> cnt_try_from tap \<noteq> None
      then Some (vlan, tap) else None)"

definition xflow_entry :: "tap_type_config \<Rightarrow> (xflow_key \<times> capture_network_type) option" where
  "xflow_entry c =
     (if tc_is_packet c \<or> ucast (tc_network_type c) = (0::u16) \<or> tc_port c = 0 then None
      else (case (ipv4_from_str (tc_source_ip c), cnt_try_from (ucast (tc_network_type c))) of
        (Some ip, Some t) \<Rightarrow> Some ((ip, tc_port c), t)
      | _ \<Rightarrow> None))"

fun vlan_config :: "u16 \<Rightarrow> u16 \<Rightarrow> tap_type_config list \<Rightarrow> u16" where
  "vlan_config v acc [] = acc"
| "vlan_config v acc (c # cs) =
     vlan_config v (case vlan_entry c of Some (w, n) \<Rightarrow> if w = v then n else acc | None \<Rightarrow> acc) cs"

fun xflow_config ::
  "(xflow_key \<rightharpoonup> capture_network_type) \<Rightarrow> tap_type_config list \<Rightarrow> xflow_key \<rightharpoonup> capture_network_type" where
  "xflow_config m [] = m"
| "xflow_config m (c # cs) =
     xflow_config (case xflow_entry c of Some (k, t) \<Rightarrow> m(k \<mapsto> t) | None \<Rightarrow> m) cs"

text \<open>The operations as events, the model of the code and the specification.\<close>

datatype typer_op = Lookup_Vlan u16 | Lookup_Xflow xflow_key | Change "tap_type_config list"

fun exec_op :: "network_typer \<Rightarrow> typer_op \<Rightarrow> (network_typer \<times> capture_network_type option) may_panic" where
  "exec_op s (Lookup_Vlan v) = get_tap_type_by_vlan s v"
| "exec_op s (Lookup_Xflow k) = Some (get_tap_type_by_xflow_key s k)"
| "exec_op s (Change cs) = do { s \<leftarrow> on_tap_types_change s cs; Some (s, None) }"

fun exec_ops :: "network_typer \<Rightarrow> typer_op list \<Rightarrow> capture_network_type option list may_panic" where
  "exec_ops s [] = Some []"
| "exec_ops s (p # ps) = do {
     (s, r) \<leftarrow> exec_op s p;
     rs \<leftarrow> exec_ops s ps;
     Some (r # rs) }"

text \<open>
  The specification keeps the last configuration and the VLANs asked for since: a
  configured VLAN has its type, any other is unknown, and the first question for it is
  answered with nothing.
\<close>

fun spec_op ::
  "tap_type_config list \<times> u16 set \<Rightarrow> typer_op \<Rightarrow>
   (tap_type_config list \<times> u16 set) \<times> capture_network_type option" where
  "spec_op (cs, asked) (Lookup_Vlan v) =
     ((cs, insert v asked),
      if v > VLAN_MAX then None
      else if vlan_config v 0 cs \<noteq> 0 then cnt_try_from (vlan_config v 0 cs)
      else if v \<in> asked then Some CNT_Unknown else None)"
| "spec_op (cs, asked) (Lookup_Xflow k) = ((cs, asked), xflow_config Map.empty cs k)"
| "spec_op (cs, asked) (Change cs') = ((cs', {}), None)"

fun spec_ops :: "tap_type_config list \<times> u16 set \<Rightarrow> typer_op list \<Rightarrow> capture_network_type option list" where
  "spec_ops a [] = []"
| "spec_ops a (p # ps) = (case spec_op a p of (a, r) \<Rightarrow> r # spec_ops a ps)"

subsection \<open>The code implements it\<close>

definition vlan_value :: "tap_type_config list \<Rightarrow> u16 set \<Rightarrow> u16 \<Rightarrow> u16" where
  "vlan_value cs asked v =
     (if vlan_config v 0 cs \<noteq> 0 then vlan_config v 0 cs else if v \<in> asked then 0xFFFF else 0)"

definition typer_abs :: "network_typer \<Rightarrow> tap_type_config list \<times> u16 set \<Rightarrow> bool" where
  "typer_abs s a \<longleftrightarrow> (case a of (cs, asked) \<Rightarrow>
     length (nt_packet s) = 4097 \<and>
     (\<forall>v. v \<le> VLAN_MAX \<longrightarrow> nt_packet s ! unat v = vlan_value cs asked v) \<and>
     nt_xflow s = xflow_config Map.empty cs)"

lemma unat_vlan: "v \<le> VLAN_MAX \<Longrightarrow> unat v < 4097"
  by (simp add: VLAN_MAX_def word_le_nat_alt)

lemma nth_update_vlan:
  "unat v < length xs \<Longrightarrow> xs[unat v := x] ! unat w = (if w = v then x else xs ! unat w)"
  by (auto simp: nth_list_update word_unat_eq_iff)

lemma apply_config_entries:
  assumes "length packet = 4097"
  shows "\<exists>packet'. apply_config (packet, xflow) c =
      Some (packet', case xflow_entry c of Some (k, t) \<Rightarrow> xflow(k \<mapsto> t) | None \<Rightarrow> xflow) \<and>
    length packet' = 4097 \<and>
    (\<forall>v. v \<le> VLAN_MAX \<longrightarrow> packet' ! unat v =
       (case vlan_entry c of Some (w, n) \<Rightarrow> if w = v then n else packet ! unat v | None \<Rightarrow> packet ! unat v))"
  using assms
  by (auto simp: apply_config_def xflow_entry_def vlan_entry_def Let_def unat_vlan nth_list_update
      word_unat_eq_iff not_less split: option.splits)

lemma apply_configs_entries:
  assumes "length packet = 4097"
  shows "\<exists>packet'. apply_configs (packet, xflow) cs = Some (packet', xflow_config xflow cs) \<and>
    length packet' = 4097 \<and>
    (\<forall>v. v \<le> VLAN_MAX \<longrightarrow> packet' ! unat v = vlan_config v (packet ! unat v) cs)"
  using assms
proof (induction cs arbitrary: packet xflow)
  case (Cons c cs)
  obtain packet1 where p1: "apply_config (packet, xflow) c =
      Some (packet1, case xflow_entry c of Some (k, t) \<Rightarrow> xflow(k \<mapsto> t) | None \<Rightarrow> xflow)"
    "length packet1 = 4097"
    "\<And>v. v \<le> VLAN_MAX \<Longrightarrow> packet1 ! unat v =
       (case vlan_entry c of Some (w, n) \<Rightarrow> if w = v then n else packet ! unat v | None \<Rightarrow> packet ! unat v)"
    using apply_config_entries [OF Cons.prems, of xflow c] by blast
  from Cons.IH [OF p1(2)] p1 show ?case by simp
qed simp

lemma vlan_config_convertible: "cnt_try_from acc \<noteq> None \<Longrightarrow> cnt_try_from (vlan_config v acc cs) \<noteq> None"
  by (induction cs arbitrary: acc) (auto simp: vlan_entry_def Let_def split: option.splits if_splits)

lemma typer_abs_step:
  assumes "typer_abs s a"
  shows "\<exists>s'. exec_op s p = Some (s', snd (spec_op a p)) \<and> typer_abs s' (fst (spec_op a p))"
proof (cases p)
  case (Lookup_Vlan v)
  obtain cs asked where a: "a = (cs, asked)" by fastforce
  show ?thesis
  proof (cases "v \<le> VLAN_MAX")
    case True
    have val: "nt_packet s ! unat v = vlan_value cs asked v" "unat v < length (nt_packet s)"
      using assms True unat_vlan by (simp_all add: typer_abs_def a)
    obtain t where t: "cnt_try_from (vlan_config v 0 cs) = Some t"
      using vlan_config_convertible [of 0 v cs] by auto
    show ?thesis
    proof (cases "vlan_value cs asked v = 0")
      case zero: True
      then show ?thesis
        using assms True val
        by (auto simp: Lookup_Vlan a typer_abs_def get_tap_type_by_vlan_def vlan_value_def
            nth_update_vlan split: if_splits)
    next
      case False
      then have "vlan_value cs (insert v asked) = vlan_value cs asked"
        by (auto simp: vlan_value_def fun_eq_iff split: if_splits)
      then show ?thesis
        using assms True val t False
        by (auto simp: Lookup_Vlan a typer_abs_def get_tap_type_by_vlan_def vlan_value_def
            split: if_splits)
    qed
  next
    case False
    then show ?thesis
      using assms by (auto simp: Lookup_Vlan a typer_abs_def get_tap_type_by_vlan_def vlan_value_def)
  qed
next
  case (Lookup_Xflow k)
  obtain cs asked where a: "a = (cs, asked)" by fastforce
  show ?thesis
    using assms by (auto simp: Lookup_Xflow a typer_abs_def get_tap_type_by_xflow_key_def split: option.splits)
next
  case (Change cs')
  obtain cs asked where a: "a = (cs, asked)" by fastforce
  have "length (map (\<lambda>_. cnt_into CNT_Any) (nt_packet s)) = 4097"
    using assms by (simp add: a typer_abs_def)
  from apply_configs_entries [OF this, of Map.empty cs'] show ?thesis
    using assms unat_vlan by (auto simp: Change a typer_abs_def on_tap_types_change_def vlan_value_def)
qed

lemma exec_ops_abs: "typer_abs s a \<Longrightarrow> exec_ops s ps = Some (spec_ops a ps)"
proof (induction ps arbitrary: s a)
  case (Cons p ps)
  then show ?case using typer_abs_step [OF Cons.prems, of p] by (auto split: prod.splits)
qed simp

lemma typer_new_abs: "typer_abs typer_new ([], {})"
  using unat_vlan by (auto simp: typer_abs_def typer_new_def vlan_value_def VLAN_MAX_def)

subsection \<open>Properties\<close>

text \<open>
  For every sequence of lookups and configuration changes the table never panics and
  answers as its specification: a VLAN or exporter has the type of the last valid entry of
  the last configuration, an unconfigured VLAN is answered with nothing the first time and
  as unknown afterwards, and a new configuration forgets which ones were asked for.
\<close>

theorem typer_refines: "exec_ops typer_new ps = Some (spec_ops ([], {}) ps)"
  by (rule exec_ops_abs [OF typer_new_abs])

text \<open>
  A capture network type survives the conversion to its number and back, except for the
  numbered types 0 and 3, which are read back as the types these numbers name, and for the
  end marker, which is no valid number.
\<close>

theorem cnt_conversion:
  "cnt_try_from (cnt_into t) =
     (if t = CNT_Max then None
      else if t = CNT_Idc 0 then Some CNT_Any
      else if t = CNT_Idc 3 then Some CNT_Cloud
      else Some t)"
proof (cases t)
  case (CNT_Idc v)
  have "unat v < 256" using unsigned_less [of v, where ?'a = nat] by simp
  then have "ucast v < (256 :: u16)" "ucast v \<noteq> (0xFFFF :: u16)"
    by (auto simp: word_less_nat_alt unat_ucast_up word_unat_eq_iff)
  moreover have "ucast (ucast v :: u16) = v" by (rule bit_word_eqI) (simp add: bit_simps)
  ultimately show ?thesis
    by (auto simp: CNT_Idc cnt_try_from_def unat_ucast_up word_unat_eq_iff)
qed (simp_all add: cnt_try_from_def)

end
