(* ===== verification/Decap_Tunnel.thy ===== *)
theory Decap_Tunnel
  imports Decapsulate Tap_Types
begin

section \<open>From a captured packet to the innermost frame\<close>

text \<open>
  \<^verbatim>\<open>BaseDispatcher::decap_tunnel\<close> of \<^verbatim>\<open>agent/src/dispatcher/base_dispatcher.rs\<close>
  (the Linux variant) and the variant of the analyzer mode: the Ethernet header and up to two
  VLAN tags are read, the capture network is looked up, and up to two tunnels are removed.
\<close>

datatype packet_capture_type = PCT_Local | PCT_Mirror | PCT_Analyzer | PCT_Decap

record type_handler =
  th_default_tap_type :: capture_network_type
  th_mirror_traffic_pcp :: u16
  th_capture_mode :: packet_capture_type

datatype dispatch_error = PacketInvalid

definition OUTER_VLAN :: u16 where "OUTER_VLAN = 8"
definition INNER_VLAN :: u16 where "INNER_VLAN = 9"

text \<open>The tags, the Ethernet type and the size of the tags.\<close>

definition read_vlan_tags :: "bytes \<Rightarrow> (u16 \<times> u16 \<times> u16 \<times> nat) may_panic" where
  "read_vlan_tags packet = do {
     eth_type \<leftarrow> slice_from packet FIELD_OFFSET_ETH_TYPE \<bind> read_u16_be;
     if eth_type = ETH_DOT1Q \<and> length packet \<ge> ETH_HEADER_SIZE + VLAN_HEADER_SIZE then do {
       vlan_tag \<leftarrow> slice_from packet ETH_HEADER_SIZE \<bind> read_u16_be;
       eth_type \<leftarrow> slice_from packet (FIELD_OFFSET_ETH_TYPE + VLAN_HEADER_SIZE) \<bind> read_u16_be;
       if eth_type = ETH_DOT1Q \<and> length packet \<ge> ETH_HEADER_SIZE + 2 * VLAN_HEADER_SIZE then do {
         eth_type \<leftarrow> slice_from packet (FIELD_OFFSET_ETH_TYPE + (VLAN_HEADER_SIZE + VLAN_HEADER_SIZE))
                       \<bind> read_u16_be;
         inner_tag \<leftarrow> slice_from packet (ETH_HEADER_SIZE + VLAN_HEADER_SIZE) \<bind> read_u16_be;
         Some (vlan_tag, inner_tag, eth_type, VLAN_HEADER_SIZE + VLAN_HEADER_SIZE) }
       else Some (vlan_tag, vlan_tag, eth_type, VLAN_HEADER_SIZE) }
     else Some (0, 0, eth_type, 0) }"

text \<open>\<^verbatim>\<open>if let Some(t) = ... { if t != Unknown { tap_type = t } }\<close>\<close>

definition lookup_vlan ::
  "network_typer \<Rightarrow> u16 \<Rightarrow> capture_network_type \<Rightarrow> (network_typer \<times> capture_network_type) may_panic" where
  "lookup_vlan typer vlan tap_type = do {
     (typer, r) \<leftarrow> get_tap_type_by_vlan typer vlan;
     Some (typer, case r of Some t \<Rightarrow> if t \<noteq> CNT_Unknown then t else tap_type | None \<Rightarrow> tap_type) }"

definition get_l2_info ::
  "type_handler \<Rightarrow> network_typer \<Rightarrow> bytes \<Rightarrow>
   (network_typer \<times> (dispatch_error + capture_network_type \<times> u16 \<times> nat)) may_panic" where
  "get_l2_info H typer packet = do {
     (outer_vlan_tag, inner_vlan_tag, eth_type, l2_opt_size) \<leftarrow> read_vlan_tags packet;
     let tap_type = th_default_tap_type H;
     (typer, tap_type) \<leftarrow>
       (if th_capture_mode H = PCT_Analyzer then
          (if l2_opt_size = 0 then lookup_vlan typer 0 tap_type
           else if th_mirror_traffic_pcp H = OUTER_VLAN
           then lookup_vlan typer (outer_vlan_tag AND VLAN_ID_MASK) tap_type
           else if th_mirror_traffic_pcp H = INNER_VLAN
           then lookup_vlan typer (inner_vlan_tag AND VLAN_ID_MASK) tap_type
           else if drop_bit 13 outer_vlan_tag AND 0x7 = th_mirror_traffic_pcp H
           then lookup_vlan typer (outer_vlan_tag AND VLAN_ID_MASK) tap_type
           else Some (typer, tap_type))
        else Some (typer, tap_type));
     Some (typer, Inr (tap_type, eth_type, ETH_HEADER_SIZE + l2_opt_size)) }"

text \<open>The state the functions change: the table, the tunnel information and the packet.\<close>

type_synonym dispatch_state = "network_typer \<times> tunnel_info \<times> bytes"

definition base_decapsulate ::
  "decap_type \<Rightarrow> type_handler \<Rightarrow> dispatch_state \<Rightarrow> tunnel_type_bitmap \<Rightarrow>
   (dispatch_state \<times> (dispatch_error + nat \<times> capture_network_type)) may_panic" where
  "base_decapsulate D H s bitmap = (case s of (typer, t, packet) \<Rightarrow>
     if length packet < ETH_HEADER_SIZE then Some ((typer, t, packet), Inl PacketInvalid)
     else do {
       (typer, l2_info) \<leftarrow> get_l2_info H typer packet;
       case l2_info of
         Inl e \<Rightarrow> Some ((typer, t, packet), Inl e)
       | Inr (tap_type, eth_type, l2_len) \<Rightarrow> do {
           (t, packet, offset) \<leftarrow>
             (if eth_type = ETH_IPV4 then decapsulate D t packet l2_len bitmap
              else if eth_type = ETH_IPV6 then decapsulate_v6 D t packet l2_len bitmap
              else Some (t, packet, 0));
           if offset = 0 then Some ((typer, t, packet), Inr (0, tap_type))
           else Some ((typer, t, packet), Inr (usize_add l2_len offset, tap_type)) } })"

text \<open>The loop \<^verbatim>\<open>for i in 0..2\<close> works on the rest of the packet.\<close>

fun decap_layers ::
  "decap_type \<Rightarrow> type_handler \<Rightarrow> tunnel_type_bitmap \<Rightarrow> tunnel_type_bitmap \<Rightarrow> nat list \<Rightarrow>
   dispatch_state \<Rightarrow> nat \<Rightarrow> capture_network_type \<Rightarrow>
   (dispatch_state \<times> (dispatch_error + nat \<times> capture_network_type)) may_panic" where
  "decap_layers D H bitmap trim_bitmap [] s decap_len tap_type = Some (s, Inr (decap_len, tap_type))"
| "decap_layers D H bitmap trim_bitmap (i # is) (typer, t, packet) decap_len tap_type = do {
     rest \<leftarrow> slice_from packet decap_len;
     ((typer, t, rest), r) \<leftarrow> base_decapsulate D H (typer, t, rest) bitmap;
     let packet = take decap_len packet @ rest;
     case r of
       Inl e \<Rightarrow> Some ((typer, t, packet), Inl e)
     | Inr (offset, ty) \<Rightarrow>
         (let tap_type = (if i = 0 then ty else tap_type) in
          if ti_tunnel_type t = TunnelNone then Some ((typer, t, packet), Inr (decap_len, tap_type))
          else
            (let t = (if bitmap_has D trim_bitmap (ti_tunnel_type t)
                      then reset_and_retain_erspan_from t else t)
             in decap_layers D H bitmap trim_bitmap is (typer, t, packet)
                  (usize_add decap_len offset) tap_type)) }"

definition decap_tunnel_with_erspan ::
  "decap_type \<Rightarrow> type_handler \<Rightarrow> dispatch_state \<Rightarrow> tunnel_type_bitmap \<Rightarrow> tunnel_type_bitmap \<Rightarrow>
   (dispatch_state \<times> (dispatch_error + nat \<times> capture_network_type)) may_panic" where
  "decap_tunnel_with_erspan D H s bitmap trim_bitmap =
     decap_layers D H bitmap trim_bitmap [0, 1] s 0 CNT_Any"

definition decap_tunnel ::
  "decap_type \<Rightarrow> type_handler \<Rightarrow> dispatch_state \<Rightarrow> tunnel_type_bitmap \<Rightarrow> tunnel_type_bitmap \<Rightarrow>
   (dispatch_state \<times> (dispatch_error + nat \<times> capture_network_type)) may_panic" where
  "decap_tunnel D H s bitmap trim_bitmap = (case s of (typer, t, packet) \<Rightarrow>
     decap_tunnel_with_erspan D H (typer, default_tunnel_info, packet) bitmap trim_bitmap)"

text \<open>In analyzer mode a mark in the source address may give the offset of the frame.\<close>

definition BILD_FLAGS :: nat where "BILD_FLAGS = 0xFF"
definition BILD_FLAGS_OFFSET :: nat where "BILD_FLAGS_OFFSET = 6"
definition BILD_OVERLAY_OFFSET :: nat where "BILD_OVERLAY_OFFSET = 7"

definition analyzer_decap_tunnel ::
  "decap_type \<Rightarrow> type_handler \<Rightarrow> dispatch_state \<Rightarrow> tunnel_type_bitmap \<Rightarrow> tunnel_type_bitmap \<Rightarrow>
   (dispatch_state \<times> (dispatch_error + nat \<times> capture_network_type)) may_panic" where
  "analyzer_decap_tunnel D H s bitmap trim_bitmap = (case s of (typer, t, packet) \<Rightarrow> do {
     flags \<leftarrow> index_at packet BILD_FLAGS_OFFSET;
     if flags = of_nat BILD_FLAGS \<and> length packet > ETH_HEADER_SIZE then do {
       overlay_offset \<leftarrow> index_at packet BILD_OVERLAY_OFFSET;
       (typer, l2_info) \<leftarrow> get_l2_info H typer packet;
       case l2_info of
         Inr (tap_type, eth_type, l2_len) \<Rightarrow>
           Some ((typer, default_tunnel_info, packet), Inr (unat overlay_offset, tap_type))
       | Inl e \<Rightarrow> Some ((typer, t, packet), Inl e) }
     else decap_tunnel D H (typer, t, packet) bitmap trim_bitmap })"

subsection \<open>Reading the Ethernet header\<close>

lemma read_vlan_tags_ok:
  assumes "14 \<le> length packet"
  shows "\<exists>outer inner e n. read_vlan_tags packet = Some (outer, inner, e, n) \<and> n \<in> {0, 4, 8} \<and>
    14 + n \<le> length packet"
  using assms by (auto simp: read_vlan_tags_def net_consts)

text \<open>The table is in a state its operations reach.\<close>

definition typer_ok :: "network_typer \<Rightarrow> bool" where
  "typer_ok typer \<longleftrightarrow> (\<exists>a. typer_abs typer a)"

lemma lookup_vlan_ok:
  assumes "typer_ok typer"
  shows "\<exists>typer' ty. lookup_vlan typer v d = Some (typer', ty) \<and> typer_ok typer'"
proof -
  from assms obtain a where "typer_abs typer a" by (auto simp: typer_ok_def)
  from typer_abs_step [OF this, of "Lookup_Vlan v"] show ?thesis
    unfolding typer_ok_def lookup_vlan_def by (metis (no_types, lifting) bind.bind_lunit case_prod_conv exec_op.simps(1))
qed

lemma get_l2_info_ok:
  assumes "typer_ok typer" "read_vlan_tags packet = Some (outer, inner, e, n)"
  shows "\<exists>typer' ty. get_l2_info H typer packet = Some (typer', Inr (ty, e, 14 + n)) \<and> typer_ok typer'"
proof -
  note l = lookup_vlan_ok [OF assms(1), of _ "th_default_tap_type H"]
  from l [of 0] l [of "outer AND VLAN_ID_MASK"] l [of "inner AND VLAN_ID_MASK"] show ?thesis
    using assms by (auto simp: get_l2_info_def ETH_HEADER_SIZE_def MAC_ADDR_LEN_def ETH_TYPE_LEN_def Let_def)
qed

text \<open>A frame whose IPv4 header reaches beyond the captured bytes (see above).\<close>

definition frame_overrun :: "decap_type \<Rightarrow> tunnel_info \<Rightarrow> bytes \<Rightarrow> tunnel_type_bitmap \<Rightarrow> bool" where
  "frame_overrun D t packet bm \<longleftrightarrow> 14 \<le> length packet \<and> (case read_vlan_tags packet of
     Some (outer, inner, e, n) \<Rightarrow> e = ETH_IPV4 \<and> header_overrun D t packet (14 + n) bm
   | None \<Rightarrow> False)"

text \<open>One layer: an error for a short packet, a panic for an overrun, a step otherwise.\<close>

definition layer_step :: "tunnel_info \<Rightarrow> bytes \<Rightarrow> tunnel_info \<Rightarrow> bytes \<Rightarrow> nat \<Rightarrow> bool" where
  "layer_step t packet t' packet' n \<longleftrightarrow> length packet' = length packet \<and> n \<le> length packet \<and>
     (t' = t \<and> packet' = packet \<and> n = 0 \<or>
      ti_tier t' = ti_tier t + 1 \<and> (ti_tier t = 0 \<longrightarrow> ti_tunnel_type t' \<noteq> TunnelNone) \<and>
      (ti_tier t \<noteq> 0 \<longrightarrow> t' = add_tier t))"

lemma layer_step_of_decap_step:
  "decap_step t packet l2_len (t', packet', offset) \<Longrightarrow>
   layer_step t packet t' packet' (if offset = 0 then 0 else usize_add l2_len offset)"
  by (auto simp: decap_step_def layer_step_def)

lemma base_decapsulate_cases:
  assumes "typer_ok typer" "length packet < 2 ^ 63"
  shows "if length packet < 14 then
      base_decapsulate D H (typer, t, packet) bm = Some ((typer, t, packet), Inl PacketInvalid)
    else if frame_overrun D t packet bm then base_decapsulate D H (typer, t, packet) bm = None
    else \<exists>typer' t' packet' n ty.
      base_decapsulate D H (typer, t, packet) bm = Some ((typer', t', packet'), Inr (n, ty)) \<and>
      typer_ok typer' \<and> layer_step t packet t' packet' n"
proof (cases "length packet < 14")
  case False
  then obtain outer inner e n where tags: "read_vlan_tags packet = Some (outer, inner, e, n)"
    "n \<in> {0, 4, 8}" "14 + n \<le> length packet"
    using read_vlan_tags_ok [of packet] by auto
  then obtain typer' ty where l2: "get_l2_info H typer packet = Some (typer', Inr (ty, e, 14 + n))"
    "typer_ok typer'"
    using get_l2_info_ok [OF assms(1)] by blast
  have f: "frame_ok packet (14 + n)" using tags assms(2) by (auto simp: frame_ok_def)
  define r where "r = (if e = ETH_IPV4 then decapsulate D t packet (14 + n) bm
    else if e = ETH_IPV6 then decapsulate_v6 D t packet (14 + n) bm else Some (t, packet, 0))"
  have b: "base_decapsulate D H (typer, t, packet) bm = do {
      (t, packet, offset) \<leftarrow> r;
      if offset = 0 then Some ((typer', t, packet), Inr (0, ty))
      else Some ((typer', t, packet), Inr (usize_add (14 + n) offset, ty)) }"
    using False l2 by (simp add: base_decapsulate_def r_def net_consts)
  show ?thesis
  proof (cases "frame_overrun D t packet bm")
    case True
    then have "r = None"
      using decapsulate_cases [OF f, of D t bm] tags False by (simp add: r_def frame_overrun_def)
    then show ?thesis using True False b by simp
  next
    case no: False
    then have "\<exists>t' packet' offset. r = Some (t', packet', offset) \<and> decap_step t packet (14 + n) (t', packet', offset)"
      using decapsulate_cases [OF f, of D t bm] decapsulate_v6_cases [OF f, of D t bm] tags False
      by (auto simp: r_def frame_overrun_def split: if_splits)
    then obtain t' packet' offset where r: "r = Some (t', packet', offset)"
      "decap_step t packet (14 + n) (t', packet', offset)" by blast
    with no False b l2 layer_step_of_decap_step [OF r(2)] show ?thesis
      by (auto split: if_splits)
  qed
qed (simp add: base_decapsulate_def net_consts)

subsection \<open>Two layers\<close>

definition trim_info :: "decap_type \<Rightarrow> tunnel_type_bitmap \<Rightarrow> tunnel_info \<Rightarrow> tunnel_info" where
  "trim_info D trim t = (if bitmap_has D trim (ti_tunnel_type t) then reset_and_retain_erspan_from t else t)"

lemma trim_info_tier: "ti_tier (trim_info D trim t) = ti_tier t \<or> ti_tier (trim_info D trim t) = 0"
  by (simp add: trim_info_def reset_and_retain_erspan_from_def default_tunnel_info_def Let_def)

lemma default_tunnel_info_simps [simp]:
  "ti_tier default_tunnel_info = 0" "ti_tunnel_type default_tunnel_info = TunnelNone"
  by (simp_all add: default_tunnel_info_def)

lemma decap_layers_Cons:
  assumes "decap_len \<le> length packet"
    and "base_decapsulate D H (typer, t, drop decap_len packet) bm = Some ((typer', t', rest), Inr (n, ty))"
  shows "decap_layers D H bm trim (i # is) (typer, t, packet) decap_len tap =
    (if ti_tunnel_type t' = TunnelNone
     then Some ((typer', t', take decap_len packet @ rest), Inr (decap_len, if i = 0 then ty else tap))
     else decap_layers D H bm trim is (typer', trim_info D trim t', take decap_len packet @ rest)
            (usize_add decap_len n) (if i = 0 then ty else tap))"
  using assms by (simp add: Let_def trim_info_def)

text \<open>What is left of a packet after one layer.\<close>

lemma layer_rest:
  assumes "layer_step t (drop k packet) t' rest n" "k \<le> length packet" "length packet < 2 ^ 63"
  shows "length (take k packet @ rest) = length packet" "usize_add k n \<le> length packet"
  using assms by (auto simp: layer_step_def usize_add_def min_def)

lemma layer_step_tier:
  assumes "layer_step t p t' p' n" "ti_tier t < 2"
  shows "ti_tier t' \<le> ti_tier t + 1"
  using assms by (auto simp: layer_step_def word_le_nat_alt word_less_nat_alt unat_word_ariths)

text \<open>The second layer.\<close>

lemma second_layer:
  assumes "typer_ok typer" "length packet < 2 ^ 63" "k \<le> length packet" "ti_tier t \<le> 1"
  shows "if frame_overrun D t (drop k packet) bm
    then decap_layers D H bm trim [1] (typer, t, packet) k tap = None
    else \<exists>typer' t' packet' r. decap_layers D H bm trim [1] (typer, t, packet) k tap =
        Some ((typer', t', packet'), r) \<and> typer_ok typer' \<and>
      (r = Inl PacketInvalid \<or>
       (\<exists>n. r = Inr (n, tap) \<and> n \<le> length packet \<and> length packet' = length packet \<and> ti_tier t' \<le> 2))"
proof -
  let ?rest = "drop k packet"
  have "length ?rest < 2 ^ 63" using assms by simp
  note base = base_decapsulate_cases [OF assms(1) this, of D H t bm]
  consider "length ?rest < 14" | "\<not> length ?rest < 14" "frame_overrun D t ?rest bm"
    | "\<not> length ?rest < 14" "\<not> frame_overrun D t ?rest bm" by blast
  then show ?thesis
  proof cases
    case 1
    then have "\<not> frame_overrun D t ?rest bm" by (simp add: frame_overrun_def)
    with 1 base assms show ?thesis by auto
  next
    case 2
    with base assms show ?thesis by simp
  next
    case 3
    with base obtain typer' t' rest n ty where
      b: "base_decapsulate D H (typer, t, ?rest) bm = Some ((typer', t', rest), Inr (n, ty))"
      "typer_ok typer'" and st: "layer_step t ?rest t' rest n" by auto
    note l = decap_layers_Cons [OF assms(3) b(1)]
    have tier: "ti_tier t' \<le> 2" "ti_tier (trim_info D trim t') \<le> 2"
      using layer_step_tier [OF st] assms(4) trim_info_tier [of D trim t']
      by (auto simp: word_le_nat_alt word_less_nat_alt unat_word_ariths)
    show ?thesis
      unfolding l using 3 b(2) tier layer_rest [OF st assms(3,2)] assms(3) by auto
  qed
qed

text \<open>The first layer and what follows.\<close>

definition second_overrun ::
  "decap_type \<Rightarrow> type_handler \<Rightarrow> network_typer \<Rightarrow> bytes \<Rightarrow> tunnel_type_bitmap \<Rightarrow> tunnel_type_bitmap \<Rightarrow> bool" where
  "second_overrun D H typer packet bm trim \<longleftrightarrow>
     (case base_decapsulate D H (typer, default_tunnel_info, packet) bm of
        Some ((typer', t', packet'), Inr (n, ty)) \<Rightarrow>
          ti_tunnel_type t' \<noteq> TunnelNone \<and> frame_overrun D (trim_info D trim t') (drop n packet') bm
      | _ \<Rightarrow> False)"

lemma decap_tunnel_cases:
  assumes "typer_ok typer" "length packet < 2 ^ 63"
  shows "if frame_overrun D default_tunnel_info packet bm \<or> second_overrun D H typer packet bm trim
    then decap_tunnel D H (typer, t, packet) bm trim = None
    else \<exists>typer' t' packet' r. decap_tunnel D H (typer, t, packet) bm trim =
        Some ((typer', t', packet'), r) \<and> typer_ok typer' \<and>
      (r = Inl PacketInvalid \<or>
       (\<exists>n ty. r = Inr (n, ty) \<and> n \<le> length packet \<and> length packet' = length packet \<and> ti_tier t' \<le> 2))"
proof -
  let ?t = default_tunnel_info
  let ?run = "decap_tunnel D H (typer, t, packet) bm trim"
  have run: "?run = decap_layers D H bm trim [0, 1] (typer, ?t, packet) 0 CNT_Any"
    by (simp add: decap_tunnel_def decap_tunnel_with_erspan_def)
  note base = base_decapsulate_cases [OF assms, of D H ?t bm]
  consider "length packet < 14" | "\<not> length packet < 14" "frame_overrun D ?t packet bm"
    | "\<not> length packet < 14" "\<not> frame_overrun D ?t packet bm" by blast
  then show ?thesis
  proof cases
    case 1
    then have "\<not> frame_overrun D ?t packet bm" by (simp add: frame_overrun_def)
    with 1 base assms show ?thesis by (auto simp: run second_overrun_def)
  next
    case 2
    with base show ?thesis by (simp add: run)
  next
    case 3
    with base obtain typer' t' rest n ty where
      b: "base_decapsulate D H (typer, ?t, packet) bm = Some ((typer', t', rest), Inr (n, ty))"
      "typer_ok typer'" and st: "layer_step ?t packet t' rest n" by auto
    have b0: "base_decapsulate D H (typer, ?t, drop 0 packet) bm = Some ((typer', t', rest), Inr (n, ty))"
      using b(1) by simp
    have len: "length rest = length packet" "n \<le> length packet" "usize_add 0 n = n"
      using st assms(2) by (auto simp: layer_step_def usize_add_def)
    have tier: "ti_tier t' \<le> 1" "ti_tier (trim_info D trim t') \<le> 1"
      using layer_step_tier [OF st] trim_info_tier [of D trim t'] by auto
    then have tier2: "ti_tier t' \<le> 2" by (auto simp: word_le_nat_alt)
    have s: "second_overrun D H typer packet bm trim \<longleftrightarrow>
        ti_tunnel_type t' \<noteq> TunnelNone \<and> frame_overrun D (trim_info D trim t') (drop n rest) bm"
      by (simp add: second_overrun_def b(1))
    have r: "?run = (if ti_tunnel_type t' = TunnelNone then Some ((typer', t', rest), Inr (0, ty))
        else decap_layers D H bm trim [1] (typer', trim_info D trim t', rest) n ty)"
      unfolding run decap_layers_Cons [OF le0 b0] by (simp add: len)
    show ?thesis
      using second_layer [OF b(2), of rest n "trim_info D trim t'" D bm H trim ty] 3 b(2) len tier tier2 assms(2)
      unfolding r s by (auto split: if_splits)
  qed
qed

subsection \<open>Properties\<close>

text \<open>
  Whatever is captured, the length of the encapsulation that decapsulation answers stays
  within the packet, the packet keeps its length, at most two tunnels are counted, and the
  table of capture networks stays usable.
\<close>

theorem decap_tunnel_bounds:
  assumes "typer_ok typer" "length packet < 2 ^ 63"
    and "decap_tunnel D H (typer, t, packet) bm trim = Some ((typer', t', packet'), Inr (n, ty))"
  shows "n \<le> length packet \<and> length packet' = length packet \<and> ti_tier t' \<le> 2 \<and> typer_ok typer'"
  using decap_tunnel_cases [OF assms(1,2), of D bm H trim t] assms(3) by (auto split: if_splits)

text \<open>
  C15: decapsulation of a captured packet panics exactly when the outer frame, or the frame
  inside the first tunnel, has an IPv4 header reaching beyond the captured bytes as described
  for \<^verbatim>\<open>decapsulate\<close>; a packet without room for an Ethernet header is an error, not a
  panic.
\<close>

theorem decap_tunnel_panics_iff:
  assumes "typer_ok typer" "length packet < 2 ^ 63"
  shows "(decap_tunnel D H (typer, t, packet) bm trim = None \<longleftrightarrow>
      frame_overrun D default_tunnel_info packet bm \<or> second_overrun D H typer packet bm trim) \<and>
    (length packet < 14 \<longrightarrow> decap_tunnel D H (typer, t, packet) bm trim =
      Some ((typer, default_tunnel_info, packet), Inl PacketInvalid))"
  using decap_tunnel_cases [OF assms, of D bm H trim t] base_decapsulate_cases [OF assms, of D H default_tunnel_info bm]
  by (auto simp: decap_tunnel_def decap_tunnel_with_erspan_def split: if_splits)

definition local_handler :: type_handler where
  "local_handler = \<lparr> th_default_tap_type = CNT_Cloud, th_mirror_traffic_pcp = 0,
     th_capture_mode = PCT_Local \<rparr>"

lemma typer_ok_new: "typer_ok typer_new"
  using typer_new_abs by (auto simp: typer_ok_def)

text \<open>A VXLAN frame around an IP over IP packet.\<close>

definition nested_frame :: bytes where
  "nested_frame = replicate 12 0 @ [0x08, 0x00] @ ip_header 20 9 17 @ udp_header 0x12 0xB5 @
     [8, 0, 0, 0, 0, 0, 7, 0] @ replicate 12 1 @ [0x08, 0x00] @ ip_header 20 9 4 @ replicate 30 2"

lemma nested_bitmap:
  "bitmap_new example_decap_type [Vxlan, Ipip] = 6"
  "bitmap_has example_decap_type 6 Vxlan" "bitmap_has example_decap_type 6 Ipip"
  "\<not> bitmap_has example_decap_type 0 ty"
  by code_simp+

lemma nested_frame_list: "nested_frame = [0,0,0,0,0,0,0,0,0,0,0,0,0x08,0x00,
    0x45,0,0,0,0,0,0,0,0,17,0,0,0,0,0,0,0,0,0,0, 0x30,0x39,0x12,0xB5,0,0,0,0, 8,0,0,0,0,0,7,0,
    1,1,1,1,1,1,1,1,1,1,1,1,0x08,0x00, 0x45,0,0,0,0,0,0,0,0,4,0,0,0,0,0,0,0,0,0,0,
    2,2,2,2,2,2,2,2,2,2,2,2,2,2,2,2,2,2,2,2,2,2,2,2,2,2,2,2,2,2]"
  by (simp add: nested_frame_def ip_header_def udp_header_def numeral_eq_Suc)

lemma nested_frame_run:
  "map_option (\<lambda>((_, t, _), r). (ti_tier t, ti_tunnel_type t, r))
     (decap_tunnel example_decap_type local_handler (typer, default_tunnel_info, nested_frame)
        (bitmap_new example_decap_type [Vxlan, Ipip]) 0) = Some (2, Vxlan, Inr (70, CNT_Cloud))"
  unfolding nested_bitmap
  by (simp add: nested_bitmap nested_frame_list decap_tunnel_def decap_tunnel_with_erspan_def base_decapsulate_def
     get_l2_info_def read_vlan_tags_def net_consts Let_def local_handler_def slice_from_def index_at_def read_u16_be_def read_u16_le_def read_u32_be_def
     decapsulate_def decapsulate_udp_def decapsulate_vxlan_def decapsulate_ipip_def bitmap_is_empty_def decapsulate_addr_def decapsulate_mac_def
     default_tunnel_info_def add_tier_def copy_within_def write_u16_be_def usize_add_def usize_sub_def)

theorem decap_tunnel_bounds_witness:
  "\<exists>typer' t' packet' n ty. decap_tunnel example_decap_type local_handler
      (typer_new, default_tunnel_info, nested_frame) (bitmap_new example_decap_type [Vxlan, Ipip]) 0 =
        Some ((typer', t', packet'), Inr (n, ty)) \<and>
    n = 70 \<and> n \<le> length nested_frame \<and> ti_tier t' = 2 \<and> ti_tunnel_type t' = Vxlan"
proof -
  have len: "length nested_frame < 2 ^ 63" by (simp add: nested_frame_def ip_header_def udp_header_def)
  obtain typer' t' packet' where r: "decap_tunnel example_decap_type local_handler
      (typer_new, default_tunnel_info, nested_frame) (bitmap_new example_decap_type [Vxlan, Ipip]) 0 =
        Some ((typer', t', packet'), Inr (70, CNT_Cloud))" "ti_tier t' = 2" "ti_tunnel_type t' = Vxlan"
    using nested_frame_run [of typer_new] by (auto simp: map_option_eq_Some)
  then show ?thesis using decap_tunnel_bounds [OF typer_ok_new len r(1)] by blast
qed

theorem decap_tunnel_panics_iff_witness:
  "decap_tunnel example_decap_type local_handler (typer_new, default_tunnel_info, replicate 9 0) 2 0 =
     Some ((typer_new, default_tunnel_info, replicate 9 0), Inl PacketInvalid)"
  using decap_tunnel_panics_iff [OF typer_ok_new, of "replicate 9 0"] by simp

end
