(* ===== verification/Tap_Port.thy ===== *)
theory Tap_Port
  imports Decapsulate
begin

section \<open>Tap ports\<close>

text \<open>
  \<^verbatim>\<open>TapPort\<close> of \<^verbatim>\<open>agent/src/common/tap_port.rs\<close>: a word that holds where a packet was
  captured (4 bits), a reserved part (20 bits), the source of an address translation (4
  bits), the tunnel type (4 bits) and an address or identifier (32 bits).
\<close>

type_synonym tap_port = u64

definition FROM_LOCAL_MAC :: u8 where "FROM_LOCAL_MAC = 0"
definition FROM_GATEWAY_MAC :: u8 where "FROM_GATEWAY_MAC = 1"
definition FROM_TUNNEL_IPV4 :: u8 where "FROM_TUNNEL_IPV4 = 2"
definition FROM_TUNNEL_IPV6 :: u8 where "FROM_TUNNEL_IPV6 = 3"
definition FROM_ID :: u8 where "FROM_ID = 4"
definition FROM_NETFLOW :: u8 where "FROM_NETFLOW = 5"
definition FROM_SFLOW :: u8 where "FROM_SFLOW = 6"
definition FROM_EBPF :: u8 where "FROM_EBPF = 7"

definition NAT_SOURCE_NONE :: u8 where "NAT_SOURCE_NONE = 0"
definition NAT_SOURCE_VIP :: u8 where "NAT_SOURCE_VIP = 2"
definition NAT_SOURCE_RTOA :: u8 where "NAT_SOURCE_RTOA = 4"
definition NAT_SOURCE_TOA :: u8 where "NAT_SOURCE_TOA = 6"

definition TUNNEL_TYPE_OFFSET :: nat where "TUNNEL_TYPE_OFFSET = 32"
definition TUNNEL_TYPE_MASK :: u64 where "TUNNEL_TYPE_MASK = 0xF"
definition FROM_OFFSET :: nat where "FROM_OFFSET = 60"
definition NAT_SOURCE_OFFSET :: nat where "NAT_SOURCE_OFFSET = 36"
definition NAT_SOURCE_MASK :: u64 where "NAT_SOURCE_MASK = 0xF"
definition RESERVED_OFFSET :: nat where "RESERVED_OFFSET = 40"
definition RESERVED_MASK :: u32 where "RESERVED_MASK = 0xFFFFF"
definition DATA_SOURCE_OFFSET :: nat where "DATA_SOURCE_OFFSET = 24"
definition TAP_MAC_MASK :: u64 where "TAP_MAC_MASK = 0xF0000000FFFFFFFF"

lemmas from_consts = FROM_LOCAL_MAC_def FROM_GATEWAY_MAC_def FROM_TUNNEL_IPV4_def
  FROM_TUNNEL_IPV6_def FROM_ID_def FROM_NETFLOW_def FROM_SFLOW_def FROM_EBPF_def

lemmas tap_port_consts = TUNNEL_TYPE_OFFSET_def TUNNEL_TYPE_MASK_def FROM_OFFSET_def NAT_SOURCE_OFFSET_def
  NAT_SOURCE_MASK_def RESERVED_OFFSET_def RESERVED_MASK_def DATA_SOURCE_OFFSET_def TAP_MAC_MASK_def

definition is_from :: "tap_port \<Rightarrow> u8 \<Rightarrow> bool" where
  "is_from p w \<longleftrightarrow> ucast (drop_bit FROM_OFFSET p) = w"

definition get_tap_mac :: "tap_port \<Rightarrow> u64" where
  "get_tap_mac p = p AND TAP_MAC_MASK"

definition ignore_nat_source :: "tap_port \<Rightarrow> u64" where
  "ignore_nat_source p = p AND NOT (push_bit NAT_SOURCE_OFFSET NAT_SOURCE_MASK)"

definition get_nat_source :: "tap_port \<Rightarrow> u8" where
  "get_nat_source p = ucast (drop_bit NAT_SOURCE_OFFSET p AND NAT_SOURCE_MASK)"

definition set_nat_source :: "tap_port \<Rightarrow> u8 \<Rightarrow> tap_port" where
  "set_nat_source p w =
     (let p = p AND NOT (push_bit NAT_SOURCE_OFFSET NAT_SOURCE_MASK) in
      p OR push_bit NAT_SOURCE_OFFSET (ucast w))"

text \<open>\<^verbatim>\<open>(tunnel_type as u64 & TUNNEL_TYPE_MASK) << TUNNEL_TYPE_OFFSET\<close>\<close>

definition tunnel_bits :: "decap_type \<Rightarrow> tunnel_type \<Rightarrow> u64" where
  "tunnel_bits D t = push_bit TUNNEL_TYPE_OFFSET (ucast (tunnel_type_as_u8 D t) AND TUNNEL_TYPE_MASK)"

definition from_local_mac :: "decap_type \<Rightarrow> u8 \<Rightarrow> tunnel_type \<Rightarrow> u32 \<Rightarrow> tap_port" where
  "from_local_mac D nat_source t mac =
     ucast mac OR tunnel_bits D t OR push_bit NAT_SOURCE_OFFSET (ucast nat_source) OR
     push_bit FROM_OFFSET (ucast FROM_LOCAL_MAC)"

definition from_netflow :: "u32 \<Rightarrow> tap_port" where
  "from_netflow mac = ucast mac OR push_bit FROM_OFFSET (ucast FROM_NETFLOW)"

definition from_sflow :: "u32 \<Rightarrow> tap_port" where
  "from_sflow mac = ucast mac OR push_bit FROM_OFFSET (ucast FROM_SFLOW)"

definition from_gateway_mac :: "decap_type \<Rightarrow> tunnel_type \<Rightarrow> u32 \<Rightarrow> tap_port" where
  "from_gateway_mac D t mac =
     ucast mac OR tunnel_bits D t OR push_bit FROM_OFFSET (ucast FROM_GATEWAY_MAC)"

definition from_tunnel_ip :: "u32 \<Rightarrow> bool \<Rightarrow> tap_port" where
  "from_tunnel_ip ip is_ip_v6 =
     ucast ip OR push_bit FROM_OFFSET (ucast (if is_ip_v6 then FROM_TUNNEL_IPV6 else FROM_TUNNEL_IPV4))"

definition from_id :: "decap_type \<Rightarrow> tunnel_type \<Rightarrow> u32 \<Rightarrow> u32 \<Rightarrow> tap_port" where
  "from_id D t tid tunnel_from =
     (ucast tid AND 0xFF) OR ucast (push_bit 8 tunnel_from) OR tunnel_bits D t OR
     push_bit FROM_OFFSET (ucast FROM_ID)"

definition from_ebpf :: "u32 \<Rightarrow> u8 \<Rightarrow> tap_port" where
  "from_ebpf process_id data_source =
     push_bit FROM_OFFSET (ucast FROM_EBPF) OR push_bit DATA_SOURCE_OFFSET (ucast data_source) OR
     ucast process_id"

definition split_fields :: "decap_type \<Rightarrow> tap_port \<Rightarrow> u32 \<times> u8 \<times> tunnel_type" where
  "split_fields D p =
     (ucast p, ucast (drop_bit FROM_OFFSET p),
      case tunnel_type_try_from D (ucast (drop_bit TUNNEL_TYPE_OFFSET p AND TUNNEL_TYPE_MASK)) of
        Some t \<Rightarrow> t
      | None \<Rightarrow> TunnelNone)"

definition set_reserved_bytes :: "tap_port \<Rightarrow> u32 \<Rightarrow> tap_port" where
  "set_reserved_bytes p tap_type = p OR push_bit RESERVED_OFFSET (ucast (tap_type AND RESERVED_MASK))"

subsection \<open>Reading a field\<close>

lemma masks:
  "x AND 0xF = take_bit 4 x" "y AND 0xFFFFF = take_bit 20 y" "x AND 0xFF = take_bit 8 x"
  for x :: u64 and y :: u32
  by (simp_all add: take_bit_eq_mask mask_eq_exp_minus_1)

lemma small_bits: "w < 16 \<Longrightarrow> 4 \<le> k \<Longrightarrow> \<not> bit w k" for w :: u8
  by (rule bit_small [of _ 4]) (simp_all add: word_less_nat_alt)

lemma small_bitsD: "w < 16 \<Longrightarrow> bit w k \<Longrightarrow> k < 4" for w :: u8
  using small_bits [of w k] by (cases "4 \<le> k") auto

lemma tunnel_type_try_from_as: "discriminants_ok D \<Longrightarrow> tunnel_type_try_from D (tunnel_type_as_u8 D t) = Some t"
  by (cases t) (auto simp: tunnel_type_try_from_def discriminants_ok_def all_tunnel_types_def)

lemma tunnel_type_small: "discriminants_ok D \<Longrightarrow> tunnel_type_as_u8 D t < 16"
  by (cases t) (auto simp: discriminants_ok_def all_tunnel_types_def word_less_nat_alt word_le_nat_alt)

text \<open>The fields as functions of a port.\<close>

definition port_from :: "tap_port \<Rightarrow> u8" where
  "port_from p = ucast (drop_bit 60 p)"

definition port_tunnel :: "tap_port \<Rightarrow> u8" where
  "port_tunnel p = ucast (take_bit 4 (drop_bit 32 p))"

lemma split_fields_eq:
  "split_fields D p = (ucast p, port_from p,
     case tunnel_type_try_from D (port_tunnel p) of Some t \<Rightarrow> t | None \<Rightarrow> TunnelNone)"
  by (simp add: split_fields_def port_from_def port_tunnel_def tap_port_consts masks)

lemma get_nat_source_eq: "get_nat_source p = ucast (take_bit 4 (drop_bit 36 p))"
  by (simp add: get_nat_source_def tap_port_consts masks)

lemmas port_reads = split_fields_eq get_nat_source_eq port_from_def port_tunnel_def

lemmas port_defs = from_local_mac_def from_gateway_mac_def from_netflow_def from_sflow_def
  from_tunnel_ip_def from_id_def from_ebpf_def set_nat_source_def set_reserved_bytes_def
  ignore_nat_source_def tunnel_bits_def port_from_def port_tunnel_def get_nat_source_eq
  tap_port_consts masks Let_def

text \<open>Bits of the constants and of small numbers.\<close>

lemma from_small [simp]:
  "FROM_LOCAL_MAC < 16" "FROM_GATEWAY_MAC < 16" "FROM_TUNNEL_IPV4 < 16" "FROM_TUNNEL_IPV6 < 16"
  "FROM_ID < 16" "FROM_NETFLOW < 16" "FROM_SFLOW < 16" "FROM_EBPF < 16"
  by (simp_all add: from_consts)

lemmas from_bits = small_bitsD [OF from_small(1)] small_bitsD [OF from_small(2)]
  small_bitsD [OF from_small(3)] small_bitsD [OF from_small(4)] small_bitsD [OF from_small(5)]
  small_bitsD [OF from_small(6)] small_bitsD [OF from_small(7)] small_bitsD [OF from_small(8)]

lemma from_local_mac_fields:
  assumes "discriminants_ok D" "w < 16"
  shows "ucast (from_local_mac D w t mac) = mac" "port_from (from_local_mac D w t mac) = FROM_LOCAL_MAC"
    "port_tunnel (from_local_mac D w t mac) = tunnel_type_as_u8 D t"
    "get_nat_source (from_local_mac D w t mac) = w"
  by (auto simp: port_defs bit_simps bit_beyond small_bits assms tunnel_type_small
      intro!: bit_word_eqI
      dest: from_bits small_bitsD [OF assms(2)] small_bitsD [OF tunnel_type_small [OF assms(1)]])

lemma from_gateway_mac_fields:
  assumes "discriminants_ok D"
  shows "ucast (from_gateway_mac D t mac) = mac" "port_from (from_gateway_mac D t mac) = FROM_GATEWAY_MAC"
    "port_tunnel (from_gateway_mac D t mac) = tunnel_type_as_u8 D t"
  by (auto simp: port_defs bit_simps bit_beyond small_bits assms tunnel_type_small
      intro!: bit_word_eqI dest: from_bits small_bitsD [OF tunnel_type_small [OF assms(1)]])

lemma from_flow_fields:
  "ucast (from_netflow mac) = mac" "port_from (from_netflow mac) = FROM_NETFLOW"
  "ucast (from_sflow mac) = mac" "port_from (from_sflow mac) = FROM_SFLOW"
  "ucast (from_tunnel_ip ip v6) = ip"
  "port_from (from_tunnel_ip ip v6) = (if v6 then FROM_TUNNEL_IPV6 else FROM_TUNNEL_IPV4)"
  by (auto simp: port_defs bit_simps bit_beyond small_bits intro!: bit_word_eqI dest: from_bits)

lemma from_id_fields:
  assumes "discriminants_ok D"
  shows "take_bit 8 (ucast (from_id D t i frm) :: u32) = take_bit 8 i"
    "drop_bit 8 (ucast (from_id D t i frm) :: u32) = take_bit 24 frm" 
    "port_from (from_id D t i frm) = FROM_ID"
    "port_tunnel (from_id D t i frm) = tunnel_type_as_u8 D t"
  by (auto simp: port_defs bit_simps bit_beyond small_bits assms tunnel_type_small
      intro!: bit_word_eqI dest: from_bits small_bitsD [OF tunnel_type_small [OF assms(1)]])

lemma from_ebpf_fields:
  assumes "unat pid < 2 ^ 24"
  shows "take_bit 24 (ucast (from_ebpf pid src) :: u32) = pid"
    "ucast (drop_bit 24 (ucast (from_ebpf pid src) :: u32)) = src"
    "port_from (from_ebpf pid src) = FROM_EBPF"
  by (auto simp: port_defs bit_simps bit_beyond small_bits bit_small [OF assms]
      intro!: bit_word_eqI dest: from_bits bit_smallD [OF assms])

lemma top_bitsD: "bit p (60 + n) \<Longrightarrow> n < 4" for p :: u64
  by (drule bit_imp_le_length) simp

lemma nat_source_mask: "NAT_SOURCE_MASK = mask 4"
  by (simp add: NAT_SOURCE_MASK_def mask_eq_exp_minus_1)

lemma set_nat_source_fields:
  assumes "w < 16"
  shows "get_nat_source (set_nat_source p w) = w"
    "ignore_nat_source (set_nat_source p w) = ignore_nat_source p"
    "split_fields D (set_nat_source p w) = split_fields D p"
proof -
  show "get_nat_source (set_nat_source p w) = w"
    "ignore_nat_source (set_nat_source p w) = ignore_nat_source p"
    by (auto simp: set_nat_source_def ignore_nat_source_def get_nat_source_eq nat_source_mask
        NAT_SOURCE_OFFSET_def Let_def bit_simps small_bits assms intro!: bit_word_eqI
        dest: small_bitsD [OF assms])
  have "(ucast (set_nat_source p w) :: u32) = ucast p" "port_from (set_nat_source p w) = port_from p"
    "port_tunnel (set_nat_source p w) = port_tunnel p"
    by (auto simp: set_nat_source_def port_from_def port_tunnel_def nat_source_mask
        NAT_SOURCE_OFFSET_def Let_def bit_simps small_bits assms intro!: bit_word_eqI
        dest: small_bitsD [OF assms] top_bitsD)
  then show "split_fields D (set_nat_source p w) = split_fields D p"
    by (simp add: split_fields_eq)
qed

lemma set_reserved_bytes_fields:
  "split_fields D (set_reserved_bytes p ty) = split_fields D p"
  "get_nat_source (set_reserved_bytes p ty) = get_nat_source p"
proof -
  have "(ucast (set_reserved_bytes p ty) :: u32) = ucast p"
    "port_from (set_reserved_bytes p ty) = port_from p"
    "port_tunnel (set_reserved_bytes p ty) = port_tunnel p"
    by (auto simp: port_defs bit_simps intro!: bit_word_eqI)
  then show "split_fields D (set_reserved_bytes p ty) = split_fields D p"
    by (simp add: split_fields_eq)
  show "get_nat_source (set_reserved_bytes p ty) = get_nat_source p"
    by (auto simp: port_defs bit_simps intro!: bit_word_eqI)
qed

subsection \<open>Properties\<close>

text \<open>
  What a tap port is made of can be read back from it: the address or identifier, where
  the packet was captured and the tunnel type, and the source of an address translation up to
  15; changing that source changes nothing else, and the reserved bytes that make a port a key
  leave all fields alone.
\<close>

theorem tap_port_roundtrip:
  assumes "discriminants_ok D" "w < 16" "unat pid < 2 ^ 24"
  shows "split_fields D (from_local_mac D w t mac) = (mac, FROM_LOCAL_MAC, t) \<and>
    get_nat_source (from_local_mac D w t mac) = w \<and>
    split_fields D (from_gateway_mac D t mac) = (mac, FROM_GATEWAY_MAC, t) \<and>
    (\<exists>i'. split_fields D (from_id D t i frm) = (i', FROM_ID, t) \<and> take_bit 8 i' = take_bit 8 i \<and>
       drop_bit 8 i' = take_bit 24 frm) \<and>
    (\<exists>i' t'. split_fields D (from_ebpf pid src) = (i', FROM_EBPF, t') \<and> take_bit 24 i' = pid \<and>
       ucast (drop_bit 24 i') = src) \<and>
    get_nat_source (set_nat_source p w) = w \<and>
    ignore_nat_source (set_nat_source p w) = ignore_nat_source p \<and>
    split_fields D (set_nat_source p w) = split_fields D p \<and>
    split_fields D (set_reserved_bytes p ty) = split_fields D p \<and>
    get_nat_source (set_reserved_bytes p ty) = get_nat_source p"
  using from_local_mac_fields [OF assms(1,2), of t mac] from_gateway_mac_fields [OF assms(1), of t mac]
    from_id_fields [OF assms(1), of t i frm] from_ebpf_fields [OF assms(3), of src]
    set_nat_source_fields [OF assms(2)] set_reserved_bytes_fields tunnel_type_try_from_as [OF assms(1)]
  by (simp add: split_fields_eq)

theorem tap_port_roundtrip_witness:
  "discriminants_ok example_decap_type \<and>
   split_fields example_decap_type (from_local_mac example_decap_type 6 Vxlan 0xAABBCCDD) =
     (0xAABBCCDD, FROM_LOCAL_MAC, Vxlan)"
proof -
  have ok: "discriminants_ok example_decap_type" by code_simp
  have "(6::u8) < 16" "unat (5::u32) < 2 ^ 24" by simp_all
  from tap_port_roundtrip [OF ok this, of Vxlan "0xAABBCCDD"] ok show ?thesis by blast
qed

end
