(* ===== verification/Tap_Side.thy ===== *)
theory Tap_Side
  imports Rust_Prelude
begin

section \<open>Directions and tap sides\<close>

text \<open>
  \<^verbatim>\<open>Direction\<close> and \<^verbatim>\<open>TapSide\<close> of \<^verbatim>\<open>agent/src/metric/document.rs\<close>: where on its
  way a flow was observed.  Both enums have explicit discriminants: the lowest three bits tell
  client, server or local, the others the kind of the place.
\<close>

datatype direction =
  D_None | D_ClientToServer | D_ServerToClient | D_LocalToLocal
  | D_ClientNodeToServer | D_ServerNodeToClient
  | D_ClientHypervisorToServer | D_ServerHypervisorToClient
  | D_ClientGatewayHypervisorToServer | D_ServerGatewayHypervisorToClient
  | D_ClientGatewayToServer | D_ServerGatewayToClient
  | D_ClientProcessToServer | D_ServerProcessToClient
  | D_ClientAppToServer | D_ServerAppToClient | D_App

datatype tap_side =
  Rest | Client | Server | Local | ClientNode | ServerNode
  | ClientHypervisor | ServerHypervisor | ClientGatewayHypervisor | ServerGatewayHypervisor
  | ClientGateway | ServerGateway | ClientProcess | ServerProcess | ClientApp | ServerApp | App

definition SIDE_NODE :: u8 where "SIDE_NODE = push_bit 3 1"
definition SIDE_HYPERVISOR :: u8 where "SIDE_HYPERVISOR = push_bit 3 2"
definition SIDE_GATEWAY_HYPERVISOR :: u8 where "SIDE_GATEWAY_HYPERVISOR = push_bit 3 3"
definition SIDE_GATEWAY :: u8 where "SIDE_GATEWAY = push_bit 3 4"
definition SIDE_PROCESS :: u8 where "SIDE_PROCESS = push_bit 3 5"
definition SIDE_APP :: u8 where "SIDE_APP = push_bit 3 6"
definition MASK_CLIENT_SERVER :: u8 where "MASK_CLIENT_SERVER = 0x7"
definition MASK_SIDE :: u8 where "MASK_SIDE = 0xF8"

lemmas side_consts = SIDE_NODE_def SIDE_HYPERVISOR_def SIDE_GATEWAY_HYPERVISOR_def SIDE_GATEWAY_def
  SIDE_PROCESS_def SIDE_APP_def MASK_CLIENT_SERVER_def MASK_SIDE_def

text \<open>\<^verbatim>\<open>d as u8\<close> and \<^verbatim>\<open>s as u8\<close>.\<close>

fun direction_as_u8 :: "direction \<Rightarrow> u8" where
  "direction_as_u8 D_None = 0"
| "direction_as_u8 D_ClientToServer = push_bit 0 1"
| "direction_as_u8 D_ServerToClient = push_bit 1 1"
| "direction_as_u8 D_LocalToLocal = push_bit 2 1"
| "direction_as_u8 D_ClientNodeToServer = push_bit 0 1 OR SIDE_NODE"
| "direction_as_u8 D_ServerNodeToClient = push_bit 1 1 OR SIDE_NODE"
| "direction_as_u8 D_ClientHypervisorToServer = push_bit 0 1 OR SIDE_HYPERVISOR"
| "direction_as_u8 D_ServerHypervisorToClient = push_bit 1 1 OR SIDE_HYPERVISOR"
| "direction_as_u8 D_ClientGatewayHypervisorToServer = push_bit 0 1 OR SIDE_GATEWAY_HYPERVISOR"
| "direction_as_u8 D_ServerGatewayHypervisorToClient = push_bit 1 1 OR SIDE_GATEWAY_HYPERVISOR"
| "direction_as_u8 D_ClientGatewayToServer = push_bit 0 1 OR SIDE_GATEWAY"
| "direction_as_u8 D_ServerGatewayToClient = push_bit 1 1 OR SIDE_GATEWAY"
| "direction_as_u8 D_ClientProcessToServer = push_bit 0 1 OR SIDE_PROCESS"
| "direction_as_u8 D_ServerProcessToClient = push_bit 1 1 OR SIDE_PROCESS"
| "direction_as_u8 D_ClientAppToServer = push_bit 0 1 OR SIDE_APP"
| "direction_as_u8 D_ServerAppToClient = push_bit 1 1 OR SIDE_APP"
| "direction_as_u8 D_App = SIDE_APP"

fun tap_side_as_u8 :: "tap_side \<Rightarrow> u8" where
  "tap_side_as_u8 Rest = 0"
| "tap_side_as_u8 Client = push_bit 0 1"
| "tap_side_as_u8 Server = push_bit 1 1"
| "tap_side_as_u8 Local = push_bit 2 1"
| "tap_side_as_u8 ClientNode = push_bit 0 1 OR SIDE_NODE"
| "tap_side_as_u8 ServerNode = push_bit 1 1 OR SIDE_NODE"
| "tap_side_as_u8 ClientHypervisor = push_bit 0 1 OR SIDE_HYPERVISOR"
| "tap_side_as_u8 ServerHypervisor = push_bit 1 1 OR SIDE_HYPERVISOR"
| "tap_side_as_u8 ClientGatewayHypervisor = push_bit 0 1 OR SIDE_GATEWAY_HYPERVISOR"
| "tap_side_as_u8 ServerGatewayHypervisor = push_bit 1 1 OR SIDE_GATEWAY_HYPERVISOR"
| "tap_side_as_u8 ClientGateway = push_bit 0 1 OR SIDE_GATEWAY"
| "tap_side_as_u8 ServerGateway = push_bit 1 1 OR SIDE_GATEWAY"
| "tap_side_as_u8 ClientProcess = push_bit 0 1 OR SIDE_PROCESS"
| "tap_side_as_u8 ServerProcess = push_bit 1 1 OR SIDE_PROCESS"
| "tap_side_as_u8 ClientApp = push_bit 0 1 OR SIDE_APP"
| "tap_side_as_u8 ServerApp = push_bit 1 1 OR SIDE_APP"
| "tap_side_as_u8 App = SIDE_APP"

definition is_client_to_server :: "direction \<Rightarrow> bool" where
  "is_client_to_server d \<longleftrightarrow>
     direction_as_u8 d AND MASK_CLIENT_SERVER = direction_as_u8 D_ClientToServer"

definition is_server_to_client :: "direction \<Rightarrow> bool" where
  "is_server_to_client d \<longleftrightarrow>
     direction_as_u8 d AND MASK_CLIENT_SERVER = direction_as_u8 D_ServerToClient"

definition is_gateway :: "direction \<Rightarrow> bool" where
  "is_gateway d \<longleftrightarrow>
     (direction_as_u8 d AND MASK_SIDE) AND (SIDE_GATEWAY OR SIDE_GATEWAY_HYPERVISOR) \<noteq> 0"

fun tap_side_from :: "direction \<Rightarrow> tap_side" where
  "tap_side_from D_ClientToServer = Client"
| "tap_side_from D_ServerToClient = Server"
| "tap_side_from D_LocalToLocal = Local"
| "tap_side_from D_ClientNodeToServer = ClientNode"
| "tap_side_from D_ServerNodeToClient = ServerNode"
| "tap_side_from D_ClientHypervisorToServer = ClientHypervisor"
| "tap_side_from D_ServerHypervisorToClient = ServerHypervisor"
| "tap_side_from D_ClientGatewayHypervisorToServer = ClientGatewayHypervisor"
| "tap_side_from D_ServerGatewayHypervisorToClient = ServerGatewayHypervisor"
| "tap_side_from D_ClientGatewayToServer = ClientGateway"
| "tap_side_from D_ServerGatewayToClient = ServerGateway"
| "tap_side_from D_ClientProcessToServer = ClientProcess"
| "tap_side_from D_ServerProcessToClient = ServerProcess"
| "tap_side_from D_ClientAppToServer = ClientApp"
| "tap_side_from D_ServerAppToClient = ServerApp"
| "tap_side_from D_App = App"
| "tap_side_from D_None = Rest"

lemma tap_side_from_eq_Rest [simp]: "tap_side_from d = Rest \<longleftrightarrow> d = D_None"
  by (cases d) simp_all

subsection \<open>Properties\<close>

text \<open>
  A direction and its tap side have the same number, different directions have different
  numbers, and every direction but the local and the plain application one is seen by exactly
  one of the two tests for its orientation.
\<close>

theorem direction_encoding:
  "tap_side_as_u8 (tap_side_from d) = direction_as_u8 d \<and>
   (direction_as_u8 d = direction_as_u8 d' \<longleftrightarrow> d = d') \<and>
   (is_client_to_server d \<or> is_server_to_client d \<longleftrightarrow> d \<notin> {D_None, D_LocalToLocal, D_App}) \<and>
   \<not> (is_client_to_server d \<and> is_server_to_client d)"
  by (cases d; cases d'; simp add: side_consts is_client_to_server_def is_server_to_client_def)

text \<open>
  The test for a gateway holds for every place on the way: containers, hypervisors,
  processes and applications pass it as the gateways do, because the two masks it combines
  cover all bits of the place.
\<close>

theorem is_gateway_every_side:
  "is_gateway d \<longleftrightarrow> d \<notin> {D_None, D_ClientToServer, D_ServerToClient, D_LocalToLocal}"
  by (cases d; simp add: side_consts is_gateway_def)

end
