(* ===== verification/Flows.thy ===== *)
theory Flows
  imports Tap_Port Tap_Types Tap_Side Flow_Stats Flow_State
begin

section \<open>Flows\<close>

text \<open>
  The flow record of \<^verbatim>\<open>agent/src/common/flow.rs\<close> with the counters of its two
  endpoints: merging the pieces of a flow, reversing it, and finding out on which side of
  the connection it was observed.
\<close>

type_synonym mac_addr = u64
type_synonym i32 = "32 word"

datatype ip_addr = V4 u32 | V6 "128 word"

definition MAC_BROADCAST :: mac_addr where "MAC_BROADCAST = 0xFFFFFFFFFFFF"
definition MAC_MULTICAST :: mac_addr where "MAC_MULTICAST = 0x010000000000"

definition is_unicast :: "mac_addr \<Rightarrow> bool" where
  "is_unicast mac \<longleftrightarrow> mac \<noteq> MAC_BROADCAST \<and> mac AND MAC_MULTICAST \<noteq> MAC_MULTICAST"

record flow_key =
  fk_agent_id :: u16
  fk_tap_type :: capture_network_type
  fk_tap_port :: tap_port
  fk_mac_src :: mac_addr
  fk_mac_dst :: mac_addr
  fk_ip_src :: ip_addr
  fk_ip_dst :: ip_addr
  fk_port_src :: u16
  fk_port_dst :: u16
  fk_proto :: u8

definition default_flow_key :: flow_key where
  "default_flow_key = \<lparr> fk_agent_id = 0, fk_tap_type = CNT_Any, fk_tap_port = 0, fk_mac_src = 0,
     fk_mac_dst = 0, fk_ip_src = V4 0, fk_ip_dst = V4 0, fk_port_src = 0, fk_port_dst = 0,
     fk_proto = 0 \<rparr>"

definition flow_key_reverse :: "flow_key \<Rightarrow> flow_key" where
  "flow_key_reverse k = k\<lparr> fk_mac_src := fk_mac_dst k, fk_mac_dst := fk_mac_src k,
     fk_ip_src := fk_ip_dst k, fk_ip_dst := fk_ip_src k,
     fk_port_src := fk_port_dst k, fk_port_dst := fk_port_src k \<rparr>"

datatype signal_source = SS_Packet | SS_XFlow | SS_EBPF | SS_OTel

record tunnel_field =
  tf_tx_ip0 :: u32
  tf_tx_ip1 :: u32
  tf_rx_ip0 :: u32
  tf_rx_ip1 :: u32
  tf_tx_mac0 :: u32
  tf_tx_mac1 :: u32
  tf_rx_mac0 :: u32
  tf_rx_mac1 :: u32
  tf_tx_id :: u32
  tf_rx_id :: u32
  tf_tunnel_type :: tunnel_type
  tf_tier :: u8
  tf_is_ipv6 :: bool

definition default_tunnel_field :: tunnel_field where
  "default_tunnel_field = \<lparr> tf_tx_ip0 = 0, tf_tx_ip1 = 0, tf_rx_ip0 = 0, tf_rx_ip1 = 0, tf_tx_mac0 = 0,
     tf_tx_mac1 = 0, tf_rx_mac0 = 0, tf_rx_mac1 = 0, tf_tx_id = 0, tf_rx_id = 0,
     tf_tunnel_type = TunnelNone, tf_tier = 0, tf_is_ipv6 = False \<rparr>"

definition tunnel_reverse :: "tunnel_field \<Rightarrow> tunnel_field" where
  "tunnel_reverse t = t\<lparr> tf_tx_ip0 := tf_rx_ip0 t, tf_rx_ip0 := tf_tx_ip0 t,
     tf_tx_ip1 := tf_rx_ip1 t, tf_rx_ip1 := tf_tx_ip1 t,
     tf_tx_mac0 := tf_rx_mac0 t, tf_rx_mac0 := tf_tx_mac0 t,
     tf_tx_mac1 := tf_rx_mac1 t, tf_rx_mac1 := tf_tx_mac1 t,
     tf_tx_id := tf_rx_id t, tf_rx_id := tf_tx_id t \<rparr>"

subsection \<open>Counters of an endpoint\<close>

record flow_metrics_peer =
  mp_byte_count :: u64
  mp_l3_byte_count :: u64
  mp_l4_byte_count :: u64
  mp_packet_count :: u64
  mp_total_byte_count :: u64
  mp_total_packet_count :: u64
  mp_first :: timestamp
  mp_last :: timestamp
  mp_l3_epc_id :: i32
  mp_is_l2_end :: bool
  mp_is_l3_end :: bool
  mp_is_active_host :: bool
  mp_is_device :: bool
  mp_tcp_flags :: tcp_flags
  mp_total_tcp_flags :: tcp_flags
  mp_is_vip_interface :: bool
  mp_is_vip :: bool
  mp_is_local_mac :: bool
  mp_is_local_ip :: bool
  mp_nat_source :: u8
  mp_nat_real_port :: u16
  mp_gpid :: u32
  mp_nat_real_ip :: ip_addr

definition default_peer :: flow_metrics_peer where
  "default_peer = \<lparr> mp_byte_count = 0, mp_l3_byte_count = 0, mp_l4_byte_count = 0, mp_packet_count = 0,
     mp_total_byte_count = 0, mp_total_packet_count = 0, mp_first = ts_zero, mp_last = ts_zero,
     mp_l3_epc_id = 0, mp_is_l2_end = False, mp_is_l3_end = False, mp_is_active_host = False,
     mp_is_device = False, mp_tcp_flags = 0, mp_total_tcp_flags = 0, mp_is_vip_interface = False,
     mp_is_vip = False, mp_is_local_mac = False, mp_is_local_ip = False,
     mp_nat_source = NAT_SOURCE_NONE, mp_nat_real_port = 0, mp_gpid = 0, mp_nat_real_ip = V4 0 \<rparr>"

definition peer_merge :: "flow_metrics_peer \<Rightarrow> flow_metrics_peer \<Rightarrow> flow_metrics_peer" where
  "peer_merge self other = self\<lparr>
     mp_byte_count := mp_byte_count self + mp_byte_count other,
     mp_l3_byte_count := mp_l3_byte_count self + mp_l3_byte_count other,
     mp_l4_byte_count := mp_l4_byte_count self + mp_l4_byte_count other,
     mp_packet_count := mp_packet_count self + mp_packet_count other,
     mp_total_byte_count := mp_total_byte_count other,
     mp_total_packet_count := mp_total_packet_count other,
     mp_first := mp_first other,
     mp_last := mp_last other,
     mp_l3_epc_id := mp_l3_epc_id other,
     mp_is_l2_end := mp_is_l2_end other,
     mp_is_l3_end := mp_is_l3_end other,
     mp_is_active_host := mp_is_active_host other,
     mp_is_device := mp_is_device other,
     mp_tcp_flags := mp_tcp_flags self OR mp_tcp_flags other,
     mp_is_vip_interface := mp_is_vip_interface other,
     mp_is_vip := mp_is_vip other,
     mp_is_local_mac := mp_is_local_mac other,
     mp_is_local_ip := mp_is_local_ip other,
     mp_nat_real_ip := mp_nat_real_ip other,
     mp_nat_real_port := mp_nat_real_port other,
     mp_gpid := (if mp_gpid other > 0 then mp_gpid other else mp_gpid self) \<rparr>"

definition heartbeat_peer_merge :: "flow_metrics_peer \<Rightarrow> flow_metrics_peer \<Rightarrow> flow_metrics_peer" where
  "heartbeat_peer_merge self other =
     (let total_byte_count = mp_total_byte_count self;
          total_packet_count = mp_total_packet_count self;
          self = peer_merge self other
      in self\<lparr> mp_total_byte_count := mp_total_byte_count self + total_byte_count,
               mp_total_packet_count := mp_total_packet_count self + total_packet_count \<rparr>)"

subsection \<open>The flow\<close>

record flow =
  f_flow_key :: flow_key
  f_peer_src :: flow_metrics_peer
  f_peer_dst :: flow_metrics_peer
  f_tunnel :: tunnel_field
  f_flow_id :: u64
  f_aggregated_flow_ids :: "u64 list"
  f_syn_seq :: u32
  f_synack_seq :: u32
  f_last_keepalive_seq :: u32
  f_last_keepalive_ack :: u32
  f_start_time :: timestamp
  f_end_time :: timestamp
  f_duration :: timestamp
  f_flow_stat_time :: timestamp
  f_vlan :: u16
  f_eth_type :: u16
  f_flow_perf_stats :: "flow_perf_stats option"
  f_close_type :: close_type
  f_signal_source :: signal_source
  f_is_active_service :: bool
  f_queue_hash :: u8
  f_is_new_flow :: bool
  f_reversed :: bool
  f_tap_side :: tap_side
  f_directions :: "direction \<times> direction"
  f_acl_gids :: "u16 list"
  f_otel_service :: "string option"
  f_otel_instance :: "string option"
  f_last_endpoint :: "string option"
  f_direction_score :: u8
  f_pod_id :: u32
  f_request_domain :: string
  f_need_to_store :: bool

definition default_flow :: flow where
  "default_flow = \<lparr> f_flow_key = default_flow_key, f_peer_src = default_peer, f_peer_dst = default_peer,
     f_tunnel = default_tunnel_field, f_flow_id = 0, f_aggregated_flow_ids = [], f_syn_seq = 0,
     f_synack_seq = 0, f_last_keepalive_seq = 0, f_last_keepalive_ack = 0, f_start_time = ts_zero,
     f_end_time = ts_zero, f_duration = ts_zero, f_flow_stat_time = ts_zero, f_vlan = 0,
     f_eth_type = 0, f_flow_perf_stats = None, f_close_type = Unknown, f_signal_source = SS_Packet,
     f_is_active_service = False, f_queue_hash = 0, f_is_new_flow = False, f_reversed = False,
     f_tap_side = Rest, f_directions = (D_ClientToServer, D_ClientToServer), f_acl_gids = [],
     f_otel_service = None, f_otel_instance = None, f_last_endpoint = None, f_direction_score = 0,
     f_pod_id = 0, f_request_domain = [], f_need_to_store = False \<rparr>"

definition SECONDS_IN_MINUTE :: u64 where "SECONDS_IN_MINUTE = 60"

definition start_time_in_minute :: "flow \<Rightarrow> u64" where
  "start_time_in_minute f =
     (let second_in_minute = as_secs (f_start_time f) mod SECONDS_IN_MINUTE in
      (as_secs (f_flow_stat_time f) - second_in_minute) div SECONDS_IN_MINUTE * SECONDS_IN_MINUTE
        + second_in_minute)"

definition swap_flow_ip_and_real_ip :: "flow \<Rightarrow> flow" where
  "swap_flow_ip_and_real_ip f =
     (let k = f_flow_key f; s = f_peer_src f; d = f_peer_dst f in
      f\<lparr> f_flow_key := k\<lparr> fk_port_src := mp_nat_real_port s, fk_ip_src := mp_nat_real_ip s,
                           fk_port_dst := mp_nat_real_port d, fk_ip_dst := mp_nat_real_ip d \<rparr>,
         f_peer_src := s\<lparr> mp_nat_real_port := fk_port_src k, mp_nat_real_ip := fk_ip_src k \<rparr>,
         f_peer_dst := d\<lparr> mp_nat_real_port := fk_port_dst k, mp_nat_real_ip := fk_ip_dst k \<rparr> \<rparr>)"

text \<open>The loop that adds the policies of the other flow.\<close>

fun add_acl_gids :: "u16 list \<Rightarrow> u16 list \<Rightarrow> u16 list" where
  "add_acl_gids gids [] = gids"
| "add_acl_gids gids (g # gs) = add_acl_gids (if g \<in> set gids then gids else gids @ [g]) gs"

definition merge_peers :: "flow \<Rightarrow> flow \<Rightarrow> flow" where
  "merge_peers self other =
     (if f_flow_id self \<noteq> f_flow_id other then
        self\<lparr> f_peer_src := heartbeat_peer_merge (f_peer_src self) (f_peer_src other),
              f_peer_dst := heartbeat_peer_merge (f_peer_dst self) (f_peer_dst other),
              f_aggregated_flow_ids := f_aggregated_flow_ids self @ [f_flow_id other],
              f_syn_seq := (if f_syn_seq other \<noteq> 0 then f_syn_seq other else f_syn_seq self),
              f_synack_seq := (if f_synack_seq other \<noteq> 0 then f_synack_seq other else f_synack_seq self) \<rparr>
      else
        self\<lparr> f_peer_src := peer_merge (f_peer_src self) (f_peer_src other),
              f_peer_dst := peer_merge (f_peer_dst self) (f_peer_dst other) \<rparr>)"

definition merge_perf_stats :: "flow_perf_stats option \<Rightarrow> flow_perf_stats option \<Rightarrow> flow_perf_stats option" where
  "merge_perf_stats self other = (case other of
     Some x \<Rightarrow> (case self of None \<Rightarrow> Some x | Some s \<Rightarrow> Some (flow_perf_merge s x))
   | None \<Rightarrow> self)"

definition merge_nat_source :: "flow_key \<Rightarrow> flow_key \<Rightarrow> flow_key" where
  "merge_nat_source self other =
     (let nat_source = get_nat_source (fk_tap_port other) in
      if nat_source > get_nat_source (fk_tap_port self)
      then self\<lparr> fk_tap_port := set_nat_source (fk_tap_port self) nat_source \<rparr> else self)"

definition flow_merge :: "flow \<Rightarrow> flow \<Rightarrow> flow" where
  "flow_merge self other =
     (let self = merge_peers self other in
      self\<lparr> f_end_time := f_end_time other,
            f_duration := f_duration other,
            f_tap_side := f_tap_side other,
            f_flow_perf_stats := merge_perf_stats (f_flow_perf_stats self) (f_flow_perf_stats other),
            f_close_type := f_close_type other,
            f_is_active_service := f_is_active_service other,
            f_reversed := f_reversed other,
            f_vlan := (if f_vlan other > 0 then f_vlan other else f_vlan self),
            f_last_keepalive_seq :=
              (if f_last_keepalive_seq other \<noteq> 0 then f_last_keepalive_seq other else f_last_keepalive_seq self),
            f_last_keepalive_ack :=
              (if f_last_keepalive_ack other \<noteq> 0 then f_last_keepalive_ack other else f_last_keepalive_ack self),
            f_acl_gids := add_acl_gids (f_acl_gids self) (f_acl_gids other),
            f_flow_key := merge_nat_source (f_flow_key self) (f_flow_key other),
            f_request_domain :=
              (if f_request_domain other \<noteq> [] then f_request_domain other else f_request_domain self) \<rparr>)"

definition flow_reverse :: "flow \<Rightarrow> bool \<Rightarrow> flow" where
  "flow_reverse f is_first_packet = f\<lparr>
     f_reversed := \<not> f_reversed f \<and> \<not> is_first_packet,
     f_tap_side := Rest,
     f_tunnel := tunnel_reverse (f_tunnel f),
     f_flow_key := flow_key_reverse (f_flow_key f),
     f_peer_src := f_peer_dst f,
     f_peer_dst := f_peer_src f,
     f_direction_score := 0 \<rparr>"

definition hit_pcap_policy :: "flow \<Rightarrow> bool" where
  "hit_pcap_policy f \<longleftrightarrow> length (f_acl_gids f) > 0"

record heartbeat_aggr_key =
  hk_tap_side :: tap_side
  hk_port_dst :: u16
  hk_ip_src :: ip_addr
  hk_ip_dst :: ip_addr

definition get_heartbeat_aggr_key :: "flow \<Rightarrow> heartbeat_aggr_key" where
  "get_heartbeat_aggr_key f = \<lparr> hk_tap_side = f_tap_side f, hk_port_dst = fk_port_dst (f_flow_key f),
     hk_ip_src = fk_ip_src (f_flow_key f), hk_ip_dst = fk_ip_dst (f_flow_key f) \<rparr>"


subsection \<open>The side a flow is observed from\<close>

text \<open>
  The kinds of agents the sources name; the enum is generated, and \<open>TtOther\<close> stands for its
  other values.
\<close>

datatype agent_type =
  TtDedicatedPhysicalMachine | TtHyperVCompute | TtHyperVNetwork | TtPublicCloud
  | TtPhysicalMachine | TtHostPod | TtVmPod | TtK8sSidecar | TtProcess | TtVm | TtOther

definition is_tt_pod :: "agent_type \<Rightarrow> bool" where
  "is_tt_pod a \<longleftrightarrow> a = TtHostPod \<or> a = TtVmPod \<or> a = TtK8sSidecar"

definition is_tt_workload :: "agent_type \<Rightarrow> bool" where
  "is_tt_workload a \<longleftrightarrow> a = TtPublicCloud \<or> a = TtPhysicalMachine"

definition EPC_INTERNET :: i32 where "EPC_INTERNET = -2"

abbreviation client_server :: "direction \<times> direction" where
  "client_server \<equiv> (D_ClientToServer, D_ServerToClient)"

abbreviation gateway :: "direction \<times> direction" where
  "gateway \<equiv> (D_ServerGatewayToClient, D_ClientGatewayToServer)"

abbreviation hypervisor :: "direction \<times> direction" where
  "hypervisor \<equiv> (D_ClientHypervisorToServer, D_ServerHypervisorToClient)"

abbreviation gateway_hypervisor :: "direction \<times> direction" where
  "gateway_hypervisor \<equiv> (D_ServerGatewayHypervisorToClient, D_ClientGatewayHypervisorToServer)"

abbreviation container_node :: "direction \<times> direction" where
  "container_node \<equiv> (D_ClientNodeToServer, D_ServerNodeToClient)"

abbreviation no_direction :: "direction \<times> direction" where
  "no_direction \<equiv> (D_None, D_None)"

text \<open>
  The nested function \<^verbatim>\<open>inner\<close>, one definition per group of agents.  An agent of any
  other kind asks the process to exit and gets no direction.
\<close>

definition direction_dedicated ::
  "capture_network_type \<Rightarrow> bool \<Rightarrow> i32 \<Rightarrow> bool \<Rightarrow> direction \<times> direction" where
  "direction_dedicated tap_type l2_end l3_epc_id cloud_gateway_traffic =
     (if tap_type \<noteq> CNT_Cloud then
        (if l3_epc_id \<noteq> EPC_INTERNET then client_server else no_direction)
      else if l2_end then
        (if cloud_gateway_traffic then gateway else client_server)
      else no_direction)"

definition direction_pod :: "tunnel_field \<Rightarrow> bool \<Rightarrow> bool \<Rightarrow> bool \<Rightarrow> bool \<Rightarrow> direction \<times> direction" where
  "direction_pod tunnel l2_end l3_end is_local_mac is_local_ip =
     (let is_ep = l2_end \<and> l3_end; tunnel_tier = tf_tier tunnel in
      if is_ep then (if tunnel_tier = 0 then client_server else container_node)
      else if l2_end then
        (if is_local_ip then container_node
         else if tunnel_tier > 0 then container_node
         else no_direction)
      else if l3_end then
        (if is_local_mac then container_node else no_direction)
      else
        (if is_local_mac then
           (if is_local_ip then container_node
            else if tunnel_tier > 0 then container_node
            else no_direction)
         else no_direction))"

definition direction_process ::
  "tunnel_field \<Rightarrow> bool \<Rightarrow> bool \<Rightarrow> bool \<Rightarrow> bool \<Rightarrow> bool \<Rightarrow> direction \<times> direction" where
  "direction_process tunnel l2_end l3_end is_local_mac is_local_ip cloud_gateway_traffic =
     (let is_ep = l2_end \<and> l3_end; tunnel_tier = tf_tier tunnel in
      if cloud_gateway_traffic then
        (if l2_end then gateway else no_direction)
      else if is_ep then
        (if tunnel_tier = 0 then client_server
         else if is_local_ip then hypervisor
         else no_direction)
      else if l2_end then
        (if is_local_ip then
           (if tunnel_tier > 0 then hypervisor else gateway)
         else if is_local_mac then
           (if tunnel_tier > 0 then
              (if tf_tunnel_type tunnel = Ipip then hypervisor else gateway_hypervisor)
            else gateway)
         else
           (if tunnel_tier > 0 \<and> tf_tunnel_type tunnel = TencentGre then hypervisor
            else no_direction))
      else if l3_end then
        (if is_local_mac then hypervisor else no_direction)
      else
        (if is_local_mac then
           (if is_local_ip then hypervisor
            else if tunnel_tier > 0 then hypervisor
            else gateway_hypervisor)
         else no_direction))"

fun direction_inner ::
  "capture_network_type \<Rightarrow> tunnel_field \<Rightarrow> bool \<Rightarrow> bool \<Rightarrow> bool \<Rightarrow> bool \<Rightarrow> bool \<Rightarrow> i32 \<Rightarrow> bool \<Rightarrow>
   agent_type \<Rightarrow> direction \<times> direction" where
  "direction_inner tap_type tunnel l2_end l3_end is_uni is_local_mac is_local_ip l3_epc_id cgt
     TtDedicatedPhysicalMachine = direction_dedicated tap_type l2_end l3_epc_id cgt"
| "direction_inner tap_type tunnel l2_end l3_end is_uni is_local_mac is_local_ip l3_epc_id cgt
     TtHyperVCompute = (if l2_end then hypervisor else no_direction)"
| "direction_inner tap_type tunnel l2_end l3_end is_uni is_local_mac is_local_ip l3_epc_id cgt
     TtHyperVNetwork =
       (if l2_end \<and> l3_end then hypervisor
        else if l2_end \<and> is_uni then gateway_hypervisor
        else no_direction)"
| "direction_inner tap_type tunnel l2_end l3_end is_uni is_local_mac is_local_ip l3_epc_id cgt
     TtPublicCloud =
       (if l2_end \<and> l3_end then client_server
        else if l2_end then (if is_uni then gateway else no_direction)
        else no_direction)"
| "direction_inner tap_type tunnel l2_end l3_end is_uni is_local_mac is_local_ip l3_epc_id cgt
     TtPhysicalMachine =
       (if l2_end \<and> l3_end then client_server
        else if l2_end then (if is_uni then gateway else no_direction)
        else no_direction)"
| "direction_inner tap_type tunnel l2_end l3_end is_uni is_local_mac is_local_ip l3_epc_id cgt
     TtHostPod = direction_pod tunnel l2_end l3_end is_local_mac is_local_ip"
| "direction_inner tap_type tunnel l2_end l3_end is_uni is_local_mac is_local_ip l3_epc_id cgt
     TtVmPod = direction_pod tunnel l2_end l3_end is_local_mac is_local_ip"
| "direction_inner tap_type tunnel l2_end l3_end is_uni is_local_mac is_local_ip l3_epc_id cgt
     TtK8sSidecar = direction_pod tunnel l2_end l3_end is_local_mac is_local_ip"
| "direction_inner tap_type tunnel l2_end l3_end is_uni is_local_mac is_local_ip l3_epc_id cgt
     TtProcess = direction_process tunnel l2_end l3_end is_local_mac is_local_ip cgt"
| "direction_inner tap_type tunnel l2_end l3_end is_uni is_local_mac is_local_ip l3_epc_id cgt
     TtVm = (if tf_tier tunnel = 0 \<and> (l2_end \<and> l3_end) then client_server else no_direction)"
| "direction_inner tap_type tunnel l2_end l3_end is_uni is_local_mac is_local_ip l3_epc_id cgt
     TtOther = no_direction"

text \<open>Both ends may have a place: client or server first, then the end of the link, then the local address.\<close>

definition choose_direction ::
  "capture_network_type \<Rightarrow> flow_metrics_peer \<Rightarrow> flow_metrics_peer \<Rightarrow> direction \<Rightarrow> direction \<Rightarrow>
   direction \<times> direction" where
  "choose_direction tap_type src_ep dst_ep src_direct dst_direct =
     (if src_direct \<noteq> D_None \<and> dst_direct \<noteq> D_None then
        (case tap_type of
           CNT_Idc _ \<Rightarrow> (src_direct, dst_direct)
         | _ \<Rightarrow>
           if (src_direct = D_ClientToServer \<or> mp_is_l2_end src_ep) \<and> dst_direct \<noteq> D_ServerToClient
           then (src_direct, D_None)
           else if (dst_direct = D_ServerToClient \<or> mp_is_l2_end dst_ep) \<and> src_direct \<noteq> D_ClientToServer
           then (D_None, dst_direct)
           else if mp_is_local_mac src_ep then (src_direct, D_None)
           else if mp_is_local_mac dst_ep then (D_None, dst_direct)
           else (src_direct, dst_direct))
      else (src_direct, dst_direct))"

definition packet_direction_of :: "flow \<Rightarrow> agent_type \<Rightarrow> bool \<Rightarrow> direction \<times> direction" where
  "packet_direction_of f agent_type cloud_gateway_traffic =
     (let k = f_flow_key f; src_ep = f_peer_src f; dst_ep = f_peer_dst f;
          src_direct = fst (direction_inner (fk_tap_type k) (f_tunnel f) (mp_is_l2_end src_ep)
            (mp_is_l3_end src_ep) True (mp_is_local_mac src_ep) (mp_is_local_ip src_ep)
            (mp_l3_epc_id src_ep) cloud_gateway_traffic agent_type);
          dst_direct = snd (direction_inner (fk_tap_type k) (f_tunnel f) (mp_is_l2_end dst_ep)
            (mp_is_l3_end dst_ep) (is_unicast (fk_mac_dst k)) (mp_is_local_mac dst_ep)
            (mp_is_local_ip dst_ep) (mp_l3_epc_id dst_ep) cloud_gateway_traffic agent_type)
      in choose_direction (fk_tap_type k) src_ep dst_ep src_direct dst_direct)"

definition get_direction :: "flow \<Rightarrow> agent_type \<Rightarrow> bool \<Rightarrow> direction \<times> direction" where
  "get_direction f agent_type cloud_gateway_traffic =
     (let k = f_flow_key f; src_ep = f_peer_src f; dst_ep = f_peer_dst f in
      case f_signal_source f of
        SS_EBPF \<Rightarrow>
          (if mp_is_l2_end src_ep then (D_ClientProcessToServer, D_None)
           else if mp_is_l2_end dst_ep then (D_None, D_ServerProcessToClient)
           else (D_ClientProcessToServer, D_ServerProcessToClient))
      | SS_XFlow \<Rightarrow> no_direction
      | _ \<Rightarrow>
          (if fk_mac_src k = fk_mac_dst k \<and> (is_tt_pod agent_type \<or> is_tt_workload agent_type)
           then (D_None, D_LocalToLocal)
           else packet_direction_of f agent_type cloud_gateway_traffic))"

definition set_tap_side :: "flow \<Rightarrow> agent_type \<Rightarrow> bool \<Rightarrow> flow" where
  "set_tap_side f agent_type cloud_gateway_traffic =
     (if f_tap_side f \<noteq> Rest then f
      else
        (let ds = get_direction f agent_type cloud_gateway_traffic;
             f = f\<lparr> f_directions := ds \<rparr> in
         if fst ds \<noteq> D_None \<and> snd ds = D_None then f\<lparr> f_tap_side := tap_side_from (fst ds) \<rparr>
         else if fst ds = D_None \<and> snd ds \<noteq> D_None then f\<lparr> f_tap_side := tap_side_from (snd ds) \<rparr>
         else f\<lparr> f_tap_side := Rest \<rparr>))"

subsection \<open>Merging the pieces of a flow\<close>

lemma add_acl_gids_set: "set (add_acl_gids gids gs) = set gids \<union> set gs"
  by (induction gids gs rule: add_acl_gids.induct) auto

lemma add_acl_gids_distinct: "distinct gids \<Longrightarrow> distinct (add_acl_gids gids gs)"
  by (induction gids gs rule: add_acl_gids.induct) auto

abbreviation nat_source_of :: "flow \<Rightarrow> u8" where
  "nat_source_of f \<equiv> get_nat_source (fk_tap_port (f_flow_key f))"

lemma get_nat_source_less: "get_nat_source p < 16"
proof -
  have "get_nat_source p = take_bit 4 (get_nat_source p)"
    by (rule bit_word_eqI) (auto simp: get_nat_source_eq bit_simps)
  moreover have "unat (take_bit 4 (get_nat_source p)) < 2 ^ 4"
    by (simp only: unsigned_take_bit_eq take_bit_nat_less_exp)
  ultimately show ?thesis by (simp add: word_less_nat_alt)
qed

lemma merge_nat_source_max:
  "get_nat_source (fk_tap_port (merge_nat_source k l)) =
     max (get_nat_source (fk_tap_port k)) (get_nat_source (fk_tap_port l))"
  by (auto simp: merge_nat_source_def set_nat_source_fields get_nat_source_less max_def Let_def)

text \<open>What one merge does to the fields the pieces are compared by.\<close>

lemma flow_merge_fields [simp]:
  "f_flow_id (flow_merge f g) = f_flow_id f"
  "mp_packet_count (f_peer_src (flow_merge f g)) = mp_packet_count (f_peer_src f) + mp_packet_count (f_peer_src g)"
  "mp_packet_count (f_peer_dst (flow_merge f g)) = mp_packet_count (f_peer_dst f) + mp_packet_count (f_peer_dst g)"
  "mp_byte_count (f_peer_src (flow_merge f g)) = mp_byte_count (f_peer_src f) + mp_byte_count (f_peer_src g)"
  "mp_byte_count (f_peer_dst (flow_merge f g)) = mp_byte_count (f_peer_dst f) + mp_byte_count (f_peer_dst g)"
  "f_end_time (flow_merge f g) = f_end_time g"
  "f_close_type (flow_merge f g) = f_close_type g"
  "f_aggregated_flow_ids (flow_merge f g) =
     f_aggregated_flow_ids f @ (if f_flow_id g = f_flow_id f then [] else [f_flow_id g])"
  "mp_total_packet_count (f_peer_src (flow_merge f g)) =
     (if f_flow_id g = f_flow_id f then 0 else mp_total_packet_count (f_peer_src f)) +
     mp_total_packet_count (f_peer_src g)"
  by (simp_all add: flow_merge_def merge_peers_def heartbeat_peer_merge_def peer_merge_def Let_def)

lemma flow_merge_acl: "f_acl_gids (flow_merge f g) = add_acl_gids (f_acl_gids f) (f_acl_gids g)"
  by (simp add: flow_merge_def merge_peers_def Let_def)

lemma flow_merge_nat_source: "nat_source_of (flow_merge f g) = max (nat_source_of f) (nat_source_of g)"
  by (simp add: flow_merge_def merge_peers_def merge_nat_source_max Let_def)

text \<open>The pieces that follow, merged in order.\<close>

definition merge_all :: "flow \<Rightarrow> flow list \<Rightarrow> flow" where
  "merge_all f gs = foldl flow_merge f gs"

lemma merge_all_simps [simp]: "merge_all f [] = f" "merge_all f (g # gs) = merge_all (flow_merge f g) gs"
  by (simp_all add: merge_all_def)

lemma merge_all_counts:
  "f_flow_id (merge_all f gs) = f_flow_id f"
  "mp_packet_count (f_peer_src (merge_all f gs)) =
     mp_packet_count (f_peer_src f) + sum_list (map (mp_packet_count \<circ> f_peer_src) gs)"
  "mp_packet_count (f_peer_dst (merge_all f gs)) =
     mp_packet_count (f_peer_dst f) + sum_list (map (mp_packet_count \<circ> f_peer_dst) gs)"
  "mp_byte_count (f_peer_src (merge_all f gs)) =
     mp_byte_count (f_peer_src f) + sum_list (map (mp_byte_count \<circ> f_peer_src) gs)"
  "mp_byte_count (f_peer_dst (merge_all f gs)) =
     mp_byte_count (f_peer_dst f) + sum_list (map (mp_byte_count \<circ> f_peer_dst) gs)"
  "f_aggregated_flow_ids (merge_all f gs) =
     f_aggregated_flow_ids f @ filter (\<lambda>i. i \<noteq> f_flow_id f) (map f_flow_id gs)"
  by (induction gs arbitrary: f) (simp_all add: add.assoc)

lemma merge_all_acl:
  "set (f_acl_gids (merge_all f gs)) = set (f_acl_gids f) \<union> (\<Union>g \<in> set gs. set (f_acl_gids g))"
  "distinct (f_acl_gids f) \<Longrightarrow> distinct (f_acl_gids (merge_all f gs))"
  by (induction gs arbitrary: f)
    (auto simp: flow_merge_acl add_acl_gids_set add_acl_gids_distinct)

lemma merge_all_nat_source: "nat_source_of (merge_all f gs) = foldl max (nat_source_of f) (map nat_source_of gs)"
  by (induction gs arbitrary: f) (simp_all add: flow_merge_nat_source)

lemma merge_all_totals:
  assumes "\<forall>g \<in> set gs. f_flow_id g \<noteq> f_flow_id f"
  shows "mp_total_packet_count (f_peer_src (merge_all f gs)) =
     mp_total_packet_count (f_peer_src f) + sum_list (map (mp_total_packet_count \<circ> f_peer_src) gs)"
  using assms by (induction gs arbitrary: f) (simp_all add: add.assoc)

lemma merge_all_last:
  assumes "gs \<noteq> []" 
  shows "f_end_time (merge_all f gs) = f_end_time (last gs)"
    "f_close_type (merge_all f gs) = f_close_type (last gs)"
    "\<forall>g \<in> set gs. f_flow_id g = f_flow_id f \<Longrightarrow>
       mp_total_packet_count (f_peer_src (merge_all f gs)) = mp_total_packet_count (f_peer_src (last gs))"
  using assms by (induction gs arbitrary: f) (auto simp: neq_Nil_conv)

subsection \<open>Reversing\<close>

lemma flow_key_reverse_twice [simp]: "flow_key_reverse (flow_key_reverse k) = k"
  by (simp add: flow_key_reverse_def)

lemma tunnel_reverse_twice [simp]: "tunnel_reverse (tunnel_reverse t) = t"
  by (simp add: tunnel_reverse_def)

subsection \<open>Directions\<close>

lemma direction_inner_sides:
  "is_server_to_client (fst (direction_inner ty tun l2 l3 u m i e c a)) \<Longrightarrow>
   fst (direction_inner ty tun l2 l3 u m i e c a) \<in> {D_ServerGatewayToClient, D_ServerGatewayHypervisorToClient}"
  "is_client_to_server (snd (direction_inner ty tun l2 l3 u m i e c a)) \<Longrightarrow>
   snd (direction_inner ty tun l2 l3 u m i e c a) \<in> {D_ClientGatewayToServer, D_ClientGatewayHypervisorToServer}"
  by (cases a; auto simp: direction_dedicated_def direction_pod_def direction_process_def Let_def
      is_server_to_client_def is_client_to_server_def side_consts split: if_splits)+

lemma choose_direction_cases:
  "choose_direction ty s d x y \<in> {(x, y), (x, D_None), (D_None, y)}"
  by (auto simp: choose_direction_def split: capture_network_type.splits)

lemma choose_direction_unique:
  assumes "choose_direction ty s d x y = (x', y')" "x' \<noteq> D_None" "y' \<noteq> D_None" "\<And>n. ty \<noteq> CNT_Idc n"
  shows "\<not> mp_is_local_mac s \<and> \<not> mp_is_local_mac d"
  using assms by (cases ty) (auto simp: choose_direction_def split: if_splits)

lemma get_direction_cong: "get_direction (f\<lparr> f_directions := ds, f_tap_side := s \<rparr>) a c = get_direction f a c"
  by (cases "f_signal_source f") (auto simp: get_direction_def packet_direction_of_def Let_def)

lemma is_server_to_client_None [simp]:
  "\<not> is_server_to_client D_None" "\<not> is_client_to_server D_None" "\<not> is_client_to_server D_LocalToLocal"
  by (simp_all add: is_server_to_client_def is_client_to_server_def side_consts)

lemma packet_direction_sides:
  assumes "packet_direction_of f a c = (x, y)"
  shows "(is_server_to_client x \<longrightarrow> x \<in> {D_ServerGatewayToClient, D_ServerGatewayHypervisorToClient}) \<and>
    (is_client_to_server y \<longrightarrow> y \<in> {D_ClientGatewayToServer, D_ClientGatewayHypervisorToServer})"
proof -
  let ?k = "f_flow_key f" and ?s = "f_peer_src f" and ?d = "f_peer_dst f"
  let ?x = "direction_inner (fk_tap_type ?k) (f_tunnel f) (mp_is_l2_end ?s) (mp_is_l3_end ?s) True
      (mp_is_local_mac ?s) (mp_is_local_ip ?s) (mp_l3_epc_id ?s) c a"
  let ?y = "direction_inner (fk_tap_type ?k) (f_tunnel f) (mp_is_l2_end ?d) (mp_is_l3_end ?d)
      (is_unicast (fk_mac_dst ?k)) (mp_is_local_mac ?d) (mp_is_local_ip ?d) (mp_l3_epc_id ?d) c a"
  have "(x, y) \<in> {(fst ?x, snd ?y), (fst ?x, D_None), (D_None, snd ?y)}"
    using assms choose_direction_cases [of "fk_tap_type ?k" ?s ?d "fst ?x" "snd ?y"]
    by (simp add: packet_direction_of_def Let_def)
  then show ?thesis
    using direction_inner_sides(1) [of "fk_tap_type ?k" "f_tunnel f"]
      direction_inner_sides(2) [of "fk_tap_type ?k" "f_tunnel f"] by fastforce
qed

subsection \<open>Properties\<close>

text \<open>
  Merging the pieces of a flow in order adds the packets and bytes of every piece, keeps
  every policy and the strongest source of address translation, and takes the end and the way
  of closing from the last piece.  The lifetime totals are those of the last piece when all
  pieces belong to one flow, and the sum when every piece is another flow, whose identifiers
  are then recorded in order.
\<close>

theorem flow_merge_pieces:
  assumes "gs \<noteq> []"
  shows "let r = foldl flow_merge f gs in mp_packet_count (f_peer_src r) =
      mp_packet_count (f_peer_src f) + sum_list (map (mp_packet_count \<circ> f_peer_src) gs) \<and>
    mp_byte_count (f_peer_dst r) =
      mp_byte_count (f_peer_dst f) + sum_list (map (mp_byte_count \<circ> f_peer_dst) gs) \<and>
    set (f_acl_gids r) = set (f_acl_gids f) \<union> (\<Union>g \<in> set gs. set (f_acl_gids g)) \<and>
    get_nat_source (fk_tap_port (f_flow_key r)) =
      foldl max (get_nat_source (fk_tap_port (f_flow_key f)))
        (map (\<lambda>g. get_nat_source (fk_tap_port (f_flow_key g))) gs) \<and>
    f_end_time r = f_end_time (last gs) \<and> f_close_type r = f_close_type (last gs) \<and>
    f_aggregated_flow_ids r =
      f_aggregated_flow_ids f @ filter (\<lambda>i. i \<noteq> f_flow_id f) (map f_flow_id gs) \<and>
    ((\<forall>g \<in> set gs. f_flow_id g = f_flow_id f) \<longrightarrow>
      mp_total_packet_count (f_peer_src r) = mp_total_packet_count (f_peer_src (last gs))) \<and>
    ((\<forall>g \<in> set gs. f_flow_id g \<noteq> f_flow_id f) \<longrightarrow>
      mp_total_packet_count (f_peer_src r) = mp_total_packet_count (f_peer_src f) +
        sum_list (map (mp_total_packet_count \<circ> f_peer_src) gs))"
  using merge_all_counts [of f gs] merge_all_acl [of f gs] merge_all_nat_source [of f gs]
    merge_all_last [OF assms(1), of f] merge_all_totals [of gs f]
  unfolding Let_def merge_all_def by blast

text \<open>
  Reversing a flow twice gives the flow back but for the tap side and the score, which
  have to be determined again; a reversed flow has the endpoints, the addresses and the tunnel
  of the other direction, and its performance statistics are left to the caller.
\<close>

lemma flow_reverse_involution:
  "flow_reverse (flow_reverse f False) False = f\<lparr> f_tap_side := Rest, f_direction_score := 0 \<rparr> \<and>
   f_peer_src (flow_reverse f b) = f_peer_dst f \<and> f_peer_dst (flow_reverse f b) = f_peer_src f \<and>
   fk_ip_src (f_flow_key (flow_reverse f b)) = fk_ip_dst (f_flow_key f) \<and>
   fk_port_src (f_flow_key (flow_reverse f b)) = fk_port_dst (f_flow_key f) \<and>
   f_flow_perf_stats (flow_reverse f b) = f_flow_perf_stats f"
  by (simp add: flow_reverse_def flow_key_reverse_def tunnel_reverse_def)

text \<open>
  A captured flow outside the access networks gets a tap side exactly when one of the two
  ends has a place; both ends can only have one when neither has a local address.  The source
  is observed as the server, and the destination as the client, at gateways only, and setting
  the tap side again changes nothing.
\<close>

theorem tap_side_choice:
  assumes "f_signal_source f = SS_Packet" "f_tap_side f = Rest" "\<And>n. fk_tap_type (f_flow_key f) \<noteq> CNT_Idc n"
    and "get_direction f a c = (x, y)"
  shows "(x \<noteq> D_None \<and> y \<noteq> D_None \<longrightarrow>
      \<not> mp_is_local_mac (f_peer_src f) \<and> \<not> mp_is_local_mac (f_peer_dst f)) \<and>
    (f_tap_side (set_tap_side f a c) \<noteq> Rest \<longleftrightarrow> (x = D_None) \<noteq> (y = D_None)) \<and>
    (is_server_to_client x \<longrightarrow> x \<in> {D_ServerGatewayToClient, D_ServerGatewayHypervisorToClient}) \<and>
    (is_client_to_server y \<longrightarrow> y \<in> {D_ClientGatewayToServer, D_ClientGatewayHypervisorToServer}) \<and>
    set_tap_side (set_tap_side f a c) a c = set_tap_side f a c"
proof -
  have p: "(x, y) = (D_None, D_LocalToLocal) \<or> packet_direction_of f a c = (x, y)"
    using assms(1,4) by (auto simp: get_direction_def Let_def split: if_splits)
  have "x \<noteq> D_None \<and> y \<noteq> D_None \<longrightarrow> \<not> mp_is_local_mac (f_peer_src f) \<and> \<not> mp_is_local_mac (f_peer_dst f)"
    using p choose_direction_unique assms(3) by (auto simp: packet_direction_of_def Let_def)
  moreover have "(is_server_to_client x \<longrightarrow> x \<in> {D_ServerGatewayToClient, D_ServerGatewayHypervisorToClient}) \<and>
    (is_client_to_server y \<longrightarrow> y \<in> {D_ClientGatewayToServer, D_ClientGatewayHypervisorToServer})"
    using p packet_direction_sides [of f a c x y] by auto
  moreover have "set_tap_side (set_tap_side f a c) a c = set_tap_side f a c"
    using assms(2,4) by (simp add: set_tap_side_def Let_def get_direction_cong)
  moreover have "f_tap_side (set_tap_side f a c) \<noteq> Rest \<longleftrightarrow> (x = D_None) \<noteq> (y = D_None)"
    using assms(2,4) by (auto simp: set_tap_side_def Let_def)
  ultimately show ?thesis by blast
qed


theorem flow_merge_pieces_witness:
  "let g = default_flow\<lparr> f_acl_gids := [7], f_peer_src := default_peer\<lparr> mp_packet_count := 2 \<rparr> \<rparr>;
       r = foldl flow_merge default_flow [g, g]
   in mp_packet_count (f_peer_src r) = 4 \<and> set (f_acl_gids r) = {7}"
  using flow_merge_pieces [of "[default_flow\<lparr> f_acl_gids := [7], f_peer_src := default_peer\<lparr> mp_packet_count := 2 \<rparr> \<rparr>,
      default_flow\<lparr> f_acl_gids := [7], f_peer_src := default_peer\<lparr> mp_packet_count := 2 \<rparr> \<rparr>]" default_flow]
  by (simp add: Let_def default_flow_def default_peer_def)

definition local_client_flow :: flow where
  "local_client_flow = default_flow\<lparr> f_flow_key := default_flow_key\<lparr> fk_mac_src := 1 \<rparr>,
     f_peer_src := default_peer\<lparr> mp_is_l2_end := True, mp_is_l3_end := True \<rparr> \<rparr>"

theorem tap_side_choice_witness:
  "get_direction local_client_flow TtProcess False = (D_ClientToServer, D_None) \<and>
   f_tap_side (set_tap_side local_client_flow TtProcess False) \<noteq> Rest"
proof -
  have d: "get_direction local_client_flow TtProcess False = (D_ClientToServer, D_None)"
    by (simp add: get_direction_def packet_direction_of_def local_client_flow_def default_flow_def default_peer_def
        default_flow_key_def default_tunnel_field_def is_tt_pod_def is_tt_workload_def direction_process_def
        choose_direction_def Let_def)
  have "f_signal_source local_client_flow = SS_Packet" "f_tap_side local_client_flow = Rest"
    "\<And>n. fk_tap_type (f_flow_key local_client_flow) \<noteq> CNT_Idc n"
    by (simp_all add: local_client_flow_def default_flow_def default_flow_key_def)
  from tap_side_choice [OF this d] d show ?thesis by blast
qed

end
