(* ===== verification/Leaky_Bucket.thy ===== *)
theory Leaky_Bucket
  imports Rust_Prelude
begin

section \<open>The leaky bucket\<close>

text \<open>
  \<^verbatim>\<open>LeakyBucket\<close> of \<^verbatim>\<open>agent/crates/public/src/leaky_bucket.rs\<close> limits the rate of what
  the agent sends.  A thread adds tokens on every tick, callers take them.  The state holds
  the atomics both sides share and the local variables of the thread; calls of callers and
  iterations of the thread interleave in any order.
\<close>

definition TICK_INTERVAL :: u64 where "TICK_INTERVAL = 100"
definition TICK_PER_SECOND :: u64 where "TICK_PER_SECOND = 1000 div TICK_INTERVAL"
definition BURST_MULTIPLE :: u64 where "BURST_MULTIPLE = 10"

record bucket =
  b_rate :: u64
  b_token :: u64
  b_running :: bool
  t_rate :: u64
  t_quantity_per_tick :: u64
  t_full :: u64

definition bucket_new :: "u64 option \<Rightarrow> bucket" where
  "bucket_new r = \<lparr> b_rate = (case r of Some n \<Rightarrow> n | None \<Rightarrow> 0), b_token = 0, b_running = True,
     t_rate = 0, t_quantity_per_tick = 0, t_full = 0 \<rparr>"

text \<open>The refill at the end of an iteration, and one iteration of the thread.\<close>

definition refill :: "bucket \<Rightarrow> bucket" where
  "refill b =
     (if b_token b + t_quantity_per_tick b > t_full b then b
      else b\<lparr> b_token := b_token b + t_quantity_per_tick b \<rparr>)"

definition tick :: "bucket \<Rightarrow> bucket" where
  "tick b =
     (if \<not> b_running b then b
      else
        (let new_rate = b_rate b in
         if new_rate = 0 \<or> new_rate \<noteq> t_rate b then
           (let b = b\<lparr> t_rate := new_rate \<rparr> in
            if new_rate = 0 then b
            else
              (let q = max 1 (new_rate div TICK_PER_SECOND); f = q * BURST_MULTIPLE in
               refill (b\<lparr> t_quantity_per_tick := q, t_full := f, b_token := f \<rparr>)))
         else refill b))"

definition set_rate :: "bucket \<Rightarrow> u64 option \<Rightarrow> bucket" where
  "set_rate b r = b\<lparr> b_rate := (case r of Some n \<Rightarrow> n | None \<Rightarrow> 0) \<rparr>"

definition acquire :: "bucket \<Rightarrow> u64 \<Rightarrow> bucket \<times> bool" where
  "acquire b sz =
     (if b_rate b = 0 then (b, True)
      else if b_token b < sz then (b, False)
      else (b\<lparr> b_token := b_token b - sz \<rparr>, True))"

definition bucket_drop :: "bucket \<Rightarrow> bucket" where
  "bucket_drop b = b\<lparr> b_running := False \<rparr>"

subsection \<open>Runs\<close>

text \<open>What can happen to a bucket: ticks, calls with their answer, and changes of the rate.\<close>

datatype bucket_event = Tick | Acquire u64 bool | Set_Rate u64

inductive bucket_step :: "bucket \<Rightarrow> bucket_event \<Rightarrow> bucket \<Rightarrow> bool" where
  step_tick: "bucket_step b Tick (tick b)"
| step_acquire: "acquire b sz = (b', ok) \<Longrightarrow> bucket_step b (Acquire sz ok) b'"
| step_set_rate: "bucket_step b (Set_Rate r) (set_rate b (Some r))"

inductive_cases bucket_stepE: "bucket_step b e b'"

fun granted :: "bucket_event list \<Rightarrow> nat" where
  "granted [] = 0"
| "granted (Acquire sz ok # es) = (if ok then unat sz else 0) + granted es"
| "granted (e # es) = granted es"

lemma granted_snoc: "granted (es @ [e]) = granted es + granted [e]"
  by (induction es rule: granted.induct) auto

text \<open>The quantity a tick adds, as a number; rates below 2^60 leave all sums exact.\<close>

definition per_tick :: "u64 \<Rightarrow> nat" where
  "per_tick r = max 1 (unat r div 10)"

text \<open>
  A rate the limit is about: neither zero, which switches the limit off, nor beyond 2^60.
  The rate in force after a list of events, and what the events add to the allowance: a
  portion of the rate in force per tick, and the new burst per change of the rate.
\<close>

definition rate_ok :: "u64 \<Rightarrow> bool" where
  "rate_ok r \<longleftrightarrow> r \<noteq> 0 \<and> unat r < 2 ^ 60"

fun rates_ok :: "bucket_event list \<Rightarrow> bool" where
  "rates_ok [] = True"
| "rates_ok (Set_Rate r # es) = (rate_ok r \<and> rates_ok es)"
| "rates_ok (e # es) = rates_ok es"

fun rate_after :: "u64 \<Rightarrow> bucket_event list \<Rightarrow> u64" where
  "rate_after r [] = r"
| "rate_after r (Set_Rate r' # es) = rate_after r' es"
| "rate_after r (e # es) = rate_after r es"

fun allowance :: "u64 \<Rightarrow> bucket_event list \<Rightarrow> nat" where
  "allowance r [] = 0"
| "allowance r (Tick # es) = per_tick r + allowance r es"
| "allowance r (Acquire sz ok # es) = allowance r es"
| "allowance r (Set_Rate r' # es) = 10 * per_tick r' + allowance r' es"

lemma rates_ok_snoc: "rates_ok (es @ [e]) \<longleftrightarrow> rates_ok es \<and> rates_ok [e]"
  by (induction es rule: rates_ok.induct) auto

lemma rate_after_snoc: "rate_after r (es @ [e]) = rate_after (rate_after r es) [e]"
  by (induction r es rule: rate_after.induct) auto

lemma allowance_snoc: "allowance r (es @ [e]) = allowance r es + allowance (rate_after r es) [e]"
  by (induction r es rule: allowance.induct) auto

text \<open>The thread has taken over the rate of the bucket.\<close>

definition tracking :: "u64 \<Rightarrow> bucket \<Rightarrow> bool" where
  "tracking r b \<longleftrightarrow> b_rate b = r \<and> t_rate b = r \<and> b_running b \<and>
     unat (t_quantity_per_tick b) = per_tick r \<and> unat (t_full b) = 10 * per_tick r \<and>
     b_token b \<le> t_full b"

lemma per_tick_less: "unat r < 2 ^ 60 \<Longrightarrow> per_tick r < 2 ^ 59"
  by (auto simp: per_tick_def)

lemma refill_token:
  assumes "tracking r b" "unat r < 2 ^ 60"
  shows "unat (b_token (refill b)) =
      (if 10 * per_tick r < unat (b_token b) + per_tick r then unat (b_token b)
       else unat (b_token b) + per_tick r)"
    and "tracking r (refill b)"
proof -
  have t: "unat (b_token b) \<le> 10 * per_tick r" "unat (t_quantity_per_tick b) = per_tick r"
    "unat (t_full b) = 10 * per_tick r"
    using assms(1) by (auto simp: tracking_def word_le_nat_alt)
  then have s: "unat (b_token b + t_quantity_per_tick b) = unat (b_token b) + per_tick r"
    using per_tick_less [OF assms(2)] by (subst unat_add_exact) auto
  then show "unat (b_token (refill b)) =
      (if 10 * per_tick r < unat (b_token b) + per_tick r then unat (b_token b)
       else unat (b_token b) + per_tick r)"
    using t by (auto simp: refill_def word_less_nat_alt)
  show "tracking r (refill b)"
    using assms(1) s t by (auto simp: refill_def tracking_def word_le_nat_alt word_less_nat_alt)
qed

lemma tick_tracking: "tracking r b \<Longrightarrow> r \<noteq> 0 \<Longrightarrow> tick b = refill b"
  by (simp add: tick_def tracking_def)

lemma first_tick:
  assumes "b_rate b = r" "b_running b" "t_rate b \<noteq> r" "r \<noteq> 0" "unat r < 2 ^ 60"
  shows "tracking r (tick b) \<and> unat (b_token (tick b)) = 10 * per_tick r"
proof -
  define q where "q = max 1 (r div TICK_PER_SECOND)"
  have q: "unat q = per_tick r"
    by (auto simp: q_def per_tick_def TICK_PER_SECOND_def TICK_INTERVAL_def max_def unat_div
        word_le_nat_alt)
  have f: "unat (q * BURST_MULTIPLE) = 10 * per_tick r"
    using per_tick_less [OF assms(5)] by (subst unat_mult_exact) (auto simp: q BURST_MULTIPLE_def)
  let ?b = "b\<lparr> t_rate := r, t_quantity_per_tick := q, t_full := q * BURST_MULTIPLE,
    b_token := q * BURST_MULTIPLE \<rparr>"
  have t: "tick b = refill ?b" using assms by (simp add: tick_def q_def Let_def)
  have "tracking r ?b" using assms q f by (simp add: tracking_def)
  moreover have "per_tick r \<noteq> 0" by (simp add: per_tick_def)
  ultimately show ?thesis
    using refill_token [of r ?b] assms(5) f unfolding t by simp
qed

lemma acquire_tracking:
  assumes "tracking r b" "r \<noteq> 0" "acquire b sz = (b', ok)"
  shows "tracking r b'" "unat (b_token b') + (if ok then unat sz else 0) = unat (b_token b)"
  using assms by (auto simp: acquire_def tracking_def unat_sub word_le_nat_alt word_less_nat_alt
      split: if_splits)

subsection \<open>The limit\<close>

definition bucket_start :: "u64 \<Rightarrow> bucket \<Rightarrow> bool" where
  "bucket_start r b \<longleftrightarrow> r \<noteq> 0 \<and> unat r < 2 ^ 60 \<and> tracking r b"

text \<open>
  The thread's own variables fit the rate it last saw, whether or not this is still the rate
  of the bucket; 0 is the rate it starts from.  A pending burst is one the next tick fills in,
  because the thread has yet to see the rate.
\<close>

definition thread_ok :: "bucket \<Rightarrow> bool" where
  "thread_ok b \<longleftrightarrow> b_running b \<and> unat (t_rate b) < 2 ^ 60 \<and>
     (t_rate b \<noteq> 0 \<longrightarrow> tracking (t_rate b) (b\<lparr> b_rate := t_rate b \<rparr>))"

definition pending_burst :: "bucket \<Rightarrow> nat" where
  "pending_burst b = (if t_rate b = b_rate b then 0 else 10 * per_tick (b_rate b))"

lemma thread_ok_new: "thread_ok (bucket_new r)"
  by (simp add: thread_ok_def bucket_new_def)

lemma thread_ok_tracking: "thread_ok b \<Longrightarrow> rate_ok (b_rate b) \<Longrightarrow> t_rate b = b_rate b \<Longrightarrow> tracking (b_rate b) b"
  by (cases b) (auto simp: thread_ok_def rate_ok_def)

lemma tracking_thread_ok: "tracking r b \<Longrightarrow> unat r < 2 ^ 60 \<Longrightarrow> thread_ok b"
  by (auto simp: thread_ok_def tracking_def)

lemma thread_ok_rate [simp]: "thread_ok (b\<lparr> b_rate := r \<rparr>) \<longleftrightarrow> thread_ok b"
  by (simp add: thread_ok_def)

lemma thread_ok_acquire:
  assumes "thread_ok b" "acquire b sz = (b', ok)" "rate_ok (b_rate b)"
  shows "thread_ok b'" "b_rate b' = b_rate b" "t_rate b' = t_rate b"
    "unat (b_token b') + (if ok then unat sz else 0) = unat (b_token b)"
proof -
  have "b_token b - sz \<le> b_token b" if "\<not> b_token b < sz"
    using that by (simp add: word_sub_le)
  then show "thread_ok b'" "b_rate b' = b_rate b" "t_rate b' = t_rate b"
    using assms by (auto simp: acquire_def thread_ok_def tracking_def split: if_splits intro: order_trans)
  show "unat (b_token b') + (if ok then unat sz else 0) = unat (b_token b)"
    using assms(2,3) by (auto simp: acquire_def rate_ok_def unat_sub word_le_nat_alt word_less_nat_alt
      split: if_splits)
qed

lemma thread_ok_tick:
  assumes "thread_ok b" "rate_ok (b_rate b)"
  shows "tracking (b_rate b) (tick b)" "b_rate (tick b) = b_rate b"
    "unat (b_token (tick b)) \<le> unat (b_token b) + pending_burst b + per_tick (b_rate b)"
    "t_rate b \<noteq> b_rate b \<Longrightarrow> unat (b_token (tick b)) = pending_burst b"
proof -
  have tr: "tracking (b_rate b) (tick b) \<and>
      unat (b_token (tick b)) \<le> unat (b_token b) + pending_burst b + per_tick (b_rate b) \<and>
      (t_rate b \<noteq> b_rate b \<longrightarrow> unat (b_token (tick b)) = pending_burst b)"
  proof (cases "t_rate b = b_rate b")
    case True
    then have "tracking (b_rate b) b" using thread_ok_tracking assms by blast
    then show ?thesis
      using refill_token [of "b_rate b" b] tick_tracking [of "b_rate b" b] assms(2) True
      by (auto simp: rate_ok_def)
  next
    case False
    then show ?thesis
      using first_tick [of b "b_rate b"] assms by (auto simp: rate_ok_def thread_ok_def pending_burst_def)
  qed
  then show "tracking (b_rate b) (tick b)"
    "unat (b_token (tick b)) \<le> unat (b_token b) + pending_burst b + per_tick (b_rate b)"
    "t_rate b \<noteq> b_rate b \<Longrightarrow> unat (b_token (tick b)) = pending_burst b" by auto
  show "b_rate (tick b) = b_rate b" using tr by (simp add: tracking_def)
qed

definition bucket_inv :: "bucket \<Rightarrow> bucket_event list \<Rightarrow> bucket \<Rightarrow> bool" where
  "bucket_inv b0 es b \<longleftrightarrow> rates_ok es \<longrightarrow>
     thread_ok b \<and> rate_ok (b_rate b) \<and> b_rate b = rate_after (b_rate b0) es \<and>
     granted es + unat (b_token b) + pending_burst b
       \<le> unat (b_token b0) + pending_burst b0 + allowance (b_rate b0) es"

lemmas event_snoc = granted_snoc rates_ok_snoc rate_after_snoc allowance_snoc

lemma bucket_inv_step:
  assumes "bucket_inv b0 es b" "bucket_step b e b'"
  shows "bucket_inv b0 (es @ [e]) b'"
  using assms(2)
proof (cases rule: bucket_step.cases)
  case step_tick
  have "pending_burst (tick b) = 0 \<and> thread_ok (tick b)" if "thread_ok b" "rate_ok (b_rate b)"
    using thread_ok_tick(1) [OF that] tracking_thread_ok [of "b_rate b" "tick b"] that(2)
    by (auto simp: pending_burst_def tracking_def rate_ok_def)
  then show ?thesis
    using assms(1) step_tick thread_ok_tick(2-4) [of b]
    by (auto simp: bucket_inv_def event_snoc)
next
  case (step_acquire sz ok)
  then show ?thesis
    using assms(1) thread_ok_acquire [of b sz b' ok]
    by (auto simp: bucket_inv_def event_snoc pending_burst_def)
next
  case (step_set_rate r)
  then show ?thesis
    using assms(1) by (auto simp: bucket_inv_def event_snoc pending_burst_def set_rate_def)
qed

interpretation bucket_run: history_invariant bucket_step
  "\<lambda>b. b = b0 \<and> thread_ok b \<and> rate_ok (b_rate b)" "bucket_inv b0" for b0
proof
  fix b assume "b = b0 \<and> thread_ok b \<and> rate_ok (b_rate b)"
  then show "bucket_inv b0 [] b" by (auto simp: bucket_inv_def)
qed (rule bucket_inv_step)

text \<open>Undisturbed ticks.\<close>

lemma idle_ticks:
  assumes "bucket_start r b" "n * per_tick r \<ge> 9 * per_tick r + 1 - unat (b_token b)"
  shows "bucket_start r ((tick ^^ n) b) \<and> unat (b_token ((tick ^^ n) b)) \<ge> 9 * per_tick r + 1"
  using assms
proof (induction n arbitrary: b)
  case (Suc n)
  have st: "bucket_start r (tick b)"
    using Suc.prems(1) refill_token [of r b] tick_tracking [of r b] by (auto simp: bucket_start_def)
  have tok: "unat (b_token (tick b)) \<ge> min (9 * per_tick r + 1) (unat (b_token b) + per_tick r)"
    using Suc.prems(1) refill_token [of r b] tick_tracking [of r b] by (auto simp: bucket_start_def)
  have "n * per_tick r \<ge> 9 * per_tick r + 1 - unat (b_token (tick b))"
    using tok Suc.prems(2) by auto
  from Suc.IH [OF st this] show ?case by (simp add: funpow_swap1)
qed simp

lemma short_of_full:
  assumes "bucket_start r b" "1 < per_tick r" "unat (b_token b) = 10 * per_tick r - 1"
  shows "bucket_start r ((tick ^^ m) b) \<and> unat (b_token ((tick ^^ m) b)) = 10 * per_tick r - 1"
  using assms(1,3)
proof (induction m)
  case (Suc m)
  then show ?case
    using refill_token [of r "(tick ^^ m) b"] tick_tracking [of r "(tick ^^ m) b"] assms(2)
    by (auto simp: bucket_start_def)
qed simp

subsection \<open>Properties\<close>

text \<open>
  C23: over any interleaving of calls, ticks and changes of the rate, callers are granted at
  most the tokens in the bucket at the start, the burst the thread has yet to fill in if it
  has not seen the rate of the start, one portion of the rate in force per tick, and one burst
  of ten portions of the new rate per change.  In particular a change of the rate leaves the
  old tokens in the bucket until the next tick, so that around it both the old tokens and the
  new burst are granted.  Between changes, from a thread that has seen the rate, the bound is
  the tokens held and a portion per tick.  The bucket never holds more than the burst of the
  rate the thread last saw.  All rates are non-zero, as zero switches the limit off, and below
  2^60, which keeps the 64 bit sums exact.
\<close>

theorem bucket_limit:
  assumes "run bucket_step b es b'" "thread_ok b" "rate_ok (b_rate b)" "rates_ok es"
  shows "granted es \<le> unat (b_token b) + pending_burst b + allowance (b_rate b) es
    \<and> b_rate b' = rate_after (b_rate b) es
    \<and> (t_rate b' \<noteq> 0 \<longrightarrow> unat (b_token b') \<le> 10 * per_tick (t_rate b'))"
proof -
  have i: "bucket_inv b es b'"
    using bucket_run.inv_run [OF assms(1), of b] assms(2,3) by simp
  then have "thread_ok b'" using assms(4) by (simp add: bucket_inv_def)
  then have "t_rate b' \<noteq> 0 \<longrightarrow> unat (b_token b') \<le> 10 * per_tick (t_rate b')"
    by (auto simp: thread_ok_def tracking_def word_le_nat_alt)
  then show ?thesis using i assms(4) by (auto simp: bucket_inv_def)
qed

text \<open>
  C24: no caller starves: once the thread knows the rate, ten ticks without other callers
  suffice for a request of up to nine portions and one token.  Asking for the whole burst
  may fail forever, since a portion that does not fit is not added in part.
\<close>

theorem bucket_no_starvation:
  assumes "tracking r b" "r \<noteq> 0" "unat r < 2 ^ 60" "10 \<le> n"
  shows "(unat sz \<le> 9 * per_tick r + 1 \<longrightarrow> snd (acquire ((tick ^^ n) b) sz)) \<and>
    (1 < per_tick r \<and> unat (b_token b) = 10 * per_tick r - 1 \<and> unat sz = 10 * per_tick r \<longrightarrow>
      \<not> snd (acquire ((tick ^^ m) b) sz))"
proof -
  have st: "bucket_start r b" using assms by (simp add: bucket_start_def)
  have "10 * per_tick r \<le> n * per_tick r" using assms(4) by simp
  moreover have "1 \<le> per_tick r" by (simp add: per_tick_def)
  ultimately have "n * per_tick r \<ge> 9 * per_tick r + 1 - unat (b_token b)" by linarith
  from idle_ticks [OF st this] have "snd (acquire ((tick ^^ n) b) sz)" if "unat sz \<le> 9 * per_tick r + 1"
    using that by (simp add: acquire_def word_less_nat_alt)
  moreover have "\<not> snd (acquire ((tick ^^ m) b) sz)"
    if "1 < per_tick r" "unat (b_token b) = 10 * per_tick r - 1" "unat sz = 10 * per_tick r"
    using short_of_full [OF st that(1,2), of m] that assms(2)
    by (auto simp: acquire_def word_less_nat_alt bucket_start_def tracking_def)
  ultimately show ?thesis by blast
qed

text \<open>A bucket of 1000 tokens a second after its first tick.\<close>

definition bucket1000 :: bucket where
  "bucket1000 = tick (bucket_new (Some 1000))"

lemma bucket1000_tracking: "tracking 1000 bucket1000" "unat (b_token bucket1000) = 1000"
  using first_tick [of "bucket_new (Some 1000)" 1000]
  by (simp_all add: bucket1000_def bucket_new_def per_tick_def)

text \<open>
  The old tokens are taken after a change to 50 tokens a second and the new burst after the
  next tick: the allowance is used up.
\<close>

definition change_of_rate :: "bucket_event list" where
  "change_of_rate = [Set_Rate 50, Acquire 1000 True, Acquire 1 False, Tick, Acquire 50 True]"

lemma change_of_rate_run: "\<exists>b'. run bucket_step bucket1000 change_of_rate b'"
proof -
  let ?b = "\<lambda>t. \<lparr> b_rate = 50, b_token = t, b_running = True, t_rate = 1000,
      t_quantity_per_tick = 100, t_full = 1000 \<rparr>"
  let ?c = "\<lambda>t. \<lparr> b_rate = 50, b_token = t, b_running = True, t_rate = 50,
      t_quantity_per_tick = 5, t_full = 50 \<rparr>"
  have b: "set_rate bucket1000 (Some 50) = ?b 1000" by code_simp
  have t: "tick (?b 0) = ?c 50" by code_simp
  have "bucket_step bucket1000 (Set_Rate 50) (?b 1000)"
    using step_set_rate [of bucket1000 50] by (simp only: b)
  moreover have "bucket_step (?b 1000) (Acquire 1000 True) (?b 0)"
    "bucket_step (?b 0) (Acquire 1 False) (?b 0)" "bucket_step (?c 50) (Acquire 50 True) (?c 0)"
    by (rule step_acquire, simp add: acquire_def)+
  moreover have "bucket_step (?b 0) Tick (?c 50)" using step_tick [of "?b 0"] by (simp only: t)
  ultimately show ?thesis unfolding change_of_rate_def run_Cons_iff run_Nil_iff by blast
qed

theorem bucket_limit_witness:
  "(\<exists>b'. run bucket_step bucket1000 change_of_rate b') \<and> granted change_of_rate = 1050
   \<and> granted change_of_rate \<le> 1000 + 0 + (10 * 5 + 5)"
proof -
  obtain b' where r: "run bucket_step bucket1000 change_of_rate b'" using change_of_rate_run by blast
  have ok: "thread_ok bucket1000" "rate_ok (b_rate bucket1000)" "pending_burst bucket1000 = 0"
    "rates_ok change_of_rate" "b_rate bucket1000 = 1000"
    using tracking_thread_ok [OF bucket1000_tracking(1)] bucket1000_tracking(1)
    by (simp_all add: tracking_def rate_ok_def pending_burst_def change_of_rate_def)
  from bucket_limit [OF r ok(1,2,4)] r ok(3,5) bucket1000_tracking(2) show ?thesis
    by (auto simp: change_of_rate_def per_tick_def)
qed

theorem bucket_no_starvation_witness:
  "snd (acquire ((tick ^^ 10) bucket1000) 901) \<and> per_tick 1000 = 100"
  using bucket_no_starvation [OF bucket1000_tracking(1), of 10 901] by (simp add: per_tick_def)

end
