(* ===== verification/Raw_Data.thy ===== *)
theory Raw_Data
  imports Net_Bytes
begin

section \<open>Raw data of a connection and its decoders\<close>

text \<open>
  The buffers the probe parses, from \<^verbatim>\<open>l7probe/include/data_stream.h\<close>,
  \<^verbatim>\<open>protocol/common/protocol_common.c\<close>, and the decoders of
  \<^verbatim>\<open>protocol/utils/binary_decoder.c\<close> and \<^verbatim>\<open>frame_decoder.c\<close>.

  The probe is written in C.  \<^verbatim>\<open>size_t\<close> is a natural number whose subtraction wraps
  (\<^const>\<open>usize_sub\<close>); a \<^verbatim>\<open>char\<close> is a byte.  A computation whose behaviour the C
  standard does not define (an access outside an object, a null pointer followed) has the
  result \<^const>\<open>None\<close> of the type \<open>well_defined\<close>.  Allocation is taken to succeed, so the
  branches on a null result of \<^verbatim>\<open>malloc\<close> do not appear, nor does \<^verbatim>\<open>free\<close>.

  A decoder returns a \<^verbatim>\<open>parse_state_t\<close> and writes its result through a pointer when the
  state is \<^verbatim>\<open>STATE_SUCCESS\<close>: here it returns the state that is not a success, or the
  result, together with the advanced buffer.
\<close>

type_synonym 'a well_defined = "'a option"

named_theorems decoder_defs "definitions of the decoders"

subsection \<open>Buffers\<close>

datatype parse_state_t = STATE_SUCCESS | STATE_INVALID | STATE_NEEDS_MORE_DATA | STATE_IGNORE
  | STATE_EOS | STATE_NOT_FOUND | STATE_UNKNOWN

datatype message_type_t = MESSAGE_UNKNOW | MESSAGE_REQUEST | MESSAGE_RESPONSE

text \<open>A parsed frame, with the message of the protocol behind its \<^verbatim>\<open>void *frame\<close>.\<close>

record 'f frame_data_s =
  fd_msg_type :: message_type_t
  fd_frame :: 'f
  fd_timestamp_ns :: u64

text \<open>\<^verbatim>\<open>data_len\<close> is the length of the flexible array \<^verbatim>\<open>data\<close> that was allocated.\<close>

record raw_data_s =
  rd_flags :: u32
  rd_timestamp_ns :: u64
  rd_index :: u32
  rd_isBrokeData :: u32
  rd_current_pos :: nat
  rd_data :: bytes

definition data_len :: "raw_data_s \<Rightarrow> nat" where
  "data_len rd = length (rd_data rd)"

definition unconsumed_len :: "raw_data_s \<Rightarrow> nat" where
  "unconsumed_len rd = usize_sub (data_len rd) (rd_current_pos rd)"

text \<open>The members that the function does not set, which no decoder reads, are zero here.\<close>

definition init_raw_data_with_str :: "bytes \<Rightarrow> raw_data_s" where
  "init_raw_data_with_str str =
     \<lparr>rd_flags = 0, rd_timestamp_ns = 0, rd_index = 0, rd_isBrokeData = 0, rd_current_pos = 0,
      rd_data = str\<rparr>"

text \<open>The sum is at most \<^verbatim>\<open>data_len\<close> as long as the position is.\<close>

definition parser_raw_data_offset :: "raw_data_s \<Rightarrow> nat \<Rightarrow> raw_data_s" where
  "parser_raw_data_offset rd offset =
     (let real_offset = (if offset > unconsumed_len rd then unconsumed_len rd else offset)
      in rd\<lparr>rd_current_pos := rd_current_pos rd + real_offset\<rparr>)"

text \<open>\<^verbatim>\<open>memcpy\<close> of \<open>n\<close> bytes from the current position.\<close>

definition bytes_at :: "raw_data_s \<Rightarrow> nat \<Rightarrow> bytes well_defined" where
  "bytes_at rd n =
     (if rd_current_pos rd + n \<le> data_len rd
      then Some (take n (drop (rd_current_pos rd) (rd_data rd))) else None)"

subsection \<open>\<^verbatim>\<open>binary_decoder.c\<close>\<close>

type_synonym 'a decoded = "((parse_state_t + 'a) \<times> raw_data_s) well_defined"

definition decoder_extract_char :: "raw_data_s \<Rightarrow> u8 decoded" where [decoder_defs]:
  "decoder_extract_char rd =
     (if unconsumed_len rd < 1 then Some (Inl STATE_NEEDS_MORE_DATA, rd)
      else do {
        res \<leftarrow> index_at (rd_data rd) (rd_current_pos rd);
        Some (Inr res, parser_raw_data_offset rd 1) })"

definition decoder_extract_char_array :: "raw_data_s \<Rightarrow> nat \<Rightarrow> bytes decoded" where [decoder_defs]:
  "decoder_extract_char_array rd decode_len =
     (if unconsumed_len rd < decode_len then Some (Inl STATE_NEEDS_MORE_DATA, rd)
      else do {
        res \<leftarrow> bytes_at rd decode_len;
        Some (Inr res, parser_raw_data_offset rd decode_len) })"

definition decoder_extract_bool :: "raw_data_s \<Rightarrow> bool decoded" where [decoder_defs]:
  "decoder_extract_bool rd = do {
     (r, rd) \<leftarrow> decoder_extract_char rd;
     Some (case r of Inl _ \<Rightarrow> Inl STATE_INVALID | Inr c \<Rightarrow> Inr (c \<noteq> 0), rd) }"

text \<open>
  The macros \<^verbatim>\<open>BIG_ENDIAN_BYTES_TO_INT\<close> and \<^verbatim>\<open>DECODER_EXTRACT_INT\<close>, for any width;
  the signed types are the same words read with \<^const>\<open>sint\<close>.
\<close>

definition big_endian_bytes_to :: "bytes \<Rightarrow> 'a::len word" where
  "big_endian_bytes_to bs = foldl (\<lambda>res b. ucast b OR push_bit 8 res) 0 bs"

definition decoder_extract_int :: "raw_data_s \<Rightarrow> 'a::len word decoded" where [decoder_defs]:
  "decoder_extract_int rd =
     (if unconsumed_len rd < LENGTH('a) div 8 then Some (Inl STATE_NEEDS_MORE_DATA, rd)
      else do {
        bs \<leftarrow> bytes_at rd (LENGTH('a) div 8);
        Some (Inr (big_endian_bytes_to bs), parser_raw_data_offset rd (LENGTH('a) div 8)) })"

definition extract_prefix_bytes_string :: "raw_data_s \<Rightarrow> nat \<Rightarrow> nat \<Rightarrow> (bytes \<times> raw_data_s) well_defined" where [decoder_defs]:
  "extract_prefix_bytes_string rd decode_len data_stream_offset = do {
     res \<leftarrow> bytes_at rd decode_len;
     Some (res, parser_raw_data_offset rd data_stream_offset) }"

definition decoder_extract_raw_data_with_len :: "raw_data_s \<Rightarrow> nat \<Rightarrow> raw_data_s decoded" where [decoder_defs]:
  "decoder_extract_raw_data_with_len src decode_len =
     (if unconsumed_len src < decode_len then Some (Inl STATE_NEEDS_MORE_DATA, src)
      else do {
        bs \<leftarrow> bytes_at src decode_len;
        Some (Inr (init_raw_data_with_str bs), parser_raw_data_offset src decode_len) })"

definition decoder_extract_string :: "raw_data_s \<Rightarrow> nat \<Rightarrow> bytes decoded" where [decoder_defs]:
  "decoder_extract_string rd decode_len =
     (if unconsumed_len rd < decode_len then Some (Inl STATE_NEEDS_MORE_DATA, rd)
      else do {
        (res, rd) \<leftarrow> extract_prefix_bytes_string rd decode_len decode_len;
        Some (Inr res, rd) })"

definition decoder_extract_str_until_char :: "raw_data_s \<Rightarrow> u8 \<Rightarrow> bytes decoded" where [decoder_defs]:
  "decoder_extract_str_until_char rd search_char =
     (case find (\<lambda>i. rd_data rd ! i = search_char) [rd_current_pos rd..<data_len rd] of
        None \<Rightarrow> Some (Inl STATE_NOT_FOUND, rd)
      | Some search_char_pos \<Rightarrow> do {
          let decode_len = search_char_pos - rd_current_pos rd;
          (res, rd) \<leftarrow> extract_prefix_bytes_string rd decode_len (decode_len + 1);
          Some (Inr res, rd) })"

text \<open>
  \<^verbatim>\<open>memmem_custom\<close>: the last position to try is a difference of two \<^verbatim>\<open>size_t\<close>, which
  wraps when the haystack is shorter than the needle, and \<^verbatim>\<open>memcmp\<close> then reads behind the
  haystack.
\<close>

function memmem_loop :: "bytes \<Rightarrow> bytes \<Rightarrow> nat \<Rightarrow> nat \<Rightarrow> nat option well_defined" where
  "memmem_loop haystack needle last_pos i =
     (if last_pos < i then Some None
      else if length haystack < i + length needle then None
      else if take (length needle) (drop i haystack) = needle then Some (Some i)
      else memmem_loop haystack needle last_pos (i + 1))"
  by pat_completeness auto
termination
  by (relation "measure (\<lambda>(_, _, last_pos, i). last_pos + 1 - i)") auto

declare memmem_loop.simps [simp del]

definition memmem_custom :: "bytes \<Rightarrow> bytes \<Rightarrow> nat option well_defined" where
  "memmem_custom haystack needle =
     (if needle = [] then Some (Some 0)
      else memmem_loop haystack needle (usize_sub (length haystack) (length needle)) 0)"

definition decoder_extract_str_until_str :: "raw_data_s \<Rightarrow> bytes \<Rightarrow> bytes decoded" where [decoder_defs]:
  "decoder_extract_str_until_str rd search_str = do {
     found \<leftarrow> memmem_custom (drop (rd_current_pos rd) (rd_data rd)) search_str;
     case found of
       None \<Rightarrow> Some (Inl STATE_NOT_FOUND, rd)
     | Some str_pos \<Rightarrow> do {
         (res, rd) \<leftarrow> extract_prefix_bytes_string rd str_pos (str_pos + length search_str);
         Some (Inr res, rd) } }"

definition decoder_extract_prefix_ignore :: "raw_data_s \<Rightarrow> nat \<Rightarrow> unit decoded" where [decoder_defs]:
  "decoder_extract_prefix_ignore rd prefix_len =
     (if unconsumed_len rd < prefix_len then Some (Inl STATE_NEEDS_MORE_DATA, rd)
      else Some (Inr (), parser_raw_data_offset rd prefix_len))"

subsection \<open>\<^verbatim>\<open>frame_decoder.c\<close>\<close>

text \<open>
  The argument \<^verbatim>\<open>int32_t len\<close> is converted to \<^verbatim>\<open>size_t\<close>: a negative length becomes a
  length no buffer has.
\<close>

definition decode_bytes_core :: "raw_data_s \<Rightarrow> 32 word \<Rightarrow> bytes decoded" where [decoder_defs]:
  "decode_bytes_core rd len = decoder_extract_string rd (unat (scast len :: u64))"

text \<open>
  The loop runs over the shifts 0, 7, 14, up to the given length, an unsigned byte.  A
  \<^verbatim>\<open>char\<close> is signed, so its conversion to 64 bits extends the sign; a missing byte does not
  end the loop.
\<close>

fun decode_unsigned_int_loop :: "nat list \<Rightarrow> u64 \<Rightarrow> raw_data_s \<Rightarrow> u64 decoded" where
  "decode_unsigned_int_loop [] val rd = Some (Inl STATE_INVALID, rd)"
| "decode_unsigned_int_loop (i # is) val rd = do {
     (r, rd) \<leftarrow> decoder_extract_char rd;
     case r of
       Inl _ \<Rightarrow> decode_unsigned_int_loop is val rd
     | Inr char_res \<Rightarrow>
         (let b = scast char_res :: u64 in
          if b AND 0x80 = 0 then Some (Inr (val OR push_bit i b), rd)
          else decode_unsigned_int_loop is (val OR push_bit i (b AND 0x7f)) rd) }"

definition decode_unsigned_int_core :: "raw_data_s \<Rightarrow> nat \<Rightarrow> u64 decoded" where
  "decode_unsigned_int_core rd max_length =
     decode_unsigned_int_loop (filter (\<lambda>i. i mod 7 = 0) [0..<max_length]) 0 rd"

definition decode_unsigned_int :: "raw_data_s \<Rightarrow> 32 word decoded" where
  "decode_unsigned_int rd = do {
     (r, rd) \<leftarrow> decode_unsigned_int_core rd 35;
     Some (case r of Inl _ \<Rightarrow> Inl STATE_INVALID | Inr v \<Rightarrow> Inr (ucast v), rd) }"

definition decode_string_int16 :: "raw_data_s \<Rightarrow> bytes decoded" where
  "decode_string_int16 rd = do {
     (r, rd) \<leftarrow> decoder_extract_int rd;
     case r of
       Inl _ \<Rightarrow> Some (Inl STATE_INVALID, rd)
     | Inr len \<Rightarrow> decode_bytes_core rd (scast (len :: 16 word)) }"

subsection \<open>What the decoders consume\<close>

definition raw_ok :: "raw_data_s \<Rightarrow> bool" where
  "raw_ok rd \<longleftrightarrow> rd_current_pos rd \<le> data_len rd"

definition remaining :: "raw_data_s \<Rightarrow> bytes" where
  "remaining rd = drop (rd_current_pos rd) (rd_data rd)"

definition consumed :: "raw_data_s \<Rightarrow> nat \<Rightarrow> raw_data_s" where
  "consumed rd n = rd\<lparr>rd_current_pos := rd_current_pos rd + n\<rparr>"

lemma consumed_0 [simp]: "consumed rd 0 = rd"
  by (simp add: consumed_def)

lemma consumed_consumed [simp]: "consumed (consumed rd m) n = consumed rd (m + n)"
  by (simp add: consumed_def add.assoc)

lemma remaining_consumed [simp]: "remaining (consumed rd n) = drop n (remaining rd)"
  by (simp add: remaining_def consumed_def add.commute)

lemma consumed_sel [simp]:
  "rd_data (consumed rd n) = rd_data rd" "rd_current_pos (consumed rd n) = rd_current_pos rd + n"
  "rd_timestamp_ns (consumed rd n) = rd_timestamp_ns rd" "rd_index (consumed rd n) = rd_index rd"
  "rd_flags (consumed rd n) = rd_flags rd" "rd_isBrokeData (consumed rd n) = rd_isBrokeData rd"
  "data_len (consumed rd n) = data_len rd"
  by (simp_all add: consumed_def data_len_def)

lemma length_remaining: "length (remaining rd) = data_len rd - rd_current_pos rd"
  by (simp add: remaining_def data_len_def)

lemma raw_ok_consumed: "raw_ok rd \<Longrightarrow> n \<le> length (remaining rd) \<Longrightarrow> raw_ok (consumed rd n)"
  by (auto simp: raw_ok_def length_remaining)

lemma unconsumed_ok: "raw_ok rd \<Longrightarrow> unconsumed_len rd = length (remaining rd)"
  by (simp add: unconsumed_len_def usize_sub_def raw_ok_def length_remaining)

lemma offset_ok: "raw_ok rd \<Longrightarrow> n \<le> length (remaining rd) \<Longrightarrow> parser_raw_data_offset rd n = consumed rd n"
  by (simp add: parser_raw_data_offset_def unconsumed_ok consumed_def)

lemma bytes_at_ok: "raw_ok rd \<Longrightarrow> n \<le> length (remaining rd) \<Longrightarrow> bytes_at rd n = Some (take n (remaining rd))"
  by (auto simp: bytes_at_def raw_ok_def length_remaining) (simp add: remaining_def)

text \<open>A decoder that takes the next \<open>n\<close> bytes or asks for more data.\<close>

definition take_bytes :: "nat \<Rightarrow> (bytes \<Rightarrow> 'a) \<Rightarrow> raw_data_s \<Rightarrow> 'a decoded" where
  "take_bytes n f rd = Some
     (if length (remaining rd) < n then (Inl STATE_NEEDS_MORE_DATA, rd)
      else (Inr (f (take n (remaining rd))), consumed rd n))"

lemma fixed_size_decoders:
  assumes "raw_ok rd"
  shows "decoder_extract_char rd = take_bytes 1 hd rd"
    and "decoder_extract_char_array rd n = take_bytes n id rd"
    and "decoder_extract_int rd = take_bytes (LENGTH('a::len) div 8) (big_endian_bytes_to :: bytes \<Rightarrow> 'a word) rd"
    and "decoder_extract_string rd n = take_bytes n id rd"
    and "decoder_extract_raw_data_with_len rd n = take_bytes n init_raw_data_with_str rd"
    and "decoder_extract_prefix_ignore rd n = take_bytes n (\<lambda>_. ()) rd"
proof -
  have "index_at (rd_data rd) (rd_current_pos rd) = Some (hd (take 1 (remaining rd)))"
    if "1 \<le> length (remaining rd)"
    using that assms
    by (auto simp: index_at_def length_remaining data_len_def) (simp add: remaining_def hd_drop_conv_nth data_len_def)
  then show "decoder_extract_char rd = take_bytes 1 hd rd"
    using assms by (auto simp: decoder_extract_char_def take_bytes_def unconsumed_ok offset_ok Suc_le_eq)
qed (use assms in \<open>auto simp: decoder_defs take_bytes_def unconsumed_ok offset_ok bytes_at_ok\<close>)

lemma take_bytes_cases:
  assumes "take_bytes n f rd = Some (r, rd')"
  shows "rd' = rd \<and> r = Inl STATE_NEEDS_MORE_DATA \<and> length (remaining rd) < n \<or>
    rd' = consumed rd n \<and> r = Inr (f (take n (remaining rd))) \<and> n \<le> length (remaining rd)"
  using assms by (auto simp: take_bytes_def split: if_splits)

subsection \<open>Searching\<close>

definition occurs_at :: "bytes \<Rightarrow> bytes \<Rightarrow> nat \<Rightarrow> bool" where
  "occurs_at needle xs i \<longleftrightarrow> i + length needle \<le> length xs \<and> take (length needle) (drop i xs) = needle"

lemma memmem_loop_find:
  assumes "m + length needle = length xs" "i \<le> m + 1"
  shows "memmem_loop xs needle m i = Some (find (occurs_at needle xs) [i..<m + 1])"
  using assms
proof (induction xs needle m i rule: memmem_loop.induct)
  case (1 xs needle m i)
  show ?case
  proof (cases "m < i")
    case True
    then show ?thesis by (simp add: memmem_loop.simps)
  next
    case False
    then have "[i..<m + 1] = i # [i + 1..<m + 1]" by (simp add: upt_conv_Cons)
    moreover have "occurs_at needle xs i \<longleftrightarrow> take (length needle) (drop i xs) = needle"
      using False 1(2) by (simp add: occurs_at_def)
    ultimately show ?thesis
      using False 1 by (subst memmem_loop.simps) (simp del: upt_Suc)
  qed
qed

lemma memmem_loop_short: "length xs < length needle \<Longrightarrow> memmem_loop xs needle m 0 = None"
  by (simp add: memmem_loop.simps)

lemma memmem_custom_eq:
  assumes "needle \<noteq> []"
  shows "memmem_custom xs needle =
    (if length xs < length needle then None
     else Some (find (occurs_at needle xs) [0..<length xs - length needle + 1]))"
  using assms memmem_loop_find [of "length xs - length needle" needle xs 0]
  by (auto simp: memmem_custom_def memmem_loop_short usize_sub_def)

lemma find_upt_first:
  assumes "P i" "i < n" "\<And>j. j < i \<Longrightarrow> \<not> P j"
  shows "find P [0..<n] = Some i"
  using assms by (auto simp: find_Some_iff intro!: exI [of _ i])

lemma find_upt_SomeD: "find P [0..<n] = Some i \<Longrightarrow> i < n \<and> P i"
  by (auto simp: find_Some_iff)

lemma until_str_eq:
  assumes "raw_ok rd" "needle \<noteq> []"
  shows "decoder_extract_str_until_str rd needle =
    (if length (remaining rd) < length needle then None
     else Some (case find (occurs_at needle (remaining rd)) [0..<length (remaining rd) - length needle + 1] of
         None \<Rightarrow> (Inl STATE_NOT_FOUND, rd)
       | Some i \<Rightarrow> (Inr (take i (remaining rd)), consumed rd (i + length needle))))"
proof (cases "find (occurs_at needle (remaining rd)) [0..<length (remaining rd) - length needle + 1]")
  case None
  then show ?thesis
    by (simp add: decoder_extract_str_until_str_def memmem_custom_eq [OF assms(2)] flip: remaining_def)
next
  case (Some i)
  then have "i + length needle \<le> length (remaining rd)"
    using find_upt_SomeD [OF Some] by (simp add: occurs_at_def)
  with Some assms(1) show ?thesis
    by (simp add: decoder_extract_str_until_str_def memmem_custom_eq [OF assms(2)]
        extract_prefix_bytes_string_def bytes_at_ok offset_ok flip: remaining_def)
qed

text \<open>The buffers a parser can arrive at from a buffer, without leaving it.\<close>

definition reaches :: "raw_data_s \<Rightarrow> raw_data_s \<Rightarrow> bool" where
  "reaches rd rd' \<longleftrightarrow> (\<exists>n \<le> length (remaining rd). rd' = consumed rd n)"

lemma reaches_refl [simp]: "reaches rd rd"
  by (auto simp: reaches_def intro: exI [of _ 0])

lemma reaches_consumed: "n \<le> length (remaining rd) \<Longrightarrow> reaches rd (consumed rd n)"
  by (auto simp: reaches_def)

lemma reaches_ok: "reaches rd rd' \<Longrightarrow> raw_ok rd \<Longrightarrow> raw_ok rd'"
  by (auto simp: reaches_def raw_ok_consumed)

lemma reaches_trans: "reaches rd rd' \<Longrightarrow> reaches rd' rd'' \<Longrightarrow> reaches rd rd''"
proof -
  assume "reaches rd rd'" "reaches rd' rd''"
  then obtain m n where "m \<le> length (remaining rd)" "rd' = consumed rd m"
    "n \<le> length (remaining rd')" "rd'' = consumed rd' n" by (auto simp: reaches_def)
  then show ?thesis unfolding reaches_def by (intro exI [of _ "m + n"]) auto
qed

lemma take_bytes_reaches: "take_bytes n f rd = Some (r, rd') \<Longrightarrow> reaches rd rd'"
  by (auto dest!: take_bytes_cases intro: reaches_consumed)

lemma until_str_reaches:
  assumes "decoder_extract_str_until_str rd needle = Some (r, rd')" "raw_ok rd" "needle \<noteq> []"
  shows "reaches rd rd'"
  using assms(1) unfolding until_str_eq [OF assms(2,3)]
  by (auto simp: occurs_at_def simp del: upt_Suc split: if_splits option.splits
      dest!: find_upt_SomeD intro!: reaches_consumed)

subsection \<open>Integers\<close>

lemma or_eq_add_small:
  fixes a b :: "'a::len word"
  assumes "unat a < 2 ^ n"
  shows "a OR push_bit n b = a + push_bit n b"
proof (rule disjunctive_add [symmetric])
  fix k
  show "\<not> bit a k \<or> \<not> bit (push_bit n b) k"
    using bit_small [OF assms, of k] by (cases "n \<le> k") (auto simp: bit_simps)
qed

lemma unat_push_bit_exact:
  fixes b :: "'a::len word"
  assumes "unat b * 2 ^ n < 2 ^ LENGTH('a)"
  shows "unat (push_bit n b) = unat b * 2 ^ n"
proof -
  have "push_bit n b = of_nat (unat b * 2 ^ n)" by (simp add: push_bit_eq_mult)
  then show ?thesis using assms by (simp add: unat_of_nat take_bit_eq_mod del: of_nat_mult of_nat_power)
qed

lemma unat_u8_less [simp]: "unat b < 256" for b :: u8
  by (rule order.strict_trans2 [OF unsigned_less]) simp

text \<open>The number that a sequence of bytes stands for, most significant byte first.\<close>

definition be_value :: "bytes \<Rightarrow> nat" where
  "be_value bs = foldl (\<lambda>v b. 256 * v + unat b) 0 bs"

lemma be_value_snoc: "be_value (bs @ [b]) = 256 * be_value bs + unat b"
  by (simp add: be_value_def)

lemma be_value_less: "be_value bs < 256 ^ length bs"
proof (induction bs rule: rev_induct)
  case (snoc b bs)
  then show ?case using unat_u8_less [of b] by (simp add: be_value_snoc del: unat_u8_less)
qed (simp add: be_value_def)

lemma big_endian_value:
  assumes "8 * length bs \<le> LENGTH('a::len)"
  shows "unat (big_endian_bytes_to bs :: 'a word) = be_value bs"
  using assms
proof (induction bs rule: rev_induct)
  case Nil
  then show ?case by (simp add: big_endian_bytes_to_def be_value_def)
next
  case (snoc b bs)
  let ?r = "big_endian_bytes_to bs :: 'a word"
  from snoc have r: "unat ?r = be_value bs" by simp
  have w: "256 ^ Suc (length bs) \<le> (2 ^ LENGTH('a) :: nat)"
    using snoc.prems power_increasing [of "8 * Suc (length bs)" "LENGTH('a)" "2::nat"]
    unfolding power_mult by simp
  have b: "unat (ucast b :: 'a word) = unat b" using snoc.prems by (simp add: unat_ucast_up)
  have l: "be_value (bs @ [b]) < 256 ^ Suc (length bs)" using be_value_less [of "bs @ [b]"] by simp
  have "big_endian_bytes_to (bs @ [b]) = ucast b OR push_bit 8 ?r"
    by (simp add: big_endian_bytes_to_def)
  also have "\<dots> = ucast b + push_bit 8 ?r"
    by (intro or_eq_add_small) (simp add: b)
  also have "unat \<dots> = unat b + 256 * be_value bs"
    using l w r b unat_push_bit_exact [of ?r 8] by (subst unat_add_exact) (simp_all add: be_value_snoc)
  finally show ?case by (simp add: be_value_snoc)
qed

text \<open>Variable length integers: seven bits to a byte, least significant first.\<close>

fun varint :: "nat \<Rightarrow> bytes" where
  "varint n = (if n < 128 then [of_nat n] else of_nat (128 + n mod 128) # varint (n div 128))"

declare varint.simps [simp del]

lemma bit7_small: "\<not> bit c 7 \<Longrightarrow> unat c < 128" for c :: u8
proof -
  assume "\<not> bit c 7"
  moreover have "n < 8 \<Longrightarrow> n < 7 \<or> n = 7" for n :: nat by arith
  ultimately have "c = take_bit 7 c" by (auto intro!: bit_word_eqI simp: bit_simps) metis
  then have "unat c = unat c mod 2 ^ 7" by (metis take_bit_eq_mod unsigned_take_bit_eq)
  moreover have "unat c mod 2 ^ 7 < 128" by simp
  ultimately show ?thesis by simp
qed

lemma char_high_bit: "(scast c :: u64) AND 0x80 = 0 \<longleftrightarrow> unat c < 128" for c :: u8
proof -
  have "(scast c :: u64) AND 0x80 = 0 \<longleftrightarrow> \<not> bit c 7"
    using and_exp_eq_0_iff_not_bit [of "scast c :: u64" 7] by (simp add: bit_simps)
  also have "\<dots> \<longleftrightarrow> unat c < 128"
    using bit7_small [of c] bit_small [of c 7 7] by auto
  finally show ?thesis .
qed

lemma char_low_bits: "unat ((scast c :: u64) AND 0x7f) = unat c mod 128" for c :: u8
proof -
  have "(scast c :: u64) AND 0x7f = take_bit 7 (scast c)"
    by (simp add: take_bit_eq_mask mask_eq_exp_minus_1)
  also have "\<dots> = ucast (take_bit 7 c)"
    by (rule bit_word_eqI) (auto simp: bit_simps)
  also have "unat \<dots> = unat (take_bit 7 c)" by (rule unat_ucast_up) simp
  also have "\<dots> = unat c mod 128" unfolding unsigned_take_bit_eq by (simp add: take_bit_eq_mod)
  finally show ?thesis .
qed

lemma char_small: "unat c < 128 \<Longrightarrow> unat (scast c :: u64) = unat c" for c :: u8
proof -
  assume c: "unat c < 128"
  have "(scast c :: u64) AND 0x80 = 0" using c char_high_bit by simp
  have "scast c = (ucast c :: u64)"
  proof (rule bit_word_eqI)
    fix n
    show "bit (scast c :: u64) n \<longleftrightarrow> bit (ucast c :: u64) n" if "n < LENGTH(64)"
      using that bit_small [of c 7 n] bit_small [of c 7 7] c
      by (cases "n < 7") (auto simp: bit_simps min_def)
  qed
  then show ?thesis by (simp add: unat_ucast_up)
qed

definition varint_shifts :: "nat \<Rightarrow> nat list" where
  "varint_shifts k = map (\<lambda>j. 7 * j) [k..<5]"

lemma shifts_35: "filter (\<lambda>i. i mod 7 = 0) [0..<35] = varint_shifts 0"
  by (simp add: varint_shifts_def upt_rec)

lemma varint_or:
  fixes v x :: u64
  assumes "k < 5" "unat v < 2 ^ (7 * k)" "unat x < 128"
  shows "unat (v OR push_bit (7 * k) x) = unat v + unat x * 2 ^ (7 * k)"
proof -
  have k: "2 ^ (7 * k) \<le> (2::nat) ^ (7 * 4)" using assms(1) by (intro power_increasing) auto
  have x: "unat x * 2 ^ (7 * k) \<le> 127 * 2 ^ (7 * 4)" using assms(3) k by (intro mult_mono) auto
  then have "unat (push_bit (7 * k) x) = unat x * 2 ^ (7 * k)" by (intro unat_push_bit_exact) simp
  then show ?thesis
    unfolding or_eq_add_small [OF assms(2)] using x k assms(2) by (subst unat_add_exact) auto
qed

lemma varint_next:
  fixes n k :: nat
  assumes "n < 2 ^ (35 - 7 * k)" "\<not> n < 128" "k < 5"
  shows "Suc k < 5 \<and> n div 128 < 2 ^ (35 - 7 * Suc k)"
proof -
  have "k \<noteq> 4" using assms(1,2) by auto
  then have k: "Suc k < 5" using assms(3) by simp
  then have "35 - 7 * k = (35 - 7 * Suc k) + 7" by simp
  then have "(2::nat) ^ (35 - 7 * k) = 2 ^ (35 - 7 * Suc k) * 128" by (simp only: power_add) simp
  then show ?thesis using assms(1) k by (simp add: less_mult_imp_div_less)
qed

lemma varint_Cons:
  obtains c where "unat c = (if n < 128 then n else 128 + n mod 128)"
    "varint n = c # (if n < 128 then [] else varint (n div 128))"
proof
  let ?c = "of_nat (if n < 128 then n else 128 + n mod 128) :: u8"
  show "unat ?c = (if n < 128 then n else 128 + n mod 128)" by (simp add: unat_of_nat take_bit_eq_mod)
  show "varint n = ?c # (if n < 128 then [] else varint (n div 128))" by (subst varint.simps) simp
qed

lemma varint_loop:
  assumes "raw_ok rd" "remaining rd = varint n @ rest" "k < 5" "unat v < 2 ^ (7 * k)" "n < 2 ^ (35 - 7 * k)"
  shows "\<exists>w. decode_unsigned_int_loop (varint_shifts k) v rd
      = Some (Inr w, consumed rd (length (varint n))) \<and> unat w = unat v + n * 2 ^ (7 * k)"
  using assms
proof (induction n arbitrary: rd v k rule: varint.induct)
  case (1 n)
  obtain c where uc: "unat c = (if n < 128 then n else 128 + n mod 128)"
    and vn: "varint n = c # (if n < 128 then [] else varint (n div 128))" by (rule varint_Cons)
  have sh: "varint_shifts k = 7 * k # varint_shifts (Suc k)"
    using "1.prems"(3) by (simp add: varint_shifts_def upt_conv_Cons)
  have ch: "decoder_extract_char rd = Some (Inr c, consumed rd 1)"
    using "1.prems"(1,2) by (simp add: fixed_size_decoders(1) take_bytes_def vn)
  let ?b = "scast c :: u64"
  show ?case
  proof (cases "n < 128")
    case True
    then have "?b AND 0x80 = 0" "unat ?b = n" using uc char_high_bit [of c] char_small [of c] by auto
    then show ?thesis using True varint_or [OF "1.prems"(3,4), of ?b] by (simp add: sh ch vn)
  next
    case False
    let ?v = "v OR push_bit (7 * k) (?b AND 0x7f)"
    have v: "unat ?v = unat v + n mod 128 * 2 ^ (7 * k)"
      using varint_or [OF "1.prems"(3,4), of "?b AND 0x7f"] False uc by (simp add: char_low_bits)
    have p7: "2 ^ (7 * Suc k) = (128::nat) * 2 ^ (7 * k)" by (simp add: power_add)
    have "unat v + n mod 128 * 2 ^ (7 * k) < 2 ^ (7 * k) + 127 * 2 ^ (7 * k)"
      using "1.prems"(4) by (intro add_less_le_mono mult_mono) auto
    then have v2: "unat ?v < 2 ^ (7 * Suc k)" unfolding v p7 by simp
    have "raw_ok (consumed rd 1)" "remaining (consumed rd 1) = varint (n div 128) @ rest"
      using "1.prems"(1,2) False by (auto simp: vn intro!: raw_ok_consumed)
    from "1.IH" [OF False this _ v2] varint_next [OF "1.prems"(5) False "1.prems"(3)] obtain w where
      w: "decode_unsigned_int_loop (varint_shifts (Suc k)) ?v (consumed rd 1)
        = Some (Inr w, consumed rd (1 + length (varint (n div 128))))"
      "unat w = unat ?v + n div 128 * 2 ^ (7 * Suc k)" by auto
    have "unat w = unat v + (n mod 128 + n div 128 * 128) * 2 ^ (7 * k)"
      unfolding w(2) v p7 by (simp only: add_mult_distrib mult.assoc add.assoc)
    then have "unat w = unat v + n * 2 ^ (7 * k)" by simp
    moreover have "?b AND 0x80 \<noteq> 0" using False uc char_high_bit [of c] by simp
    ultimately show ?thesis using w(1) False by (simp add: sh ch vn Let_def)
  qed
qed

lemma decode_varint:
  assumes "raw_ok rd" "remaining rd = varint n @ rest" "n < 2 ^ 35"
  shows "\<exists>w. decode_unsigned_int_core rd 35 = Some (Inr w, consumed rd (length (varint n))) \<and> unat w = n"
  using varint_loop [of rd n rest 0 0] assms by (simp add: decode_unsigned_int_core_def shifts_35)

subsection \<open>Properties\<close>




text \<open>
  A number below 2 to the 32 written as a variable length integer is read back, and
  exactly its bytes are consumed.
\<close>

theorem varint_roundtrip:
  assumes "raw_ok rd" "remaining rd = varint n @ rest" "n < 2 ^ 32"
  shows "decode_unsigned_int rd = Some (Inr (of_nat n), consumed rd (length (varint n)))"
proof -
  from assms obtain w where "decode_unsigned_int_core rd 35 = Some (Inr w, consumed rd (length (varint n)))"
    "unat w = n" using decode_varint [of rd n rest] by auto
  moreover have "(ucast w :: u32) = of_nat (unat w)" by simp
  ultimately show ?thesis by (simp add: decode_unsigned_int_def)
qed

theorem varint_roundtrip_witness:
  "decode_unsigned_int (init_raw_data_with_str [0xAC, 0x02, 7]) =
     Some (Inr 300, consumed (init_raw_data_with_str [0xAC, 0x02, 7]) 2)"
proof -
  have "varint 300 = [0xAC, 0x02]" by (simp add: varint.simps)
  then show ?thesis
    using varint_roundtrip [of "init_raw_data_with_str [0xAC, 0x02, 7]" 300 "[7]"]
    by (simp add: raw_ok_def data_len_def remaining_def init_raw_data_with_str_def)
qed

end
