(* ===== verification/C_Strings.thy ===== *)
theory C_Strings
  imports Raw_Data
begin

section \<open>Strings of the probe\<close>

text \<open>
  The string functions of \<^verbatim>\<open>protocol/utils/string_utils.c\<close> and the functions of the C
  library they and the parsers use.  A \<^verbatim>\<open>char *\<close> that points to an allocated string is
  the list of the bytes before the terminating zero of the allocation; the string the C
  library sees ends at the first zero byte (\<open>c_str\<close>).  Characters are classified as in the C
  locale.
\<close>

definition ascii :: "string \<Rightarrow> bytes" where
  "ascii s = map of_char s"

definition c_str :: "bytes \<Rightarrow> bytes" where
  "c_str s = takeWhile (\<lambda>c. c \<noteq> 0) s"

definition strlen :: "bytes \<Rightarrow> nat" where
  "strlen s = length (c_str s)"

definition toupper :: "u8 \<Rightarrow> u8" where
  "toupper c = (if 97 \<le> c \<and> c \<le> 122 then c - 32 else c)"

definition tolower :: "u8 \<Rightarrow> u8" where
  "tolower c = (if 65 \<le> c \<and> c \<le> 90 then c + 32 else c)"

definition isspace :: "u8 \<Rightarrow> bool" where
  "isspace c \<longleftrightarrow> c = 32 \<or> 9 \<le> c \<and> c \<le> 13"

definition isdigit :: "u8 \<Rightarrow> bool" where
  "isdigit c \<longleftrightarrow> 48 \<le> c \<and> c \<le> 57"

definition strcasecmp_eq :: "bytes \<Rightarrow> bytes \<Rightarrow> bool" where
  "strcasecmp_eq s t \<longleftrightarrow> map tolower (c_str s) = map tolower (c_str t)"

text \<open>
  \<^verbatim>\<open>strtol\<close> with base 10, for a number that fits a \<^verbatim>\<open>long\<close>: the value, and the rest of
  the string the end pointer points to (all of it when there is no digit).
\<close>

definition digits_value :: "bytes \<Rightarrow> int" where
  "digits_value ds = foldl (\<lambda>v c. 10 * v + (uint c - 48)) 0 ds"

definition strtol10 :: "bytes \<Rightarrow> int \<times> bytes" where
  "strtol10 s = (let
     s = c_str s;
     t = dropWhile isspace s;
     (neg, u) = (case t of c # cs \<Rightarrow> if c = 45 then (True, cs) else if c = 43 then (False, cs) else (False, t)
                 | [] \<Rightarrow> (False, t));
     ds = takeWhile isdigit u
   in if ds = [] then (0, s)
      else (if neg then - digits_value ds else digits_value ds, dropWhile isdigit u))"

subsection \<open>\<^verbatim>\<open>string_utils.c\<close>\<close>

definition substr :: "bytes \<Rightarrow> nat \<Rightarrow> nat \<Rightarrow> bytes" where
  "substr src_str start_pos len =
     (let s = take len (c_str (drop start_pos src_str)) in s @ replicate (len - length s) 0)"

text \<open>The result \<open>(size_t)-1\<close> of the searches is \<^const>\<open>None\<close>.\<close>

definition find_str :: "bytes \<Rightarrow> bytes \<Rightarrow> nat \<Rightarrow> nat option" where
  "find_str str sub start_pos =
     (if strlen str < strlen sub then None
      else find (\<lambda>i. take (strlen sub) (drop i (c_str str)) = c_str sub)
             [start_pos..<strlen str - strlen sub + 1])"

definition rfind_str :: "bytes \<Rightarrow> bytes \<Rightarrow> nat option" where
  "rfind_str str sub =
     (if strlen str < strlen sub then None
      else find (\<lambda>i. take (strlen sub) (drop i (c_str str)) = c_str sub)
             (rev [0..<strlen str - strlen sub + 1]))"

definition starts_with :: "bytes \<Rightarrow> bytes \<Rightarrow> bool" where
  "starts_with str prefix \<longleftrightarrow> take (strlen prefix) (c_str str) = c_str prefix"

definition is_end_with :: "bytes \<Rightarrow> bytes \<Rightarrow> bool" where
  "is_end_with str suffix \<longleftrightarrow>
     (if strlen str < strlen suffix then False
      else drop (strlen str - strlen suffix) (c_str str) = c_str suffix)"

definition remove_suffix :: "bytes \<Rightarrow> nat \<Rightarrow> bytes" where
  "remove_suffix str n =
     (let len = strlen str in if n > len then str else str[len - n := 0])"

definition str_to_upper :: "bytes \<Rightarrow> bytes" where
  "str_to_upper str = map toupper (c_str str) @ drop (strlen str) str"

fun hex_digits :: "bytes \<Rightarrow> 32 word \<Rightarrow> 32 word" where
  "hex_digits [] result = result"
| "hex_digits (h # hs) result =
     (let c = tolower h in
      if isdigit c then hex_digits hs (result * 16 + (ucast c - 48))
      else if 97 \<le> c \<and> c \<le> 102 then hex_digits hs (result * 16 + (ucast c - 97 + 10))
      else result)"

definition simple_hex_atoi :: "bytes \<Rightarrow> 32 word" where
  "simple_hex_atoi hex_str =
     (let s = dropWhile isspace (c_str hex_str);
          s = (case s of a # b # t \<Rightarrow> if a = 48 \<and> tolower b = 120 then t else s | _ \<Rightarrow> s)
      in hex_digits s 0)"

subsection \<open>Lemmas\<close>

lemma c_str_no_zero: "0 \<notin> set s \<Longrightarrow> c_str s = s"
  by (auto simp: c_str_def takeWhile_eq_all_conv)

lemma zero_notin_c_str [simp]: "0 \<notin> set (c_str s)"
  by (auto simp: c_str_def dest: set_takeWhileD)

lemma c_str_idem [simp]: "c_str (c_str s) = c_str s"
  by (simp add: c_str_no_zero)

lemma c_str_append: "0 \<notin> set s \<Longrightarrow> c_str (s @ t) = s @ c_str t"
  by (induction s) (auto simp: c_str_def)

lemma c_str_append_zero: "0 \<in> set s \<Longrightarrow> c_str (s @ t) = c_str s"
  by (auto simp: c_str_def takeWhile_append1)

lemma remove_suffix_append:
  assumes "0 \<notin> set s" "0 \<notin> set t" "t \<noteq> []"
  shows "c_str (remove_suffix (s @ t) (length t)) = s"
proof -
  obtain c u where t: "t = c # u" using assms(3) by (cases t) auto
  have "remove_suffix (s @ t) (length t) = s @ 0 # u"
    using assms by (simp add: remove_suffix_def strlen_def c_str_no_zero t list_update_append)
  then show ?thesis using assms(1) by (simp add: c_str_append) (simp add: c_str_def)
qed

end
