(* ===== verification/Redis_Parser.thy ===== *)
theory Redis_Parser
  imports C_Strings
begin

section \<open>The Redis parser\<close>

text \<open>
  \<^verbatim>\<open>protocol/redis/redis_parser.c\<close> and \<^verbatim>\<open>format.c\<close>.  A message is parsed recursively:
  the recursion is a function with a termination proof, since every message takes at least
  its type marker.  The JSON library that prints an array without a command is a parameter.

  A parser returns its state and the message as it is left behind, since the caller of a
  nested message looks at the payload before it looks at the state.
\<close>

subsection \<open>Messages\<close>

record redis_msg_s =
  rm_is_fake_msg :: bool
  rm_timestamp_ns :: u64
  rm_payload :: "bytes option"
  rm_command :: "bytes option"
  rm_is_pub_msg :: bool
  rm_single_reply_msg_count :: nat
  rm_single_reply_error_msg_count :: nat

definition init_redis_msg :: redis_msg_s where
  "init_redis_msg = \<lparr>rm_is_fake_msg = False, rm_timestamp_ns = 0, rm_payload = None, rm_command = None,
     rm_is_pub_msg = False, rm_single_reply_msg_count = 0, rm_single_reply_error_msg_count = 0\<rparr>"

definition count_reply :: "message_type_t \<Rightarrow> redis_msg_s \<Rightarrow> redis_msg_s" where
  "count_reply msg_type msg =
     (if msg_type = MESSAGE_RESPONSE
      then msg\<lparr>rm_single_reply_msg_count := rm_single_reply_msg_count msg + 1\<rparr> else msg)"

subsection \<open>Commands and formatting\<close>

definition redis_cmd :: "bytes list" where
  "redis_cmd = map ascii [
   ''ACL LOAD'', ''ACL SAVE'', ''ACL LIST'', ''ACL USERS'', ''ACL GETUSER'', ''ACL SETUSER'',
     ''ACL DELUSER'', ''ACL CAT'', ''ACL GENPASS'', ''ACL WHOAMI'', ''ACL LOG'', ''ACL HELP'',
     ''APPEND'', ''AUTH'', ''BGREWRITEAOF'', ''BGSAVE'', ''BITCOUNT'', ''BITFIELD'', ''BITOP'',
     ''BITPOS'', ''BLPOP'', ''BRPOP'', ''BRPOPLPUSH'', ''BLMOVE'', ''BZPOPMIN'', ''BZPOPMAX'',
     ''CLIENT CACHING'', ''CLIENT ID'', ''CLIENT INFO'', ''CLIENT KILL'', ''CLIENT LIST'',
     ''CLIENT GETNAME'', ''CLIENT GETREDIR'', ''CLIENT UNPAUSE'', ''CLIENT PAUSE'',
     ''CLIENT REPLY'', ''CLIENT SETNAME'', ''CLIENT TRACKING'', ''CLIENT TRACKINGINFO'',
     ''CLIENT UNBLOCK'', ''CLUSTER ADDSLOTS'', ''CLUSTER BUMPEPOCH'',
     ''CLUSTER COUNT-FAILURE-REPORTS'', ''CLUSTER COUNTKEYSINSLOT'', ''CLUSTER DELSLOTS'',
     ''CLUSTER FAILOVER'', ''CLUSTER FLUSHSLOTS'', ''CLUSTER FORGET'',
     ''CLUSTER GETKEYSINSLOT'', ''CLUSTER INFO'', ''CLUSTER KEYSLOT'', ''CLUSTER MEET'',
     ''CLUSTER MYID'', ''CLUSTER NODES'', ''CLUSTER REPLICATE'', ''CLUSTER RESET'',
     ''CLUSTER SAVECONFIG'', ''CLUSTER SET-CONFIG-EPOCH'', ''CLUSTER SETSLOT'',
     ''CLUSTER SLAVES'', ''CLUSTER REPLICAS'', ''CLUSTER SLOTS'', ''COMMAND'',
     ''COMMAND COUNT'', ''COMMAND GETKEYS'', ''COMMAND INFO'', ''CONFIG GET'',
     ''CONFIG REWRITE'', ''CONFIG SET'', ''CONFIG RESETSTAT'', ''COPY'', ''DBSIZE'',
     ''DEBUG OBJECT'', ''DEBUG SEGFAULT'', ''DECR'', ''DECRBY'', ''DEL'', ''DISCARD'',
     ''DUMP'', ''ECHO'', ''EVAL'', ''EVALSHA'', ''EXEC'', ''EXISTS'', ''EXPIRE'', ''EXPIREAT'',
     ''FAILOVER'', ''FLUSHALL'', ''FLUSHDB'', ''GEOADD'', ''GEOHASH'', ''GEOPOS'', ''GEODIST'',
     ''GEORADIUS'', ''GEORADIUSBYMEMBER'', ''GEOSEARCH'', ''GEOSEARCHSTORE'', ''GET'',
     ''GETBIT'', ''GETDEL'', ''GETEX'', ''GETRANGE'', ''GETSET'', ''HDEL'', ''HELLO'',
     ''HEXISTS'', ''HGET'', ''HGETALL'', ''HINCRBY'', ''HINCRBYFLOAT'', ''HKEYS'', ''HLEN'',
     ''HMGET'', ''HMSET'', ''HSET'', ''HSETNX'', ''HRANDFIELD'', ''HSTRLEN'', ''HVALS'',
     ''INCR'', ''INCRBY'', ''INCRBYFLOAT'', ''INFO'', ''LOLWUT'', ''KEYS'', ''LASTSAVE'',
     ''LINDEX'', ''LINSERT'', ''LLEN'', ''LPOP'', ''LPOS'', ''LPUSH'', ''LPUSHX'', ''LRANGE'',
     ''LREM'', ''LSET'', ''LTRIM'', ''MEMORY DOCTOR'', ''MEMORY HELP'',
     ''MEMORY MALLOC-STATS'', ''MEMORY PURGE'', ''MEMORY STATS'', ''MEMORY USAGE'', ''MGET'',
     ''MIGRATE'', ''MODULE LIST'', ''MODULE LOAD'', ''MODULE UNLOAD'', ''MONITOR'', ''MOVE'',
     ''MSET'', ''MSETNX'', ''MULTI'', ''OBJECT'', ''PERSIST'', ''PEXPIRE'', ''PEXPIREAT'',
     ''PFADD'', ''PFCOUNT'', ''PFMERGE'', ''PING'', ''PSETEX'', ''PSUBSCRIBE'', ''PUBSUB'',
     ''PTTL'', ''PUBLISH'', ''PUNSUBSCRIBE'', ''QUIT'', ''RANDOMKEY'', ''READONLY'',
     ''READWRITE'', ''RENAME'', ''RENAMENX'', ''RESET'', ''RESTORE'', ''ROLE'', ''RPOP'',
     ''RPOPLPUSH'', ''LMOVE'', ''RPUSH'', ''RPUSHX'', ''SADD'', ''SAVE'', ''SCARD'',
     ''SCRIPT DEBUG'', ''SCRIPT EXISTS'', ''SCRIPT FLUSH'', ''SCRIPT KILL'', ''SCRIPT LOAD'',
     ''SDIFF'', ''SDIFFSTORE'', ''SELECT'', ''SET'', ''SETBIT'', ''SETEX'', ''SETNX'',
     ''SETRANGE'', ''SHUTDOWN'', ''SINTER'', ''SINTERSTORE'', ''SISMEMBER'', ''SMISMEMBER'',
     ''SLAVEOF'', ''REPLICAOF'', ''SLOWLOG'', ''SMEMBERS'', ''SMOVE'', ''SORT'', ''SPOP'',
     ''SRANDMEMBER'', ''SREM'', ''STRALGO'', ''STRLEN'', ''SUBSCRIBE'', ''SUNION'',
     ''SUNIONSTORE'', ''SWAPDB'', ''SYNC'', ''PSYNC'', ''TIME'', ''TOUCH'', ''TTL'', ''TYPE'',
     ''UNSUBSCRIBE'', ''UNLINK'', ''UNWATCH'', ''WAIT'', ''WATCH'', ''ZADD'', ''ZCARD'',
     ''ZCOUNT'', ''ZDIFF'', ''ZDIFFSTORE'', ''ZINCRBY'', ''ZINTER'', ''ZINTERSTORE'',
     ''ZLEXCOUNT'', ''ZPOPMAX'', ''ZPOPMIN'', ''ZRANDMEMBER'', ''ZRANGESTORE'', ''ZRANGE'',
     ''ZRANGEBYLEX'', ''ZREVRANGEBYLEX'', ''ZRANGEBYSCORE'', ''ZRANK'', ''ZREM'',
     ''ZREMRANGEBYLEX'', ''ZREMRANGEBYRANK'', ''ZREMRANGEBYSCORE'', ''ZREVRANGE'',
     ''ZREVRANGEBYSCORE'', ''ZREVRANK'', ''ZSCORE'', ''ZUNION'', ''ZMSCORE'', ''ZUNIONSTORE'',
     ''SCAN'', ''SSCAN'', ''HSCAN'', ''ZSCAN'', ''XINFO'', ''XADD'', ''XTRIM'', ''XDEL'',
     ''XRANGE'', ''XREVRANGE'', ''XLEN'', ''XREAD'', ''XGROUP'', ''XREADGROUP'', ''XACK'',
     ''XCLAIM'', ''XAUTOCLAIM'', ''XPENDING'', ''LATENCY DOCTOR'', ''LATENCY GRAPH'',
     ''LATENCY HISTORY'', ''LATENCY LATEST'', ''LATENCY RESET'', ''LATENCY HELP'',
     ''SENTINEL'', ''REPLCONF ACK'']"

definition find_cmd :: "bytes \<Rightarrow> bool" where
  "find_cmd opt_cmd \<longleftrightarrow> c_str opt_cmd \<in> set redis_cmd"

text \<open>
  \<^verbatim>\<open>get_redis_cmd\<close>: the command and the arguments that are left, or no command and the
  arguments with the first one in upper case.
\<close>

definition get_redis_cmd :: "bytes list \<Rightarrow> bytes option \<times> bytes list" where
  "get_redis_cmd payloads = (case payloads of
     [] \<Rightarrow> (None, [])
   | first # rest \<Rightarrow>
       (let single = (let opt_cmd = str_to_upper first in
                      if find_cmd opt_cmd then (Some (c_str opt_cmd), rest) else (None, opt_cmd # rest))
        in case rest of
             [] \<Rightarrow> single
           | second # args \<Rightarrow>
               (let opt_cmd = str_to_upper (c_str first @ ascii '' '' @ c_str second) in
                if find_cmd opt_cmd then (Some (c_str opt_cmd), args) else single)))"

fun format_as_str_separated_by_space :: "bytes list \<Rightarrow> bytes" where
  "format_as_str_separated_by_space [] = []"
| "format_as_str_separated_by_space [str] = c_str str"
| "format_as_str_separated_by_space (str # strs) =
     c_str str @ ascii '' '' @ format_as_str_separated_by_space strs"

definition format_array_msg :: "(bytes list \<Rightarrow> bytes) \<Rightarrow> bytes list \<Rightarrow> redis_msg_s \<Rightarrow> bytes list \<times> redis_msg_s" where
  "format_array_msg json payloads msg = (case get_redis_cmd payloads of
     (None, payloads) \<Rightarrow> (payloads, msg\<lparr>rm_payload := Some (json payloads)\<rparr>)
   | (Some command, payloads) \<Rightarrow>
       (payloads, msg\<lparr>rm_command := Some command, rm_payload := Some (format_as_str_separated_by_space payloads)\<rparr>))"

subsection \<open>Parsing\<close>

definition TERMINAL_SEQUENCE :: bytes where
  "TERMINAL_SEQUENCE = [13, 10]"

definition SIMPLE_STRING_MARKER :: u8 where "SIMPLE_STRING_MARKER = 43"
definition ERROR_MARKER :: u8 where "ERROR_MARKER = 45"
definition INTEGER_MARKER :: u8 where "INTEGER_MARKER = 58"
definition BULK_STRINGS_MARKER :: u8 where "BULK_STRINGS_MARKER = 36"
definition ARRAY_MARKER :: u8 where "ARRAY_MARKER = 42"

lemmas redis_markers = SIMPLE_STRING_MARKER_def ERROR_MARKER_def INTEGER_MARKER_def
  BULK_STRINGS_MARKER_def ARRAY_MARKER_def

text \<open>The \<^verbatim>\<open>long\<close> result of \<^verbatim>\<open>strtol\<close> is assigned to an \<^verbatim>\<open>int\<close>.\<close>

definition parse_size :: "raw_data_s \<Rightarrow> int decoded" where
  "parse_size rd = do {
     (r, rd) \<leftarrow> decoder_extract_str_until_str rd TERMINAL_SEQUENCE;
     case r of
       Inl state \<Rightarrow> Some (Inl state, rd)
     | Inr size_str \<Rightarrow>
         (if strlen size_str > 16 then Some (Inl STATE_INVALID, rd)
          else
            let (v, end) = strtol10 size_str;
                size = sint (word_of_int v :: 32 word)
            in if end \<noteq> [] then Some (Inl STATE_INVALID, rd)
               else if size < -1 then Some (Inl STATE_INVALID, rd)
               else Some (Inr size, rd)) }"

definition is_pub_msg :: "bytes list \<Rightarrow> bool" where
  "is_pub_msg payloads \<longleftrightarrow>
     (if length payloads < 3 then False
      else if strcasecmp_eq (hd payloads) (ascii ''MESSAGE'') then False
      else True)"

definition parse_bulk_string_msg :: "raw_data_s \<Rightarrow> redis_msg_s \<Rightarrow> (parse_state_t \<times> redis_msg_s \<times> raw_data_s) well_defined" where
  "parse_bulk_string_msg rd msg = do {
     (r, rd) \<leftarrow> parse_size rd;
     case r of
       Inl state \<Rightarrow> Some (state, msg, rd)
     | Inr len \<Rightarrow>
         (if len > 512 * 1024 * 1024 then Some (STATE_INVALID, msg, rd)
          else if len = -1 then Some (STATE_SUCCESS, msg\<lparr>rm_payload := Some (ascii ''<NULL>'')\<rparr>, rd)
          else do {
            (r, rd) \<leftarrow> decoder_extract_string rd (nat len + 2);
            case r of
              Inl state \<Rightarrow> Some (state, msg, rd)
            | Inr payload \<Rightarrow>
                (if \<not> is_end_with payload TERMINAL_SEQUENCE then Some (STATE_INVALID, msg, rd)
                 else Some (STATE_SUCCESS, msg\<lparr>rm_payload := Some (remove_suffix payload 2)\<rparr>, rd)) }) }"

definition parse_line_msg :: "raw_data_s \<Rightarrow> redis_msg_s \<Rightarrow> (parse_state_t \<times> redis_msg_s \<times> raw_data_s) well_defined" where
  "parse_line_msg rd msg = do {
     (r, rd) \<leftarrow> decoder_extract_str_until_str rd TERMINAL_SEQUENCE;
     Some (case r of Inl state \<Rightarrow> (state, msg, rd)
           | Inr str \<Rightarrow> (STATE_SUCCESS, msg\<lparr>rm_payload := Some str\<rparr>, rd)) }"

definition parse_error_msg ::
  "message_type_t \<Rightarrow> raw_data_s \<Rightarrow> redis_msg_s \<Rightarrow> (parse_state_t \<times> redis_msg_s \<times> raw_data_s) well_defined" where
  "parse_error_msg msg_type rd msg = do {
     (r, rd) \<leftarrow> decoder_extract_str_until_str rd TERMINAL_SEQUENCE;
     Some (case r of Inl state \<Rightarrow> (state, msg, rd)
           | Inr str \<Rightarrow>
               (let msg = msg\<lparr>rm_payload := Some (ascii ''-'' @ c_str str)\<rparr>;
                    msg = (if msg_type = MESSAGE_RESPONSE
                           then msg\<lparr>rm_single_reply_error_msg_count := rm_single_reply_error_msg_count msg + 1,
                                    rm_single_reply_msg_count := rm_single_reply_msg_count msg + 1\<rparr>
                           else msg)
                in (STATE_SUCCESS, msg, rd))) }"

text \<open>What \<^verbatim>\<open>parse_array_msg\<close> does once all its elements are parsed.\<close>

definition finish_array_msg :: "(bytes list \<Rightarrow> bytes) \<Rightarrow> message_type_t \<Rightarrow> bytes list \<Rightarrow> redis_msg_s \<Rightarrow> redis_msg_s" where
  "finish_array_msg json msg_type payloads msg =
     (let (payloads, msg) = format_array_msg json payloads msg
      in if msg_type = MESSAGE_REQUEST \<and> is_pub_msg payloads then msg\<lparr>rm_is_pub_msg := True\<rparr> else msg)"

definition bytes_left :: "raw_data_s \<Rightarrow> nat" where
  "bytes_left rd = data_len rd - rd_current_pos rd"

lemma decoder_extract_char_progress:
  assumes "decoder_extract_char rd = Some (Inr c, rd')"
  shows "bytes_left rd' < bytes_left rd"
  using assms
  by (auto simp: bytes_left_def decoder_extract_char_def index_at_def parser_raw_data_offset_def data_len_def
      split: if_splits bind_splits)

lemma until_str_progress:
  assumes "decoder_extract_str_until_str rd s = Some (r, rd')"
  shows "bytes_left rd' \<le> bytes_left rd"
  using assms
  by (auto simp: bytes_left_def decoder_extract_str_until_str_def extract_prefix_bytes_string_def bytes_at_def
      parser_raw_data_offset_def data_len_def split: if_splits bind_splits option.splits)

lemma parse_size_progress:
  assumes "parse_size rd = Some (r, rd')"
  shows "bytes_left rd' \<le> bytes_left rd"
  using assms
  by (auto simp: parse_size_def Let_def split: bind_splits sum.splits if_splits prod.splits
      dest!: until_str_progress)

declare sum.case_cong [fundef_cong]

function (domintros) parse_msg_recursive ::
  "(bytes list \<Rightarrow> bytes) \<Rightarrow> message_type_t \<Rightarrow> raw_data_s \<Rightarrow> redis_msg_s \<Rightarrow>
   (parse_state_t \<times> redis_msg_s \<times> raw_data_s) well_defined"
and parse_array_items ::
  "(bytes list \<Rightarrow> bytes) \<Rightarrow> message_type_t \<Rightarrow> nat \<Rightarrow> raw_data_s \<Rightarrow> redis_msg_s \<Rightarrow> bytes list \<Rightarrow>
   (parse_state_t \<times> redis_msg_s \<times> bytes list \<times> raw_data_s) well_defined"
where
  "parse_msg_recursive json msg_type rd msg = do {
     (r, rd) \<leftarrow> decoder_extract_char rd;
     case r of
       Inl state \<Rightarrow> Some (state, msg, rd)
     | Inr type_marker \<Rightarrow>
         (if type_marker = SIMPLE_STRING_MARKER then parse_line_msg rd (count_reply msg_type msg)
          else if type_marker = BULK_STRINGS_MARKER then parse_bulk_string_msg rd (count_reply msg_type msg)
          else if type_marker = ERROR_MARKER then parse_error_msg msg_type rd msg
          else if type_marker = INTEGER_MARKER then parse_line_msg rd (count_reply msg_type msg)
          else if type_marker = ARRAY_MARKER then do {
            (r, rd) \<leftarrow> parse_size rd;
            case r of
              Inl state \<Rightarrow> Some (state, msg, rd)
            | Inr len \<Rightarrow>
                (if len = -1 then Some (STATE_SUCCESS, msg\<lparr>rm_payload := Some (ascii ''[NULL]'')\<rparr>, rd)
                 else do {
                   (state, msg, payloads, rd) \<leftarrow> parse_array_items json msg_type (nat len) rd msg [];
                   if state = STATE_SUCCESS
                   then Some (STATE_SUCCESS, finish_array_msg json msg_type payloads msg, rd)
                   else Some (state, msg, rd) }) }
          else Some (STATE_INVALID, msg, rd)) }"
| "parse_array_items json msg_type 0 rd msg payloads = Some (STATE_SUCCESS, msg, payloads, rd)"
| "parse_array_items json msg_type (Suc n) rd msg payloads = do {
     (state, tmp_msg, rd) \<leftarrow> parse_msg_recursive json msg_type rd init_redis_msg;
     case rm_payload tmp_msg of
       None \<Rightarrow> Some (STATE_INVALID, msg, payloads, rd)
     | Some payload \<Rightarrow>
         (if state = STATE_SUCCESS
          then parse_array_items json msg_type n rd
                 (msg\<lparr>rm_single_reply_msg_count := rm_single_reply_msg_count tmp_msg,
                     rm_single_reply_error_msg_count := rm_single_reply_error_msg_count tmp_msg\<rparr>)
                 (payloads @ [c_str payload])
          else Some (state, msg, payloads, rd)) }"
  by pat_completeness auto

lemma take_string_progress:
  assumes "decoder_extract_string rd n = Some (r, rd')"
  shows "bytes_left rd' \<le> bytes_left rd"
  using assms
  by (auto simp: bytes_left_def decoder_extract_string_def extract_prefix_bytes_string_def bytes_at_def
      parser_raw_data_offset_def data_len_def split: if_splits bind_splits)

lemma leaf_progress:
  "parse_line_msg rd msg = Some (st, m, rd') \<Longrightarrow> bytes_left rd' \<le> bytes_left rd"
  "parse_error_msg mt rd msg = Some (st, m, rd') \<Longrightarrow> bytes_left rd' \<le> bytes_left rd"
  "parse_bulk_string_msg rd msg = Some (st, m, rd') \<Longrightarrow> bytes_left rd' \<le> bytes_left rd"
  by (auto simp: parse_line_msg_def parse_error_msg_def parse_bulk_string_msg_def Let_def
      split: bind_splits sum.splits if_splits
      dest!: until_str_progress parse_size_progress take_string_progress intro: order_trans)

lemma parse_progress_partial:
  "parse_msg_recursive_parse_array_items_dom (Inl (json, mt, rd, msg)) \<Longrightarrow>
   parse_msg_recursive json mt rd msg = Some (st, m, rd') \<Longrightarrow> bytes_left rd' \<le> bytes_left rd"
  "parse_msg_recursive_parse_array_items_dom (Inr (json, mt, n, rd, msg, ps)) \<Longrightarrow>
   parse_array_items json mt n rd msg ps = Some (st, m, ps', rd') \<Longrightarrow> bytes_left rd' \<le> bytes_left rd"
proof (induction json mt rd msg and json mt n rd msg ps arbitrary: st m rd' and st m ps' rd'
    rule: parse_msg_recursive_parse_array_items.pinduct)
  case (1 json mt rd msg)
  note parse = "1.prems" [unfolded parse_msg_recursive.psimps [OF "1.hyps"]]
  then obtain r rd1 where c: "decoder_extract_char rd = Some (r, rd1)" by (auto split: bind_splits)
  show ?case
  proof (cases r)
    case (Inl state)
    then show ?thesis using parse c by (auto simp: decoder_extract_char_def split: if_splits bind_splits)
  next
    case (Inr marker)
    note c1 = decoder_extract_char_progress [OF c [unfolded Inr]]
    show ?thesis
    proof (cases "marker = ARRAY_MARKER")
      case False
      then show ?thesis using parse c Inr c1
        by (auto split: if_splits dest!: leaf_progress)
    next
      case True
      then obtain r2 rd2 where p: "parse_size rd1 = Some (r2, rd2)"
        using parse c Inr by (auto simp: redis_markers split: bind_splits)
      note p1 = parse_size_progress [OF this]
      show ?thesis
      proof (cases "\<exists>len. r2 = Inr len \<and> len \<noteq> -1")
        case False
        then show ?thesis using parse c Inr c1 p1 True p
          by (auto simp: redis_markers split: sum.splits if_splits)
      next
        case len: True
        then obtain len where r2: "r2 = Inr len" "len \<noteq> -1" by blast
        then obtain st' m' ps' where
          "parse_array_items json mt (nat len) rd2 msg [] = Some (st', m', ps', rd')"
          using parse c Inr True p by (auto simp: redis_markers split: bind_splits if_splits)
        then have "bytes_left rd' \<le> bytes_left rd2"
          using c Inr True p r2 by (intro "1.IH") (auto simp: redis_markers)
        then show ?thesis using c1 p1 by simp
      qed
    qed
  qed
next
  case (2 json mt rd msg ps)
  then show ?case by (simp add: parse_array_items.psimps)
next
  case (3 json mt n rd msg ps)
  then show ?case
    by (auto simp: parse_array_items.psimps split: bind_splits option.splits if_splits)
      (meson order_trans)
qed

termination parse_msg_recursive
proof (relation "measures [\<lambda>x. case x of Inl (_, _, rd, _) \<Rightarrow> bytes_left rd | Inr (_, _, _, rd, _, _) \<Rightarrow> bytes_left rd,
    \<lambda>x. case x of Inl _ \<Rightarrow> 0 | Inr (_, _, n, _, _, _) \<Rightarrow> Suc n]", goal_cases)
  case 1
  show ?case by simp
next
  case (2 json mt rd msg x r rd1 marker y r2 rd2 len)
  then show ?case
    using decoder_extract_char_progress [of rd marker rd1] parse_size_progress [of rd1 "Inr len" rd2] by auto
next
  case (3 json mt n rd msg ps)
  show ?case by simp
next
  case (4 json mt n rd msg ps x state y tmp rd1)
  then show ?case by (auto dest!: parse_progress_partial(1) simp: le_less)
qed

declare parse_msg_recursive.simps [simp del]

definition redis_find_frame_boundary :: "raw_data_s \<Rightarrow> nat option" where
  "redis_find_frame_boundary rd =
     find (\<lambda>pos. rd_data rd ! pos \<in> {SIMPLE_STRING_MARKER, ERROR_MARKER, INTEGER_MARKER,
                                     BULK_STRINGS_MARKER, ARRAY_MARKER})
       [rd_current_pos rd..<data_len rd]"

definition redis_parse_frame ::
  "(bytes list \<Rightarrow> bytes) \<Rightarrow> message_type_t \<Rightarrow> raw_data_s \<Rightarrow>
   (parse_state_t \<times> redis_msg_s frame_data_s option \<times> raw_data_s) well_defined" where
  "redis_parse_frame json msg_type rd =
     (if data_len rd = 0 \<or> rd_current_pos rd = data_len rd then Some (STATE_NEEDS_MORE_DATA, None, rd)
      else do {
        (state, msg, rd) \<leftarrow> parse_msg_recursive json msg_type rd init_redis_msg;
        if state \<noteq> STATE_SUCCESS then Some (state, None, rd)
        else
          let msg = msg\<lparr>rm_timestamp_ns := rd_timestamp_ns rd\<rparr>
          in Some (state, Some \<lparr>fd_msg_type = msg_type, fd_frame = msg,
                                fd_timestamp_ns = rm_timestamp_ns msg\<rparr>, rd) })"

subsection \<open>Decimal numbers\<close>

fun dec :: "nat \<Rightarrow> bytes" where
  "dec n = (if n < 10 then [48 + of_nat n] else dec (n div 10) @ [48 + of_nat (n mod 10)])"

declare dec.simps [simp del]

lemma unat_digit: "n < 10 \<Longrightarrow> unat (48 + of_nat n :: u8) = 48 + n"
  by (subst unat_add_exact) (simp_all add: unat_of_nat take_bit_eq_mod)

lemma uint_digit: "n < 10 \<Longrightarrow> uint (48 + of_nat n :: u8) = 48 + int n"
  using unat_digit [of n] by (metis of_nat_add of_nat_numeral uint_nat)

lemma isdigit_digit: "n < 10 \<Longrightarrow> isdigit (48 + of_nat n :: u8)"
  using unat_digit [of n] by (simp add: isdigit_def word_le_nat_alt)

lemma dec_digits: "d \<in> set (dec n) \<Longrightarrow> isdigit d"
  by (induction n rule: dec.induct) (subst (asm) (2) dec.simps, auto split: if_splits simp: isdigit_digit)

lemma dec_not_Nil [simp]: "dec n \<noteq> []"
  by (subst dec.simps) simp

lemma digits_value_dec: "digits_value (dec n) = int n"
proof (induction n rule: dec.induct)
  case (1 n)
  show ?case
  proof (cases "n < 10")
    case True
    then show ?thesis by (simp add: dec.simps digits_value_def uint_digit)
  next
    case False
    then have "digits_value (dec n) = 10 * digits_value (dec (n div 10)) + int (n mod 10)"
      by (subst dec.simps) (simp add: digits_value_def uint_digit)
    moreover have "int n = 10 * int (n div 10) + int (n mod 10)" by presburger
    ultimately show ?thesis using 1 False by simp
  qed
qed

lemma length_dec: "n < 10 ^ Suc k \<Longrightarrow> length (dec n) \<le> Suc k"
proof (induction k arbitrary: n)
  case (Suc k)
  show ?case
  proof (cases "n < 10")
    case False
    have "n div 10 < 10 ^ Suc k" using Suc.prems by (simp add: less_mult_imp_div_less mult.commute)
    from Suc.IH [OF this] False show ?thesis by (subst dec.simps) simp
  qed (simp add: dec.simps)
qed (simp add: dec.simps)

lemma isdigit_facts: "isdigit c \<Longrightarrow> c \<noteq> 0 \<and> c \<noteq> 45 \<and> c \<noteq> 43 \<and> c \<noteq> 13 \<and> \<not> isspace c"
  by (auto simp: isdigit_def isspace_def word_le_nat_alt unat_arith_simps)

lemma dec_no_zero: "0 \<notin> set (dec n)"
  using dec_digits isdigit_facts by blast

lemma strtol10_dec: "strtol10 (dec n) = (int n, [])"
proof -
  obtain c cs where d: "dec n = c # cs" using dec_not_Nil by (cases "dec n") auto
  have all: "takeWhile isdigit cs = cs" "dropWhile isdigit cs = []"
    using dec_digits [of _ n] by (auto simp: takeWhile_eq_all_conv d)
  have "isdigit c" using d dec_digits [of c n] by simp
  then have "strtol10 (dec n) = (digits_value (dec n), [])"
    using isdigit_facts [of c] c_str_no_zero [OF dec_no_zero, of n]
    by (simp add: strtol10_def d Let_def all)
  then show ?thesis by (simp add: digits_value_dec)
qed

lemma until_crlf:
  assumes "raw_ok rd" "remaining rd = s @ TERMINAL_SEQUENCE @ rest" "13 \<notin> set s"
  shows "decoder_extract_str_until_str rd TERMINAL_SEQUENCE = Some (Inr s, consumed rd (length s + 2))"
proof -
  have "occurs_at TERMINAL_SEQUENCE (remaining rd) (length s)"
    by (simp add: occurs_at_def assms(2))
  moreover have "\<not> occurs_at TERMINAL_SEQUENCE (remaining rd) j" if "j < length s" for j
  proof
    assume j: "occurs_at TERMINAL_SEQUENCE (remaining rd) j"
    then have "hd (drop j (remaining rd)) = 13"
      by (cases "drop j (remaining rd)") (auto simp: occurs_at_def TERMINAL_SEQUENCE_def)
    then have "remaining rd ! j = 13"
      using j by (simp add: occurs_at_def TERMINAL_SEQUENCE_def hd_drop_conv_nth)
    then show False using that assms(2,3) by (simp add: nth_append) (metis nth_mem)
  qed
  ultimately have "find (occurs_at TERMINAL_SEQUENCE (remaining rd))
      [0..<length (remaining rd) - length TERMINAL_SEQUENCE + 1] = Some (length s)"
    by (intro find_upt_first) (simp_all add: assms(2))
  then show ?thesis
    using assms(1,2) by (subst until_str_eq) (simp_all add: TERMINAL_SEQUENCE_def)
qed

lemma parse_size_dec:
  assumes "raw_ok rd" "remaining rd = dec n @ TERMINAL_SEQUENCE @ rest" "n < 2 ^ 31"
  shows "parse_size rd = Some (Inr (int n), consumed rd (length (dec n) + 2))"
proof -
  have u: "decoder_extract_str_until_str rd TERMINAL_SEQUENCE = Some (Inr (dec n), consumed rd (length (dec n) + 2))"
    by (rule until_crlf [OF assms(1,2)]) (use dec_digits isdigit_facts in blast)
  have "length (dec n) \<le> Suc 9" by (rule length_dec) (use assms(3) in simp)
  then have "strlen (dec n) \<le> 16" by (simp add: strlen_def c_str_no_zero dec_no_zero)
  moreover have "sint (word_of_int (int n) :: 32 word) = int n"
    using assms(3) by (simp add: signed_of_nat signed_take_bit_int_eq_self)
  ultimately show ?thesis by (simp add: parse_size_def u strtol10_dec)
qed

lemma parse_size_null:
  assumes "raw_ok rd" "remaining rd = ascii ''-1'' @ TERMINAL_SEQUENCE @ rest"
  shows "parse_size rd = Some (Inr (-1), consumed rd 4)"
proof -
  have "decoder_extract_str_until_str rd TERMINAL_SEQUENCE = Some (Inr (ascii ''-1''), consumed rd 4)"
    using until_crlf [OF assms] by (simp add: ascii_def)
  then show ?thesis
    by (simp add: parse_size_def strtol10_def ascii_def c_str_def strlen_def isspace_def isdigit_def digits_value_def)
qed

subsection \<open>The wire format\<close>

text \<open>
  The values of the Redis protocol, how they are written, and what the parser is meant to make
  of them.
\<close>

datatype resp = RSimple bytes | RError bytes | RInteger bytes | RBulk bytes | RNull | RNullArray
  | RArray "resp list"

fun resp_bytes :: "resp \<Rightarrow> bytes" where
  "resp_bytes (RSimple s) = SIMPLE_STRING_MARKER # s @ TERMINAL_SEQUENCE"
| "resp_bytes (RError s) = ERROR_MARKER # s @ TERMINAL_SEQUENCE"
| "resp_bytes (RInteger s) = INTEGER_MARKER # s @ TERMINAL_SEQUENCE"
| "resp_bytes (RBulk s) = BULK_STRINGS_MARKER # dec (length s) @ TERMINAL_SEQUENCE @ s @ TERMINAL_SEQUENCE"
| "resp_bytes RNull = BULK_STRINGS_MARKER # ascii ''-1'' @ TERMINAL_SEQUENCE"
| "resp_bytes RNullArray = ARRAY_MARKER # ascii ''-1'' @ TERMINAL_SEQUENCE"
| "resp_bytes (RArray vs) =
     ARRAY_MARKER # dec (length vs) @ TERMINAL_SEQUENCE @ concat (map resp_bytes vs)"

text \<open>Lines contain no carriage return, strings no zero byte, and sizes are within the limits.\<close>

fun resp_wf :: "resp \<Rightarrow> bool" where
  "resp_wf (RSimple s) \<longleftrightarrow> 13 \<notin> set s \<and> 0 \<notin> set s"
| "resp_wf (RError s) \<longleftrightarrow> 13 \<notin> set s \<and> 0 \<notin> set s"
| "resp_wf (RInteger s) \<longleftrightarrow> 13 \<notin> set s \<and> 0 \<notin> set s"
| "resp_wf (RBulk s) \<longleftrightarrow> 0 \<notin> set s \<and> length s \<le> 512 * 1024 * 1024"
| "resp_wf RNull \<longleftrightarrow> True"
| "resp_wf RNullArray \<longleftrightarrow> True"
| "resp_wf (RArray vs) \<longleftrightarrow> length vs < 2 ^ 31 \<and> (\<forall>v \<in> set vs. resp_wf v)"

fun resp_payload :: "(bytes list \<Rightarrow> bytes) \<Rightarrow> resp \<Rightarrow> bytes" where
  "resp_payload json (RSimple s) = s"
| "resp_payload json (RError s) = ascii ''-'' @ s"
| "resp_payload json (RInteger s) = s"
| "resp_payload json (RBulk s) = s"
| "resp_payload json RNull = ascii ''<NULL>''"
| "resp_payload json RNullArray = ascii ''[NULL]''"
| "resp_payload json (RArray vs) =
     (case get_redis_cmd (map (\<lambda>v. c_str (resp_payload json v)) vs) of
        (None, args) \<Rightarrow> json args
      | (Some _, args) \<Rightarrow> format_as_str_separated_by_space args)"

fun resp_command :: "(bytes list \<Rightarrow> bytes) \<Rightarrow> resp \<Rightarrow> bytes option" where
  "resp_command json (RArray vs) = fst (get_redis_cmd (map (\<lambda>v. c_str (resp_payload json v)) vs))"
| "resp_command json _ = None"

text \<open>
  How many replies a message counts, and how many of them are errors.  This is what the code
  counts: \<^verbatim>\<open>parse_array_msg\<close> overwrites the counts of the array with those of each element in
  turn, so an array counts as its last element, and an error before it is not counted.
\<close>

fun resp_counts :: "message_type_t \<Rightarrow> resp \<Rightarrow> nat \<times> nat" where
  "resp_counts mt (RError s) = (if mt = MESSAGE_RESPONSE then (1, 1) else (0, 0))"
| "resp_counts mt RNullArray = (0, 0)"
| "resp_counts mt (RArray []) = (0, 0)"
| "resp_counts mt (RArray [v]) = resp_counts mt v"
| "resp_counts mt (RArray (v # w # vs)) = resp_counts mt (RArray (w # vs))"
| "resp_counts mt _ = (if mt = MESSAGE_RESPONSE then 1 else 0, 0)"

definition msg_counts :: "redis_msg_s \<Rightarrow> nat \<times> nat" where
  "msg_counts m = (rm_single_reply_msg_count m, rm_single_reply_error_msg_count m)"

definition parsed_as :: "(bytes list \<Rightarrow> bytes) \<Rightarrow> message_type_t \<Rightarrow> resp \<Rightarrow> redis_msg_s \<Rightarrow> bool" where
  "parsed_as json mt v m \<longleftrightarrow>
     map_option c_str (rm_payload m) = Some (c_str (resp_payload json v)) \<and>
     rm_command m = resp_command json v \<and> msg_counts m = resp_counts mt v \<and>
     (mt = MESSAGE_RESPONSE \<longrightarrow> \<not> rm_is_pub_msg m)"

lemma resp_counts_last: "vs \<noteq> [] \<Longrightarrow> resp_counts mt (RArray vs) = resp_counts mt (last vs)"
  by (induction vs rule: induct_list012) auto

lemma marker_neq [simp]:
  "SIMPLE_STRING_MARKER \<noteq> BULK_STRINGS_MARKER" "SIMPLE_STRING_MARKER \<noteq> ERROR_MARKER"
  "SIMPLE_STRING_MARKER \<noteq> INTEGER_MARKER" "SIMPLE_STRING_MARKER \<noteq> ARRAY_MARKER"
  "BULK_STRINGS_MARKER \<noteq> SIMPLE_STRING_MARKER" "BULK_STRINGS_MARKER \<noteq> ARRAY_MARKER"
  "ERROR_MARKER \<noteq> SIMPLE_STRING_MARKER" "ERROR_MARKER \<noteq> BULK_STRINGS_MARKER"
  "INTEGER_MARKER \<noteq> SIMPLE_STRING_MARKER" "INTEGER_MARKER \<noteq> BULK_STRINGS_MARKER"
  "INTEGER_MARKER \<noteq> ERROR_MARKER" "ARRAY_MARKER \<noteq> SIMPLE_STRING_MARKER"
  "ARRAY_MARKER \<noteq> BULK_STRINGS_MARKER" "ARRAY_MARKER \<noteq> ERROR_MARKER" "ARRAY_MARKER \<noteq> INTEGER_MARKER"
  by (simp_all add: redis_markers)

lemma extract_marker:
  assumes "raw_ok rd" "remaining rd = c # rest"
  shows "decoder_extract_char rd = Some (Inr c, consumed rd 1)" "raw_ok (consumed rd 1)"
    "remaining (consumed rd 1) = rest"
  using assms by (auto simp: fixed_size_decoders(1) take_bytes_def intro: raw_ok_consumed)

lemma length_terminal [simp]: "length TERMINAL_SEQUENCE = 2"
  by (simp add: TERMINAL_SEQUENCE_def)

lemma line_msg_ok:
  assumes "raw_ok rd" "remaining rd = s @ TERMINAL_SEQUENCE @ rest" "13 \<notin> set s"
  shows "parse_line_msg rd msg = Some (STATE_SUCCESS, msg\<lparr>rm_payload := Some s\<rparr>, consumed rd (length s + 2))"
  by (simp add: parse_line_msg_def until_crlf [OF assms])

lemma bulk_end: "is_end_with (s @ TERMINAL_SEQUENCE) TERMINAL_SEQUENCE \<longleftrightarrow> 0 \<notin> set s \<or> is_end_with s TERMINAL_SEQUENCE"
proof (cases "0 \<in> set s")
  case True
  then show ?thesis by (simp add: is_end_with_def strlen_def c_str_append_zero)
next
  case False
  then show ?thesis by (simp add: is_end_with_def strlen_def c_str_append)
qed

lemma bulk_string_ok:
  assumes "raw_ok rd" "remaining rd = dec (length s) @ TERMINAL_SEQUENCE @ s @ TERMINAL_SEQUENCE @ rest"
    "0 \<notin> set s" "length s \<le> 512 * 1024 * 1024"
  shows "parse_bulk_string_msg rd msg = Some (STATE_SUCCESS,
    msg\<lparr>rm_payload := Some (remove_suffix (s @ TERMINAL_SEQUENCE) 2)\<rparr>,
    consumed rd (length (dec (length s)) + 2 + (length s + 2)))"
proof -
  have p: "parse_size rd = Some (Inr (int (length s)), consumed rd (length (dec (length s)) + 2))"
    by (rule parse_size_dec [OF assms(1,2)]) (use assms(4) in simp)
  have "raw_ok (consumed rd (length (dec (length s)) + 2))"
    using assms(1,2) by (simp add: raw_ok_consumed)
  then have e: "decoder_extract_string (consumed rd (length (dec (length s)) + 2)) (length s + 2)
    = Some (Inr (s @ TERMINAL_SEQUENCE), consumed rd (length (dec (length s)) + 2 + (length s + 2)))"
    using assms(2) by (simp add: fixed_size_decoders(4) take_bytes_def del: consumed_consumed)
  have "is_end_with (s @ TERMINAL_SEQUENCE) TERMINAL_SEQUENCE" using assms(3) by (simp add: bulk_end)
  then show ?thesis using assms(4) by (simp add: parse_bulk_string_msg_def p e [simplified])
qed

lemma items_ok:
  assumes "\<And>v rd rest. v \<in> set vs \<Longrightarrow> raw_ok rd \<Longrightarrow> remaining rd = resp_bytes v @ rest \<Longrightarrow>
      \<exists>m. parse_msg_recursive json mt rd init_redis_msg
        = Some (STATE_SUCCESS, m, consumed rd (length (resp_bytes v))) \<and> parsed_as json mt v m"
    and "raw_ok rd" "remaining rd = concat (map resp_bytes vs) @ rest"
  shows "\<exists>m. parse_array_items json mt (length vs) rd msg ps = Some (STATE_SUCCESS, m,
      ps @ map (\<lambda>v. c_str (resp_payload json v)) vs, consumed rd (length (concat (map resp_bytes vs)))) \<and>
    rm_is_pub_msg m = rm_is_pub_msg msg \<and> rm_command m = rm_command msg \<and>
    msg_counts m = (if vs = [] then msg_counts msg else resp_counts mt (last vs))"
  using assms
proof (induction vs arbitrary: rd msg ps)
  case (Cons v vs)
  from Cons.prems(1) [of v rd "concat (map resp_bytes vs) @ rest"] Cons.prems(2,3) obtain m where
    m: "parse_msg_recursive json mt rd init_redis_msg
        = Some (STATE_SUCCESS, m, consumed rd (length (resp_bytes v)))" "parsed_as json mt v m" by auto
  then obtain p where p: "rm_payload m = Some p" "c_str p = c_str (resp_payload json v)"
    by (auto simp: parsed_as_def)
  let ?rd = "consumed rd (length (resp_bytes v))"
  let ?msg = "msg\<lparr>rm_single_reply_msg_count := rm_single_reply_msg_count m,
                     rm_single_reply_error_msg_count := rm_single_reply_error_msg_count m\<rparr>"
  have "raw_ok ?rd" "remaining ?rd = concat (map resp_bytes vs) @ rest"
    using Cons.prems(2,3) by (auto intro: raw_ok_consumed)
  with Cons.prems(1) have "\<exists>m'. parse_array_items json mt (length vs) ?rd ?msg (ps @ [c_str p])
      = Some (STATE_SUCCESS, m', (ps @ [c_str p]) @ map (\<lambda>v. c_str (resp_payload json v)) vs,
          consumed ?rd (length (concat (map resp_bytes vs)))) \<and>
    rm_is_pub_msg m' = rm_is_pub_msg ?msg \<and> rm_command m' = rm_command ?msg \<and>
    msg_counts m' = (if vs = [] then msg_counts ?msg else resp_counts mt (last vs))"
    by (intro Cons.IH) auto
  with m p show ?case by (auto simp: parsed_as_def msg_counts_def)
qed (simp add: msg_counts_def)

lemma parse_leaf:
  assumes "raw_ok rd" "remaining rd = resp_bytes v @ rest" "resp_wf v" "\<forall>vs. v \<noteq> RArray vs"
  shows "\<exists>m. parse_msg_recursive json mt rd init_redis_msg
        = Some (STATE_SUCCESS, m, consumed rd (length (resp_bytes v))) \<and> parsed_as json mt v m"
proof -
  obtain c bs where c: "resp_bytes v = c # bs" by (cases v) auto
  note mk = extract_marker [OF assms(1), of c "bs @ rest", unfolded assms(2) c, simplified]
  note defs = parse_msg_recursive.simps [of json mt rd] mk(1) parsed_as_def msg_counts_def count_reply_def
    init_redis_msg_def
  show ?thesis
  proof (cases v)
    case (RSimple s)
    then show ?thesis using c mk assms(3) line_msg_ok [of "consumed rd 1" s rest]
      by (auto simp: defs)
  next
    case (RInteger s)
    then show ?thesis using c mk assms(3) line_msg_ok [of "consumed rd 1" s rest]
      by (auto simp: defs)
  next
    case (RError s)
    then show ?thesis using c mk assms(3) until_crlf [of "consumed rd 1" s rest]
      by (auto simp: defs parse_error_msg_def c_str_no_zero)
  next
    case (RBulk s)
    then show ?thesis using c mk assms(3) bulk_string_ok [of "consumed rd 1" s rest]
        remove_suffix_append [of s TERMINAL_SEQUENCE]
      by (auto simp: defs c_str_no_zero)
        (auto simp: TERMINAL_SEQUENCE_def)
  next
    case RNull
    then show ?thesis using c mk parse_size_null [of "consumed rd 1" rest]
      by (auto simp: defs parse_bulk_string_msg_def ascii_def)
  next
    case RNullArray
    then show ?thesis using c mk parse_size_null [of "consumed rd 1" rest]
      by (auto simp: defs ascii_def)
  qed (use assms(4) in simp)
qed

lemma parse_resp:
  assumes "raw_ok rd" "remaining rd = resp_bytes v @ rest" "resp_wf v"
  shows "\<exists>m. parse_msg_recursive json mt rd init_redis_msg
        = Some (STATE_SUCCESS, m, consumed rd (length (resp_bytes v))) \<and> parsed_as json mt v m"
  using assms
proof (induction v arbitrary: rd rest)
  case (RArray vs)
  let ?n = "length (dec (length vs)) + 3"
  note mk = extract_marker [OF RArray.prems(1), of ARRAY_MARKER
      "dec (length vs) @ TERMINAL_SEQUENCE @ concat (map resp_bytes vs) @ rest"]
  have mk: "decoder_extract_char rd = Some (Inr ARRAY_MARKER, consumed rd 1)" "raw_ok (consumed rd 1)"
    "remaining (consumed rd 1) = dec (length vs) @ TERMINAL_SEQUENCE @ concat (map resp_bytes vs) @ rest"
    using mk RArray.prems(2) by auto
  have p: "parse_size (consumed rd 1) = Some (Inr (int (length vs)), consumed rd ?n)"
    using parse_size_dec [OF mk(2,3)] RArray.prems(3) by (simp add: add.commute)
  have "raw_ok (consumed rd ?n)" "remaining (consumed rd ?n) = concat (map resp_bytes vs) @ rest"
    using RArray.prems(1,2) by (auto simp: numeral_3_eq_3 intro!: raw_ok_consumed)
  then have "\<exists>m. parse_array_items json mt (length vs) (consumed rd ?n) init_redis_msg [] = Some (STATE_SUCCESS, m,
      [] @ map (\<lambda>v. c_str (resp_payload json v)) vs, consumed (consumed rd ?n) (length (concat (map resp_bytes vs)))) \<and>
    rm_is_pub_msg m = rm_is_pub_msg init_redis_msg \<and> rm_command m = rm_command init_redis_msg \<and>
    msg_counts m = (if vs = [] then msg_counts init_redis_msg else resp_counts mt (last vs))"
    using RArray.IH RArray.prems(3) by (intro items_ok) auto
  then obtain m where m: "parse_array_items json mt (length vs) (consumed rd ?n) init_redis_msg []
      = Some (STATE_SUCCESS, m, map (\<lambda>v. c_str (resp_payload json v)) vs,
          consumed rd (length (resp_bytes (RArray vs))))"
    "\<not> rm_is_pub_msg m" "msg_counts m = resp_counts mt (RArray vs)" "rm_command m = None"
    by (cases "vs = []") (auto simp: resp_counts_last init_redis_msg_def msg_counts_def add_ac)
  have "parsed_as json mt (RArray vs) (finish_array_msg json mt (map (\<lambda>v. c_str (resp_payload json v)) vs) m)"
    using m(2,3,4) by (auto simp: parsed_as_def finish_array_msg_def format_array_msg_def msg_counts_def
        split: prod.splits option.splits)
  with m(1) mk(1) p show ?case by (auto simp: parse_msg_recursive.simps [of json mt rd])
qed (erule (2) parse_leaf, simp)+

subsection \<open>Where the parser stops\<close>

lemma leaf_reaches:
  assumes "raw_ok rd"
  shows "parse_line_msg rd msg = Some (st, m, rd') \<Longrightarrow> reaches rd rd'"
    and "parse_error_msg mt rd msg = Some (st, m, rd') \<Longrightarrow> reaches rd rd'"
    and "parse_size rd = Some (r, rd') \<Longrightarrow> reaches rd rd'"
  using assms
  by (auto simp: parse_line_msg_def parse_error_msg_def parse_size_def Let_def TERMINAL_SEQUENCE_def
      split: bind_splits sum.splits if_splits prod.splits dest!: until_str_reaches)

lemma bulk_reaches:
  assumes "raw_ok rd" "parse_bulk_string_msg rd msg = Some (st, m, rd')"
  shows "reaches rd rd'"
proof -
  from assms(2) obtain r rd1 where p: "parse_size rd = Some (r, rd1)"
    by (auto simp: parse_bulk_string_msg_def split: bind_splits)
  note r1 = leaf_reaches(3) [OF assms(1) p]
  then have "raw_ok rd1" using assms(1) by (rule reaches_ok)
  with assms(2) p r1 show ?thesis
    by (auto simp: parse_bulk_string_msg_def fixed_size_decoders(4) split: bind_splits sum.splits if_splits
        dest!: take_bytes_reaches intro: reaches_trans)
qed

lemma parse_reaches:
  "parse_msg_recursive json mt rd msg = Some (st, m, rd') \<Longrightarrow> raw_ok rd \<Longrightarrow> reaches rd rd'"
  "parse_array_items json mt n rd msg ps = Some (st, m, ps', rd') \<Longrightarrow> raw_ok rd \<Longrightarrow> reaches rd rd'"
proof (induction json mt rd msg and json mt n rd msg ps arbitrary: st m rd' and st m ps' rd'
    rule: parse_msg_recursive_parse_array_items.induct)
  case (1 json mt rd msg)
  note parse = "1.prems"(1) [unfolded parse_msg_recursive.simps [of json mt rd]]
  then obtain r rd1 where c: "decoder_extract_char rd = Some (r, rd1)" by (auto split: bind_splits)
  have r1: "reaches rd rd1"
    using c "1.prems"(2) by (auto simp: fixed_size_decoders(1) dest: take_bytes_reaches)
  then have ok1: "raw_ok rd1" using "1.prems"(2) by (rule reaches_ok)
  show ?case
  proof (cases "r = Inr ARRAY_MARKER")
    case False
    then show ?thesis using parse c r1 ok1
      by (auto split: sum.splits if_splits dest!: leaf_reaches(1,2) [OF ok1] bulk_reaches [OF ok1]
          intro: reaches_trans)
  next
    case True
    then obtain r2 rd2 where p: "parse_size rd1 = Some (r2, rd2)"
      using parse c by (auto split: bind_splits)
    have r2: "reaches rd rd2" using leaf_reaches(3) [OF ok1 p] r1 by (rule reaches_trans [rotated])
    then have ok2: "raw_ok rd2" using "1.prems"(2) by (rule reaches_ok)
    show ?thesis
    proof (cases "\<exists>len. r2 = Inr len \<and> len \<noteq> -1")
      case False
      then show ?thesis using parse c True p r2 by (auto split: sum.splits if_splits)
    next
      case len: True
      then obtain len where len: "r2 = Inr len" "len \<noteq> -1" by blast
      then obtain st' m' ps' where
        i: "parse_array_items json mt (nat len) rd2 msg [] = Some (st', m', ps', rd')"
        using parse c True p by (auto split: bind_splits if_splits)
      have "reaches rd2 rd'"
        using c True p len i ok2 by (intro "1.IH") (auto simp: redis_markers)
      with r2 show ?thesis by (rule reaches_trans)
    qed
  qed
next
  case (3 json mt n rd msg ps)
  then show ?case
    by (auto split: bind_splits option.splits if_splits) (meson reaches_ok reaches_trans)
qed simp

lemma leaf_payload:
  "parse_line_msg rd msg = Some (st, m, rd') \<Longrightarrow> st \<noteq> STATE_SUCCESS \<Longrightarrow> rm_payload m = rm_payload msg"
  "parse_error_msg mt rd msg = Some (st, m, rd') \<Longrightarrow> st \<noteq> STATE_SUCCESS \<Longrightarrow> rm_payload m = rm_payload msg"
  "parse_bulk_string_msg rd msg = Some (st, m, rd') \<Longrightarrow> st \<noteq> STATE_SUCCESS \<Longrightarrow> rm_payload m = rm_payload msg"
  by (auto simp: parse_line_msg_def parse_error_msg_def parse_bulk_string_msg_def Let_def
      split: bind_splits sum.splits if_splits)

lemma leaf_pub:
  "parse_line_msg rd msg = Some (st, m, rd') \<Longrightarrow> rm_is_pub_msg m = rm_is_pub_msg msg"
  "parse_error_msg mt rd msg = Some (st, m, rd') \<Longrightarrow> rm_is_pub_msg m = rm_is_pub_msg msg"
  "parse_bulk_string_msg rd msg = Some (st, m, rd') \<Longrightarrow> rm_is_pub_msg m = rm_is_pub_msg msg"
  by (auto simp: parse_line_msg_def parse_error_msg_def parse_bulk_string_msg_def Let_def
      split: bind_splits sum.splits if_splits)

lemma count_reply_sel [simp]:
  "rm_payload (count_reply mt msg) = rm_payload msg" "rm_is_pub_msg (count_reply mt msg) = rm_is_pub_msg msg"
  by (simp_all add: count_reply_def)

lemma finish_array_pub [simp]:
  "rm_is_pub_msg (finish_array_msg json MESSAGE_RESPONSE ps msg) = rm_is_pub_msg msg"
  by (auto simp: finish_array_msg_def format_array_msg_def split: prod.splits option.splits)

lemma items_keep:
  "parse_array_items json mt n rd msg ps = Some (st, m, ps', rd') \<Longrightarrow>
    rm_payload m = rm_payload msg \<and> rm_is_pub_msg m = rm_is_pub_msg msg"
proof (induction n arbitrary: rd msg ps)
  case (Suc n)
  from Suc.prems show ?case
    by (auto split: bind_splits option.splits if_splits dest!: Suc.IH)
qed simp

lemma parse_failed_payload:
  assumes "parse_msg_recursive json mt rd msg = Some (st, m, rd')" "st \<noteq> STATE_SUCCESS"
  shows "rm_payload m = rm_payload msg"
  using assms unfolding parse_msg_recursive.simps [of json mt rd]
  by (auto split: bind_splits sum.splits if_splits dest!: leaf_payload items_keep)

lemma parse_response_pub:
  assumes "parse_msg_recursive json MESSAGE_RESPONSE rd msg = Some (st, m, rd')"
  shows "rm_is_pub_msg m = rm_is_pub_msg msg"
  using assms unfolding parse_msg_recursive.simps [of json MESSAGE_RESPONSE rd]
  by (auto split: bind_splits sum.splits if_splits dest!: leaf_pub items_keep)

lemma redis_parse_frame_resp:
  assumes "raw_ok rd" "remaining rd = resp_bytes v @ rest" "resp_wf v"
  shows "\<exists>m. redis_parse_frame json mt rd = Some (STATE_SUCCESS,
      Some \<lparr>fd_msg_type = mt, fd_frame = m, fd_timestamp_ns = rd_timestamp_ns rd\<rparr>,
      consumed rd (length (resp_bytes v))) \<and>
    parsed_as json mt v m \<and> rm_timestamp_ns m = rd_timestamp_ns rd"
proof -
  have "remaining rd \<noteq> []" using assms(2) by (cases v) auto
  then have "data_len rd \<noteq> 0" "rd_current_pos rd \<noteq> data_len rd"
    using length_remaining [of rd] by (metis diff_0_eq_0 length_0_conv, metis diff_self_eq_0 length_0_conv)
  moreover obtain m where "parse_msg_recursive json mt rd init_redis_msg
      = Some (STATE_SUCCESS, m, consumed rd (length (resp_bytes v)))" "parsed_as json mt v m"
    using parse_resp [OF assms] by blast
  ultimately show ?thesis
    by (auto simp: redis_parse_frame_def parsed_as_def msg_counts_def)
qed

subsection \<open>Values that are cut\<close>

text \<open>
  What the parser makes of the first bytes of a value, when not all are there; \<^verbatim>\<open>None\<close> where it
  is undefined, because the search for the end of a line starts with fewer than two bytes.
\<close>

definition cut_line :: "nat \<Rightarrow> parse_state_t well_defined" where
  "cut_line k = (if k = 0 then Some STATE_NEEDS_MORE_DATA else if k < 3 then None else Some STATE_NOT_FOUND)"

fun cut_result :: "resp \<Rightarrow> nat \<Rightarrow> parse_state_t well_defined"
and cut_items :: "resp list \<Rightarrow> nat \<Rightarrow> parse_state_t well_defined" where
  "cut_result (RBulk s) k = (if k < length (dec (length s)) + 3 then cut_line k else Some STATE_NEEDS_MORE_DATA)"
| "cut_result (RArray vs) k = (if k < length (dec (length vs)) + 3 then cut_line k else cut_items vs (k - (length (dec (length vs)) + 3)))"
| "cut_result v k = cut_line k"
| "cut_items [] k = Some STATE_INVALID"
| "cut_items (v # vs) k =
     (if k < length (resp_bytes v) then map_option (\<lambda>_. STATE_INVALID) (cut_result v k)
      else cut_items vs (k - length (resp_bytes v)))"

definition fails_as :: "'a well_defined \<Rightarrow> parse_state_t well_defined \<Rightarrow> (parse_state_t \<Rightarrow> 'a \<Rightarrow> bool) \<Rightarrow> bool" where
  "fails_as r st P \<longleftrightarrow> (case st of None \<Rightarrow> r = None | Some s \<Rightarrow> s \<noteq> STATE_SUCCESS \<and> (\<exists>x. r = Some x \<and> P s x))"

lemma no_crlf:
  assumes "xs = take k (s @ TERMINAL_SEQUENCE)" "k < length s + 2" "13 \<notin> set s"
  shows "\<not> occurs_at TERMINAL_SEQUENCE xs i"
proof
  assume o: "occurs_at TERMINAL_SEQUENCE xs i"
  have "length xs = k" using assms(1,2) by simp
  then have i: "i + 2 \<le> k" using o by (simp add: occurs_at_def)
  then have "i < length s" using assms(2) by linarith
  have "i \<le> length xs" "take 2 (drop i xs) = TERMINAL_SEQUENCE" using o by (simp_all add: occurs_at_def)
  then have "xs ! i = TERMINAL_SEQUENCE ! 0" using nth_drop [of i xs 0] nth_take [of 0 2 "drop i xs"] by simp
  then have "xs ! i = 13" by (simp add: TERMINAL_SEQUENCE_def)
  moreover have "xs ! i = s ! i" using assms(1) i \<open>i < length s\<close> by (simp add: nth_append)
  ultimately show False using assms(3) \<open>i < length s\<close> by (metis nth_mem)
qed

lemma cut_until:
  assumes "raw_ok rd" "remaining rd = take k (s @ TERMINAL_SEQUENCE)" "k < length s + 2" "13 \<notin> set s"
  shows "decoder_extract_str_until_str rd TERMINAL_SEQUENCE = (if k < 2 then None else Some (Inl STATE_NOT_FOUND, rd))"
proof -
  have "find (occurs_at TERMINAL_SEQUENCE (remaining rd)) [0..<length (remaining rd) - length TERMINAL_SEQUENCE + 1] = None"
    using no_crlf [OF assms(2-4)] by (auto simp: find_None_iff)
  moreover have "length (remaining rd) = k" using assms(2,3) by simp
  ultimately show ?thesis using assms(1) by (subst until_str_eq) (simp_all add: TERMINAL_SEQUENCE_def)
qed

text \<open>Cut within the line that starts with the marker.\<close>

definition line_of :: "resp \<Rightarrow> bytes" where
  "line_of v = (case v of RSimple s \<Rightarrow> s | RError s \<Rightarrow> s | RInteger s \<Rightarrow> s | RBulk s \<Rightarrow> dec (length s)
     | RNull \<Rightarrow> ascii ''-1'' | RNullArray \<Rightarrow> ascii ''-1'' | RArray vs \<Rightarrow> dec (length vs))"

lemma no_cr_dec: "13 \<notin> set (dec n)"
  using dec_digits isdigit_facts by blast

lemma resp_bytes_line: "\<exists>c rest. resp_bytes v = c # line_of v @ TERMINAL_SEQUENCE @ rest \<and>
   c \<in> {SIMPLE_STRING_MARKER, ERROR_MARKER, INTEGER_MARKER, BULK_STRINGS_MARKER, ARRAY_MARKER}"
  by (cases v) (auto simp: line_of_def)

lemma cut_in_line:
  assumes "raw_ok rd" "remaining rd = take k (resp_bytes v)" "k < length (line_of v) + 3" "resp_wf v"
  shows "fails_as (parse_msg_recursive json mt rd msg) (cut_line k) (\<lambda>s x. fst x = s)"
proof -
  obtain c rest where c: "resp_bytes v = c # line_of v @ TERMINAL_SEQUENCE @ rest"
    "c \<in> {SIMPLE_STRING_MARKER, ERROR_MARKER, INTEGER_MARKER, BULK_STRINGS_MARKER, ARRAY_MARKER}"
    using resp_bytes_line by blast
  show ?thesis
  proof (cases k)
    case 0
    then show ?thesis using assms(1,2)
      by (simp add: parse_msg_recursive.simps [of json mt rd] fixed_size_decoders(1) take_bytes_def cut_line_def fails_as_def)
  next
    case (Suc j)
    have 13: "13 \<notin> set (line_of v)"
      using assms(4) no_cr_dec by (cases v) (auto simp: line_of_def ascii_def)
    have r: "remaining rd = c # take j (line_of v @ TERMINAL_SEQUENCE)"
      using assms(2,3) Suc c(1) by (simp add: take_append)
    note mk = extract_marker [OF assms(1) r]
    have u: "decoder_extract_str_until_str (consumed rd 1) TERMINAL_SEQUENCE
        = (if j < 2 then None else Some (Inl STATE_NOT_FOUND, consumed rd 1))"
      using assms(3) Suc by (intro cut_until [OF mk(2,3)] 13) simp
    show ?thesis
      using c(2) mk(1) u Suc
      by (auto simp: parse_msg_recursive.simps [of json mt rd] parse_line_msg_def parse_error_msg_def parse_bulk_string_msg_def
          parse_size_def cut_line_def fails_as_def redis_markers)
  qed
qed

lemma cut_leaf:
  assumes "raw_ok rd" "remaining rd = take k (resp_bytes v)" "k < length (resp_bytes v)" "resp_wf v"
    and "\<forall>s. v \<noteq> RBulk s" "\<forall>vs. v \<noteq> RArray vs"
  shows "fails_as (parse_msg_recursive json mt rd msg) (cut_result v k) (\<lambda>s x. fst x = s)"
proof -
  have "length (resp_bytes v) = length (line_of v) + 3" "cut_result v k = cut_line k"
    using assms(5,6) by (cases v; simp add: line_of_def ascii_def)+
  with cut_in_line [OF assms(1,2) _ assms(4)] assms(3) show ?thesis by simp
qed

lemma cut_bulk_content:
  assumes "raw_ok rd" "remaining rd = take k (resp_bytes (RBulk s))" "k < length (resp_bytes (RBulk s))" "resp_wf (RBulk s)"
    "length (dec (length s)) + 3 \<le> k"
  shows "fails_as (parse_msg_recursive json mt rd msg) (Some STATE_NEEDS_MORE_DATA) (\<lambda>s x. fst x = s)"
proof -
  let ?n = "length s" and ?h = "length (dec (length s)) + 3"
  define p where "p = take (k - ?h) (s @ TERMINAL_SEQUENCE)"
  have "take k (resp_bytes (RBulk s)) = BULK_STRINGS_MARKER # dec ?n @ TERMINAL_SEQUENCE @ p"
    using assms(5) by (cases k) (auto simp: p_def numeral_3_eq_3)
  then have r: "remaining rd = BULK_STRINGS_MARKER # dec ?n @ TERMINAL_SEQUENCE @ p" using assms(2) by simp
  note mk = extract_marker [OF assms(1) r]
  have s: "parse_size (consumed rd 1) = Some (Inr (int ?n), consumed rd ?h)"
    using parse_size_dec [OF mk(2,3)] assms(4) by (simp add: numeral_3_eq_3)
  have "raw_ok (consumed rd ?h)" by (rule raw_ok_consumed [OF assms(1)]) (simp add: r)
  moreover have "remaining (consumed rd ?h) = p" using r by (simp add: numeral_3_eq_3 TERMINAL_SEQUENCE_def)
  moreover have "length p < ?n + 2" using assms(3,5) by (simp add: p_def)
  ultimately show ?thesis
    using mk(1) s assms(4)
    by (simp add: parse_msg_recursive.simps [of json mt rd] parse_bulk_string_msg_def fixed_size_decoders take_bytes_def fails_as_def)
qed

lemma cut_items_fails:
  assumes "\<And>v k rd. v \<in> set vs \<Longrightarrow> raw_ok rd \<Longrightarrow> remaining rd = take k (resp_bytes v) \<Longrightarrow> k < length (resp_bytes v) \<Longrightarrow>
      fails_as (parse_msg_recursive json mt rd init_redis_msg) (cut_result v k) (\<lambda>s x. fst x = s)"
    and "\<forall>v \<in> set vs. resp_wf v" "raw_ok rd" "remaining rd = take k (concat (map resp_bytes vs))" "k < length (concat (map resp_bytes vs))"
  shows "fails_as (parse_array_items json mt (length vs) rd msg ps) (cut_items vs k) (\<lambda>s x. fst x = s)"
  using assms
proof (induction vs arbitrary: rd k msg ps)
  case (Cons v vs)
  show ?case
  proof (cases "k < length (resp_bytes v)")
    case True
    then have "fails_as (parse_msg_recursive json mt rd init_redis_msg) (cut_result v k) (\<lambda>s x. fst x = s)"
      using Cons.prems by (intro Cons.prems(1)) auto
    then show ?thesis using True parse_failed_payload [of json mt rd init_redis_msg]
      by (fastforce simp: fails_as_def init_redis_msg_def split: option.splits)
  next
    case False
    let ?k = "k - length (resp_bytes v)" and ?rd = "consumed rd (length (resp_bytes v))"
    have r: "remaining rd = resp_bytes v @ take ?k (concat (map resp_bytes vs))"
      using Cons.prems(4) False by simp
    obtain m where m: "parse_msg_recursive json mt rd init_redis_msg = Some (STATE_SUCCESS, m, ?rd)" "parsed_as json mt v m"
      using parse_resp [OF Cons.prems(3) r, of json mt] Cons.prems(2) by auto
    then obtain p where p: "rm_payload m = Some p" by (auto simp: parsed_as_def)
    have "fails_as (parse_array_items json mt (length vs) ?rd msg' ps') (cut_items vs ?k) (\<lambda>s x. fst x = s)" for msg' ps'
      using Cons.prems(1,2,3,5) r False by (intro Cons.IH) (auto intro: raw_ok_consumed)
    then show ?thesis using m(1) p False by simp
  qed
qed simp

lemma cut_fails:
  assumes "raw_ok rd" "remaining rd = take k (resp_bytes v)" "k < length (resp_bytes v)" "resp_wf v"
  shows "fails_as (parse_msg_recursive json mt rd init_redis_msg) (cut_result v k) (\<lambda>s x. fst x = s)"
  using assms
proof (induction v arbitrary: rd k)
  case (RBulk s)
  then show ?case
    using cut_in_line [OF RBulk.prems(1,2), of json mt init_redis_msg] cut_bulk_content [OF RBulk.prems, of json mt init_redis_msg]
    by (cases "k < length (dec (length s)) + 3") (simp_all add: line_of_def)
next
  case (RArray vs)
  let ?h = "length (dec (length vs)) + 3"
  show ?case
  proof (cases "k < ?h")
    case True
    then show ?thesis using cut_in_line [OF RArray.prems(1,2), of json mt init_redis_msg] RArray.prems(4) by (simp add: line_of_def)
  next
    case False
    define p where "p = take (k - ?h) (concat (map resp_bytes vs))"
    have "take k (resp_bytes (RArray vs)) = ARRAY_MARKER # dec (length vs) @ TERMINAL_SEQUENCE @ p"
      using False by (cases k) (auto simp: p_def numeral_3_eq_3)
    then have r: "remaining rd = ARRAY_MARKER # dec (length vs) @ TERMINAL_SEQUENCE @ p" using RArray.prems(2) by simp
    note mk = extract_marker [OF RArray.prems(1) r]
    have s: "parse_size (consumed rd 1) = Some (Inr (int (length vs)), consumed rd ?h)"
      using parse_size_dec [OF mk(2,3)] RArray.prems(4) by (simp add: numeral_3_eq_3)
    have "raw_ok (consumed rd ?h)" by (rule raw_ok_consumed [OF RArray.prems(1)]) (simp add: r)
    moreover have "remaining (consumed rd ?h) = p" using r by (simp add: numeral_3_eq_3 TERMINAL_SEQUENCE_def)
    ultimately have "fails_as (parse_array_items json mt (length vs) (consumed rd ?h) init_redis_msg []) (cut_items vs (k - ?h)) (\<lambda>s x. fst x = s)"
      using RArray.IH RArray.prems(3,4) False by (intro cut_items_fails) (auto simp: p_def)
    then show ?thesis
      using mk(1) s False
      by (auto simp: parse_msg_recursive.simps [of json mt rd] fails_as_def split: option.splits)
  qed
qed (erule (3) cut_leaf, simp, simp)+

subsection \<open>Properties\<close>

text \<open>
  C6: Every value of the Redis protocol within the limits, nested as deeply as it may be, is
  parsed into a frame: exactly its bytes are consumed, and the payload, the command and the
  numbers of replies are those of the value.
\<close>

theorem redis_roundtrip:
  assumes "raw_ok rd" "remaining rd = resp_bytes v @ rest" "resp_wf v"
  shows "\<exists>m. redis_parse_frame json mt rd = Some (STATE_SUCCESS,
      Some \<lparr>fd_msg_type = mt, fd_frame = m, fd_timestamp_ns = rd_timestamp_ns rd\<rparr>,
      consumed rd (length (resp_bytes v))) \<and>
    parsed_as json mt v m \<and> rm_timestamp_ns m = rd_timestamp_ns rd"
  by (rule redis_parse_frame_resp [OF assms])

definition get_command :: resp where
  "get_command = RArray [RBulk (ascii ''get''), RBulk (ascii ''k'')]"

theorem redis_roundtrip_witness:
  "\<exists>m. redis_parse_frame (\<lambda>_. []) MESSAGE_REQUEST (init_raw_data_with_str (resp_bytes get_command @ [43])) =
     Some (STATE_SUCCESS, Some \<lparr>fd_msg_type = MESSAGE_REQUEST, fd_frame = m, fd_timestamp_ns = 0\<rparr>,
       consumed (init_raw_data_with_str (resp_bytes get_command @ [43])) (length (resp_bytes get_command))) \<and>
     rm_command m = Some (ascii ''GET'') \<and> map_option c_str (rm_payload m) = Some (ascii ''k'')"
proof -
  let ?rd = "init_raw_data_with_str (resp_bytes get_command @ [43])"
  have "raw_ok ?rd" "remaining ?rd = resp_bytes get_command @ [43]" "rd_timestamp_ns ?rd = 0"
    by (simp_all add: raw_ok_def remaining_def init_raw_data_with_str_def)
  moreover have "resp_wf get_command" by (simp add: get_command_def ascii_def)
  moreover have "get_redis_cmd [ascii ''get'', ascii ''k''] = (Some (ascii ''GET''), [ascii ''k''])"
    by (simp add: get_redis_cmd_def ascii_def str_to_upper_def c_str_def strlen_def toupper_def find_cmd_def redis_cmd_def)
  ultimately show ?thesis
    using redis_roundtrip [of ?rd get_command "[43]" "\<lambda>_. []" MESSAGE_REQUEST]
    by (fastforce simp: parsed_as_def get_command_def ascii_def c_str_def)
qed

text \<open>
  C39: What the parser makes of a value of which only the first bytes are there, at every point
  where it can be cut: never a frame, and a request for more data only before the first byte and
  within the content of a bulk string.  A cut in the line behind the marker is reported as not
  found, or is undefined when fewer than two bytes follow the marker.  Once the size of an
  array is read, a cut in its elements, nested as they may be, makes the array invalid, although
  the rest of it may be on its way (or is undefined, when fewer than two bytes follow the marker
  of the element).
\<close>

theorem redis_cut_value:
  assumes "raw_ok rd" "remaining rd = take k (resp_bytes v)" "k < length (resp_bytes v)" "resp_wf v"
  shows "case cut_result v k of None \<Rightarrow> redis_parse_frame json mt rd = None
    | Some st \<Rightarrow> st \<noteq> STATE_SUCCESS \<and> (\<exists>rd'. redis_parse_frame json mt rd = Some (st, None, rd'))"
proof (cases "k = 0")
  case True
  moreover have "cut_result v 0 = Some STATE_NEEDS_MORE_DATA" by (cases v) (simp_all add: cut_line_def)
  moreover have "rd_current_pos rd = data_len rd"
    using True assms(1,2) length_remaining [of rd] by (simp add: raw_ok_def)
  ultimately show ?thesis by (simp add: redis_parse_frame_def)
next
  case False
  then have "length (remaining rd) \<noteq> 0" using assms(2,3) by auto
  then have "data_len rd \<noteq> 0" "rd_current_pos rd \<noteq> data_len rd" using length_remaining [of rd] by auto
  then show ?thesis using cut_fails [OF assms, of json mt]
    by (auto simp: redis_parse_frame_def fails_as_def split: option.splits)
qed

theorem redis_cut_value_witness:
  "(\<exists>rd'. redis_parse_frame (\<lambda>_. []) MESSAGE_REQUEST
       (init_raw_data_with_str (ascii ''*2'' @ [13, 10] @ ascii ''$3'' @ [13, 10] @ ascii ''get'' @ [13, 10]))
      = Some (STATE_INVALID, None, rd')) \<and>
   redis_parse_frame (\<lambda>_. []) MESSAGE_REQUEST
     (init_raw_data_with_str ((ascii ''*2'' @ [13, 10] @ ascii ''$3'' @ [13, 10] @ ascii ''get'' @ [13, 10]) @ ascii ''$'')) = None"
proof -
  define b where "b = ascii ''*2'' @ [13, 10] @ ascii ''$3'' @ [13, 10] @ ascii ''get'' @ [13, 10]"
  have t: "b = take 13 (resp_bytes get_command)" "b @ ascii ''$'' = take 14 (resp_bytes get_command)"
    "cut_result get_command 13 = Some STATE_INVALID" "cut_result get_command 14 = None"
    unfolding b_def by code_simp+
  have l: "13 < length (resp_bytes get_command)" "14 < length (resp_bytes get_command)" by code_simp+
  have wf: "resp_wf get_command" by (simp add: get_command_def ascii_def)
  have ok: "raw_ok (init_raw_data_with_str bs)" "remaining (init_raw_data_with_str bs) = bs" for bs
    by (simp_all add: raw_ok_def remaining_def init_raw_data_with_str_def)
  note r = redis_cut_value [OF ok(1) _ _ wf, unfolded ok(2)]
  show ?thesis
    using r [OF t(1) l(1), of "\<lambda>_. []" MESSAGE_REQUEST] r [OF t(2) l(2), of "\<lambda>_. []" MESSAGE_REQUEST]
    unfolding t(3,4) b_def by simp
qed

text \<open>
  No response is ever marked as a published message, although the matcher looks for the
  mark on responses.
\<close>

theorem redis_response_never_pub:
  assumes "redis_parse_frame json MESSAGE_RESPONSE rd = Some (st, Some f, rd')"
  shows "\<not> rm_is_pub_msg (fd_frame f)"
  using assms
  by (auto simp: redis_parse_frame_def Let_def init_redis_msg_def split: if_splits bind_splits
      dest!: parse_response_pub)

definition pushed_message :: resp where
  "pushed_message = RArray [RBulk (ascii ''message''), RBulk (ascii ''c''), RBulk (ascii ''x'')]"

theorem redis_response_never_pub_witness:
  "\<exists>f rd'. redis_parse_frame (\<lambda>_. []) MESSAGE_RESPONSE (init_raw_data_with_str (resp_bytes pushed_message))
     = Some (STATE_SUCCESS, Some f, rd') \<and> \<not> rm_is_pub_msg (fd_frame f)"
proof -
  let ?rd = "init_raw_data_with_str (resp_bytes pushed_message)"
  have "raw_ok ?rd" "remaining ?rd = resp_bytes pushed_message @ []" "resp_wf pushed_message"
    by (simp_all add: raw_ok_def remaining_def init_raw_data_with_str_def pushed_message_def ascii_def)
  then obtain f rd' where "redis_parse_frame (\<lambda>_. []) MESSAGE_RESPONSE ?rd = Some (STATE_SUCCESS, Some f, rd')"
    using redis_parse_frame_resp [of ?rd pushed_message "[]" "\<lambda>_. []" MESSAGE_RESPONSE] by blast
  with redis_response_never_pub [OF this] show ?thesis by blast
qed

end
