(* ===== verification/Data_Stream.thy ===== *)
theory Data_Stream
  imports Raw_Data
begin

section \<open>Data streams\<close>

text \<open>
  \<^verbatim>\<open>l7probe/data_stream.c\<close>: the buffers of raw data and of parsed frames of one direction
  of a connection, and the loop that turns the first into the second.  The arrays of pointers
  are functions from positions to optional elements, a null pointer being \<^const>\<open>None\<close>.

  The loop jumps between three labels; each block of code between two jumps is one
  application of \<open>parse_goto\<close>, and the loop is a partial function, so that not returning is
  \<^const>\<open>None\<close>.  It calls \<^verbatim>\<open>proto_find_frame_boundary\<close> and \<^verbatim>\<open>proto_parse_frame\<close>,
  which are arguments here: what the loop needs of them is the locale \<open>frame_parser\<close>, which the
  parsers of the protocols interpret.  They may keep a state of their own between calls, as
  static variables do.
\<close>

subsection \<open>Buffers\<close>

type_synonym 'a slots = "nat \<Rightarrow> 'a option"

definition RAW_BUF_SIZE :: nat where "RAW_BUF_SIZE = 50 * 10 * 5"
definition FRAME_BUF_SIZE :: nat where "FRAME_BUF_SIZE = 1024 * 10"
definition RAW_DATA_FLAGS_INVALID :: u32 where "RAW_DATA_FLAGS_INVALID = 1"

record raw_buf_s =
  raw_buf_size :: nat
  raw_datas :: "raw_data_s slots"

record 'f frame_buf_s =
  fb_frames :: "'f frame_data_s slots"
  frame_buf_size :: nat
  fb_current_pos :: nat

text \<open>The member \<^verbatim>\<open>type\<close> of a stream is the type of its frames.\<close>

record 'f data_stream_s =
  raw_bufs :: raw_buf_s
  frame_bufs :: "'f frame_buf_s"

definition init_data_stream :: "'f data_stream_s" where
  "init_data_stream = \<lparr>raw_bufs = \<lparr>raw_buf_size = 0, raw_datas = (\<lambda>_. None)\<rparr>,
     frame_bufs = \<lparr>fb_frames = (\<lambda>_. None), frame_buf_size = 0, fb_current_pos = 0\<rparr>\<rparr>"

text \<open>The functions that push answer whether they succeeded.\<close>

definition push_frame_data :: "'f data_stream_s \<Rightarrow> 'f frame_data_s \<Rightarrow> bool \<times> 'f data_stream_s" where
  "push_frame_data ds frame_data =
     (let fb = frame_bufs ds in
      if frame_buf_size fb \<ge> FRAME_BUF_SIZE then (False, ds)
      else (True, ds\<lparr>frame_bufs := fb\<lparr>fb_frames := (fb_frames fb)(frame_buf_size fb \<mapsto> frame_data),
                                     frame_buf_size := frame_buf_size fb + 1\<rparr>\<rparr>))"

definition push_raw_data :: "'f data_stream_s \<Rightarrow> raw_data_s \<Rightarrow> bool \<times> 'f data_stream_s" where
  "push_raw_data ds raw_data =
     (let rb = raw_bufs ds in
      if raw_buf_size rb \<ge> RAW_BUF_SIZE then (False, ds)
      else (True, ds\<lparr>raw_bufs := rb\<lparr>raw_datas := (raw_datas rb)(raw_buf_size rb \<mapsto> raw_data),
                                   raw_buf_size := raw_buf_size rb + 1\<rparr>\<rparr>))"

definition replace_top_raw_data :: "raw_buf_s \<Rightarrow> raw_data_s \<Rightarrow> raw_data_s option \<times> raw_buf_s" where
  "replace_top_raw_data rb new_data =
     (if raw_buf_size rb = 0 then (None, rb)
      else case raw_datas rb 0 of
        None \<Rightarrow> (None, rb)
      | Some raw_data \<Rightarrow> (Some raw_data, rb\<lparr>raw_datas := (raw_datas rb)(0 \<mapsto> new_data)\<rparr>))"

definition pop_raw_data :: "raw_buf_s \<Rightarrow> raw_data_s option \<times> raw_buf_s" where
  "pop_raw_data rb =
     (if raw_buf_size rb = 0 then (None, rb)
      else case raw_datas rb 0 of
        None \<Rightarrow> (None, rb)
      | Some raw_data \<Rightarrow>
          (let moved = fold (\<lambda>i a. a(i - 1 := a i)) [1..<min (raw_buf_size rb) RAW_BUF_SIZE] (raw_datas rb)
           in (Some raw_data, rb\<lparr>raw_datas := moved(raw_buf_size rb - 1 := None),
                                raw_buf_size := raw_buf_size rb - 1\<rparr>)))"

definition peek_raw_data :: "raw_buf_s \<Rightarrow> raw_data_s option" where
  "peek_raw_data rb = (if raw_buf_size rb = 0 then None else raw_datas rb 0)"

text \<open>
  \<^verbatim>\<open>__do_overlay_raw_data\<close>: the pointer to the first buffer itself (\<^const>\<open>Inl\<close>), or
  a new buffer.
\<close>

definition do_overlay_raw_data :: "raw_data_s \<Rightarrow> raw_data_s \<Rightarrow> unit + raw_data_s" where
  "do_overlay_raw_data dst_data src_data =
     (if rd_index src_data < rd_index dst_data then Inl ()
      else Inr \<lparr>rd_flags = 0, rd_timestamp_ns = rd_timestamp_ns dst_data, rd_index = rd_index src_data,
                rd_isBrokeData = 0, rd_current_pos = rd_current_pos dst_data,
                rd_data = rd_data dst_data @ rd_data src_data\<rparr>)"

text \<open>
  In the first case the index of the result is that of the first buffer, and it is not zero
  because it is greater than another one.
\<close>

definition overlay_raw_data :: "raw_buf_s \<Rightarrow> bool \<times> raw_buf_s" where
  "overlay_raw_data rb =
     (if raw_buf_size rb < 2 then (False, rb)
      else case (raw_datas rb 0, raw_datas rb 1) of
        (Some dst, Some src) \<Rightarrow>
          (case do_overlay_raw_data dst src of
             Inl _ \<Rightarrow> (True, rb\<lparr>raw_datas := (raw_datas rb)(0 \<mapsto> dst\<lparr>rd_isBrokeData := 1\<rparr>)\<rparr>)
           | Inr overlay \<Rightarrow>
               (if rd_index overlay = rd_index dst \<and> rd_index overlay > 0 then (True, rb)
                else (True, snd (replace_top_raw_data (snd (pop_raw_data rb)) overlay))))
      | _ \<Rightarrow> (False, rb))"

definition do_pop_frames :: "'f frame_buf_s \<Rightarrow> 'f frame_buf_s" where
  "do_pop_frames fb =
     (if fb_current_pos fb = 0 then fb
      else
        let freed = fold (\<lambda>i a. a(i := None)) [0..<min (fb_current_pos fb) FRAME_BUF_SIZE] (fb_frames fb);
            moved = fold (\<lambda>i a. a(i - fb_current_pos fb := a i, i := None))
                      [fb_current_pos fb..<min (frame_buf_size fb) FRAME_BUF_SIZE] freed
        in fb\<lparr>fb_frames := moved,
              frame_buf_size := usize_sub (frame_buf_size fb) (fb_current_pos fb),
              fb_current_pos := 0\<rparr>)"

definition data_stream_pop_frames :: "'f data_stream_s \<Rightarrow> 'f data_stream_s" where
  "data_stream_pop_frames ds = ds\<lparr>frame_bufs := do_pop_frames (frame_bufs ds)\<rparr>"

definition deinit_data_stream :: "'f data_stream_s \<Rightarrow> 'f data_stream_s" where
  "deinit_data_stream ds =
     (let rb = raw_bufs ds; fb = frame_bufs ds in
      ds\<lparr>raw_bufs := rb\<lparr>raw_datas := fold (\<lambda>i a. a(i := None)) [0..<min (raw_buf_size rb) RAW_BUF_SIZE] (raw_datas rb),
                        raw_buf_size := 0\<rparr>,
         frame_bufs := fb\<lparr>fb_frames := fold (\<lambda>i a. a(i := None)) [0..<min (frame_buf_size fb) FRAME_BUF_SIZE] (fb_frames fb),
                          frame_buf_size := 0\<rparr>\<rparr>)"

definition data_stream_add_raw_data ::
  "'f data_stream_s \<Rightarrow> bytes \<Rightarrow> u64 \<Rightarrow> u32 \<Rightarrow> bool \<times> 'f data_stream_s" where
  "data_stream_add_raw_data ds data timestamp_ns index =
     push_raw_data ds \<lparr>rd_flags = 0, rd_timestamp_ns = timestamp_ns, rd_index = index, rd_isBrokeData = 0,
       rd_current_pos = 0, rd_data = data\<rparr>"

subsection \<open>The parse loop\<close>

type_synonym ('g, 'f) boundary_finder = "'g \<Rightarrow> message_type_t \<Rightarrow> raw_data_s \<Rightarrow> nat option well_defined"

type_synonym ('g, 'f) frame_parser_fun =
  "'g \<Rightarrow> message_type_t \<Rightarrow> raw_data_s \<Rightarrow> ('g \<times> parse_state_t \<times> 'f frame_data_s option \<times> raw_data_s) well_defined"

datatype parse_rslt_e = PARSE_NEXT | PARSE_REBOUND | PARSE_REPEAT | PARSE_OVERLAY | PARSE_STOP | PARSE_ERROR

definition set_top :: "'f data_stream_s \<Rightarrow> raw_data_s \<Rightarrow> 'f data_stream_s" where
  "set_top ds rd = ds\<lparr>raw_bufs := (raw_bufs ds)\<lparr>raw_datas := (raw_datas (raw_bufs ds))(0 \<mapsto> rd)\<rparr>\<rparr>"

text \<open>
  \<^verbatim>\<open>__do_parse_frames\<close>, where \<open>rd\<close> is the buffer at the top of the stream: the parser has
  moved its position when the switch looks at the result.
\<close>

definition parse_state_switch ::
  "parse_state_t \<Rightarrow> 'f frame_data_s option \<Rightarrow> raw_data_s \<Rightarrow> 'f data_stream_s \<Rightarrow> parse_rslt_e \<times> 'f data_stream_s" where
  "parse_state_switch parse_state frame_data rd ds = (case parse_state of
      STATE_SUCCESS \<Rightarrow>
        (case frame_data of
           None \<Rightarrow> (PARSE_ERROR, ds)
         | Some frame_data \<Rightarrow>
             (case push_frame_data ds frame_data of
                (False, ds) \<Rightarrow> (PARSE_STOP, ds)
              | (True, ds) \<Rightarrow>
                  (if rd_current_pos rd = data_len rd then (PARSE_NEXT, ds) else (PARSE_REPEAT, ds))))
    | STATE_IGNORE \<Rightarrow> (PARSE_NEXT, ds)
    | STATE_INVALID \<Rightarrow>
        (if rd_flags rd AND RAW_DATA_FLAGS_INVALID \<noteq> 0 then (PARSE_NEXT, ds)
         else (PARSE_REBOUND, set_top ds (rd\<lparr>rd_flags := rd_flags rd OR RAW_DATA_FLAGS_INVALID\<rparr>)))
    | STATE_NEEDS_MORE_DATA \<Rightarrow>
        (case overlay_raw_data (raw_bufs ds) of
           (False, rb) \<Rightarrow> (PARSE_STOP, ds\<lparr>raw_bufs := rb\<rparr>)
         | (True, rb) \<Rightarrow> (PARSE_OVERLAY, ds\<lparr>raw_bufs := rb\<rparr>))
    | _ \<Rightarrow> (PARSE_ERROR, ds))"

definition do_parse_frames ::
  "('g, 'f) frame_parser_fun \<Rightarrow> message_type_t \<Rightarrow> 'g \<Rightarrow> 'f data_stream_s \<Rightarrow> raw_data_s \<Rightarrow>
   ('g \<times> parse_rslt_e \<times> 'f data_stream_s) well_defined" where
  "do_parse_frames parse msg_type g ds rd = do {
     (g, parse_state, frame_data, rd) \<leftarrow> parse g msg_type rd;
     Some (g, parse_state_switch parse_state frame_data rd (set_top ds rd)) }"

datatype goto_label = L_next | L_rebound | L_repeat

datatype 's jump = Goto goto_label 's | Return 's | Undefined

definition pop_top :: "'f data_stream_s \<Rightarrow> 'f data_stream_s" where
  "pop_top ds = ds\<lparr>raw_bufs := snd (pop_raw_data (raw_bufs ds))\<rparr>"

text \<open>Where the block behind \<^verbatim>\<open>repeat\<close> jumps.\<close>

definition repeat_jump :: "nat \<Rightarrow> 'g \<Rightarrow> parse_rslt_e \<Rightarrow> 'f data_stream_s \<Rightarrow> ('g \<times> 'f data_stream_s) jump" where
  "repeat_jump old_pos g rslt ds = (case rslt of
       PARSE_NEXT \<Rightarrow> Goto L_next (g, pop_top ds)
     | PARSE_OVERLAY \<Rightarrow> Goto L_next (g, ds)
     | PARSE_REBOUND \<Rightarrow> Goto L_rebound (g, ds)
     | PARSE_REPEAT \<Rightarrow> Goto L_repeat (g, ds)
     | PARSE_STOP \<Rightarrow>
         (case peek_raw_data (raw_bufs ds) of
            None \<Rightarrow> Undefined
          | Some raw_data \<Rightarrow> Return (g, set_top ds (raw_data\<lparr>rd_current_pos := old_pos\<rparr>)))
     | PARSE_ERROR \<Rightarrow> Return (g, pop_top ds))"

definition parse_goto ::
  "('g, 'f) boundary_finder \<Rightarrow> ('g, 'f) frame_parser_fun \<Rightarrow> message_type_t \<Rightarrow> goto_label \<Rightarrow>
   'g \<times> 'f data_stream_s \<Rightarrow> ('g \<times> 'f data_stream_s) jump" where
  "parse_goto find_boundary parse msg_type label s = (case s of (g, ds) \<Rightarrow>
     (case peek_raw_data (raw_bufs ds) of
        None \<Rightarrow> (if label = L_next then Return (g, ds) else Undefined)
      | Some rd \<Rightarrow>
          (case label of
             L_next \<Rightarrow> Goto L_rebound (g, ds)
           | L_rebound \<Rightarrow>
               (case find_boundary g msg_type rd of
                  None \<Rightarrow> Undefined
                | Some None \<Rightarrow> Goto L_next (g, pop_top ds)
                | Some (Some new_pos) \<Rightarrow> Goto L_repeat (g, set_top ds (rd\<lparr>rd_current_pos := new_pos\<rparr>)))
           | L_repeat \<Rightarrow>
               (case do_parse_frames parse msg_type g ds rd of
                  None \<Rightarrow> Undefined
                | Some (g, rslt, ds) \<Rightarrow> repeat_jump (rd_current_pos rd) g rslt ds))))"

partial_function (option) parse_loop ::
  "('g, 'f) boundary_finder \<Rightarrow> ('g, 'f) frame_parser_fun \<Rightarrow> message_type_t \<Rightarrow> goto_label \<Rightarrow>
   'g \<times> 'f data_stream_s \<Rightarrow> ('g \<times> 'f data_stream_s) well_defined option" where
  "parse_loop find_boundary parse msg_type label s =
     (case parse_goto find_boundary parse msg_type label s of
        Goto label' s' \<Rightarrow> parse_loop find_boundary parse msg_type label' s'
      | Return s' \<Rightarrow> Some (Some s')
      | Undefined \<Rightarrow> Some None)"

definition data_stream_parse_frames ::
  "('g, 'f) boundary_finder \<Rightarrow> ('g, 'f) frame_parser_fun \<Rightarrow> message_type_t \<Rightarrow>
   'g \<times> 'f data_stream_s \<Rightarrow> ('g \<times> 'f data_stream_s) well_defined option" where
  "data_stream_parse_frames find_boundary parse msg_type s = parse_loop find_boundary parse msg_type L_next s"

subsection \<open>Buffers as lists\<close>

definition slots_list :: "'a slots \<Rightarrow> nat \<Rightarrow> 'a list" where
  "slots_list a n = map (\<lambda>i. the (a i)) [0..<n]"

definition slots_full :: "'a slots \<Rightarrow> nat \<Rightarrow> bool" where
  "slots_full a n \<longleftrightarrow> (\<forall>i < n. a i \<noteq> None)"

lemma length_slots_list [simp]: "length (slots_list a n) = n"
  by (simp add: slots_list_def)

lemma slots_list_0 [simp]: "slots_list a 0 = []"
  by (simp add: slots_list_def)

lemma slots_list_push: "slots_list (a(n \<mapsto> x)) (Suc n) = slots_list a n @ [x]"
  by (simp add: slots_list_def)

lemma slots_full_push: "slots_full a n \<Longrightarrow> slots_full (a(n \<mapsto> x)) (Suc n)"
  by (auto simp: slots_full_def less_Suc_eq)

lemma slots_list_top: "slots_full a n \<Longrightarrow> 0 < n \<Longrightarrow> a 0 = Some (hd (slots_list a n))"
  by (auto simp: slots_full_def slots_list_def upt_conv_Cons)

lemma slots_list_set_top: "0 < n \<Longrightarrow> slots_list (a(0 \<mapsto> x)) n = x # tl (slots_list a n)"
  by (auto simp: slots_list_def upt_conv_Cons)

lemma slots_full_set_top: "slots_full a n \<Longrightarrow> slots_full (a(0 \<mapsto> x)) n"
  by (auto simp: slots_full_def)

lemma fold_clear: "fold (\<lambda>i a. a(i := None)) [0..<k] a = (\<lambda>j. if j < k then None else a j)"
  by (induction k) (auto simp: less_Suc_eq)

text \<open>Moving the elements from position \<open>c\<close> on to the front.\<close>

lemma fold_move:
  assumes "0 < c"
  shows "fold (\<lambda>i a. a(i - c := a i, i := None)) [c..<c + k] a =
    (\<lambda>j. if j < k then a (j + c) else if c \<le> j \<and> j < c + k then None else a j)"
proof (induction k)
  case (Suc k)
  then show ?case using assms by (auto simp: less_Suc_eq fun_eq_iff add.commute)
qed (auto simp: fun_eq_iff)

lemma fold_shift:
  "fold (\<lambda>i a. a(i - 1 := a i)) [1..<1 + k] a = (\<lambda>j. if j < k then a (j + 1) else a j)"
proof (induction k)
  case (Suc k)
  have "[1..<1 + Suc k] = [1..<1 + k] @ [1 + k]" by simp
  then show ?case by (simp only: fold_append o_apply Suc.IH fold_simps) (auto simp: less_Suc_eq fun_eq_iff)
qed auto

definition frame_list :: "'f frame_buf_s \<Rightarrow> 'f frame_data_s list" where
  "frame_list fb = slots_list (fb_frames fb) (frame_buf_size fb)"

definition buf_raws :: "raw_buf_s \<Rightarrow> raw_data_s list" where
  "buf_raws rb = slots_list (raw_datas rb) (raw_buf_size rb)"

definition raw_buf_ok :: "raw_buf_s \<Rightarrow> bool" where
  "raw_buf_ok rb \<longleftrightarrow> raw_buf_size rb \<le> RAW_BUF_SIZE \<and> slots_full (raw_datas rb) (raw_buf_size rb)"

definition frame_buf_ok :: "'f frame_buf_s \<Rightarrow> bool" where
  "frame_buf_ok fb \<longleftrightarrow> frame_buf_size fb \<le> FRAME_BUF_SIZE \<and> slots_full (fb_frames fb) (frame_buf_size fb) \<and>
     fb_current_pos fb \<le> frame_buf_size fb"

lemma pop_raw_data_list:
  assumes "raw_buf_ok rb"
  shows "buf_raws (snd (pop_raw_data rb)) = tl (buf_raws rb)" "raw_buf_ok (snd (pop_raw_data rb))"
proof -
  obtain n a where rb: "rb = \<lparr>raw_buf_size = n, raw_datas = a\<rparr>" by (cases rb)
  show "buf_raws (snd (pop_raw_data rb)) = tl (buf_raws rb)" "raw_buf_ok (snd (pop_raw_data rb))"
  proof (atomize (full), cases n)
    case (Suc k)
    then obtain x where x: "a 0 = Some x" using assms by (auto simp: rb raw_buf_ok_def slots_full_def)
    have "min n RAW_BUF_SIZE = 1 + k" using assms Suc by (auto simp: rb raw_buf_ok_def)
    then have "snd (pop_raw_data rb) = \<lparr>raw_buf_size = k,
        raw_datas = (\<lambda>j. if j < k then a (j + 1) else a j)(k := None)\<rparr>"
      using Suc x fold_shift [of k a] by (simp add: pop_raw_data_def rb)
    then show "buf_raws (snd (pop_raw_data rb)) = tl (buf_raws rb) \<and> raw_buf_ok (snd (pop_raw_data rb))"
      using assms Suc
      by (auto simp: rb raw_buf_ok_def buf_raws_def slots_list_def slots_full_def map_tl [symmetric] simp del: upt_Suc
          intro!: nth_equalityI)
  qed (use assms in \<open>simp add: rb pop_raw_data_def buf_raws_def\<close>)
qed


lemma peek_raw_data_list:
  assumes "raw_buf_ok rb"
  shows "peek_raw_data rb = (case buf_raws rb of [] \<Rightarrow> None | rd # _ \<Rightarrow> Some rd)"
proof (cases "raw_buf_size rb")
  case (Suc n)
  then show ?thesis
    using assms slots_list_top [of "raw_datas rb" "raw_buf_size rb"] length_slots_list [of "raw_datas rb" "raw_buf_size rb"]
    by (cases "buf_raws rb") (auto simp: peek_raw_data_def buf_raws_def raw_buf_ok_def simp del: length_slots_list)
qed (simp add: peek_raw_data_def buf_raws_def)

lemma replace_top_list:
  assumes "raw_buf_ok rb" "buf_raws rb \<noteq> []"
  shows "buf_raws (snd (replace_top_raw_data rb x)) = x # tl (buf_raws rb)"
    "raw_buf_ok (snd (replace_top_raw_data rb x))"
  using assms slots_list_top [of "raw_datas rb" "raw_buf_size rb"]
  by (auto simp: replace_top_raw_data_def buf_raws_def raw_buf_ok_def slots_list_set_top slots_full_set_top
      simp flip: length_greater_0_conv)

text \<open>The buffer that \<^const>\<open>overlay_raw_data\<close> makes of the first two.\<close>

definition joined :: "raw_data_s \<Rightarrow> raw_data_s \<Rightarrow> raw_data_s" where
  "joined dst src = \<lparr>rd_flags = 0, rd_timestamp_ns = rd_timestamp_ns dst, rd_index = rd_index src,
     rd_isBrokeData = 0, rd_current_pos = rd_current_pos dst, rd_data = rd_data dst @ rd_data src\<rparr>"

definition overlay_list :: "raw_data_s list \<Rightarrow> bool \<times> raw_data_s list" where
  "overlay_list rds = (case rds of
     dst # src # rest \<Rightarrow>
       (True, if rd_index src < rd_index dst then dst\<lparr>rd_isBrokeData := 1\<rparr> # src # rest
              else if rd_index src = rd_index dst \<and> 0 < rd_index dst then rds
              else joined dst src # rest)
   | _ \<Rightarrow> (False, rds))"

lemma overlay_raw_data_list:
  assumes "raw_buf_ok rb"
  shows "(fst (overlay_raw_data rb), buf_raws (snd (overlay_raw_data rb))) = overlay_list (buf_raws rb)"
    "raw_buf_ok (snd (overlay_raw_data rb))"
proof (atomize (full), cases "raw_buf_size rb < 2")
  case True
  then have "length (buf_raws rb) < 2" by (simp add: buf_raws_def)
  then show "(fst (overlay_raw_data rb), buf_raws (snd (overlay_raw_data rb))) = overlay_list (buf_raws rb) \<and>
    raw_buf_ok (snd (overlay_raw_data rb))"
    using True assms by (auto simp: overlay_raw_data_def overlay_list_def split: list.split)
next
  case False
  then obtain dst src where ds: "raw_datas rb 0 = Some dst" "raw_datas rb 1 = Some src"
    using assms slots_full_def [of "raw_datas rb" "raw_buf_size rb"]
    by (auto simp: raw_buf_ok_def) (metis One_nat_def Suc_1 Suc_lessD lessI less_trans not_less_eq not_less_iff_gr_or_eq)
  have l: "buf_raws rb = dst # src # map (\<lambda>i. the (raw_datas rb i)) [2..<raw_buf_size rb]"
    using False ds by (simp add: buf_raws_def slots_list_def upt_conv_Cons numeral_2_eq_2)
  note pop = pop_raw_data_list [OF assms]
  have "buf_raws (snd (pop_raw_data rb)) \<noteq> []" using pop(1) l by simp
  note rep = replace_top_list [OF pop(2) this, of "joined dst src"]
  have brk: "buf_raws (rb\<lparr>raw_datas := (raw_datas rb)(0 \<mapsto> dst\<lparr>rd_isBrokeData := 1\<rparr>)\<rparr>)
      = dst\<lparr>rd_isBrokeData := 1\<rparr> # tl (buf_raws rb)"
    using False by (simp add: buf_raws_def slots_list_set_top)
  show "(fst (overlay_raw_data rb), buf_raws (snd (overlay_raw_data rb))) = overlay_list (buf_raws rb) \<and>
    raw_buf_ok (snd (overlay_raw_data rb))"
    using False ds l pop rep brk assms
    by (auto simp: overlay_raw_data_def do_overlay_raw_data_def overlay_list_def joined_def raw_buf_ok_def
        slots_full_set_top not_less)
qed

text \<open>Frames: pushing appends, and popping drops the frames before the current position.\<close>

lemma push_frame_list:
  assumes "frame_buf_ok (frame_bufs ds)" "push_frame_data ds f = (b, ds')"
  shows "frame_buf_ok (frame_bufs ds') \<and> raw_bufs ds' = raw_bufs ds \<and>
    b = (frame_buf_size (frame_bufs ds) < FRAME_BUF_SIZE) \<and>
    frame_list (frame_bufs ds') = frame_list (frame_bufs ds) @ (if b then [f] else [])"
  using assms
  by (auto simp: push_frame_data_def Let_def frame_buf_ok_def frame_list_def slots_list_push slots_full_push
      split: if_splits)

lemma pop_frames_list:
  assumes "frame_buf_ok fb"
  shows "frame_list (do_pop_frames fb) = drop (fb_current_pos fb) (frame_list fb) \<and>
    frame_buf_ok (do_pop_frames fb) \<and> fb_current_pos (do_pop_frames fb) = 0"
proof (cases "fb_current_pos fb = 0")
  case False
  let ?c = "fb_current_pos fb" and ?n = "frame_buf_size fb" and ?a = "fb_frames fb"
  have c: "?c \<le> ?n" "?n \<le> FRAME_BUF_SIZE" "slots_full ?a ?n" using assms by (auto simp: frame_buf_ok_def)
  let ?freed = "\<lambda>j. if j < ?c then None else ?a j"
  let ?k = "?n - ?c"
  have "min ?c FRAME_BUF_SIZE = ?c" "min ?n FRAME_BUF_SIZE = ?c + ?k" using c by auto
  then have e: "do_pop_frames fb = fb\<lparr>fb_frames := (\<lambda>j. if j < ?k then ?freed (j + ?c)
      else if ?c \<le> j \<and> j < ?c + ?k then None else ?freed j), frame_buf_size := ?k, fb_current_pos := 0\<rparr>"
    using False c fold_clear [of ?c ?a] fold_move [of ?c ?k ?freed]
    by (simp add: do_pop_frames_def usize_sub_def)
  show ?thesis
    unfolding e using c
    by (auto simp: frame_list_def frame_buf_ok_def slots_list_def slots_full_def drop_map add.commute
        intro!: nth_equalityI)
qed (use assms in \<open>simp add: do_pop_frames_def\<close>)

subsection \<open>What the loop does to a stream\<close>

definition stream_ok :: "'f data_stream_s \<Rightarrow> bool" where
  "stream_ok ds \<longleftrightarrow> raw_buf_ok (raw_bufs ds) \<and> frame_buf_ok (frame_bufs ds) \<and>
     (\<forall>rd \<in> set (buf_raws (raw_bufs ds)). raw_ok rd)"

abbreviation raws :: "'f data_stream_s \<Rightarrow> raw_data_s list" where
  "raws ds \<equiv> buf_raws (raw_bufs ds)"

abbreviation frames :: "'f data_stream_s \<Rightarrow> 'f frame_data_s list" where
  "frames ds \<equiv> frame_list (frame_bufs ds)"

lemma init_data_stream_ok:
  "stream_ok init_data_stream" "raws init_data_stream = []" "frames init_data_stream = []"
  by (simp_all add: stream_ok_def init_data_stream_def raw_buf_ok_def frame_buf_ok_def buf_raws_def
      frame_list_def slots_full_def)

lemma add_raw_data_ok:
  assumes "stream_ok ds" "data_stream_add_raw_data ds data t i = (b, ds')"
  shows "stream_ok ds' \<and> frames ds' = frames ds \<and> b = (length (raws ds) < RAW_BUF_SIZE) \<and>
    raws ds' = raws ds @ (if b then [\<lparr>rd_flags = 0, rd_timestamp_ns = t, rd_index = i, rd_isBrokeData = 0,
       rd_current_pos = 0, rd_data = data\<rparr>] else [])"
  using assms
  by (auto simp: data_stream_add_raw_data_def push_raw_data_def Let_def stream_ok_def raw_buf_ok_def
      buf_raws_def slots_list_push slots_full_push raw_ok_def split: if_splits)

lemma set_top_list:
  assumes "stream_ok ds" "raws ds \<noteq> []"
  shows "raws (set_top ds rd) = rd # tl (raws ds)" "frame_bufs (set_top ds rd) = frame_bufs ds"
    "raw_ok rd \<Longrightarrow> stream_ok (set_top ds rd)"
proof -
  have n: "0 < raw_buf_size (raw_bufs ds)" using assms(2) by (cases "raw_buf_size (raw_bufs ds)") (auto simp: buf_raws_def)
  show l: "raws (set_top ds rd) = rd # tl (raws ds)" "frame_bufs (set_top ds rd) = frame_bufs ds"
    using n by (simp_all add: set_top_def buf_raws_def slots_list_set_top)
  show "raw_ok rd \<Longrightarrow> stream_ok (set_top ds rd)"
    using assms n l by (auto simp: stream_ok_def dest: list.set_sel(2))
      (simp add: set_top_def raw_buf_ok_def slots_full_set_top)
qed

lemma pop_top_list:
  assumes "stream_ok ds"
  shows "raws (pop_top ds) = tl (raws ds)" "frame_bufs (pop_top ds) = frame_bufs ds" "stream_ok (pop_top ds)"
  using assms pop_raw_data_list [of "raw_bufs ds"]
  by (auto simp: stream_ok_def pop_top_def dest: list.set_sel(2) [rotated]) (metis list.sel(2) list.set_sel(2))

text \<open>What is left to do: bytes and buffers, with the label and the mark of the first buffer.\<close>

fun load :: "raw_data_s list \<Rightarrow> nat" where
  "load [] = 0"
| "load (rd # rds) = length (remaining rd) + 1 + sum_list (map (\<lambda>r. data_len r + 1) rds)"

definition unmarked :: "raw_data_s list \<Rightarrow> nat" where
  "unmarked rds = (case rds of [] \<Rightarrow> 0 | rd # _ \<Rightarrow> if rd_flags rd AND RAW_DATA_FLAGS_INVALID = 0 then 1 else 0)"

definition label_weight :: "goto_label \<Rightarrow> nat" where
  "label_weight l = (case l of L_next \<Rightarrow> 2 | L_rebound \<Rightarrow> 1 | L_repeat \<Rightarrow> 0)"

definition work :: "goto_label \<Rightarrow> raw_data_s list \<Rightarrow> nat" where
  "work l rds = 3 * (2 * load rds + unmarked rds) + label_weight l"

lemma unmarked_le: "unmarked rds \<le> 1"
  by (simp add: unmarked_def split: list.split)

lemma work_less_mark:
  "2 * load rds' + unmarked rds' < 2 * load rds + unmarked rds \<Longrightarrow> work l' rds' < work l rds"
  by (auto simp: work_def label_weight_def split: goto_label.splits)

lemma work_less: "load rds' < load rds \<Longrightarrow> work l' rds' < work l rds"
  using unmarked_le [of rds'] by (auto simp: work_def label_weight_def split: goto_label.splits)

lemma load_tl: "rds \<noteq> [] \<Longrightarrow> load (tl rds) < load rds"
  by (cases rds; cases "tl rds") (auto simp: length_remaining)

lemma load_joined: "raw_ok dst \<Longrightarrow> load (joined dst src # rest) < load (dst # src # rest)"
  by (auto simp: joined_def length_remaining data_len_def raw_ok_def)

lemma raw_ok_joined: "raw_ok dst \<Longrightarrow> raw_ok (joined dst src)"
  by (simp add: raw_ok_def joined_def data_len_def)

definition increasing :: "raw_data_s list \<Rightarrow> bool" where
  "increasing rds \<longleftrightarrow> sorted_wrt (\<lambda>a b. rd_index a < rd_index b) rds"

lemma increasing_tl: "increasing rds \<Longrightarrow> increasing (tl rds)"
  by (cases rds) (auto simp: increasing_def)

lemma increasing_joined: "increasing (dst # src # rest) \<Longrightarrow> increasing (joined dst src # rest)"
  by (auto simp: increasing_def joined_def)

lemma increasing_top: "increasing (rd # rds) \<Longrightarrow> rd_index rd' = rd_index rd \<Longrightarrow> increasing (rd' # rds)"
  by (auto simp: increasing_def)

definition label_ok :: "goto_label \<Rightarrow> raw_data_s list \<Rightarrow> bool" where
  "label_ok l rds \<longleftrightarrow> (case l of L_next \<Rightarrow> True | L_rebound \<Rightarrow> rds \<noteq> []
     | L_repeat \<Rightarrow> rds \<noteq> [] \<and> rd_current_pos (hd rds) < data_len (hd rds))"

text \<open>What the block behind the label \<^verbatim>\<open>repeat\<close> may leave behind, for each of its results.\<close>

definition outcome_ok :: "'f data_stream_s \<Rightarrow> parse_rslt_e \<Rightarrow> 'f data_stream_s \<Rightarrow> bool" where
  "outcome_ok ds rslt ds' \<longleftrightarrow>
     stream_ok ds' \<and> (\<exists>fs. frames ds' = frames ds @ fs) \<and> (increasing (raws ds) \<longrightarrow> increasing (raws ds')) \<and>
     raws ds' \<noteq> [] \<and>
     (case rslt of
        PARSE_OVERLAY \<Rightarrow> load (raws ds') < load (raws ds)
      | PARSE_REPEAT \<Rightarrow> load (raws ds') < load (raws ds) \<and> rd_current_pos (hd (raws ds')) < data_len (hd (raws ds'))
      | PARSE_REBOUND \<Rightarrow> 2 * load (raws ds') + unmarked (raws ds') < 2 * load (raws ds) + unmarked (raws ds)
      | PARSE_STOP \<Rightarrow> data_len (hd (raws ds')) = data_len (hd (raws ds))
      | _ \<Rightarrow> load (tl (raws ds')) < load (raws ds))"

text \<open>The stream after the parser has moved the position of its top.\<close>

definition top_moved :: "'f data_stream_s \<Rightarrow> raw_data_s \<Rightarrow> 'f data_stream_s \<Rightarrow> raw_data_s list \<Rightarrow> bool" where
  "top_moved ds rd' ds1 rds \<longleftrightarrow>
     stream_ok ds1 \<and> raws ds1 = rd' # rds \<and> frame_bufs ds1 = frame_bufs ds \<and> raw_ok rd' \<and>
     (\<exists>rd. raws ds = rd # rds \<and> rd_flags rd' = rd_flags rd \<and> rd_index rd' = rd_index rd \<and>
       data_len rd' = data_len rd) \<and>
     load (rd' # rds) \<le> load (raws ds)"

lemma top_moved_increasing: "top_moved ds rd' ds1 rds \<Longrightarrow> increasing (raws ds) \<Longrightarrow> increasing (rd' # rds)"
  by (auto simp: top_moved_def increasing_def)

lemma top_moved_drop: "top_moved ds rd' ds1 rds \<Longrightarrow> load rds < load (raws ds)"
  using load_tl [of "raws ds"] by (auto simp: top_moved_def)

lemma outcome_pop:
  "top_moved ds rd' ds1 rds \<Longrightarrow> outcome_ok ds PARSE_NEXT ds1 \<and> outcome_ok ds PARSE_ERROR ds1"
  using top_moved_increasing [of ds rd' ds1 rds] top_moved_drop [of ds rd' ds1 rds]
  by (auto simp: outcome_ok_def top_moved_def)

lemma outcome_success:
  assumes "top_moved ds rd' ds1 rds" "load (rd' # rds) < load (raws ds)"
    and "parse_state_switch STATE_SUCCESS f rd' ds1 = (rslt, ds')"
  shows "outcome_ok ds rslt ds'"
proof (cases f)
  case None
  then show ?thesis using assms outcome_pop [of ds rd' ds1 rds] by (auto simp: parse_state_switch_def)
next
  case (Some fd)
  obtain b ds2 where pf: "push_frame_data ds1 fd = (b, ds2)" by (cases "push_frame_data ds1 fd")
  have "frame_buf_ok (frame_bufs ds1)" using assms(1) unfolding top_moved_def stream_ok_def by blast
  note pfl = push_frame_list [OF this pf]
  moreover have "stream_ok ds2" using pfl assms(1) by (auto simp: stream_ok_def top_moved_def)
  ultimately show ?thesis
    using assms pf Some top_moved_increasing [OF assms(1)] top_moved_drop [OF assms(1)]
    by (auto simp: parse_state_switch_def outcome_ok_def top_moved_def raw_ok_def split: if_splits bool.splits)
qed

lemma outcome_invalid:
  assumes "top_moved ds rd' ds1 rds" "parse_state_switch STATE_INVALID f rd' ds1 = (rslt, ds')"
  shows "outcome_ok ds rslt ds'"
proof (cases "rd_flags rd' AND RAW_DATA_FLAGS_INVALID = 0")
  case True
  let ?rd = "rd'\<lparr>rd_flags := rd_flags rd' OR RAW_DATA_FLAGS_INVALID\<rparr>"
  have "(rd_flags rd' OR 1) AND 1 = 1" by (rule bit_word_eqI) (auto simp: bit_simps)
  then have u: "unmarked (?rd # rds) = 0" "unmarked (raws ds) = 1"
    using True assms(1) by (auto simp: unmarked_def RAW_DATA_FLAGS_INVALID_def top_moved_def)
  have "load (?rd # rds) = load (rd' # rds)" "raw_ok ?rd"
    using assms(1) by (simp_all add: remaining_def raw_ok_def data_len_def top_moved_def)
  moreover have "increasing (raws ds) \<longrightarrow> increasing (?rd # rds)"
    using top_moved_increasing [OF assms(1)] increasing_top [of rd' rds ?rd] by simp
  ultimately show ?thesis
    using set_top_list [of ds1 ?rd] assms True u
    by (auto simp: parse_state_switch_def outcome_ok_def top_moved_def)
qed (use assms outcome_pop [OF assms(1)] in \<open>auto simp: parse_state_switch_def\<close>)

lemma outcome_overlay:
  assumes "top_moved ds rd' ds1 rds" "parse_state_switch STATE_NEEDS_MORE_DATA f rd' ds1 = (rslt, ds')"
    and more: "load (rd' # rds) < load (raws ds) \<or> increasing (raws ds)"
  shows "outcome_ok ds rslt ds'"
proof -
  obtain b rb where o: "overlay_raw_data (raw_bufs ds1) = (b, rb)" by (cases "overlay_raw_data (raw_bufs ds1)")
  have rbo: "raw_buf_ok (raw_bufs ds1)" "raws ds1 = rd' # rds" "raw_ok rd'"
    using assms(1) by (simp_all add: top_moved_def stream_ok_def)
  have ol: "(b, buf_raws rb) = overlay_list (rd' # rds)" "raw_buf_ok rb"
    using overlay_raw_data_list [OF rbo(1)] o rbo(2) by simp_all
  have eq: "ds' = ds1\<lparr>raw_bufs := rb\<rparr>" "rslt = (if b then PARSE_OVERLAY else PARSE_STOP)"
    using assms(2) o by (auto simp: parse_state_switch_def split: bool.splits)
  show ?thesis
  proof (cases rds)
    case Nil
    then show ?thesis
      using eq ol assms(1) top_moved_increasing [OF assms(1)]
      by (auto simp: overlay_list_def outcome_ok_def top_moved_def stream_ok_def)
  next
    case (Cons src rest)
    let ?broke = "rd'\<lparr>rd_isBrokeData := 1\<rparr>"
    have broke: "load (?broke # rds) = load (rd' # rds)" "raw_ok ?broke"
      using rbo(3) by (simp_all add: remaining_def raw_ok_def data_len_def)
    have merge: "load (raws ds') < load (raws ds)" if "raws ds' = joined rd' src # rest"
      using load_joined [OF rbo(3), of src rest] that assms(1) Cons by (auto simp: top_moved_def)
    have inc: "increasing (raws ds) \<Longrightarrow> rd_index rd' < rd_index src \<and> increasing (rd' # src # rest)"
      using top_moved_increasing [OF assms(1)] Cons by (auto simp: increasing_def)
    show ?thesis
      using eq ol assms(1) merge broke more Cons inc increasing_joined [of rd' src rest] raw_ok_joined [OF rbo(3)]
      by (auto simp: overlay_list_def outcome_ok_def top_moved_def stream_ok_def split: if_splits)
  qed
qed

definition step_ok :: "'f data_stream_s \<Rightarrow> goto_label \<Rightarrow> ('g \<times> 'f data_stream_s) jump \<Rightarrow> bool" where
  "step_ok ds l j \<longleftrightarrow> (case j of
      Goto l' (g', ds') \<Rightarrow> stream_ok ds' \<and> label_ok l' (raws ds') \<and> work l' (raws ds') < work l (raws ds) \<and>
        (increasing (raws ds) \<longrightarrow> increasing (raws ds')) \<and> (\<exists>fs. frames ds' = frames ds @ fs)
    | Return (g', ds') \<Rightarrow> stream_ok ds' \<and> (\<exists>fs. frames ds' = frames ds @ fs)
    | Undefined \<Rightarrow> True)"

lemma outcome_step:
  assumes "outcome_ok ds rslt ds'" "old_pos \<le> data_len (hd (raws ds))"
  shows "step_ok ds L_repeat (repeat_jump old_pos g rslt ds')"
proof -
  have ok: "stream_ok ds'" "raws ds' \<noteq> []" using assms(1) by (auto simp: outcome_ok_def)
  then obtain rd' rds' where r: "raws ds' = rd' # rds'" by (cases "raws ds'") auto
  have peek: "peek_raw_data (raw_bufs ds') = Some rd'" using ok(1) r by (simp add: peek_raw_data_list stream_ok_def)
  note pop = pop_top_list [OF ok(1)]
  show ?thesis
  proof (cases rslt)
    case PARSE_STOP
    let ?rd = "rd'\<lparr>rd_current_pos := old_pos\<rparr>"
    have "raw_ok ?rd" using assms PARSE_STOP r by (simp add: outcome_ok_def raw_ok_def data_len_def)
    then show ?thesis using set_top_list [OF ok, of ?rd] assms(1) PARSE_STOP peek
      by (simp add: repeat_jump_def step_ok_def outcome_ok_def)
  qed (use assms(1) ok pop increasing_tl [of "raws ds'"] r in
      \<open>auto simp: repeat_jump_def step_ok_def outcome_ok_def label_ok_def simp del: load.simps
         intro: work_less work_less_mark\<close>)
qed

text \<open>
  The contract of a protocol: a boundary lies in the unparsed part, a parser stays in the
  buffer and changes only its position, and a frame takes at least one byte.
\<close>

locale frame_parser =
  fixes find_boundary :: "('g, 'f) boundary_finder" and parse :: "('g, 'f) frame_parser_fun"
  assumes boundary_within:
      "raw_ok rd \<Longrightarrow> find_boundary g mt rd = Some (Some p) \<Longrightarrow> rd_current_pos rd \<le> p \<and> p < data_len rd"
    and parse_within:
      "raw_ok rd \<Longrightarrow> rd_current_pos rd < data_len rd \<Longrightarrow> parse g mt rd = Some (g', st, f, rd') \<Longrightarrow> reaches rd rd'"
    and success_progress:
      "raw_ok rd \<Longrightarrow> rd_current_pos rd < data_len rd \<Longrightarrow> parse g mt rd = Some (g', STATE_SUCCESS, f, rd') \<Longrightarrow> rd' \<noteq> rd"
begin

lemma parse_load:
  assumes "raw_ok rd" "rd_current_pos rd < data_len rd" "parse g mt rd = Some (g', st, f, rd')"
  shows "raw_ok rd'" "rd_flags rd' = rd_flags rd" "rd_index rd' = rd_index rd" "data_len rd' = data_len rd"
    "load (rd' # rds) \<le> load (rd # rds)" "rd' \<noteq> rd \<Longrightarrow> load (rd' # rds) < load (rd # rds)"
proof -
  obtain n where n: "n \<le> length (remaining rd)" "rd' = consumed rd n"
    using parse_within [OF assms] by (auto simp: reaches_def)
  then show "raw_ok rd'" "rd_flags rd' = rd_flags rd" "rd_index rd' = rd_index rd" "data_len rd' = data_len rd"
    "load (rd' # rds) \<le> load (rd # rds)" using assms(1) by (auto intro: raw_ok_consumed)
  assume "rd' \<noteq> rd"
  then have "n \<noteq> 0" using n(2) by (cases n) auto
  then show "load (rd' # rds) < load (rd # rds)" using n assms(2) by (auto simp: length_remaining)
qed

lemma switch_outcome:
  assumes "stream_ok ds" "raws ds = rd # rds" "rd_current_pos rd < data_len rd"
    and p: "parse g mt rd = Some (g', st, f, rd')" and sw: "parse_state_switch st f rd' (set_top ds rd') = (rslt, ds')"
    and more: "st = STATE_NEEDS_MORE_DATA \<Longrightarrow> rd' \<noteq> rd \<or> increasing (raws ds)"
  shows "outcome_ok ds rslt ds'"
proof -
  have rok: "raw_ok rd" using assms(1,2) by (simp add: stream_ok_def)
  note pl = parse_load [OF rok assms(3) p]
  have m: "top_moved ds rd' (set_top ds rd') rds"
    using set_top_list [OF assms(1), of rd'] pl assms(2) by (auto simp: top_moved_def)
  show ?thesis
  proof (cases st)
    case STATE_SUCCESS
    then have "rd' \<noteq> rd" using success_progress [OF rok assms(3)] p by auto
    then show ?thesis using outcome_success [OF m] pl(6) [of rds] sw STATE_SUCCESS assms(2) by auto
  next
    case STATE_INVALID
    then show ?thesis using outcome_invalid [OF m] sw by auto
  next
    case STATE_NEEDS_MORE_DATA
    then show ?thesis using outcome_overlay [OF m] sw more pl(6) [of rds] assms(2) by auto
  qed (use sw outcome_pop [OF m] in \<open>auto simp: parse_state_switch_def\<close>)
qed

lemma rebound_step:
  assumes "stream_ok ds" "raws ds = rd # rds"
  shows "step_ok ds L_rebound (parse_goto find_boundary parse mt L_rebound (g, ds))"
proof -
  have peek: "peek_raw_data (raw_bufs ds) = Some rd" and rok: "raw_ok rd"
    using assms by (simp_all add: peek_raw_data_list stream_ok_def)
  consider "find_boundary g mt rd = None" | "find_boundary g mt rd = Some None"
    | p where "find_boundary g mt rd = Some (Some p)"
    by (cases "find_boundary g mt rd") auto
  then show ?thesis
  proof cases
    case 2
    then show ?thesis
      using peek pop_top_list [OF assms(1)] work_less load_tl [of "raws ds"] assms(2) increasing_tl [of "raws ds"]
      by (simp add: parse_goto_def step_ok_def label_ok_def)
  next
    case (3 p)
    let ?rd = "rd\<lparr>rd_current_pos := p\<rparr>"
    have b: "rd_current_pos rd \<le> p" "p < data_len rd" using boundary_within [OF rok] 3 by auto
    have "raw_ok ?rd" "load (?rd # rds) \<le> load (rd # rds)" "unmarked (?rd # rds) = unmarked (rd # rds)"
      using b by (auto simp: raw_ok_def data_len_def length_remaining unmarked_def)
    then show ?thesis
      using 3 peek set_top_list [OF assms(1), of ?rd] assms(2) b increasing_top [of rd rds ?rd]
      by (auto simp: parse_goto_def step_ok_def label_ok_def work_def label_weight_def data_len_def)
  qed (use peek in \<open>simp add: parse_goto_def step_ok_def\<close>)
qed

lemma repeat_step:
  assumes "stream_ok ds" "raws ds = rd # rds" "rd_current_pos rd < data_len rd"
    and more: "(\<forall>g rd g' f rd'. raw_ok rd \<longrightarrow> rd_current_pos rd < data_len rd \<longrightarrow>
        parse g mt rd = Some (g', STATE_NEEDS_MORE_DATA, f, rd') \<longrightarrow> rd' \<noteq> rd) \<or> increasing (raws ds)"
  shows "step_ok ds L_repeat (parse_goto find_boundary parse mt L_repeat (g, ds))"
proof (cases "parse g mt rd")
  case None
  then show ?thesis
    using assms(1,2) by (simp add: parse_goto_def do_parse_frames_def step_ok_def peek_raw_data_list stream_ok_def)
next
  case (Some r)
  obtain g' st f rd' where r: "r = (g', st, f, rd')" by (cases r)
  obtain rslt ds' where sw: "parse_state_switch st f rd' (set_top ds rd') = (rslt, ds')"
    by (cases "parse_state_switch st f rd' (set_top ds rd')")
  have peek: "peek_raw_data (raw_bufs ds) = Some rd" and rok: "raw_ok rd"
    using assms by (simp_all add: peek_raw_data_list stream_ok_def)
  have st: "st = STATE_NEEDS_MORE_DATA \<Longrightarrow> rd' \<noteq> rd \<or> increasing (raws ds)"
    using more rok assms(3) Some r by blast
  have "outcome_ok ds rslt ds'" by (rule switch_outcome [OF assms(1-3) _ sw st]) (use Some r in auto)
  then have "step_ok ds L_repeat (repeat_jump (rd_current_pos rd) g' rslt ds')"
    using assms(2,3) by (intro outcome_step) (auto simp: raw_ok_def)
  then show ?thesis using peek Some r sw by (simp add: parse_goto_def do_parse_frames_def)
qed

lemma goto_step:
  assumes "stream_ok ds" "label_ok l (raws ds)"
    and more: "(\<forall>g rd g' f rd'. raw_ok rd \<longrightarrow> rd_current_pos rd < data_len rd \<longrightarrow>
        parse g mt rd = Some (g', STATE_NEEDS_MORE_DATA, f, rd') \<longrightarrow> rd' \<noteq> rd) \<or> increasing (raws ds)"
  shows "step_ok ds l (parse_goto find_boundary parse mt l (g, ds))"
proof (cases "raws ds")
  case Nil
  then show ?thesis
    using assms(1) by (simp add: parse_goto_def peek_raw_data_list step_ok_def stream_ok_def)
next
  case (Cons rd rds)
  have peek: "peek_raw_data (raw_bufs ds) = Some rd"
    using assms(1) Cons by (simp add: peek_raw_data_list stream_ok_def)
  show ?thesis
  proof (cases l)
    case L_next
    then show ?thesis using assms(1) Cons peek
      by (simp add: parse_goto_def step_ok_def label_ok_def work_def label_weight_def)
  next
    case L_repeat
    with assms Cons repeat_step [OF assms(1) Cons _ more] show ?thesis by (simp add: label_ok_def)
  qed (use rebound_step [OF assms(1) Cons] in simp)
qed

lemma loop_returns:
  assumes "stream_ok ds" "label_ok l (raws ds)"
    and more: "(\<forall>g rd g' f rd'. raw_ok rd \<longrightarrow> rd_current_pos rd < data_len rd \<longrightarrow>
        parse g mt rd = Some (g', STATE_NEEDS_MORE_DATA, f, rd') \<longrightarrow> rd' \<noteq> rd) \<or> increasing (raws ds)"
  shows "\<exists>r. parse_loop find_boundary parse mt l (g, ds) = Some r \<and>
    (\<forall>g' ds'. r = Some (g', ds') \<longrightarrow> stream_ok ds' \<and> (\<exists>fs. frames ds' = frames ds @ fs))"
  using assms
proof (induction "work l (raws ds)" arbitrary: l g ds rule: less_induct)
  case less
  note step = goto_step [OF less.prems, of g]
  show ?case
  proof (cases "parse_goto find_boundary parse mt l (g, ds)")
    case (Goto l' s)
    obtain g' ds' where s: "s = (g', ds')" by (cases s)
    from step Goto s obtain fs where ds': "stream_ok ds'" "label_ok l' (raws ds')" "work l' (raws ds') < work l (raws ds)"
      "increasing (raws ds) \<longrightarrow> increasing (raws ds')" "frames ds' = frames ds @ fs" by (auto simp: step_ok_def)
    from less.hyps [OF ds'(3,1,2), of g'] less.prems(3) ds'(4) obtain r where
      "parse_loop find_boundary parse mt l' (g', ds') = Some r"
      "\<forall>g'' ds''. r = Some (g'', ds'') \<longrightarrow> stream_ok ds'' \<and> (\<exists>gs. frames ds'' = frames ds' @ gs)" by blast
    then show ?thesis using Goto s ds'(5) by (subst parse_loop.simps) auto
  qed (use step in \<open>subst parse_loop.simps, auto simp: step_ok_def\<close>)+
qed

end

subsection \<open>Parsers that are defined\<close>

lemma overlay_list_all:
  assumes "\<forall>rd \<in> set rds. P (rd_data rd)" "\<And>a b. P a \<Longrightarrow> P b \<Longrightarrow> P (a @ b)"
  shows "\<forall>rd \<in> set (snd (overlay_list rds)). P (rd_data rd)"
proof (cases rds)
  case (Cons dst rds')
  then show ?thesis using assms by (cases rds') (auto simp: overlay_list_def joined_def)
qed (use assms in \<open>simp add: overlay_list_def\<close>)

lemma switch_raws:
  assumes "stream_ok ds1" "raws ds1 = rd' # rds" "parse_state_switch st f rd' ds1 = (rslt, ds')"
  shows "raws ds' \<in> {rd' # rds, rd'\<lparr>rd_flags := rd_flags rd' OR RAW_DATA_FLAGS_INVALID\<rparr> # rds, snd (overlay_list (rd' # rds))}"
proof (cases st)
  case STATE_SUCCESS
  have "raws (snd (push_frame_data ds1 x)) = raws ds1" for x
    by (auto simp: push_frame_data_def Let_def)
  then show ?thesis
    using assms(2,3) STATE_SUCCESS
    by (auto simp: parse_state_switch_def split: option.splits prod.splits bool.splits if_splits) (metis snd_conv)+
next
  case STATE_INVALID
  then show ?thesis using assms(2,3) set_top_list(1) [OF assms(1)]
    by (auto simp: parse_state_switch_def split: if_splits)
next
  case STATE_NEEDS_MORE_DATA
  have "raw_buf_ok (raw_bufs ds1)" using assms(1) by (simp add: stream_ok_def)
  from overlay_raw_data_list(1) [OF this] assms(2) have "buf_raws (snd (overlay_raw_data (raw_bufs ds1))) = snd (overlay_list (rd' # rds))"
    by (metis snd_conv)
  then show ?thesis
    using assms(3) STATE_NEEDS_MORE_DATA
    by (auto simp: parse_state_switch_def split: prod.splits bool.splits)
qed (use assms in \<open>auto simp: parse_state_switch_def\<close>)

text \<open>
  A protocol whose parser is defined on the data that are \<open>good\<close>: then so is the loop, when all
  buffers are good and joining them keeps this.
\<close>

locale defined_parser = frame_parser +
  fixes good :: "bytes \<Rightarrow> bool"
  assumes boundary_defined: "raw_ok rd \<Longrightarrow> good (rd_data rd) \<Longrightarrow> find_boundary g mt rd \<noteq> None"
    and parse_defined:
      "raw_ok rd \<Longrightarrow> rd_current_pos rd < data_len rd \<Longrightarrow> good (rd_data rd) \<Longrightarrow> parse g mt rd \<noteq> None"
    and good_append: "good a \<Longrightarrow> good b \<Longrightarrow> good (a @ b)"
begin

abbreviation all_good :: "raw_data_s list \<Rightarrow> bool" where
  "all_good rds \<equiv> \<forall>rd \<in> set rds. good (rd_data rd)"

lemma jump_good:
  assumes "stream_ok ds'" "raws ds' \<noteq> []" "all_good (raws ds')"
  shows "case repeat_jump old_pos g rslt ds' of Goto l (g', ds'') \<Rightarrow> all_good (raws ds'') | Return _ \<Rightarrow> True | Undefined \<Rightarrow> False"
proof -
  obtain rd' rds' where r: "raws ds' = rd' # rds'" using assms(2) by (cases "raws ds'") auto
  have "peek_raw_data (raw_bufs ds') = Some rd'" using assms(1) r by (simp add: peek_raw_data_list stream_ok_def)
  then show ?thesis using assms(3) r pop_top_list(1) [OF assms(1)]
    by (cases rslt) (simp_all add: repeat_jump_def)
qed

lemma repeat_good:
  assumes "stream_ok ds" "raws ds = rd # rds" "rd_current_pos rd < data_len rd" "all_good (raws ds)"
    and more: "(\<forall>g rd g' f rd'. raw_ok rd \<longrightarrow> rd_current_pos rd < data_len rd \<longrightarrow>
        parse g mt rd = Some (g', STATE_NEEDS_MORE_DATA, f, rd') \<longrightarrow> rd' \<noteq> rd) \<or> increasing (raws ds)"
  shows "case parse_goto find_boundary parse mt L_repeat (g, ds) of
    Goto l (g', ds') \<Rightarrow> all_good (raws ds') | Return _ \<Rightarrow> True | Undefined \<Rightarrow> False"
proof -
  have rok: "raw_ok rd" and peek: "peek_raw_data (raw_bufs ds) = Some rd"
    using assms(1,2) by (simp_all add: peek_raw_data_list stream_ok_def)
  then obtain g' st f rd' where p: "parse g mt rd = Some (g', st, f, rd')"
    using parse_defined [of rd g mt] assms(2-4) by auto
  have rd': "rd_data rd' = rd_data rd" "raw_ok rd'"
    using parse_within [OF rok assms(3) p] raw_ok_consumed [OF rok] by (auto simp: reaches_def)
  let ?ds = "set_top ds rd'"
  have ds: "stream_ok ?ds" "raws ?ds = rd' # rds" using set_top_list [OF assms(1), of rd'] rd'(2) assms(2) by auto
  obtain rslt ds' where sw: "parse_state_switch st f rd' ?ds = (rslt, ds')"
    by (cases "parse_state_switch st f rd' ?ds")
  have "outcome_ok ds rslt ds'"
    using more rok assms(3) p by (intro switch_outcome [OF assms(1-3) p sw]) blast
  then have ok: "stream_ok ds'" "raws ds' \<noteq> []" by (simp_all add: outcome_ok_def)
  have "all_good (rd' # rds)" using assms(2,4) rd'(1) by simp
  moreover from overlay_list_all [OF this good_append] have "all_good (snd (overlay_list (rd' # rds)))" by blast
  ultimately have "all_good (raws ds')" using switch_raws [OF ds sw] by auto
  from jump_good [OF ok this] show ?thesis using peek p sw by (simp add: parse_goto_def do_parse_frames_def)
qed

lemma goto_good:
  assumes "stream_ok ds" "label_ok l (raws ds)" "all_good (raws ds)"
    and more: "(\<forall>g rd g' f rd'. raw_ok rd \<longrightarrow> rd_current_pos rd < data_len rd \<longrightarrow>
        parse g mt rd = Some (g', STATE_NEEDS_MORE_DATA, f, rd') \<longrightarrow> rd' \<noteq> rd) \<or> increasing (raws ds)"
  shows "case parse_goto find_boundary parse mt l (g, ds) of
    Goto l (g', ds') \<Rightarrow> all_good (raws ds') | Return _ \<Rightarrow> True | Undefined \<Rightarrow> False"
proof (cases "raws ds")
  case Nil
  then show ?thesis using assms(1,2)
    by (cases l) (simp_all add: parse_goto_def peek_raw_data_list stream_ok_def label_ok_def)
next
  case (Cons rd rds)
  have peek: "peek_raw_data (raw_bufs ds) = Some rd" and rok: "raw_ok rd"
    using assms(1) Cons by (simp_all add: peek_raw_data_list stream_ok_def)
  show ?thesis
  proof (cases l)
    case L_rebound
    have "find_boundary g mt rd \<noteq> None" using boundary_defined [OF rok] assms(3) Cons by simp
    then obtain b where "find_boundary g mt rd = Some b" by blast
    then show ?thesis
      using L_rebound peek Cons assms(3) pop_top_list(1) [OF assms(1)] set_top_list(1) [OF assms(1)]
      by (cases b) (simp_all add: parse_goto_def)
  next
    case L_repeat
    then show ?thesis using repeat_good [OF assms(1) Cons _ assms(3) more] assms(2) Cons by (simp add: label_ok_def)
  qed (use peek assms(3) in \<open>simp add: parse_goto_def\<close>)
qed

lemma loop_defined:
  assumes "stream_ok ds" "label_ok l (raws ds)" "all_good (raws ds)"
    and more: "(\<forall>g rd g' f rd'. raw_ok rd \<longrightarrow> rd_current_pos rd < data_len rd \<longrightarrow>
        parse g mt rd = Some (g', STATE_NEEDS_MORE_DATA, f, rd') \<longrightarrow> rd' \<noteq> rd) \<or> increasing (raws ds)"
  shows "\<exists>s. parse_loop find_boundary parse mt l (g, ds) = Some (Some s)"
  using assms
proof (induction "work l (raws ds)" arbitrary: l g ds rule: less_induct)
  case less
  note step = goto_step [OF less.prems(1,2,4), of g] and good = goto_good [OF less.prems, of g]
  show ?case
  proof (cases "parse_goto find_boundary parse mt l (g, ds)")
    case (Goto l' s)
    obtain g' ds' where s: "s = (g', ds')" by (cases s)
    from step Goto s have ds': "stream_ok ds'" "label_ok l' (raws ds')" "work l' (raws ds') < work l (raws ds)"
      "increasing (raws ds) \<longrightarrow> increasing (raws ds')" by (auto simp: step_ok_def)
    have "all_good (raws ds')" using good Goto s by simp
    from less.hyps [OF ds'(3,1,2) this] less.prems(4) ds'(4)
    show ?thesis using Goto s by (subst parse_loop.simps) auto
  qed (use good in \<open>subst parse_loop.simps, auto\<close>)+
qed

end

subsection \<open>Joining buffers\<close>

lemma remaining_joined: "raw_ok a \<Longrightarrow> remaining (joined a b) = remaining a @ rd_data b"
  by (simp add: remaining_def joined_def raw_ok_def data_len_def)

lemma overlay_list_ok:
  assumes "\<forall>rd \<in> set rds. raw_ok rd"
  shows "\<forall>rd \<in> set (snd (overlay_list rds)). raw_ok rd"
proof (cases rds)
  case (Cons dst rds')
  then show ?thesis using assms raw_ok_joined [of dst]
    by (cases rds') (auto simp: overlay_list_def raw_ok_def data_len_def)
qed (use assms in \<open>simp add: overlay_list_def\<close>)

lemma overlay_ordered:
  assumes "rd_index a < rd_index b"
  shows "overlay_list (a # b # rds) = (True, joined a b # rds)"
proof -
  have "\<not> rd_index b < rd_index a" "rd_index b \<noteq> rd_index a" using assms by auto
  then show ?thesis by (simp add: overlay_list_def)
qed

text \<open>The step of a parser that asks for more data when there is a second buffer.\<close>

lemma more_data_step:
  assumes "stream_ok ds" "raws ds = a # b # rds" "parse g mt a = Some (g', STATE_NEEDS_MORE_DATA, f, a')" "raw_ok a'"
  shows "\<exists>ds'. parse_goto find_boundary parse mt L_repeat (g, ds) = Goto L_next (g', ds') \<and> stream_ok ds' \<and>
    raws ds' = snd (overlay_list (a' # b # rds)) \<and> frames ds' = frames ds"
proof -
  let ?ds = "set_top ds a'"
  have ds: "stream_ok ?ds" "raws ?ds = a' # b # rds" "frames ?ds = frames ds"
    using set_top_list [OF assms(1), of a'] assms(2,4) by auto
  have "raw_buf_ok (raw_bufs ?ds)" using ds(1) by (simp add: stream_ok_def)
  note ov = overlay_raw_data_list [OF this]
  let ?j = "?ds\<lparr>raw_bufs := snd (overlay_raw_data (raw_bufs ?ds))\<rparr>"
  have j: "fst (overlay_raw_data (raw_bufs ?ds))" "raws ?j = snd (overlay_list (a' # b # rds))"
    using arg_cong [OF ov(1), of fst] arg_cong [OF ov(1), of snd] unfolding ds(2) by (simp_all add: overlay_list_def)
  have "\<forall>rd \<in> set (snd (overlay_list (a' # b # rds))). raw_ok rd"
    by (rule overlay_list_ok) (use ds(1,2) in \<open>simp add: stream_ok_def\<close>)
  moreover have "raw_buf_ok (raw_bufs ?j)" using ov(2) by simp
  moreover have "frame_buf_ok (frame_bufs ?j)" using ds(1) by (simp add: stream_ok_def)
  ultimately have ok: "stream_ok ?j" unfolding stream_ok_def j(2) by blast
  have "peek_raw_data (raw_bufs ds) = Some a" using assms(1,2) by (simp add: stream_ok_def peek_raw_data_list)
  moreover obtain rb where "overlay_raw_data (raw_bufs ?ds) = (True, rb)"
    using j(1) by (cases "overlay_raw_data (raw_bufs ?ds)") auto
  ultimately have "parse_goto find_boundary parse mt L_repeat (g, ds) = Goto L_next (g', ?j)"
    using assms(3) by (simp add: parse_goto_def do_parse_frames_def parse_state_switch_def repeat_jump_def)
  moreover have "frames ?j = frames ds" using ds(3) by simp
  ultimately show ?thesis using ok j(2) by blast
qed

text \<open>A loop that stays within an invariant under its jumps never returns.\<close>

lemma loop_diverges:
  assumes "\<And>l s. I l s \<Longrightarrow> \<exists>l' s'. parse_goto find_boundary parse mt l s = Goto l' s' \<and> I l' s'" "I l s"
  shows "parse_loop find_boundary parse mt l s = None"
proof -
  define P where "P fb p m \<longleftrightarrow> (\<forall>l s. I l s \<longrightarrow> (\<exists>l' s'. parse_goto fb p m l s = Goto l' s' \<and> I l' s'))" for fb p m
  have "P fb p m \<longrightarrow> \<not> I l s" if "parse_loop fb p m l s = Some r" for fb p m l s r
  proof (rule parse_loop.raw_induct [OF _ that], intro impI notI)
    fix loop :: "('a, 'b) boundary_finder \<Rightarrow> ('a, 'b) frame_parser_fun \<Rightarrow> message_type_t \<Rightarrow> goto_label \<Rightarrow>
      'a \<times> 'b data_stream_s \<Rightarrow> ('a \<times> 'b data_stream_s) well_defined option"
      and fb p m l s r
    assume ih: "\<And>fb p m l s r. loop fb p m l s = Some r \<Longrightarrow> P fb p m \<longrightarrow> \<not> I l s"
      and step: "(case parse_goto fb p m l s of Goto label' s' \<Rightarrow> loop fb p m label' s'
        | Return s' \<Rightarrow> Some (Some s') | Undefined \<Rightarrow> Some None) = Some r"
      and "P fb p m" "I l s"
    then obtain l' s' where "parse_goto fb p m l s = Goto l' s'" "I l' s'" unfolding P_def by blast
    with step ih [of fb p m l' s' r] \<open>P fb p m\<close> show False by simp
  qed
  then show ?thesis using assms unfolding P_def by (cases "parse_loop find_boundary parse mt l s") auto
qed

text \<open>A stream to which two buffers were added, at the times 1 and 2.\<close>

definition stream_of :: "bytes \<Rightarrow> bytes \<Rightarrow> 'f data_stream_s" where
  "stream_of a b = snd (data_stream_add_raw_data (snd (data_stream_add_raw_data init_data_stream a 1 1)) b 2 2)"

definition buffer_of :: "bytes \<Rightarrow> u64 \<Rightarrow> u32 \<Rightarrow> raw_data_s" where
  "buffer_of data t i = \<lparr>rd_flags = 0, rd_timestamp_ns = t, rd_index = i, rd_isBrokeData = 0, rd_current_pos = 0, rd_data = data\<rparr>"

lemma add_buffer:
  assumes "stream_ok ds" "length (raws ds) < RAW_BUF_SIZE"
  shows "stream_ok (snd (data_stream_add_raw_data ds data t i))"
    "frames (snd (data_stream_add_raw_data ds data t i)) = frames ds"
    "raws (snd (data_stream_add_raw_data ds data t i)) = raws ds @ [buffer_of data t i]"
  using add_raw_data_ok [OF assms(1), of data t i] assms(2)
  by (cases "data_stream_add_raw_data ds data t i"; simp add: buffer_of_def)+

lemma stream_of_two:
  "stream_ok (stream_of a b)" "raws (stream_of a b) = [buffer_of a 1 1, buffer_of b 2 2]" "frames (stream_of a b) = []"
  by (simp_all add: stream_of_def add_buffer init_data_stream_ok RAW_BUF_SIZE_def)

lemma buffer_of_simps [simp]:
  "remaining (buffer_of a t i) = a" "raw_ok (buffer_of a t i)" "rd_timestamp_ns (buffer_of a t i) = t"
  "rd_data (buffer_of a t i) = a" "rd_index (buffer_of a t i) = i"
  by (simp_all add: buffer_of_def remaining_def raw_ok_def)

end
