(* ===== verification/Redis_Stream.thy ===== *)
theory Redis_Stream
  imports Redis_Parser Data_Stream
begin

section \<open>Redis streams\<close>

text \<open>
  The parse loop with the Redis parser, as \<^verbatim>\<open>proto_find_frame_boundary\<close> and
  \<^verbatim>\<open>proto_parse_frame\<close> select it for a stream of type \<^verbatim>\<open>PROTO_REDIS\<close>: from the bytes of a
  connection to its frames.
\<close>

definition redis_boundary :: "(unit, redis_msg_s) boundary_finder" where
  "redis_boundary g msg_type rd = Some (redis_find_frame_boundary rd)"

definition redis_parse :: "(bytes list \<Rightarrow> bytes) \<Rightarrow> (unit, redis_msg_s) frame_parser_fun" where
  "redis_parse json g msg_type rd = do {
     (state, frame_data, rd) \<leftarrow> redis_parse_frame json msg_type rd;
     Some (g, state, frame_data, rd) }"

definition redis_parse_frames ::
  "(bytes list \<Rightarrow> bytes) \<Rightarrow> message_type_t \<Rightarrow> redis_msg_s data_stream_s \<Rightarrow> redis_msg_s data_stream_s well_defined option" where
  "redis_parse_frames json msg_type ds =
     map_option (map_option snd) (data_stream_parse_frames redis_boundary (redis_parse json) msg_type ((), ds))"

subsection \<open>The contract of the loop\<close>

lemma reaches_bytes_left: "reaches rd rd' \<Longrightarrow> bytes_left rd' \<le> bytes_left rd"
  by (auto simp: reaches_def bytes_left_def)

lemma items_progress:
  assumes "parse_array_items json mt n rd2 msg ps = Some (st, m, ps', rd')" "parse_size rd = Some (r, rd2)" "raw_ok rd"
  shows "bytes_left rd' \<le> bytes_left rd"
  using reaches_bytes_left [OF parse_reaches(2) [OF assms(1)]] parse_size_progress [OF assms(2)]
    reaches_ok [OF leaf_reaches(3) [OF assms(3,2)] assms(3)] by simp

lemma parse_msg_progress:
  assumes "parse_msg_recursive json mt rd msg = Some (st, m, rd')" "raw_ok rd" "rd_current_pos rd < data_len rd"
  shows "bytes_left rd' < bytes_left rd"
proof -
  have "remaining rd \<noteq> []" using assms(3) length_remaining [of rd] by auto
  then obtain c cs where "remaining rd = c # cs" by (cases "remaining rd") auto
  note c = extract_marker(1,2) [OF assms(2) this]
  note c1 = decoder_extract_char_progress [OF c(1)]
  show ?thesis
    using assms(1) c(1) c1 unfolding parse_msg_recursive.simps [of json mt rd]
    by (auto split: bind_splits sum.splits if_splits dest!: leaf_progress)
      (use c(2) parse_size_progress items_progress in \<open>fastforce simp del: consumed_consumed\<close>)+
qed

lemma redis_parse_SomeD:
  assumes "redis_parse json g mt rd = Some (g', st, f, rd')" "rd_current_pos rd < data_len rd"
  shows "\<exists>m. parse_msg_recursive json mt rd init_redis_msg = Some (st, m, rd')"
  using assms
  by (auto simp: redis_parse_def redis_parse_frame_def Let_def split: bind_splits if_splits)

lemma redis_parse_moves:
  assumes "redis_parse json g mt rd = Some (g', st, f, rd')" "raw_ok rd" "rd_current_pos rd < data_len rd"
  shows "reaches rd rd'" "rd' \<noteq> rd"
  using redis_parse_SomeD [OF assms(1,3)] parse_reaches(1) [OF _ assms(2)] parse_msg_progress [OF _ assms(2,3)]
  by fastforce+

interpretation redis: frame_parser redis_boundary "redis_parse json" for json
proof
  show "rd_current_pos rd \<le> p \<and> p < data_len rd"
    if "redis_boundary g mt rd = Some (Some p)" for g :: unit and mt rd p
    using that by (auto simp: redis_boundary_def redis_find_frame_boundary_def find_Some_iff dest: nth_mem)
qed (use redis_parse_moves in blast)+

subsection \<open>A stream of complete messages\<close>

definition frame_of :: "(bytes list \<Rightarrow> bytes) \<Rightarrow> message_type_t \<Rightarrow> u64 \<Rightarrow> resp \<Rightarrow> redis_msg_s frame_data_s \<Rightarrow> bool" where
  "frame_of json mt t v f \<longleftrightarrow> fd_msg_type f = mt \<and> fd_timestamp_ns f = t \<and> rm_timestamp_ns (fd_frame f) = t \<and>
     parsed_as json mt v (fd_frame f)"

lemma resp_bytes_not_Nil [simp]: "resp_bytes v \<noteq> []"
  by (cases v) auto

lemma remaining_Nil: "raw_ok rd \<Longrightarrow> rd_current_pos rd = data_len rd \<longleftrightarrow> remaining rd = []"
  by (auto simp: raw_ok_def remaining_def data_len_def)

lemma value_step:
  assumes "stream_ok ds" "raws ds = rd # rds" "remaining rd = resp_bytes v @ rest" "resp_wf v"
    "length (frames ds) < FRAME_BUF_SIZE"
  shows "\<exists>ds2 f. parse_goto redis_boundary (redis_parse json) mt L_repeat ((), ds)
      = (if rest = [] then Goto L_next ((), pop_top ds2) else Goto L_repeat ((), ds2)) \<and>
    stream_ok ds2 \<and> raws ds2 = consumed rd (length (resp_bytes v)) # rds \<and> frames ds2 = frames ds @ [f] \<and>
    frame_of json mt (rd_timestamp_ns rd) v f"
proof -
  have rok: "raw_ok rd" and peek: "peek_raw_data (raw_bufs ds) = Some rd"
    using assms(1,2) by (simp_all add: stream_ok_def peek_raw_data_list)
  let ?rd = "consumed rd (length (resp_bytes v))"
  from redis_parse_frame_resp [OF rok assms(3,4), of json mt] obtain f where
    p: "redis_parse_frame json mt rd = Some (STATE_SUCCESS, Some f, ?rd)" "frame_of json mt (rd_timestamp_ns rd) v f"
    by (force simp: frame_of_def)
  have ok: "raw_ok ?rd" "remaining ?rd = rest" using rok assms(3) by (auto intro: raw_ok_consumed)
  note st = set_top_list [OF assms(1), of ?rd]
  obtain b ds2 where pf: "push_frame_data (set_top ds ?rd) f = (b, ds2)" by (cases "push_frame_data (set_top ds ?rd) f")
  have "frame_buf_ok (frame_bufs (set_top ds ?rd))" using st ok(1) assms(1,2) by (simp add: stream_ok_def)
  note pl = push_frame_list [OF this pf]
  then have "b" using assms(2,5) st(2) by (simp add: frame_list_def)
  then have "stream_ok ds2" "raws ds2 = ?rd # rds" "frames ds2 = frames ds @ [f]"
    "parse_goto redis_boundary (redis_parse json) mt L_repeat ((), ds)
     = (if rest = [] then Goto L_next ((), pop_top ds2) else Goto L_repeat ((), ds2))"
    using pl st ok assms(1,2) peek p(1) pf remaining_Nil [OF ok(1)]
    by (auto simp: stream_ok_def parse_goto_def do_parse_frames_def redis_parse_def parse_state_switch_def repeat_jump_def)
  with p(2) show ?thesis by blast
qed

lemma repeat_values:
  assumes "stream_ok ds" "raws ds = rd # rds" "remaining rd = concat (map resp_bytes vs)" "vs \<noteq> []"
    "\<forall>v \<in> set vs. resp_wf v" "length (frames ds) + length vs \<le> FRAME_BUF_SIZE"
  shows "\<exists>ds' fs. parse_loop redis_boundary (redis_parse json) mt L_repeat ((), ds)
      = parse_loop redis_boundary (redis_parse json) mt L_next ((), ds') \<and>
    stream_ok ds' \<and> raws ds' = rds \<and> frames ds' = frames ds @ fs \<and>
    list_all2 (frame_of json mt (rd_timestamp_ns rd)) vs fs"
  using assms
proof (induction vs arbitrary: ds rd)
  case (Cons v vs)
  let ?rd = "consumed rd (length (resp_bytes v))" and ?rest = "concat (map resp_bytes vs)"
  from value_step [OF Cons.prems(1,2), of v ?rest json mt] Cons.prems(3,5,6) obtain ds2 f where
    step: "parse_goto redis_boundary (redis_parse json) mt L_repeat ((), ds)
      = (if ?rest = [] then Goto L_next ((), pop_top ds2) else Goto L_repeat ((), ds2))"
    and ds2: "stream_ok ds2" "raws ds2 = ?rd # rds" "frames ds2 = frames ds @ [f]"
    and f: "frame_of json mt (rd_timestamp_ns rd) v f" by auto
  show ?case
  proof (cases vs)
    case Nil
    then show ?thesis using step pop_top_list [OF ds2(1)] ds2 f
      by (subst parse_loop.simps) (auto intro!: exI [of _ "pop_top ds2"])
  next
    case (Cons w ws)
    have "remaining ?rd = ?rest" using Cons.prems(3) by simp
    from Cons.IH [OF ds2(1,2) this] Cons Cons.prems(5,6) ds2(3) obtain ds' fs where
      "parse_loop redis_boundary (redis_parse json) mt L_repeat ((), ds2)
        = parse_loop redis_boundary (redis_parse json) mt L_next ((), ds')" "stream_ok ds'" "raws ds' = rds"
      "frames ds' = frames ds2 @ fs" "list_all2 (frame_of json mt (rd_timestamp_ns rd)) vs fs" by auto
    then show ?thesis using step Cons ds2(3) f
      by (subst parse_loop.simps) (auto intro!: exI [of _ ds'] exI [of _ "f # fs"])
  qed
qed simp

lemma boundary_here:
  assumes "raw_ok rd" "remaining rd = c # cs"
    "c \<in> {SIMPLE_STRING_MARKER, ERROR_MARKER, INTEGER_MARKER, BULK_STRINGS_MARKER, ARRAY_MARKER}"
  shows "redis_find_frame_boundary rd = Some (rd_current_pos rd)"
proof -
  have "rd_current_pos rd < data_len rd" using assms(2) length_remaining [of rd] by (cases "rd_current_pos rd < data_len rd") auto
  moreover have "rd_data rd ! rd_current_pos rd = c"
    using assms(2) by (simp add: remaining_def nth_via_drop)
  ultimately show ?thesis using assms(3) by (simp add: redis_find_frame_boundary_def upt_conv_Cons)
qed

lemma next_to_repeat_marker:
  assumes "stream_ok ds" "raws ds = rd # rds" "remaining rd = c # cs"
    "c \<in> {SIMPLE_STRING_MARKER, ERROR_MARKER, INTEGER_MARKER, BULK_STRINGS_MARKER, ARRAY_MARKER}"
  shows "parse_loop redis_boundary (redis_parse json) mt L_next ((), ds)
    = parse_loop redis_boundary (redis_parse json) mt L_repeat ((), set_top ds rd)"
proof -
  have rok: "raw_ok rd" and peek: "peek_raw_data (raw_bufs ds) = Some rd"
    using assms(1,2) by (simp_all add: stream_ok_def peek_raw_data_list)
  have "rd\<lparr>rd_current_pos := rd_current_pos rd\<rparr> = rd" by simp
  then have "parse_goto redis_boundary (redis_parse json) mt L_rebound ((), ds) = Goto L_repeat ((), set_top ds rd)"
    "parse_goto redis_boundary (redis_parse json) mt L_next ((), ds) = Goto L_rebound ((), ds)"
    using peek boundary_here [OF rok assms(3,4)] by (simp_all add: parse_goto_def redis_boundary_def)
  then show ?thesis by (subst (1) parse_loop.simps, simp) (subst (1) parse_loop.simps, simp)
qed

lemma next_to_repeat:
  assumes "stream_ok ds" "raws ds = rd # rds" "remaining rd = resp_bytes v @ rest"
  shows "parse_loop redis_boundary (redis_parse json) mt L_next ((), ds)
    = parse_loop redis_boundary (redis_parse json) mt L_repeat ((), set_top ds rd)"
  using assms(3) by (intro next_to_repeat_marker [OF assms(1,2), of "hd (resp_bytes v)" "tl (resp_bytes v) @ rest"])
    (cases v; simp)+

text \<open>One buffer that holds the bytes of some messages.\<close>

definition holds_values :: "raw_data_s \<Rightarrow> resp list \<Rightarrow> bool" where
  "holds_values rd vs \<longleftrightarrow> vs \<noteq> [] \<and> remaining rd = concat (map resp_bytes vs) \<and> (\<forall>v \<in> set vs. resp_wf v)"

lemma loop_values:
  assumes "stream_ok ds" "list_all2 holds_values (raws ds) vss" "length (frames ds) + length (concat vss) \<le> FRAME_BUF_SIZE"
  shows "\<exists>ds'. parse_loop redis_boundary (redis_parse json) mt L_next ((), ds) = Some (Some ((), ds')) \<and>
    stream_ok ds' \<and> raws ds' = [] \<and>
    (\<exists>fs. frames ds' = frames ds @ fs \<and>
      list_all2 (\<lambda>(t, v). frame_of json mt t v)
        (concat (map2 (\<lambda>rd vs. map (Pair (rd_timestamp_ns rd)) vs) (raws ds) vss)) fs)"
  using assms
proof (induction vss arbitrary: ds)
  case Nil
  then have "peek_raw_data (raw_bufs ds) = None" by (simp add: stream_ok_def peek_raw_data_list)
  then show ?case using Nil by (subst parse_loop.simps) (simp add: parse_goto_def)
next
  case (Cons vs vss)
  then obtain rd rds where r: "raws ds = rd # rds" "holds_values rd vs" "list_all2 holds_values rds vss"
    by (auto simp: list_all2_Cons2)
  let ?ds = "set_top ds rd"
  have rok: "raw_ok rd" using Cons.prems(1) r(1) by (simp add: stream_ok_def)
  have ds: "stream_ok ?ds" "raws ?ds = rd # rds" "frames ?ds = frames ds"
    using set_top_list [OF Cons.prems(1), of rd] r(1) rok by auto
  obtain v vs' where "vs = v # vs'" using r(2) by (cases vs) (auto simp: holds_values_def)
  then have n: "parse_loop redis_boundary (redis_parse json) mt L_next ((), ds)
      = parse_loop redis_boundary (redis_parse json) mt L_repeat ((), ?ds)"
    using next_to_repeat [OF Cons.prems(1) r(1)] r(2) by (simp add: holds_values_def)
  from repeat_values [OF ds(1,2), of vs json mt] r(2) Cons.prems(3) ds(3) obtain ds1 fs where
    d1: "parse_loop redis_boundary (redis_parse json) mt L_repeat ((), ?ds)
      = parse_loop redis_boundary (redis_parse json) mt L_next ((), ds1)" "stream_ok ds1" "raws ds1 = rds"
    "frames ds1 = frames ds @ fs" "list_all2 (frame_of json mt (rd_timestamp_ns rd)) vs fs"
    by (auto simp: holds_values_def)
  have l: "length fs = length vs" using d1(5) by (rule list_all2_lengthD [symmetric])
  from Cons.IH [OF d1(2)] r(3) d1(3,4) Cons.prems(3) l obtain ds' gs where
    "parse_loop redis_boundary (redis_parse json) mt L_next ((), ds1) = Some (Some ((), ds'))" "stream_ok ds'"
    "raws ds' = []" "frames ds' = frames ds1 @ gs"
    "list_all2 (\<lambda>(t, v). frame_of json mt t v) (concat (map2 (\<lambda>rd vs. map (Pair (rd_timestamp_ns rd)) vs) rds vss)) gs"
    by auto
  then show ?case using n d1(1,4,5) r(1)
    by (auto intro!: exI [of _ ds'] list_all2_appendI simp: list_all2_map1)
qed

text \<open>A bulk string that is cut within its content.\<close>

lemma cut_bulk:
  assumes "raw_ok rd" "remaining rd = BULK_STRINGS_MARKER # dec n @ TERMINAL_SEQUENCE @ p" "n < 2 ^ 29" "length p < n"
  shows "redis_parse json () mt rd = Some ((), STATE_NEEDS_MORE_DATA, None, consumed rd (length (dec n) + 3))"
proof -
  note mk = extract_marker [OF assms(1,2)]
  have "parse_size (consumed rd 1) = Some (Inr (int n), consumed rd (length (dec n) + 3))"
    using parse_size_dec [OF mk(2,3)] assms(3) by (simp add: numeral_3_eq_3)
  moreover have "raw_ok (consumed rd (length (dec n) + 3))" by (rule raw_ok_consumed [OF assms(1)]) (simp add: assms(2))
  moreover have "remaining (consumed rd (length (dec n) + 3)) = p" using assms(2) by (simp add: numeral_3_eq_3 TERMINAL_SEQUENCE_def)
  moreover have "rd_current_pos rd < data_len rd" using assms(2) length_remaining [of rd] by auto
  ultimately show ?thesis
    using assms(3,4) mk(1)
    by (simp add: redis_parse_def redis_parse_frame_def parse_msg_recursive.simps [of json mt rd] parse_bulk_string_msg_def
       fixed_size_decoders take_bytes_def)
qed

definition is_marker :: "u8 \<Rightarrow> bool" where
  "is_marker c \<longleftrightarrow> c \<in> {SIMPLE_STRING_MARKER, ERROR_MARKER, INTEGER_MARKER, BULK_STRINGS_MARKER, ARRAY_MARKER}"

lemma no_boundary:
  assumes "\<forall>c \<in> set (remaining rd). \<not> is_marker c"
  shows "redis_find_frame_boundary rd = None"
proof -
  have "rd_data rd ! i \<in> set (remaining rd)" if "rd_current_pos rd \<le> i" "i < data_len rd" for i
    using that nth_mem [of "i - rd_current_pos rd" "remaining rd"] by (simp add: remaining_def data_len_def)
  then show ?thesis using assms
    by (auto simp: redis_find_frame_boundary_def find_None_iff is_marker_def)
qed

lemma drop_unmarked:
  assumes "stream_ok ds" "raws ds = [rd]" "\<forall>c \<in> set (remaining rd). \<not> is_marker c"
  shows "parse_loop redis_boundary (redis_parse json) mt L_next ((), ds) = Some (Some ((), pop_top ds))"
proof -
  have "peek_raw_data (raw_bufs ds) = Some rd" using assms(1,2) by (simp add: stream_ok_def peek_raw_data_list)
  then have "parse_goto redis_boundary (redis_parse json) mt L_next ((), ds) = Goto L_rebound ((), ds)"
    "parse_goto redis_boundary (redis_parse json) mt L_rebound ((), ds) = Goto L_next ((), pop_top ds)"
    using no_boundary [OF assms(3)] by (simp_all add: parse_goto_def redis_boundary_def)
  moreover have "raws (pop_top ds) = []" "stream_ok (pop_top ds)" using pop_top_list [OF assms(1)] assms(2) by simp_all
  then have "peek_raw_data (raw_bufs (pop_top ds)) = None" by (simp add: stream_ok_def peek_raw_data_list)
  then have "parse_goto redis_boundary (redis_parse json) mt L_next ((), pop_top ds) = Return ((), pop_top ds)"
    by (simp add: parse_goto_def)
  ultimately show ?thesis
    by (subst (1) parse_loop.simps, simp) (subst (1) parse_loop.simps, simp, subst (1) parse_loop.simps, simp)
qed

subsection \<open>Buffers that end with a line end\<close>

text \<open>
  The parser is undefined only where a marker is followed by fewer than two bytes of the
  buffer; a buffer that ends with a line end has no such marker.
\<close>

definition crlf_ended :: "bytes \<Rightarrow> bool" where
  "crlf_ended bs \<longleftrightarrow> take 2 (rev bs) = rev TERMINAL_SEQUENCE"

lemma crlf_ended_iff: "crlf_ended bs \<longleftrightarrow> (\<exists>p. bs = p @ TERMINAL_SEQUENCE)"
proof
  assume "crlf_ended bs"
  then have "rev bs = rev TERMINAL_SEQUENCE @ drop 2 (rev bs)" by (metis crlf_ended_def append_take_drop_id)
  then have "bs = rev (drop 2 (rev bs)) @ TERMINAL_SEQUENCE" by (metis rev_append rev_rev_ident)
  then show "\<exists>p. bs = p @ TERMINAL_SEQUENCE" ..
qed (auto simp: crlf_ended_def TERMINAL_SEQUENCE_def)

lemma marker_followed:
  assumes "crlf_ended (rd_data rd)" "remaining rd = c # cs"
    "c \<in> {SIMPLE_STRING_MARKER, ERROR_MARKER, INTEGER_MARKER, BULK_STRINGS_MARKER, ARRAY_MARKER}"
  shows "2 \<le> length cs"
proof -
  obtain p where p: "rd_data rd = p @ [13, 10]" using assms(1) by (auto simp: crlf_ended_iff TERMINAL_SEQUENCE_def)
  have c: "c \<noteq> 13" "c \<noteq> 10" using assms(3) by (auto simp: redis_markers)
  let ?i = "rd_current_pos rd"
  have d: "c # cs = drop ?i p @ drop (?i - length p) [13, 10]" using assms(2) p by (simp add: remaining_def)
  show ?thesis
  proof (cases "drop ?i p")
    case Nil
    then have "c # cs = drop (?i - length p) [13, 10]" using d by simp
    then have "c \<in> set (drop (?i - length p) [13, 10])" by (metis list.set_intros(1))
    then have "c \<in> set [13, 10]" by (rule in_set_dropD)
    then show ?thesis using c by simp
  next
    case (Cons x xs)
    then have "?i < length p" by (metis drop_all list.distinct(1) not_le)
    then show ?thesis using d Cons by simp
  qed
qed

lemma until_defined: "raw_ok rd \<Longrightarrow> 2 \<le> length (remaining rd) \<Longrightarrow> decoder_extract_str_until_str rd TERMINAL_SEQUENCE \<noteq> None"
  by (subst until_str_eq) (auto simp: TERMINAL_SEQUENCE_def)

lemma leaf_defined:
  assumes "raw_ok rd" "2 \<le> length (remaining rd)"
  shows "parse_line_msg rd msg \<noteq> None" "parse_error_msg mt rd msg \<noteq> None" "parse_size rd \<noteq> None" "parse_bulk_string_msg rd msg \<noteq> None"
proof -
  obtain r rd1 where u: "decoder_extract_str_until_str rd TERMINAL_SEQUENCE = Some (r, rd1)"
    using until_defined [OF assms] by auto
  then show "parse_line_msg rd msg \<noteq> None" "parse_error_msg mt rd msg \<noteq> None"
    by (simp_all add: parse_line_msg_def parse_error_msg_def)
  show "parse_size rd \<noteq> None"
    using u by (auto simp: parse_size_def Let_def split: sum.splits prod.splits)
  then obtain s rd2 where s: "parse_size rd = Some (s, rd2)" by auto
  have "raw_ok rd2" using leaf_reaches(3) [OF assms(1) s] assms(1) by (rule reaches_ok)
  then show "parse_bulk_string_msg rd msg \<noteq> None"
    using s by (auto simp: parse_bulk_string_msg_def fixed_size_decoders take_bytes_def split: sum.splits)
qed

lemma reaches_data: "reaches rd rd' \<Longrightarrow> rd_data rd' = rd_data rd"
  by (auto simp: reaches_def)

lemma parse_msg_defined:
  "raw_ok rd \<Longrightarrow> crlf_ended (rd_data rd) \<Longrightarrow> parse_msg_recursive json mt rd msg \<noteq> None"
  "raw_ok rd \<Longrightarrow> crlf_ended (rd_data rd) \<Longrightarrow> parse_array_items json mt n rd msg ps \<noteq> None"
proof (induction json mt rd msg and json mt n rd msg ps rule: parse_msg_recursive_parse_array_items.induct)
  case (1 json mt rd msg)
  show ?case
  proof (cases "remaining rd")
    case Nil
    then show ?thesis using "1.prems"(1) by (simp add: parse_msg_recursive.simps [of json mt rd] fixed_size_decoders(1) take_bytes_def)
  next
    case (Cons c cs)
    note mk = extract_marker [OF "1.prems"(1) Cons]
    show ?thesis
    proof (cases "c \<in> {SIMPLE_STRING_MARKER, ERROR_MARKER, INTEGER_MARKER, BULK_STRINGS_MARKER, ARRAY_MARKER}")
      case False
      then show ?thesis using mk(1) by (simp add: parse_msg_recursive.simps [of json mt rd])
    next
      case True
      have two: "2 \<le> length (remaining (consumed rd 1))" using marker_followed [OF "1.prems"(2) Cons True] mk(3) by simp
      note leaf = leaf_defined [OF mk(2) two]
      obtain s rd2 where s: "parse_size (consumed rd 1) = Some (s, rd2)" using leaf(3) by auto
      have r2: "reaches (consumed rd 1) rd2" by (rule leaf_reaches(3) [OF mk(2) s])
      then have "raw_ok rd2" "crlf_ended (rd_data rd2)"
        using reaches_ok [OF r2 mk(2)] reaches_data [OF r2] "1.prems"(2) by simp_all
      then have i: "parse_array_items json mt (nat len) rd2 msg [] \<noteq> None"
        if "c = ARRAY_MARKER" "s = Inr len" "len \<noteq> -1" for len
        using "1.IH" [OF mk(1) refl refl] that s by (simp add: redis_markers)
      show ?thesis
        using True mk(1) leaf(1,2,4) s i
        by (auto simp: parse_msg_recursive.simps [of json mt rd] simp del: consumed_consumed split: sum.splits)
    qed
  qed
next
  case (3 json mt n rd msg ps)
  then obtain st m rd' where p: "parse_msg_recursive json mt rd init_redis_msg = Some (st, m, rd')" by auto
  have r: "reaches rd rd'" using parse_reaches(1) [OF p "3.prems"(1)] .
  have "raw_ok rd'" "crlf_ended (rd_data rd')" using reaches_ok [OF r "3.prems"(1)] reaches_data [OF r] "3.prems"(2) by simp_all
  then show ?case using p "3.IH"(2) [OF p refl refl] by (auto split: option.split)
qed simp

interpretation redis_crlf: defined_parser redis_boundary "redis_parse json" crlf_ended for json
proof
  show "redis_parse json g mt rd \<noteq> None" if "raw_ok rd" "crlf_ended (rd_data rd)" for g :: unit and mt rd
    using parse_msg_defined(1) [OF that, of json mt init_redis_msg]
    by (auto simp: redis_parse_def redis_parse_frame_def Let_def)
qed (auto simp: redis_boundary_def crlf_ended_iff)

subsection \<open>Properties\<close>

text \<open>
  C4: The loop that parses a Redis stream always comes to an end, whatever bytes the buffers hold
  and in whatever order they arrived.  It ends in undefined behaviour or returns; when every
  buffer ends with a line end, as whole messages of the protocol do, it returns, whatever else
  the buffers hold.  When it returns it leaves a well-formed stream and has only added frames at
  the end.  What is undefined is the search for a line end behind a marker that fewer than two
  bytes of its buffer follow.
\<close>

theorem redis_parse_frames_returns:
  assumes "stream_ok ds"
  shows "\<exists>r. redis_parse_frames json mt ds = Some r \<and>
    (\<forall>ds'. r = Some ds' \<longrightarrow> stream_ok ds' \<and> (\<exists>fs. frames ds' = frames ds @ fs)) \<and>
    (list_all (crlf_ended \<circ> rd_data) (raws ds) \<longrightarrow> r \<noteq> None)"
proof -
  have more: "\<forall>g rd g' f rd'. raw_ok rd \<longrightarrow> rd_current_pos rd < data_len rd \<longrightarrow>
      redis_parse json g mt rd = Some (g', STATE_NEEDS_MORE_DATA, f, rd') \<longrightarrow> rd' \<noteq> rd"
    using redis_parse_moves(2) by blast
  have l: "label_ok L_next (raws ds)" by (simp add: label_ok_def)
  obtain r where r: "redis_parse_frames json mt ds = Some r"
    "\<forall>ds'. r = Some ds' \<longrightarrow> stream_ok ds' \<and> (\<exists>fs. frames ds' = frames ds @ fs)"
    using redis.loop_returns [OF assms l disjI1 [OF more], of "()"]
    by (fastforce simp: redis_parse_frames_def data_stream_parse_frames_def)
  moreover have "r \<noteq> None" if "list_all (crlf_ended \<circ> rd_data) (raws ds)"
    using redis_crlf.loop_defined [OF assms l _ disjI1 [OF more], of "()"] that r(1)
    by (auto simp: redis_parse_frames_def data_stream_parse_frames_def list_all_iff)
  ultimately show ?thesis by blast
qed
theorem redis_parse_frames_returns_witness:
  "\<exists>ds'. redis_parse_frames (\<lambda>_. []) MESSAGE_REQUEST
     (stream_of (ascii ''*2'' @ TERMINAL_SEQUENCE @ ascii ''$9'' @ TERMINAL_SEQUENCE) (ascii ''a*c'' @ TERMINAL_SEQUENCE)) = Some (Some ds') \<and> stream_ok ds'"
proof -
  have "list_all (crlf_ended \<circ> rd_data)
      (raws (stream_of (ascii ''*2'' @ TERMINAL_SEQUENCE @ ascii ''$9'' @ TERMINAL_SEQUENCE) (ascii ''a*c'' @ TERMINAL_SEQUENCE)))"
    by (simp add: stream_of_two crlf_ended_def TERMINAL_SEQUENCE_def)
  then show ?thesis
    using redis_parse_frames_returns [OF stream_of_two(1)] by blast
qed

text \<open>
  C11: When every buffer of a stream holds the bytes of complete values of the Redis protocol and
  there is room for their frames, the loop turns the values of all buffers, in order, into
  frames that carry the type of the stream and the time of their buffer, and uses up all buffers.
\<close>

theorem redis_stream_frames:
  assumes "stream_ok ds" "list_all2 holds_values (raws ds) vss" "length (frames ds) + length (concat vss) \<le> FRAME_BUF_SIZE"
  shows "\<exists>ds' fs. redis_parse_frames json mt ds = Some (Some ds') \<and> raws ds' = [] \<and> frames ds' = frames ds @ fs \<and>
    list_all2 (\<lambda>(t, v). frame_of json mt t v)
      (concat (map2 (\<lambda>rd vs. map (Pair (rd_timestamp_ns rd)) vs) (raws ds) vss)) fs"
  using loop_values [OF assms, of json mt] by (auto simp: redis_parse_frames_def data_stream_parse_frames_def)

theorem redis_stream_frames_witness:
  "\<exists>ds' f1 f2 f3. redis_parse_frames (\<lambda>_. []) MESSAGE_REQUEST
      (stream_of (resp_bytes get_command @ resp_bytes (RSimple [65])) (resp_bytes RNull)) = Some (Some ds') \<and>
    frames ds' = [f1, f2, f3] \<and> fd_timestamp_ns f2 = 1 \<and> fd_timestamp_ns f3 = 2 \<and>
    map_option c_str (rm_payload (fd_frame f2)) = Some [65]"
proof -
  let ?ds = "stream_of (resp_bytes get_command @ resp_bytes (RSimple [65])) (resp_bytes RNull)"
  have "list_all2 holds_values (raws ?ds) [[get_command, RSimple [65]], [RNull]]"
    by (simp add: stream_of_two holds_values_def get_command_def ascii_def)
  from redis_stream_frames [OF stream_of_two(1) this, of "\<lambda>_. []" MESSAGE_REQUEST] obtain ds' fs where
    "redis_parse_frames (\<lambda>_. []) MESSAGE_REQUEST ?ds = Some (Some ds')" "frames ds' = fs"
    "list_all2 (\<lambda>(t, v). frame_of (\<lambda>_. []) MESSAGE_REQUEST t v) [(1, get_command), (1, RSimple [65]), (2, RNull)] fs"
    by (auto simp: stream_of_two FRAME_BUF_SIZE_def)
  then show ?thesis by (auto simp: list_all2_Cons1 frame_of_def parsed_as_def c_str_def)
qed

text \<open>
  C32: A bulk string that arrives in two buffers is lost: the parser asks for more data without
  going back to the start of the string, the joined buffer keeps the advanced position, and when
  the content has no byte that looks like a marker both buffers are dropped without a frame.
\<close>

theorem redis_split_bulk_lost:
  assumes "stream_ok ds" "raws ds = [a, b]" "rd_index a < rd_index b"
    "remaining a = BULK_STRINGS_MARKER # dec n @ TERMINAL_SEQUENCE @ p" "rd_data b = q @ TERMINAL_SEQUENCE"
    "n = length p + length q" "q \<noteq> []" "n < 2 ^ 29" "\<forall>c \<in> set (p @ q). \<not> is_marker c"
  shows "\<exists>ds'. redis_parse_frames json mt ds = Some (Some ds') \<and> raws ds' = [] \<and> frames ds' = frames ds"
proof -
  have ok: "raw_ok a" using assms(1,2) by (simp add: stream_ok_def)
  let ?a = "consumed a (length (dec n) + 3)"
  have cut: "redis_parse json () mt a = Some ((), STATE_NEEDS_MORE_DATA, None, ?a)"
    using cut_bulk [OF ok assms(4,8)] assms(6,7) by simp
  have oka: "raw_ok ?a" by (rule raw_ok_consumed [OF ok]) (simp add: assms(4))
  let ?da = "set_top ds a"
  have da: "stream_ok ?da" "raws ?da = [a, b]" "frames ?da = frames ds" using set_top_list [OF assms(1), of a] assms(2) ok by auto
  from more_data_step [OF da(1,2), of "redis_parse json", OF cut oka, of redis_boundary] assms(3) da(3) obtain j where
    rep: "parse_goto redis_boundary (redis_parse json) mt L_repeat ((), ?da) = Goto L_next ((), j)"
    and j: "stream_ok j" "raws j = [joined ?a b]" "frames j = frames ds" by (auto simp: overlay_ordered)
  have "parse_loop redis_boundary (redis_parse json) mt L_next ((), ds)
      = parse_loop redis_boundary (redis_parse json) mt L_repeat ((), ?da)"
    by (rule next_to_repeat_marker [OF assms(1,2,4)]) simp
  also have "\<dots> = parse_loop redis_boundary (redis_parse json) mt L_next ((), j)"
    using rep by (subst parse_loop.simps) simp
  also have "remaining (joined ?a b) = p @ q @ TERMINAL_SEQUENCE"
    using oka assms(4,5) remaining_joined [OF oka, of b] by (simp add: TERMINAL_SEQUENCE_def numeral_eq_Suc)
  then have "parse_loop redis_boundary (redis_parse json) mt L_next ((), j) = Some (Some ((), pop_top j))"
    using assms(9) by (intro drop_unmarked [OF j(1,2)]) (auto simp: TERMINAL_SEQUENCE_def is_marker_def redis_markers)
  finally show ?thesis using pop_top_list [OF j(1)] j(2,3) by (simp add: redis_parse_frames_def data_stream_parse_frames_def)
qed

theorem redis_split_bulk_lost_witness:
  "\<exists>ds'. redis_parse_frames (\<lambda>_. []) MESSAGE_RESPONSE 
       (stream_of (ascii ''$4'' @ TERMINAL_SEQUENCE @ ascii ''ab'') (ascii ''cd'' @ TERMINAL_SEQUENCE))
     = Some (Some ds') \<and> raws ds' = [] \<and> frames ds' = []"
  using redis_split_bulk_lost [OF stream_of_two(1) stream_of_two(2) [of "ascii ''$4'' @ TERMINAL_SEQUENCE @ ascii ''ab''"
        "ascii ''cd'' @ TERMINAL_SEQUENCE"], where n = 4 and p = "ascii ''ab''" and q = "ascii ''cd''"]
  by (simp add: stream_of_two(3) ascii_def redis_markers is_marker_def dec.simps)

end
