(* ===== verification/Record_Buf.thy ===== *)
theory Record_Buf
  imports C_Strings Data_Stream
begin

section \<open>Records\<close>

text \<open>
  The buffers of \<^verbatim>\<open>l7probe/include/data_stream.h\<close> that the matchers fill: the records of the
  matched pairs of one round, and the statistics per API.  The arrays are functions from
  positions to optional elements, and writing behind their end is undefined.  The hash of
  the statistics keeps the order of insertion, as \<^verbatim>\<open>uthash\<close> does.  Counters of type
  \<^verbatim>\<open>size_t\<close> are natural numbers; they count elements of the arrays.
\<close>

definition RECORD_BUF_SIZE :: nat where "RECORD_BUF_SIZE = 1024"
definition MAX_API_LEN :: nat where "MAX_API_LEN = 64"

record 'r record_data_s =
  rcd_record :: 'r
  rcd_latency :: u64

record 'r api_stats =
  as_id :: bytes
  as_records :: "'r record_data_s slots"
  as_record_buf_size :: nat
  as_req_count :: nat
  as_resp_count :: nat
  as_err_records :: "'r record_data_s slots"
  as_err_count :: nat
  as_client_err_count :: nat
  as_server_err_count :: nat

record 'r record_buf_s =
  rcb_records :: "'r record_data_s slots"
  rcb_record_buf_size :: nat
  rcb_api_stats :: "'r api_stats list"
  rcb_err_count :: nat
  rcb_req_count :: nat
  rcb_resp_count :: nat
  rcb_msg_total_count :: nat
  rcb_msg_error_count :: nat

definition empty_record_buf :: "'r record_buf_s" where
  "empty_record_buf = \<lparr>rcb_records = (\<lambda>_. None), rcb_record_buf_size = 0, rcb_api_stats = [],
     rcb_err_count = 0, rcb_req_count = 0, rcb_resp_count = 0, rcb_msg_total_count = 0, rcb_msg_error_count = 0\<rparr>"

text \<open>\<^verbatim>\<open>snprintf\<close> with the format \<^verbatim>\<open>%s\<close> into an array of \<open>n\<close> bytes.\<close>

definition snprintf_s :: "nat \<Rightarrow> bytes \<Rightarrow> bytes" where
  "snprintf_s n s = take (n - 1) (c_str s)"

definition create_api_stats :: "bytes \<Rightarrow> 'r api_stats" where
  "create_api_stats api = \<lparr>as_id = snprintf_s MAX_API_LEN api, as_records = (\<lambda>_. None), as_record_buf_size = 0,
     as_req_count = 0, as_resp_count = 0, as_err_records = (\<lambda>_. None), as_err_count = 0,
     as_client_err_count = 0, as_server_err_count = 0\<rparr>"

text \<open>The assignment \<^verbatim>\<open>a[n] = x\<close> for an array of the size of the record buffers.\<close>

definition store_record :: "'r record_data_s slots \<Rightarrow> nat \<Rightarrow> 'r record_data_s \<Rightarrow> 'r record_data_s slots well_defined" where
  "store_record a n x = (if n < RECORD_BUF_SIZE then Some (a(n \<mapsto> x)) else None)"

subsection \<open>Frames\<close>

definition next_frame :: "'f frame_buf_s \<Rightarrow> 'f frame_buf_s" where
  "next_frame fb = fb\<lparr>fb_current_pos := fb_current_pos fb + 1\<rparr>"

definition frames_left :: "'f frame_buf_s \<Rightarrow> bool" where
  "frames_left fb \<longleftrightarrow> fb_current_pos fb < frame_buf_size fb"

text \<open>The frame of a position, read through two pointers, and written through them.\<close>

definition frame_at :: "'f frame_buf_s \<Rightarrow> nat \<Rightarrow> 'f well_defined" where
  "frame_at fb i = (if i < FRAME_BUF_SIZE then map_option fd_frame (fb_frames fb i) else None)"

definition set_frame :: "'f frame_buf_s \<Rightarrow> nat \<Rightarrow> 'f \<Rightarrow> 'f frame_buf_s" where
  "set_frame fb i m = fb\<lparr>fb_frames := (fb_frames fb)(i := map_option (\<lambda>f. f\<lparr>fd_frame := m\<rparr>) (fb_frames fb i))\<rparr>"

subsection \<open>The records as a list\<close>

definition record_list :: "'r record_buf_s \<Rightarrow> 'r record_data_s list" where
  "record_list rb = slots_list (rcb_records rb) (rcb_record_buf_size rb)"

definition record_buf_ok :: "'r record_buf_s \<Rightarrow> bool" where
  "record_buf_ok rb \<longleftrightarrow> rcb_record_buf_size rb \<le> RECORD_BUF_SIZE \<and> slots_full (rcb_records rb) (rcb_record_buf_size rb)"

lemma empty_record_buf_ok [simp]: "record_buf_ok empty_record_buf" "record_list empty_record_buf = []"
  "rcb_record_buf_size empty_record_buf = 0"
  by (simp_all add: record_buf_ok_def record_list_def empty_record_buf_def slots_full_def)

lemma length_record_list [simp]: "length (record_list rb) = rcb_record_buf_size rb"
  by (simp add: record_list_def)

subsection \<open>Frames that wait to be matched\<close>

text \<open>The frames of a buffer from its current position on.\<close>

definition waiting :: "'f frame_buf_s \<Rightarrow> 'f list" where
  "waiting fb = map fd_frame (drop (fb_current_pos fb) (frame_list fb))"

lemma length_waiting [simp]: "length (waiting fb) = frame_buf_size fb - fb_current_pos fb"
  by (simp add: waiting_def frame_list_def)

lemma waiting_Nil: "waiting fb = [] \<longleftrightarrow> frame_buf_size fb \<le> fb_current_pos fb"
  using length_waiting [of fb] by (cases "waiting fb") auto

lemma frame_list_nth:
  assumes "frame_buf_ok fb" "i < frame_buf_size fb"
  shows "fb_frames fb i = Some (frame_list fb ! i)"
  using assms by (auto simp: frame_buf_ok_def slots_full_def frame_list_def slots_list_def)

lemma waiting_Cons:
  assumes "frame_buf_ok fb" "fb_current_pos fb < frame_buf_size fb"
  shows "\<exists>f. fb_frames fb (fb_current_pos fb) = Some f \<and>
    waiting fb = fd_frame f # waiting (fb\<lparr>fb_current_pos := fb_current_pos fb + 1\<rparr>)"
  using frame_list_nth [OF assms] assms(2)
  by (simp add: waiting_def frame_list_def Cons_nth_drop_Suc [symmetric] del: drop_drop)

lemma frame_buf_ok_next:
  "frame_buf_ok fb \<Longrightarrow> fb_current_pos fb < frame_buf_size fb \<Longrightarrow> frame_buf_ok (fb\<lparr>fb_current_pos := fb_current_pos fb + 1\<rparr>)"
  by (simp add: frame_buf_ok_def)

definition all_taken :: "'f frame_buf_s \<Rightarrow> 'f frame_buf_s" where
  "all_taken fb = fb\<lparr>fb_current_pos := frame_buf_size fb\<rparr>"

lemma next_frame_sel [simp]:
  "frame_buf_size (next_frame fb) = frame_buf_size fb" "fb_current_pos (next_frame fb) = fb_current_pos fb + 1"
  "fb_frames (next_frame fb) = fb_frames fb" "all_taken (next_frame fb) = all_taken fb"
  by (simp_all add: next_frame_def all_taken_def)

text \<open>
  What matching by time means: each response, in order, answers the last request that came
  before it and not before the previous response, if there is one.
\<close>

fun answered :: "('m \<Rightarrow> u64) \<Rightarrow> u64 \<Rightarrow> 'm list \<Rightarrow> 'm list \<Rightarrow> ('m \<times> 'm) list" where
  "answered time t qs [] = []"
| "answered time t qs (p # ps) =
     (let between = filter (\<lambda>q. t \<le> time q \<and> time q < time p) qs
      in (if between = [] then [] else [(last between, p)]) @ answered time (time p) qs ps)"

definition in_order :: "('m \<Rightarrow> u64) \<Rightarrow> 'm list \<Rightarrow> bool" where
  "in_order time = sorted_wrt (\<lambda>a b. time a \<le> time b)"

lemma answered_skip:
  "time q < t \<Longrightarrow> in_order time ps \<Longrightarrow> \<forall>p \<in> set ps. t \<le> time p \<Longrightarrow> answered time t (q # qs) ps = answered time t qs ps"
proof (induction ps arbitrary: t)
  case (Cons p ps)
  have "answered time (time p) (q # qs) ps = answered time (time p) qs ps"
    using Cons.prems by (intro Cons.IH) (auto simp: in_order_def)
  then show ?case using Cons.prems(1) leD by auto
qed simp

lemma answered_shadow:
  assumes "t \<le> time q'" "time q' \<le> time q" "\<forall>p \<in> set ps. time q < time p" "in_order time ps"
  shows "answered time t (q' # q # qs) ps = answered time t (q # qs) ps"
proof (cases ps)
  case (Cons p ps')
  have "answered time (time p) (q' # q # qs) ps' = answered time (time p) (q # qs) ps'"
    using assms Cons by (intro answered_skip) (auto simp: in_order_def)
  moreover have "t \<le> time q" using assms(1,2) by (rule order.trans)
  ultimately show ?thesis using assms Cons by simp
qed simp

definition held_list :: "'m option \<Rightarrow> 'm list" where
  "held_list held = (case held of None \<Rightarrow> [] | Some q \<Rightarrow> [q])"

lemma held_list_simps [simp]: "held_list None = []" "held_list (Some q) = [q]"
  by (simp_all add: held_list_def)

text \<open>The next request replaces the one held, and the next response answers it.\<close>

lemma answered_hold:
  assumes "in_order time (held_list held @ q # qs)" "in_order time ps" "\<forall>m \<in> set (held_list held). t \<le> time m"
    "\<forall>p \<in> set ps. time q < time p"
  shows "answered time t (held_list held @ q # filter P qs) (filter R ps) = answered time t (q # filter P qs) (filter R ps)"
  using assms by (cases held) (auto intro!: answered_shadow simp: in_order_def sorted_wrt_filter)

lemma answered_now:
  assumes "\<forall>q \<in> set qs. time p \<le> time q" "in_order time (p # ps)"
    "\<forall>q \<in> set (held_list held). t \<le> time q \<and> time q < time p"
  shows "answered time t (held_list held @ filter P qs) (p # filter R ps)
    = map (\<lambda>q. (q, p)) (held_list held) @ answered time (time p) (filter P qs) (filter R ps)"
proof -
  have none: "filter (\<lambda>q. t \<le> time q \<and> time q < time p) (filter P qs) = []"
    using assms(1) by (auto simp: filter_empty_conv)
  moreover have "answered time (time p) (held_list held @ filter P qs) (filter R ps)
      = answered time (time p) (filter P qs) (filter R ps)"
    using assms(2,3) by (cases held) (auto intro!: answered_skip simp: in_order_def sorted_wrt_filter)
  ultimately show ?thesis using assms(3) by (cases held) auto
qed

text \<open>A buffer of frames that hold some messages.\<close>

definition frames_of :: "('f \<Rightarrow> u64) \<Rightarrow> 'f list \<Rightarrow> 'f frame_buf_s" where
  "frames_of t ms = \<lparr>fb_frames = (\<lambda>i. if i < length ms then Some \<lparr>fd_msg_type = MESSAGE_REQUEST, fd_frame = ms ! i,
       fd_timestamp_ns = t (ms ! i)\<rparr> else None), frame_buf_size = length ms, fb_current_pos = 0\<rparr>"

lemma frames_of_ok: "length ms \<le> FRAME_BUF_SIZE \<Longrightarrow> frame_buf_ok (frames_of t ms)" "waiting (frames_of t ms) = ms"
  by (auto simp: frames_of_def frame_buf_ok_def slots_full_def waiting_def frame_list_def slots_list_def intro!: nth_equalityI)

end
