(* ===== verification/Redis_Matcher.thy ===== *)
theory Redis_Matcher
  imports Redis_Parser Record_Buf
begin

section \<open>Redis matcher\<close>

text \<open>
  \<^verbatim>\<open>l7probe/protocol/redis/redis_matcher.c\<close>: the frames of requests and of responses are
  matched by their timestamps into records.  A message that is not there is \<^const>\<open>None\<close>.
\<close>

record redis_record_s =
  rr_req_msg :: "redis_msg_s option"
  rr_resp_msg :: "redis_msg_s option"
  rr_role_swapped :: bool

definition init_redis_record :: redis_record_s where
  "init_redis_record = \<lparr>rr_req_msg = None, rr_resp_msg = None, rr_role_swapped = False\<rparr>"

definition handle_pub_resp_msg :: "redis_msg_s \<Rightarrow> redis_record_s" where
  "handle_pub_resp_msg resp = init_redis_record\<lparr>
     rr_req_msg := Some (init_redis_msg\<lparr>rm_timestamp_ns := rm_timestamp_ns resp, rm_command := Some (ascii ''PUSH PUB''),
                                       rm_is_fake_msg := True\<rparr>),
     rr_resp_msg := Some resp\<rparr>"

definition handle_follower_to_leader_ack_msg :: "redis_msg_s \<Rightarrow> redis_record_s" where
  "handle_follower_to_leader_ack_msg req = init_redis_record\<lparr>
     rr_req_msg := Some req,
     rr_resp_msg := Some (init_redis_msg\<lparr>rm_timestamp_ns := rm_timestamp_ns req, rm_single_reply_msg_count := 1,
                                        rm_is_fake_msg := True\<rparr>)\<rparr>"

definition handle_leader_to_follower_msg :: "redis_msg_s \<Rightarrow> redis_record_s" where
  "handle_leader_to_follower_msg resp = init_redis_record\<lparr>
     rr_req_msg := Some resp,
     rr_resp_msg := Some (init_redis_msg\<lparr>rm_timestamp_ns := rm_timestamp_ns resp, rm_single_reply_msg_count := 1,
                                        rm_is_fake_msg := True\<rparr>),
     rr_role_swapped := True\<rparr>"

definition add_redis_record_to_buf :: "redis_record_s record_buf_s \<Rightarrow> redis_record_s \<Rightarrow> redis_record_s record_buf_s well_defined" where
  "add_redis_record_to_buf record_buf record = do {
     req \<leftarrow> rr_req_msg record;
     resp \<leftarrow> rr_resp_msg record;
     records \<leftarrow> store_record (rcb_records record_buf) (rcb_record_buf_size record_buf)
                  \<lparr>rcd_record = record, rcd_latency = rm_timestamp_ns resp - rm_timestamp_ns req\<rparr>;
     Some (record_buf\<lparr>rcb_records := records,
       rcb_record_buf_size := rcb_record_buf_size record_buf + 1,
       rcb_err_count := rcb_err_count record_buf + rm_single_reply_error_msg_count resp,
       rcb_msg_total_count := rcb_msg_total_count record_buf + rm_single_reply_msg_count resp\<rparr>) }"

definition get_redis_msg :: "redis_msg_s frame_buf_s \<Rightarrow> redis_msg_s \<Rightarrow> redis_msg_s option" where
  "get_redis_msg fb placeholder =
     (if fb_current_pos fb = frame_buf_size fb then Some placeholder
      else if fb_current_pos fb < FRAME_BUF_SIZE
      then map_option fd_frame (fb_frames fb (fb_current_pos fb))
      else None)"

definition placeholder_msg :: redis_msg_s where
  "placeholder_msg = init_redis_msg\<lparr>rm_timestamp_ns := - 1\<rparr>"

definition is_replconf_ack :: "redis_msg_s \<Rightarrow> bool" where
  "is_replconf_ack req \<longleftrightarrow> (case rm_command req of None \<Rightarrow> False | Some c \<Rightarrow> c_str c = ascii ''REPLCONF ACK'')"

definition has_command :: "redis_msg_s \<Rightarrow> bool" where
  "has_command resp \<longleftrightarrow> (case rm_command resp of None \<Rightarrow> False | Some c \<Rightarrow> strlen c \<noteq> 0)"

function match_frames_with_timestamp_order ::
  "redis_record_s record_buf_s \<Rightarrow> redis_record_s \<Rightarrow> redis_msg_s frame_buf_s \<Rightarrow> redis_msg_s frame_buf_s \<Rightarrow>
   (redis_record_s record_buf_s \<times> redis_msg_s frame_buf_s \<times> redis_msg_s frame_buf_s) well_defined" where
  "match_frames_with_timestamp_order record_buf record req_frames resp_frames =
     (if \<not> (frames_left req_frames \<or> frames_left resp_frames) then Some (record_buf, req_frames, resp_frames)
      else case get_redis_msg req_frames placeholder_msg of
        None \<Rightarrow> Some (record_buf, req_frames, resp_frames)
      | Some req \<Rightarrow>
          (case get_redis_msg resp_frames placeholder_msg of
             None \<Rightarrow> Some (record_buf, req_frames, resp_frames)
           | Some resp \<Rightarrow>
               (if frames_left resp_frames \<and> rm_is_pub_msg resp
                then do {
                  record_buf \<leftarrow> add_redis_record_to_buf record_buf (handle_pub_resp_msg resp);
                  match_frames_with_timestamp_order record_buf record req_frames (next_frame resp_frames) }
                else if frames_left req_frames \<and> is_replconf_ack req \<and>
                  (fb_current_pos resp_frames = frame_buf_size resp_frames \<or> rm_timestamp_ns req < rm_timestamp_ns resp)
                then do {
                  record_buf \<leftarrow> add_redis_record_to_buf record_buf (handle_follower_to_leader_ack_msg req);
                  match_frames_with_timestamp_order record_buf record (next_frame req_frames) resp_frames }
                else if frames_left resp_frames \<and> has_command resp
                then do {
                  record_buf \<leftarrow> add_redis_record_to_buf record_buf (handle_leader_to_follower_msg resp);
                  match_frames_with_timestamp_order record_buf record req_frames (next_frame resp_frames) }
                else if rm_timestamp_ns req < rm_timestamp_ns resp
                then match_frames_with_timestamp_order record_buf (record\<lparr>rr_req_msg := Some req\<rparr>) (next_frame req_frames) resp_frames
                else if (case rr_req_msg record of None \<Rightarrow> False | Some q \<Rightarrow> rm_timestamp_ns q \<noteq> 0)
                then do {
                  record_buf \<leftarrow> add_redis_record_to_buf record_buf (record\<lparr>rr_resp_msg := Some resp\<rparr>);
                  match_frames_with_timestamp_order record_buf init_redis_record req_frames (next_frame resp_frames) }
                else match_frames_with_timestamp_order record_buf record req_frames (next_frame resp_frames))))"
  by pat_completeness auto

text \<open>
  A step that takes a response may go one position beyond the frames, when a request has the
  largest timestamp; the next step then finds no message and ends the loop.
\<close>

lemma get_msg_bound: "get_redis_msg fb m = Some x \<Longrightarrow> fb_current_pos fb \<le> max (frame_buf_size fb) FRAME_BUF_SIZE"
  by (auto simp: get_redis_msg_def split: if_splits)

lemma request_left: "get_redis_msg fb placeholder_msg = Some req \<Longrightarrow> rm_timestamp_ns req < t \<Longrightarrow>
  fb_current_pos fb < max (frame_buf_size fb) FRAME_BUF_SIZE"
  using word_n1_ge [of t] by (auto simp: get_redis_msg_def placeholder_msg_def not_less [symmetric] split: if_splits)

termination match_frames_with_timestamp_order
  by (relation "measure (\<lambda>(_, _, q, p). (max (frame_buf_size q) FRAME_BUF_SIZE + 1 - fb_current_pos q) +
        (max (frame_buf_size p) FRAME_BUF_SIZE + 1 - fb_current_pos p))")
    (auto simp: next_frame_def frames_left_def max_def dest!: get_msg_bound request_left split: if_splits)

declare match_frames_with_timestamp_order.simps [simp del]

definition redis_match_frames ::
  "redis_msg_s frame_buf_s \<Rightarrow> redis_msg_s frame_buf_s \<Rightarrow> redis_record_s record_buf_s \<Rightarrow>
   (redis_record_s record_buf_s \<times> redis_msg_s frame_buf_s \<times> redis_msg_s frame_buf_s) well_defined" where
  "redis_match_frames req_frames resp_frames record_buf = do {
     (record_buf, req_frames, resp_frames) \<leftarrow>
       match_frames_with_timestamp_order record_buf init_redis_record req_frames resp_frames;
     Some (record_buf\<lparr>rcb_req_count := fb_current_pos req_frames, rcb_resp_count := fb_current_pos resp_frames\<rparr>,
       req_frames, resp_frames) }"


subsection \<open>The records of the loop\<close>

text \<open>The loop on the messages that wait, and the request it holds.\<close>

function match_list :: "redis_msg_s list \<Rightarrow> redis_msg_s list \<Rightarrow> redis_msg_s option \<Rightarrow> redis_record_s list" where
  "match_list qs ps held =
     (if qs = [] \<and> ps = [] then []
      else if ps \<noteq> [] \<and> rm_is_pub_msg (hd ps) then handle_pub_resp_msg (hd ps) # match_list qs (tl ps) held
      else let before = qs \<noteq> [] \<and> (ps = [] \<or> rm_timestamp_ns (hd qs) < rm_timestamp_ns (hd ps)) in
      if before \<and> is_replconf_ack (hd qs) then handle_follower_to_leader_ack_msg (hd qs) # match_list (tl qs) ps held
      else if ps \<noteq> [] \<and> has_command (hd ps) then handle_leader_to_follower_msg (hd ps) # match_list qs (tl ps) held
      else if before then match_list (tl qs) ps (Some (hd qs))
      else case held of
        None \<Rightarrow> match_list qs (tl ps) None
      | Some q \<Rightarrow> init_redis_record\<lparr>rr_req_msg := Some q, rr_resp_msg := Some (hd ps)\<rparr> # match_list qs (tl ps) None)"
  by pat_completeness auto

termination
proof (relation "measure (\<lambda>(qs, ps, _). length qs + length ps)", goal_cases)
qed (auto simp: neq_Nil_conv Let_def)

declare match_list.simps [simp del]

fun add_records :: "redis_record_s record_buf_s \<Rightarrow> redis_record_s list \<Rightarrow> redis_record_s record_buf_s well_defined" where
  "add_records rb [] = Some rb"
| "add_records rb (r # rs) = do { rb \<leftarrow> add_redis_record_to_buf rb r; add_records rb rs }"

definition times_ok :: "redis_msg_s list \<Rightarrow> bool" where
  "times_ok ms \<longleftrightarrow> (\<forall>m \<in> set ms. 0 < rm_timestamp_ns m \<and> rm_timestamp_ns m < - 1)"

lemma get_waiting:
  assumes "frame_buf_ok fb"
  shows "get_redis_msg fb placeholder_msg = Some (case waiting fb of [] \<Rightarrow> placeholder_msg | m # _ \<Rightarrow> m)"
    "frames_left fb \<longleftrightarrow> waiting fb \<noteq> []" "fb_current_pos fb = frame_buf_size fb \<longleftrightarrow> waiting fb = []"
    "waiting fb \<noteq> [] \<Longrightarrow> waiting (next_frame fb) = tl (waiting fb)" "waiting fb \<noteq> [] \<Longrightarrow> frame_buf_ok (next_frame fb)"
    "waiting fb = [] \<Longrightarrow> all_taken fb = fb"
proof -
  have le: "fb_current_pos fb \<le> frame_buf_size fb" "frame_buf_size fb \<le> FRAME_BUF_SIZE" using assms by (auto simp: frame_buf_ok_def)
  then show w: "frames_left fb \<longleftrightarrow> waiting fb \<noteq> []" "fb_current_pos fb = frame_buf_size fb \<longleftrightarrow> waiting fb = []"
    by (auto simp: frames_left_def waiting_Nil)
  show "waiting fb \<noteq> [] \<Longrightarrow> waiting (next_frame fb) = tl (waiting fb)" "waiting fb \<noteq> [] \<Longrightarrow> frame_buf_ok (next_frame fb)"
    using waiting_Cons [OF assms] frame_buf_ok_next [OF assms] w by (auto simp: next_frame_def frames_left_def)
  show "get_redis_msg fb placeholder_msg = Some (case waiting fb of [] \<Rightarrow> placeholder_msg | m # _ \<Rightarrow> m)"
    using waiting_Cons [OF assms] w le by (auto simp: get_redis_msg_def frames_left_def split: list.split)
  show "waiting fb = [] \<Longrightarrow> all_taken fb = fb" using w(2) by (simp add: all_taken_def)
qed

lemma times_ok_tl: "times_ok ms \<Longrightarrow> times_ok (tl ms)"
  by (cases ms) (auto simp: times_ok_def)

lemma placeholder_sel [simp]: "rm_timestamp_ns placeholder_msg = - 1" "\<not> is_replconf_ack placeholder_msg"
  by (simp_all add: placeholder_msg_def init_redis_msg_def is_replconf_ack_def)

lemma match_refines:
  assumes "frame_buf_ok qf" "frame_buf_ok pf" "times_ok (waiting qf)" "times_ok (waiting pf)"
    "\<forall>q. held = Some q \<longrightarrow> 0 < rm_timestamp_ns q"
  shows "match_frames_with_timestamp_order rb (init_redis_record\<lparr>rr_req_msg := held\<rparr>) qf pf = do {
    rb \<leftarrow> add_records rb (match_list (waiting qf) (waiting pf) held); Some (rb, all_taken qf, all_taken pf) }"
  using assms
proof (induction "length (waiting qf) + length (waiting pf)" arbitrary: rb qf pf held rule: less_induct)
  case less
  note prems = less.prems
  note q = get_waiting [OF prems(1)] and p = get_waiting [OF prems(2)]
  have next_q: "match_frames_with_timestamp_order rb (init_redis_record\<lparr>rr_req_msg := h\<rparr>) (next_frame qf) pf = do {
      rb \<leftarrow> add_records rb (match_list (tl (waiting qf)) (waiting pf) h); Some (rb, all_taken qf, all_taken pf) }"
    if "waiting qf \<noteq> []" "\<forall>q. h = Some q \<longrightarrow> 0 < rm_timestamp_ns q" for rb h
    using less.hyps [of "next_frame qf" pf h rb] that q(4,5) prems by (simp add: times_ok_tl del: length_waiting)
  have next_p: "match_frames_with_timestamp_order rb (init_redis_record\<lparr>rr_req_msg := h\<rparr>) qf (next_frame pf) = do {
      rb \<leftarrow> add_records rb (match_list (waiting qf) (tl (waiting pf)) h); Some (rb, all_taken qf, all_taken pf) }"
    if "waiting pf \<noteq> []" "\<forall>q. h = Some q \<longrightarrow> 0 < rm_timestamp_ns q" for rb h
    using less.hyps [of qf "next_frame pf" h rb] that p(4,5) prems by (simp add: times_ok_tl del: length_waiting)
  have none: "init_redis_record = init_redis_record\<lparr>rr_req_msg := None\<rparr>" by (simp add: init_redis_record_def)
  show ?case
  proof (cases "waiting qf = [] \<and> waiting pf = []")
    case True
    then show ?thesis using q p by (simp add: match_frames_with_timestamp_order.simps match_list.simps)
  next
    case False
    have n1: "\<not> (- 1 :: u64) < t" for t using word_n1_ge [of t] by simp
    have nz: "held = Some m \<Longrightarrow> rm_timestamp_ns m \<noteq> 0" for m using prems(5) by auto
    have qt: "waiting qf = m # ms \<Longrightarrow> 0 < rm_timestamp_ns m \<and> rm_timestamp_ns m < - 1" for m ms
      using prems(3) by (simp add: times_ok_def)
    have pt: "waiting pf = m # ms \<Longrightarrow> rm_timestamp_ns m < - 1" for m ms
      using prems(4) by (simp add: times_ok_def)
    show ?thesis
      using False next_q next_p next_p [of None, folded none] prems(5) nz qt pt n1
      by (subst match_frames_with_timestamp_order.simps, subst match_list.simps)
        (cases "waiting qf"; cases "waiting pf"; cases held; simp add: Let_def q(1,2,3) p(1,2,3))
  qed
qed


subsection \<open>What the records are\<close>

definition fake :: "redis_msg_s option \<Rightarrow> bool" where
  "fake m \<longleftrightarrow> (case m of None \<Rightarrow> False | Some m \<Rightarrow> rm_is_fake_msg m)"

definition ordinary_resp :: "redis_msg_s \<Rightarrow> bool" where
  "ordinary_resp p \<longleftrightarrow> \<not> rm_is_pub_msg p \<and> \<not> has_command p"

definition pair_record :: "redis_msg_s \<times> redis_msg_s \<Rightarrow> redis_record_s" where
  "pair_record = (\<lambda>(q, p). \<lparr>rr_req_msg = Some q, rr_resp_msg = Some p, rr_role_swapped = False\<rparr>)"

lemma record_kinds [simp]:
  "rr_req_msg (handle_pub_resp_msg p) = Some (init_redis_msg\<lparr>rm_timestamp_ns := rm_timestamp_ns p,
     rm_command := Some (ascii ''PUSH PUB''), rm_is_fake_msg := True\<rparr>)"
  "rr_resp_msg (handle_pub_resp_msg p) = Some p"
  "\<not> rr_role_swapped (handle_pub_resp_msg p)"
  "rr_req_msg (handle_follower_to_leader_ack_msg p) = Some p" "fake (rr_resp_msg (handle_follower_to_leader_ack_msg p))"
  "\<not> rr_role_swapped (handle_follower_to_leader_ack_msg p)"
  "rr_req_msg (handle_leader_to_follower_msg p) = Some p" "fake (rr_resp_msg (handle_leader_to_follower_msg p))"
  "rr_role_swapped (handle_leader_to_follower_msg p)"
  "rr_req_msg (pair_record (p, q)) = Some p" "rr_resp_msg (pair_record (p, q)) = Some q" "\<not> rr_role_swapped (pair_record (p, q))"
  "fake (Some p) \<longleftrightarrow> rm_is_fake_msg p" "\<not> fake None"
  by (simp_all add: handle_pub_resp_msg_def handle_follower_to_leader_ack_msg_def handle_leader_to_follower_msg_def
      init_redis_record_def pair_record_def fake_def)

lemma pair_record_eq: "init_redis_record\<lparr>rr_req_msg := Some q, rr_resp_msg := Some p\<rparr> = pair_record (q, p)"
  by (simp add: init_redis_record_def pair_record_def)

definition no_fakes :: "redis_msg_s list \<Rightarrow> bool" where
  "no_fakes ms \<longleftrightarrow> (\<forall>m \<in> set ms. \<not> rm_is_fake_msg m)"

lemma match_list_special:
  assumes "no_fakes qs" "no_fakes ps" "\<not> fake held"
  shows "filter (\<lambda>r. fake (rr_req_msg r)) (match_list qs ps held) = map handle_pub_resp_msg (filter rm_is_pub_msg ps) \<and>
    filter rr_role_swapped (match_list qs ps held)
      = map handle_leader_to_follower_msg (filter (\<lambda>p. \<not> rm_is_pub_msg p \<and> has_command p) ps) \<and>
    filter (\<lambda>r. fake (rr_resp_msg r) \<and> \<not> rr_role_swapped r) (match_list qs ps held)
      = map handle_follower_to_leader_ack_msg (filter is_replconf_ack qs)"
  using assms
proof (induction qs ps held rule: match_list.induct)
  case (1 qs ps held)
  then show ?case
    by (subst (1 2 3) match_list.simps) (cases qs; cases ps; cases held; simp add: Let_def no_fakes_def pair_record_eq)
qed

abbreviation answers :: "u64 \<Rightarrow> redis_msg_s list \<Rightarrow> redis_msg_s list \<Rightarrow> (redis_msg_s \<times> redis_msg_s) list" where
  "answers \<equiv> answered rm_timestamp_ns"

lemma match_list_pairs:
  assumes "no_fakes qs" "no_fakes ps" "\<not> fake held" "in_order rm_timestamp_ns (held_list held @ qs)" "in_order rm_timestamp_ns ps"
    "\<forall>m \<in> set (held_list held @ qs @ ps). t \<le> rm_timestamp_ns m"
    "\<forall>q \<in> set (held_list held). \<forall>p \<in> set ps. rm_timestamp_ns q < rm_timestamp_ns p"
  shows "filter (\<lambda>r. \<not> fake (rr_req_msg r) \<and> \<not> fake (rr_resp_msg r)) (match_list qs ps held)
    = map pair_record (answers t (held_list held @ filter (\<lambda>q. \<not> is_replconf_ack q) qs) (filter ordinary_resp ps))"
  using assms
proof (induction qs ps held arbitrary: t rule: match_list.induct)
  case (1 qs ps held)
  consider (empty) "qs = []" "ps = []"
    | (pub) p ps' where "ps = p # ps'" "rm_is_pub_msg p"
    | (ack) q qs' where "qs = q # qs'" "ps = [] \<or> \<not> rm_is_pub_msg (hd ps) \<and> rm_timestamp_ns q < rm_timestamp_ns (hd ps)"
        "is_replconf_ack q"
    | (leader) p ps' where "ps = p # ps'" "\<not> rm_is_pub_msg p" "has_command p"
        "qs = [] \<or> \<not> rm_timestamp_ns (hd qs) < rm_timestamp_ns p \<or> \<not> is_replconf_ack (hd qs)"
    | (before) q qs' where "qs = q # qs'" "ps = [] \<or> ordinary_resp (hd ps) \<and> rm_timestamp_ns q < rm_timestamp_ns (hd ps)"
        "\<not> is_replconf_ack q"
    | (after) p ps' where "ps = p # ps'" "ordinary_resp p" "qs = [] \<or> \<not> rm_timestamp_ns (hd qs) < rm_timestamp_ns p"
    by (cases qs; cases ps) (auto simp: ordinary_resp_def)
  then show ?case
  proof cases
    case empty
    then show ?thesis by (subst match_list.simps) (cases held; simp)
  next
    case pub
    then have "\<not> ordinary_resp p" by (simp add: ordinary_resp_def)
    then show ?thesis using pub "1.IH"(1) [of t] "1.prems"
      by (subst match_list.simps) (simp add: Let_def no_fakes_def in_order_def)
  next
    case ack
    then show ?thesis using "1.IH"(2) [OF _ _ refl, of t] "1.prems"
      by (subst match_list.simps) (auto simp: Let_def no_fakes_def in_order_def sorted_wrt_append)
  next
    case leader
    then have "\<not> ordinary_resp p" by (simp add: ordinary_resp_def)
    then show ?thesis using leader "1.IH"(3) [OF _ _ refl, of t] "1.prems"
      by (subst match_list.simps) (auto simp: Let_def no_fakes_def in_order_def)
  next
    case before
    then have e: "match_list qs ps held = match_list qs' ps (Some q)"
      by (subst match_list.simps) (auto simp: Let_def ordinary_resp_def)
    have lt: "\<forall>p \<in> set ps. rm_timestamp_ns q < rm_timestamp_ns p"
      using before "1.prems"(5) by (cases ps) (auto simp: in_order_def)
    have "filter (\<lambda>r. \<not> fake (rr_req_msg r) \<and> \<not> fake (rr_resp_msg r)) (match_list qs' ps (Some q))
      = map pair_record (answers t (q # filter (\<lambda>q. \<not> is_replconf_ack q) qs') (filter ordinary_resp ps))"
      using "1.IH"(4) [OF _ _ refl, of t] "1.prems" before lt
      by (auto simp: no_fakes_def in_order_def sorted_wrt_append ordinary_resp_def [of "hd ps"])
    moreover have "answers t (held_list held @ q # filter (\<lambda>q. \<not> is_replconf_ack q) qs') (filter ordinary_resp ps)
        = answers t (q # filter (\<lambda>q. \<not> is_replconf_ack q) qs') (filter ordinary_resp ps)"
      using "1.prems" before(1) lt by (intro answered_hold) auto
    ultimately show ?thesis using e before(1,3) by simp
  next
    case after
    have ge: "\<forall>q \<in> set qs. rm_timestamp_ns p \<le> rm_timestamp_ns q"
      using after "1.prems"(4) by (cases qs) (auto simp: in_order_def sorted_wrt_append)
    have ih: "filter (\<lambda>r. \<not> fake (rr_req_msg r) \<and> \<not> fake (rr_resp_msg r)) (match_list qs ps' None)
      = map pair_record (answers (rm_timestamp_ns p) (filter (\<lambda>q. \<not> is_replconf_ack q) qs) (filter ordinary_resp ps'))"
      using "1.IH"(5,6) [OF _ _ refl, where t = "rm_timestamp_ns p"] "1.prems" after ge
      by (cases held) (auto simp: no_fakes_def in_order_def sorted_wrt_append ordinary_resp_def [of p] ball_Un)
    have "match_list qs ps held = map (\<lambda>q. pair_record (q, p)) (held_list held) @ match_list qs ps' None"
      using after by (subst match_list.simps) (auto simp: Let_def ordinary_resp_def pair_record_eq split: option.splits)
    moreover have "answers t (held_list held @ filter (\<lambda>q. \<not> is_replconf_ack q) qs) (filter ordinary_resp ps)
        = map (\<lambda>q. (q, p)) (held_list held) @
          answers (rm_timestamp_ns p) (filter (\<lambda>q. \<not> is_replconf_ack q) qs) (filter ordinary_resp ps')"
      using answered_now [OF ge, of ps' held t] "1.prems"(5-7) after by auto
    ultimately show ?thesis using ih "1.prems"(2,3) after(1) by (cases held) (simp_all add: no_fakes_def)
  qed
qed

definition complete_record :: "redis_record_s \<Rightarrow> bool" where
  "complete_record r \<longleftrightarrow> rr_req_msg r \<noteq> None \<and> rr_resp_msg r \<noteq> None \<and> (fake (rr_req_msg r) \<longrightarrow> \<not> fake (rr_resp_msg r)) \<and>
    (rr_role_swapped r \<longrightarrow> fake (rr_resp_msg r))"

lemma complete_kinds:
  "\<not> rm_is_fake_msg p \<Longrightarrow> complete_record (handle_pub_resp_msg p)"
  "\<not> rm_is_fake_msg p \<Longrightarrow> complete_record (handle_follower_to_leader_ack_msg p)"
  "\<not> rm_is_fake_msg p \<Longrightarrow> complete_record (handle_leader_to_follower_msg p)"
  "\<not> rm_is_fake_msg q \<Longrightarrow> \<not> rm_is_fake_msg p \<Longrightarrow> complete_record (pair_record (q, p))"
  by (simp_all add: complete_record_def) (simp_all add: handle_leader_to_follower_msg_def handle_follower_to_leader_ack_msg_def)

lemma match_list_complete:
  assumes "no_fakes qs" "no_fakes ps" "\<not> fake held"
  shows "list_all complete_record (match_list qs ps held)"
  using assms
proof (induction qs ps held rule: match_list.induct)
  case (1 qs ps held)
  then show ?case
    by (subst match_list.simps)
     (cases qs; cases ps; cases held; simp add: Let_def no_fakes_def pair_record_eq complete_kinds)
qed

text \<open>How many records a round makes.\<close>

definition record_count :: "redis_msg_s list \<Rightarrow> redis_msg_s list \<Rightarrow> nat" where
  "record_count qs ps = length (filter (\<lambda>p. \<not> ordinary_resp p) ps) + length (filter is_replconf_ack qs) +
     length (answers 0 (filter (\<lambda>q. \<not> is_replconf_ack q) qs) (filter ordinary_resp ps))"

lemma length_kinds:
  assumes "list_all complete_record rs"
  shows "length rs = length (filter (\<lambda>r. fake (rr_req_msg r)) rs) + length (filter rr_role_swapped rs) +
    length (filter (\<lambda>r. fake (rr_resp_msg r) \<and> \<not> rr_role_swapped r) rs) +
    length (filter (\<lambda>r. \<not> fake (rr_req_msg r) \<and> \<not> fake (rr_resp_msg r)) rs)"
  using assms by (induction rs) (auto simp: complete_record_def)

lemma special_resps: "length (filter (\<lambda>p. \<not> ordinary_resp p) ps)
  = length (filter rm_is_pub_msg ps) + length (filter (\<lambda>p. \<not> rm_is_pub_msg p \<and> has_command p) ps)"
  by (induction ps) (auto simp: ordinary_resp_def)

lemma record_count_eq:
  assumes "no_fakes qs" "no_fakes ps" "in_order rm_timestamp_ns qs" "in_order rm_timestamp_ns ps"
  shows "length (match_list qs ps None) = record_count qs ps"
  using length_kinds [OF match_list_complete [OF assms(1,2), of None]] match_list_special [OF assms(1,2), of None]
    match_list_pairs [OF assms(1,2), of None 0] assms(3,4) special_resps [of ps]
  by (simp add: record_count_def)

definition redis_record_data :: "redis_record_s \<Rightarrow> redis_record_s record_data_s" where
  "redis_record_data r = \<lparr>rcd_record = r,
     rcd_latency = rm_timestamp_ns (the (rr_resp_msg r)) - rm_timestamp_ns (the (rr_req_msg r))\<rparr>"

definition has_both :: "redis_record_s \<Rightarrow> bool" where
  "has_both r \<longleftrightarrow> rr_req_msg r \<noteq> None \<and> rr_resp_msg r \<noteq> None"

lemma complete_has_both: "list_all complete_record rs \<Longrightarrow> list_all has_both rs"
  by (simp add: list_all_iff complete_record_def has_both_def)

lemma add_records_eq:
  assumes "record_buf_ok rb" "list_all has_both rs"
  shows "if rcb_record_buf_size rb + length rs \<le> RECORD_BUF_SIZE
    then \<exists>rb'. add_records rb rs = Some rb' \<and> record_buf_ok rb' \<and> record_list rb' = record_list rb @ map redis_record_data rs \<and>
      rcb_err_count rb' = rcb_err_count rb + (\<Sum>r\<leftarrow>rs. rm_single_reply_error_msg_count (the (rr_resp_msg r))) \<and>
      rcb_msg_total_count rb' = rcb_msg_total_count rb + (\<Sum>r\<leftarrow>rs. rm_single_reply_msg_count (the (rr_resp_msg r)))
    else add_records rb rs = None"
  using assms
proof (induction rs arbitrary: rb)
  case (Cons r rs)
  then obtain q p where r: "rr_req_msg r = Some q" "rr_resp_msg r = Some p" by (auto simp: has_both_def)
  let ?rb = "rb\<lparr>rcb_records := (rcb_records rb)(rcb_record_buf_size rb \<mapsto> redis_record_data r),
      rcb_record_buf_size := rcb_record_buf_size rb + 1, rcb_err_count := rcb_err_count rb + rm_single_reply_error_msg_count p,
      rcb_msg_total_count := rcb_msg_total_count rb + rm_single_reply_msg_count p\<rparr>"
  have a: "add_redis_record_to_buf rb r = (if rcb_record_buf_size rb < RECORD_BUF_SIZE then Some ?rb else None)"
    using r by (simp add: add_redis_record_to_buf_def store_record_def redis_record_data_def)
  show ?case
  proof (cases "rcb_record_buf_size rb < RECORD_BUF_SIZE")
    case True
    then have "record_buf_ok ?rb" "record_list ?rb = record_list rb @ [redis_record_data r]"
      using Cons.prems(1) by (simp_all add: record_buf_ok_def record_list_def slots_full_push slots_list_push)
    with Cons.IH [of ?rb] Cons.prems(2) a True r show ?thesis by (auto split: if_splits)
  qed (use a in auto)
qed (simp add: record_buf_ok_def)

lemma redis_match_eq:
  assumes "frame_buf_ok qf" "frame_buf_ok pf" "times_ok (waiting qf)" "times_ok (waiting pf)"
  shows "redis_match_frames qf pf rb = do {
    rb \<leftarrow> add_records rb (match_list (waiting qf) (waiting pf) None);
    Some (rb\<lparr>rcb_req_count := frame_buf_size qf, rcb_resp_count := frame_buf_size pf\<rparr>, all_taken qf, all_taken pf) }"
proof -
  have none: "init_redis_record = init_redis_record\<lparr>rr_req_msg := None\<rparr>" by (simp add: init_redis_record_def)
  show ?thesis
    unfolding redis_match_frames_def
    by (subst none, subst match_refines) (use assms in \<open>simp_all add: all_taken_def\<close>)
qed

subsection \<open>Properties\<close>

text \<open>
  C3: Matching a round of Redis frames whose timestamps are in order uses up all frames and makes
  these records: every published message and every command of a leader gets a record with an
  invented counterpart, every acknowledgement of a follower too, and every other response is
  paired with the last request before it that came after the response before it.
\<close>

theorem redis_match_records:
  assumes "frame_buf_ok qf" "frame_buf_ok pf" "record_buf_ok rb"
    and "times_ok (waiting qf)" "times_ok (waiting pf)" "in_order rm_timestamp_ns (waiting qf)" "in_order rm_timestamp_ns (waiting pf)"
    and "no_fakes (waiting qf)" "no_fakes (waiting pf)"
    and "rcb_record_buf_size rb + record_count (waiting qf) (waiting pf) \<le> RECORD_BUF_SIZE"
  shows "\<exists>rb' rs. redis_match_frames qf pf rb = Some (rb', all_taken qf, all_taken pf) \<and>
    record_list rb' = record_list rb @ map redis_record_data rs \<and>
    filter (\<lambda>r. fake (rr_req_msg r)) rs = map handle_pub_resp_msg (filter rm_is_pub_msg (waiting pf)) \<and>
    filter rr_role_swapped rs = map handle_leader_to_follower_msg (filter (\<lambda>p. \<not> rm_is_pub_msg p \<and> has_command p) (waiting pf)) \<and>
    filter (\<lambda>r. fake (rr_resp_msg r) \<and> \<not> rr_role_swapped r) rs = map handle_follower_to_leader_ack_msg (filter is_replconf_ack (waiting qf)) \<and>
    filter (\<lambda>r. \<not> fake (rr_req_msg r) \<and> \<not> fake (rr_resp_msg r)) rs =
      map pair_record (answers 0 (filter (\<lambda>q. \<not> is_replconf_ack q) (waiting qf)) (filter ordinary_resp (waiting pf)))"
proof -
  let ?rs = "match_list (waiting qf) (waiting pf) None"
  have "list_all complete_record ?rs" using match_list_complete [OF assms(8,9)] by simp
  from add_records_eq [OF assms(3) complete_has_both [OF this]] record_count_eq [OF assms(8,9,6,7)] assms(10) obtain rb' where
    "add_records rb ?rs = Some rb'" "record_list rb' = record_list rb @ map redis_record_data ?rs" by (auto split: if_splits)
  then have "redis_match_frames qf pf rb = Some (rb'\<lparr>rcb_req_count := frame_buf_size qf, rcb_resp_count := frame_buf_size pf\<rparr>,
      all_taken qf, all_taken pf)"
    "record_list (rb'\<lparr>rcb_req_count := frame_buf_size qf, rcb_resp_count := frame_buf_size pf\<rparr>)
      = record_list rb @ map redis_record_data ?rs"
    using redis_match_eq [OF assms(1,2,4,5), of rb] by (simp_all add: record_list_def)
  then show ?thesis
    using match_list_special [OF assms(8,9), of None] match_list_pairs [OF assms(8,9), of None 0] assms(6,7)
    by (intro exI conjI) auto
qed

definition msg_at :: "u64 \<Rightarrow> bytes option \<Rightarrow> redis_msg_s" where
  "msg_at t c = init_redis_msg\<lparr>rm_timestamp_ns := t, rm_command := c\<rparr>"

theorem redis_match_records_witness:
  "\<exists>rb' rs. redis_match_frames (frames_of rm_timestamp_ns [msg_at 1 (Some (ascii ''GET'')), msg_at 3 (Some (ascii ''REPLCONF ACK'')), msg_at 5 (Some (ascii ''SET''))])
      (frames_of rm_timestamp_ns [msg_at 2 None, msg_at 4 None, msg_at 6 None]) empty_record_buf = Some rb' \<and>
    record_list (fst rb') = map redis_record_data rs \<and>
    filter (\<lambda>r. \<not> fake (rr_req_msg r) \<and> \<not> fake (rr_resp_msg r)) rs =
      [pair_record (msg_at 1 (Some (ascii ''GET'')), msg_at 2 None), pair_record (msg_at 5 (Some (ascii ''SET'')), msg_at 6 None)]"
proof -
  let ?qf = "frames_of rm_timestamp_ns [msg_at 1 (Some (ascii ''GET'')), msg_at 3 (Some (ascii ''REPLCONF ACK'')), msg_at 5 (Some (ascii ''SET''))]"
    and ?pf = "frames_of rm_timestamp_ns [msg_at 2 None, msg_at 4 None, msg_at 6 None]"
  have w: "waiting ?qf = [msg_at 1 (Some (ascii ''GET'')), msg_at 3 (Some (ascii ''REPLCONF ACK'')), msg_at 5 (Some (ascii ''SET''))]"
    "waiting ?pf = [msg_at 2 None, msg_at 4 None, msg_at 6 None]" by (simp_all add: frames_of_ok)
  have o: "ordinary_resp (msg_at t None)" "is_replconf_ack (msg_at t c) \<longleftrightarrow> (case c of None \<Rightarrow> False | Some c \<Rightarrow> c_str c = ascii ''REPLCONF ACK'')"
    "rm_timestamp_ns (msg_at t c) = t" "\<not> rm_is_fake_msg (msg_at t c)" for t c
    by (simp_all add: ordinary_resp_def msg_at_def init_redis_msg_def has_command_def is_replconf_ack_def)
  have n: "\<not> (2 :: u64) \<le> 1" by code_simp
  have "answers 0 (filter (\<lambda>q. \<not> is_replconf_ack q) (waiting ?qf)) (filter ordinary_resp (waiting ?pf))
      = [(msg_at 1 (Some (ascii ''GET'')), msg_at 2 None), (msg_at 5 (Some (ascii ''SET'')), msg_at 6 None)]"
    unfolding w by (simp add: o n ascii_def c_str_def)
  moreover have "record_count (waiting ?qf) (waiting ?pf) = 3"
    using calculation unfolding record_count_def w by (simp add: o n ascii_def c_str_def)
  moreover have "times_ok (waiting ?qf)" "times_ok (waiting ?pf)" "in_order rm_timestamp_ns (waiting ?qf)" "in_order rm_timestamp_ns (waiting ?pf)"
    "no_fakes (waiting ?qf)" "no_fakes (waiting ?pf)" unfolding w in_order_def by code_simp+
  moreover have "frame_buf_ok ?qf" "frame_buf_ok ?pf" by (simp_all add: frames_of_ok FRAME_BUF_SIZE_def)
  ultimately obtain rb' rs where "redis_match_frames ?qf ?pf empty_record_buf = Some (rb', all_taken ?qf, all_taken ?pf)"
    "record_list rb' = map redis_record_data rs"
    "filter (\<lambda>r. \<not> fake (rr_req_msg r) \<and> \<not> fake (rr_resp_msg r)) rs = map pair_record
      [(msg_at 1 (Some (ascii ''GET'')), msg_at 2 None), (msg_at 5 (Some (ascii ''SET'')), msg_at 6 None)]"
    using redis_match_records [of ?qf ?pf empty_record_buf] by (auto simp: RECORD_BUF_SIZE_def)
  then show ?thesis by (intro exI conjI) auto
qed

text \<open>
  C30: Matching is undefined exactly when the records of the round do not fit: records are stored
  without a check against the size of their buffer, which is a tenth of the size of the buffers
  of frames.
\<close>

theorem redis_match_overflow:
  assumes "frame_buf_ok qf" "frame_buf_ok pf" "record_buf_ok rb"
    and "times_ok (waiting qf)" "times_ok (waiting pf)" "in_order rm_timestamp_ns (waiting qf)" "in_order rm_timestamp_ns (waiting pf)"
    and "no_fakes (waiting qf)" "no_fakes (waiting pf)"
  shows "redis_match_frames qf pf rb = None \<longleftrightarrow>
    RECORD_BUF_SIZE < rcb_record_buf_size rb + record_count (waiting qf) (waiting pf)"
  using add_records_eq [OF assms(3) complete_has_both [OF match_list_complete [OF assms(8,9), of None]]] record_count_eq [OF assms(8,9,6,7)]
  by (auto simp: redis_match_eq [OF assms(1,2,4,5)] split: if_splits)

theorem redis_match_overflow_witness:
  "redis_match_frames (frames_of rm_timestamp_ns []) (frames_of rm_timestamp_ns (replicate 1025 (msg_at 1 (Some (ascii ''SET''))))) empty_record_buf = None"
proof -
  let ?m = "msg_at 1 (Some (ascii ''SET''))"
  have "\<not> ordinary_resp ?m" by (simp add: ordinary_resp_def msg_at_def has_command_def ascii_def strlen_def c_str_def)
  then have "record_count [] (replicate 1025 ?m) = 1025" by (simp add: record_count_def)
  moreover have "(1 :: u64) < - 1" by code_simp
  then have "in_order rm_timestamp_ns (replicate 1025 ?m)" "no_fakes (replicate 1025 ?m)" "times_ok (replicate 1025 ?m)"
    by (simp_all add: in_order_def no_fakes_def times_ok_def msg_at_def init_redis_msg_def sorted_wrt_iff_nth_less)
  ultimately show ?thesis
    using redis_match_overflow [of "frames_of rm_timestamp_ns []" "frames_of rm_timestamp_ns (replicate 1025 ?m)" empty_record_buf]
    by (simp add: frames_of_ok FRAME_BUF_SIZE_def RECORD_BUF_SIZE_def in_order_def no_fakes_def times_ok_def)
qed

end
