(* ===== verification/Crpc.thy ===== *)
theory Crpc
  imports Record_Buf
begin

section \<open>CRPC\<close>

text \<open>
  \<^verbatim>\<open>l7probe/protocol/crpc/crpc_parser.c\<close>: the parser of messages that begin with two flag
  bytes and carry their length, and the matcher that pairs messages by their request id.
\<close>

subsection \<open>Parser\<close>

definition CRPC_REQUEST_HEADER_MIN_LEN :: nat where "CRPC_REQUEST_HEADER_MIN_LEN = 103"
definition CRPC_HEADER_BEGIN_FLAG1 :: u8 where "CRPC_HEADER_BEGIN_FLAG1 = 0x1A"
definition CRPC_HEADER_BEGIN_FLAG2 :: u8 where "CRPC_HEADER_BEGIN_FLAG2 = 0x19"
definition CRPC_HEADER_BEGIN_FLAG_LEN :: nat where "CRPC_HEADER_BEGIN_FLAG_LEN = 2"
definition CRPC_HEADER_MSGLEN_OFFSET :: nat where "CRPC_HEADER_MSGLEN_OFFSET = 6"
definition CRPC_HEADER_HEADLEN_OFFSET :: nat where "CRPC_HEADER_HEADLEN_OFFSET = 8"
definition CRPC_HEADER_HEADVER_LEN :: nat where "CRPC_HEADER_HEADVER_LEN = 1"
definition CRPC_HEADER_PROPERTY_LEN :: nat where "CRPC_HEADER_PROPERTY_LEN = 3"
definition CRPC_HEADER_REQUEST_ID_LEN :: nat where "CRPC_HEADER_REQUEST_ID_LEN = 16"

lemmas crpc_consts = CRPC_REQUEST_HEADER_MIN_LEN_def CRPC_HEADER_BEGIN_FLAG1_def CRPC_HEADER_BEGIN_FLAG2_def
  CRPC_HEADER_BEGIN_FLAG_LEN_def CRPC_HEADER_MSGLEN_OFFSET_def CRPC_HEADER_HEADLEN_OFFSET_def
  CRPC_HEADER_HEADVER_LEN_def CRPC_HEADER_PROPERTY_LEN_def CRPC_HEADER_REQUEST_ID_LEN_def

record crpc_message_s =
  cm_type :: message_type_t
  cm_request_id :: bytes
  cm_head_len :: u16
  cm_matched :: bool
  cm_message_len :: u32
  cm_rpc_resp_code :: "32 word"
  cm_app_resp_code :: "32 word"
  cm_timestamp_ns :: u64

text \<open>What \<^verbatim>\<open>calloc\<close> returns.\<close>

definition zero_crpc_message :: crpc_message_s where
  "zero_crpc_message = \<lparr>cm_type = MESSAGE_UNKNOW, cm_request_id = replicate CRPC_HEADER_REQUEST_ID_LEN 0, cm_head_len = 0,
     cm_matched = False, cm_message_len = 0, cm_rpc_resp_code = 0, cm_app_resp_code = 0, cm_timestamp_ns = 0\<rparr>"

definition crpc_validate_tech_header :: "raw_data_s \<Rightarrow> u16 \<Rightarrow> u32 \<Rightarrow> parse_state_t" where
  "crpc_validate_tech_header raw_data head_len message_len =
     (if unat head_len \<ge> unat message_len \<or> data_len raw_data > unat message_len then STATE_INVALID
      else if data_len raw_data < unat message_len then STATE_NEEDS_MORE_DATA
      else STATE_SUCCESS)"

definition crpc_parse_tech_header ::
  "raw_data_s \<Rightarrow> crpc_message_s \<Rightarrow> (parse_state_t \<times> crpc_message_s \<times> raw_data_s) well_defined" where
  "crpc_parse_tech_header rd crpc_msg = do {
     let rd = rd\<lparr>rd_current_pos := rd_current_pos rd + CRPC_HEADER_BEGIN_FLAG_LEN\<rparr>;
     (r, rd) \<leftarrow> decoder_extract_int rd;
     case r of
       Inl _ \<Rightarrow> Some (STATE_NEEDS_MORE_DATA, crpc_msg, rd)
     | Inr message_len \<Rightarrow> do {
         let message_len = message_len + of_nat CRPC_HEADER_MSGLEN_OFFSET;
         (r, rd) \<leftarrow> decoder_extract_int rd;
         case r of
           Inl _ \<Rightarrow> Some (STATE_NEEDS_MORE_DATA, crpc_msg, rd)
         | Inr head_len \<Rightarrow> do {
             let head_len = head_len + of_nat CRPC_HEADER_HEADLEN_OFFSET;
             (r, rd) \<leftarrow> decoder_extract_prefix_ignore rd (CRPC_HEADER_HEADVER_LEN + CRPC_HEADER_PROPERTY_LEN);
             case r of
               Inl _ \<Rightarrow> Some (STATE_NEEDS_MORE_DATA, crpc_msg, rd)
             | Inr _ \<Rightarrow> do {
                 (r, rd) \<leftarrow> decoder_extract_char_array rd CRPC_HEADER_REQUEST_ID_LEN;
                 case r of
                   Inl _ \<Rightarrow> Some (STATE_NEEDS_MORE_DATA, crpc_msg, rd)
                 | Inr request_id \<Rightarrow>
                     (let crpc_msg = crpc_msg\<lparr>cm_request_id := request_id\<rparr>;
                          state = crpc_validate_tech_header rd head_len message_len
                      in if state \<noteq> STATE_SUCCESS then Some (state, crpc_msg, rd)
                         else Some (STATE_SUCCESS, crpc_msg\<lparr>cm_message_len := message_len, cm_head_len := head_len\<rparr>, rd)) } } } }"

definition crpc_parse_response_code :: "raw_data_s \<Rightarrow> crpc_message_s \<Rightarrow> parse_state_t" where
  "crpc_parse_response_code raw_data crpc_msg = STATE_SUCCESS"

definition do_crpc_parse_frame ::
  "message_type_t \<Rightarrow> raw_data_s \<Rightarrow> crpc_message_s \<Rightarrow> (parse_state_t \<times> crpc_message_s \<times> raw_data_s) well_defined" where
  "do_crpc_parse_frame msg_type rd crpc_msg = do {
     let pos = rd_current_pos rd;
     (state, crpc_msg, rd) \<leftarrow> crpc_parse_tech_header rd crpc_msg;
     if state \<noteq> STATE_SUCCESS then Some (state, crpc_msg, rd\<lparr>rd_current_pos := pos\<rparr>)
     else
       let state = (if msg_type = MESSAGE_RESPONSE then crpc_parse_response_code rd crpc_msg else STATE_SUCCESS)
       in if state \<noteq> STATE_SUCCESS then Some (state, crpc_msg, rd\<lparr>rd_current_pos := pos\<rparr>)
          else Some (STATE_SUCCESS, crpc_msg\<lparr>cm_timestamp_ns := rd_timestamp_ns rd\<rparr>, rd\<lparr>rd_current_pos := data_len rd\<rparr>) }"

definition crpc_find_frame_boundary :: "raw_data_s \<Rightarrow> nat option" where
  "crpc_find_frame_boundary rd =
     (if data_len rd < CRPC_REQUEST_HEADER_MIN_LEN then None
      else find (\<lambda>i. rd_data rd ! i = CRPC_HEADER_BEGIN_FLAG1 \<and> rd_data rd ! (i + 1) = CRPC_HEADER_BEGIN_FLAG2)
             [rd_current_pos rd..<data_len rd - 1])"

definition crpc_parse_frame ::
  "message_type_t \<Rightarrow> raw_data_s \<Rightarrow> (parse_state_t \<times> crpc_message_s frame_data_s option \<times> raw_data_s) well_defined" where
  "crpc_parse_frame msg_type rd = do {
     (state, crpc_msg, rd) \<leftarrow> do_crpc_parse_frame msg_type rd zero_crpc_message;
     if state \<noteq> STATE_SUCCESS then Some (state, None, rd)
     else Some (state, Some \<lparr>fd_msg_type = msg_type, fd_frame = crpc_msg, fd_timestamp_ns = cm_timestamp_ns crpc_msg\<rparr>, rd) }"

definition crpc_boundary :: "(unit, crpc_message_s) boundary_finder" where
  "crpc_boundary g msg_type rd = Some (crpc_find_frame_boundary rd)"

definition crpc_parse :: "(unit, crpc_message_s) frame_parser_fun" where
  "crpc_parse g msg_type rd = do {
     (state, frame_data, rd) \<leftarrow> crpc_parse_frame msg_type rd;
     Some (g, state, frame_data, rd) }"

definition crpc_parse_frames :: "message_type_t \<Rightarrow> crpc_message_s data_stream_s \<Rightarrow> crpc_message_s data_stream_s well_defined option" where
  "crpc_parse_frames msg_type ds = map_option (map_option snd) (data_stream_parse_frames crpc_boundary crpc_parse msg_type ((), ds))"

subsection \<open>Matcher\<close>

record crpc_record_s =
  cr_req_msg :: "crpc_message_s option"
  cr_resp_msg :: "crpc_message_s option"

definition crpc_matcher_add_record :: "crpc_record_s \<Rightarrow> crpc_record_s record_buf_s \<Rightarrow> crpc_record_s record_buf_s well_defined" where
  "crpc_matcher_add_record match_record record_buf = (case (cr_req_msg match_record, cr_resp_msg match_record) of
     (Some req, Some resp) \<Rightarrow>
       (if rcb_record_buf_size record_buf \<ge> RECORD_BUF_SIZE then Some record_buf
        else do {
          records \<leftarrow> store_record (rcb_records record_buf) (rcb_record_buf_size record_buf)
            \<lparr>rcd_record = match_record, rcd_latency = cm_timestamp_ns resp - cm_timestamp_ns req\<rparr>;
          Some (record_buf\<lparr>rcb_records := records, rcb_record_buf_size := rcb_record_buf_size record_buf + 1\<rparr>) })
   | _ \<Rightarrow> Some record_buf)"

text \<open>\<^verbatim>\<open>strncpy\<close> fills the destination and returns it; the destination is never a null pointer.\<close>

datatype char_pointer = Null | Destination

definition strncpy :: "bytes \<Rightarrow> nat \<Rightarrow> bytes \<times> char_pointer" where
  "strncpy src n = (let s = take n (c_str src) in (s @ replicate (n - length s) 0, Destination))"

text \<open>The inner loop, over the requests that are left.\<close>

fun crpc_find_request :: "nat list \<Rightarrow> crpc_message_s frame_buf_s \<Rightarrow> crpc_message_s \<Rightarrow>
  (crpc_message_s option \<times> crpc_message_s frame_buf_s) well_defined" where
  "crpc_find_request [] req_frames crpc_resp_msg = Some (None, req_frames)"
| "crpc_find_request (j # js) req_frames crpc_resp_msg = do {
     crpc_req_msg \<leftarrow> frame_at req_frames j;
     if cm_matched crpc_req_msg then crpc_find_request js req_frames crpc_resp_msg
     else
       let (request_id, res) = strncpy (cm_request_id crpc_resp_msg) CRPC_HEADER_REQUEST_ID_LEN;
           crpc_req_msg = crpc_req_msg\<lparr>cm_request_id := request_id\<rparr>
       in if res = Null \<and> cm_timestamp_ns crpc_req_msg < cm_timestamp_ns crpc_resp_msg
          then Some (Some (crpc_req_msg\<lparr>cm_matched := True\<rparr>), set_frame req_frames j (crpc_req_msg\<lparr>cm_matched := True\<rparr>))
          else crpc_find_request js (set_frame req_frames j crpc_req_msg) crpc_resp_msg }"

fun crpc_match_responses :: "nat list \<Rightarrow> crpc_message_s frame_buf_s \<Rightarrow> crpc_message_s frame_buf_s \<Rightarrow> crpc_record_s record_buf_s \<Rightarrow>
  (crpc_message_s frame_buf_s \<times> crpc_message_s frame_buf_s \<times> crpc_record_s record_buf_s) well_defined" where
  "crpc_match_responses [] req_frames resp_frames record_buf = Some (req_frames, resp_frames, record_buf)"
| "crpc_match_responses (i # is) req_frames resp_frames record_buf = do {
     crpc_resp_msg \<leftarrow> frame_at resp_frames i;
     (req_msg, req_frames) \<leftarrow> crpc_find_request [0..<frame_buf_size req_frames] req_frames crpc_resp_msg;
     record_buf \<leftarrow> crpc_matcher_add_record \<lparr>cr_req_msg = req_msg, cr_resp_msg = Some crpc_resp_msg\<rparr> record_buf;
     crpc_match_responses is req_frames (next_frame resp_frames) record_buf }"

fun crpc_last_matched :: "nat list \<Rightarrow> crpc_message_s frame_buf_s \<Rightarrow> crpc_message_s frame_buf_s well_defined" where
  "crpc_last_matched [] req_frames = Some req_frames"
| "crpc_last_matched (i # is) req_frames = do {
     crpc_req_msg \<leftarrow> frame_at req_frames i;
     crpc_last_matched is (if cm_matched crpc_req_msg then req_frames\<lparr>fb_current_pos := i\<rparr> else req_frames) }"

definition crpc_match_frames ::
  "crpc_message_s frame_buf_s \<Rightarrow> crpc_message_s frame_buf_s \<Rightarrow> crpc_record_s record_buf_s \<Rightarrow>
   (crpc_record_s record_buf_s \<times> crpc_message_s frame_buf_s \<times> crpc_message_s frame_buf_s) well_defined" where
  "crpc_match_frames req_frames resp_frames record_buf = do {
     (req_frames, resp_frames, record_buf) \<leftarrow>
       crpc_match_responses [0..<frame_buf_size resp_frames] req_frames resp_frames record_buf;
     req_frames \<leftarrow> crpc_last_matched [0..<frame_buf_size req_frames] req_frames;
     Some (record_buf\<lparr>rcb_req_count := fb_current_pos req_frames, rcb_resp_count := fb_current_pos resp_frames\<rparr>,
       req_frames, resp_frames) }"

subsection \<open>What the parser accepts\<close>

definition crpc_message_len :: "raw_data_s \<Rightarrow> u32" where
  "crpc_message_len rd = big_endian_bytes_to (take 4 (drop 2 (remaining rd))) + 6"

definition crpc_head_len :: "raw_data_s \<Rightarrow> u16" where
  "crpc_head_len rd = big_endian_bytes_to (take 2 (drop 6 (remaining rd))) + 8"

definition crpc_request_id :: "raw_data_s \<Rightarrow> bytes" where
  "crpc_request_id rd = take 16 (drop 12 (remaining rd))"

definition crpc_state :: "raw_data_s \<Rightarrow> parse_state_t" where
  "crpc_state rd = (if length (remaining rd) < 28 then STATE_NEEDS_MORE_DATA
     else crpc_validate_tech_header rd (crpc_head_len rd) (crpc_message_len rd))"

definition crpc_frame :: "message_type_t \<Rightarrow> raw_data_s \<Rightarrow> crpc_message_s frame_data_s" where
  "crpc_frame mt rd = \<lparr>fd_msg_type = mt, fd_frame = zero_crpc_message\<lparr>cm_request_id := crpc_request_id rd,
     cm_message_len := crpc_message_len rd, cm_head_len := crpc_head_len rd, cm_timestamp_ns := rd_timestamp_ns rd\<rparr>,
     fd_timestamp_ns = rd_timestamp_ns rd\<rparr>"

lemma crpc_parse_eq:
  assumes "raw_ok rd" "2 \<le> length (remaining rd)"
  shows "crpc_parse () mt rd = Some ((), crpc_state rd,
    if crpc_state rd = STATE_SUCCESS then (Some (crpc_frame mt rd), rd\<lparr>rd_current_pos := data_len rd\<rparr>) else (None, rd))"
proof -
  have flag: "rd\<lparr>rd_current_pos := rd_current_pos rd + CRPC_HEADER_BEGIN_FLAG_LEN\<rparr> = consumed rd 2"
    by (simp add: consumed_def crpc_consts)
  have ok: "raw_ok (consumed rd n)" if "n \<le> length (remaining rd)" for n using raw_ok_consumed [OF assms(1) that] .
  have undo: "consumed rd n\<lparr>rd_current_pos := rd_current_pos rd\<rparr> = rd" for n by (simp add: consumed_def)
  have all: "consumed rd n\<lparr>rd_current_pos := data_len rd\<rparr> = rd\<lparr>rd_current_pos := data_len rd\<rparr>" for n by (simp add: consumed_def)
  have short: "\<exists>m n. crpc_parse_tech_header rd zero_crpc_message = Some (STATE_NEEDS_MORE_DATA, m, consumed rd n)"
    if "length (remaining rd) < 28"
    unfolding crpc_parse_tech_header_def Let_def flag
    using assms(2) that by (auto simp: fixed_size_decoders ok take_bytes_def crpc_consts)
  have long: "crpc_parse_tech_header rd zero_crpc_message = Some (crpc_state rd, m, consumed rd 28)"
    if "28 \<le> length (remaining rd)" "m = zero_crpc_message\<lparr>cm_request_id := crpc_request_id rd,
     cm_message_len := if crpc_state rd = STATE_SUCCESS then crpc_message_len rd else 0,
     cm_head_len := if crpc_state rd = STATE_SUCCESS then crpc_head_len rd else 0\<rparr>" for m
  proof -
    have "crpc_validate_tech_header (consumed rd 28) (crpc_head_len rd) (crpc_message_len rd) = crpc_state rd"
      using that(1) by (simp add: crpc_state_def crpc_validate_tech_header_def)
    moreover have "16 \<le> length (remaining rd) - 12" "4 \<le> length (remaining rd) - 8" "2 \<le> length (remaining rd) - 6"
      "4 \<le> length (remaining rd) - 2" using that(1) by simp_all
    ultimately show ?thesis
      unfolding crpc_parse_tech_header_def Let_def flag that(2)
      using that(1) by (simp add: fixed_size_decoders ok take_bytes_def crpc_consts zero_crpc_message_def not_less
          flip: crpc_message_len_def crpc_head_len_def crpc_request_id_def)
  qed
  show ?thesis
  proof (cases "length (remaining rd) < 28")
    case True
    with short show ?thesis
      by (auto simp: crpc_parse_def crpc_parse_frame_def do_crpc_parse_frame_def crpc_state_def undo)
  next
    case False
    then show ?thesis using long [OF _ refl]
      by (auto simp: crpc_parse_def crpc_parse_frame_def do_crpc_parse_frame_def crpc_frame_def crpc_parse_response_code_def undo all)
  qed
qed

subsection \<open>The contract of the loop\<close>

lemma crpc_parse_last:
  assumes "raw_ok rd" "length (remaining rd) = 1"
  shows "crpc_parse g mt rd = None"
proof -
  let ?rd = "rd\<lparr>rd_current_pos := rd_current_pos rd + 2\<rparr>"
  have p: "data_len rd = rd_current_pos rd + 1" using assms by (simp add: length_remaining raw_ok_def)
  then have "bytes_at ?rd n = None" for n by (simp add: bytes_at_def data_len_def)
  moreover have "\<not> unconsumed_len ?rd < 4" using p by (simp add: unconsumed_len_def usize_sub_def data_len_def)
  ultimately have "(decoder_extract_int ?rd :: u32 decoded) = None" by (simp add: decoder_extract_int_def)
  then show ?thesis
    by (simp add: crpc_parse_def crpc_parse_frame_def do_crpc_parse_frame_def crpc_parse_tech_header_def crpc_consts)
qed

lemma crpc_parse_cases:
  assumes "crpc_parse g mt rd = Some (g', st, f, rd')" "raw_ok rd" "rd_current_pos rd < data_len rd"
  shows "st = crpc_state rd \<and> rd' = (if st = STATE_SUCCESS then consumed rd (length (remaining rd)) else rd)"
proof -
  have "length (remaining rd) \<noteq> 1" using assms(1) crpc_parse_last [OF assms(2)] by auto
  moreover have "length (remaining rd) \<noteq> 0" using assms(3) by (simp add: length_remaining)
  ultimately have "2 \<le> length (remaining rd)" by linarith
  moreover have "consumed rd (length (remaining rd)) = rd\<lparr>rd_current_pos := data_len rd\<rparr>"
    using assms(3) by (simp add: consumed_def length_remaining)
  ultimately show ?thesis using assms(1) crpc_parse_eq [OF assms(2), of mt] by (auto split: if_splits)
qed

interpretation crpc: frame_parser crpc_boundary crpc_parse
proof
  show "rd_current_pos rd \<le> p \<and> p < data_len rd"
    if "crpc_boundary g mt rd = Some (Some p)" for g :: unit and mt rd p
    using that by (auto simp: crpc_boundary_def crpc_find_frame_boundary_def find_Some_iff dest: nth_mem split: if_splits)
  show "reaches rd rd'" if "raw_ok rd" "rd_current_pos rd < data_len rd" "crpc_parse g mt rd = Some (g', st, f, rd')"
    for rd g g' mt st f rd' using crpc_parse_cases [OF that(3,1,2)] by (auto intro: reaches_consumed)
  show "rd' \<noteq> rd" if "raw_ok rd" "rd_current_pos rd < data_len rd" "crpc_parse g mt rd = Some (g', STATE_SUCCESS, f, rd')"
    for rd g g' mt f rd' using crpc_parse_cases [OF that(3,1,2)] that(2)
    by (auto simp: consumed_def length_remaining dest: arg_cong [of _ _ rd_current_pos])
qed

text \<open>A buffer at the beginning of a message.\<close>

definition crpc_starts :: "raw_data_s \<Rightarrow> bool" where
  "crpc_starts rd \<longleftrightarrow> raw_ok rd \<and> CRPC_REQUEST_HEADER_MIN_LEN \<le> data_len rd \<and> rd_current_pos rd = 0 \<and>
     (\<exists>rest. rd_data rd = CRPC_HEADER_BEGIN_FLAG1 # CRPC_HEADER_BEGIN_FLAG2 # rest)"

lemma crpc_starts_facts:
  assumes "crpc_starts rd"
  shows "crpc_boundary g mt rd = Some (Some (rd_current_pos rd))" "remaining rd = rd_data rd"
    "crpc_parse () mt rd = Some ((), crpc_state rd,
      if crpc_state rd = STATE_SUCCESS then (Some (crpc_frame mt rd), rd\<lparr>rd_current_pos := data_len rd\<rparr>) else (None, rd))"
    "103 \<le> length (rd_data rd)"
proof -
  have s: "raw_ok rd" "103 \<le> data_len rd" "rd_current_pos rd = 0"
    "\<exists>rest. rd_data rd = CRPC_HEADER_BEGIN_FLAG1 # CRPC_HEADER_BEGIN_FLAG2 # rest"
    using assms by (auto simp: crpc_starts_def crpc_consts)
  have "[0..<data_len rd - 1] = 0 # [1..<data_len rd - 1]" using s(2) by (simp add: upt_conv_Cons)
  then show "crpc_boundary g mt rd = Some (Some (rd_current_pos rd))"
    using s by (auto simp: crpc_boundary_def crpc_find_frame_boundary_def crpc_consts)
  show r: "remaining rd = rd_data rd" "103 \<le> length (rd_data rd)" using s by (simp_all add: remaining_def data_len_def)
  then show "crpc_parse () mt rd = Some ((), crpc_state rd,
      if crpc_state rd = STATE_SUCCESS then (Some (crpc_frame mt rd), rd\<lparr>rd_current_pos := data_len rd\<rparr>) else (None, rd))"
    using crpc_parse_eq [OF s(1)] s(2) by simp
qed

lemma crpc_next_to_repeat:
  assumes "stream_ok ds" "raws ds = a # rds" "crpc_starts a"
  shows "parse_goto crpc_boundary crpc_parse mt L_next ((), ds) = Goto L_rebound ((), ds)"
    "parse_goto crpc_boundary crpc_parse mt L_rebound ((), ds) = Goto L_repeat ((), set_top ds a)"
    "stream_ok (set_top ds a)" "raws (set_top ds a) = a # rds" "frames (set_top ds a) = frames ds"
proof -
  have "peek_raw_data (raw_bufs ds) = Some a" using assms(1,2) by (simp add: stream_ok_def peek_raw_data_list)
  then show "parse_goto crpc_boundary crpc_parse mt L_next ((), ds) = Goto L_rebound ((), ds)"
    "parse_goto crpc_boundary crpc_parse mt L_rebound ((), ds) = Goto L_repeat ((), set_top ds a)"
    using crpc_starts_facts(1) [OF assms(3)] by (simp_all add: parse_goto_def)
  show "stream_ok (set_top ds a)" "raws (set_top ds a) = a # rds" "frames (set_top ds a) = frames ds"
    using set_top_list [OF assms(1), of a] assms(2,3) by (simp_all add: crpc_starts_def)
qed

lemma crpc_loop_repeat:
  assumes "stream_ok ds" "raws ds = a # rds" "crpc_starts a"
  shows "parse_loop crpc_boundary crpc_parse mt L_next ((), ds)
    = parse_loop crpc_boundary crpc_parse mt L_repeat ((), set_top ds a)"
  using crpc_next_to_repeat(1,2) [OF assms]
  by (subst (1) parse_loop.simps, simp) (subst (1) parse_loop.simps, simp)

lemma crpc_marks [simp]:
  "crpc_starts (a\<lparr>rd_flags := x\<rparr>) = crpc_starts a" "crpc_starts (a\<lparr>rd_isBrokeData := y\<rparr>) = crpc_starts a"
  "crpc_state (a\<lparr>rd_flags := x\<rparr>) = crpc_state a" "crpc_state (a\<lparr>rd_isBrokeData := y\<rparr>) = crpc_state a"
  "raw_ok (a\<lparr>rd_flags := x\<rparr>) = raw_ok a" "raw_ok (a\<lparr>rd_isBrokeData := y\<rparr>) = raw_ok a"
  by (simp_all add: crpc_starts_def raw_ok_def data_len_def crpc_state_def remaining_def crpc_validate_tech_header_def
      crpc_head_len_def crpc_message_len_def)

lemma crpc_starts_ok: "crpc_starts a \<Longrightarrow> raw_ok a"
  by (simp add: crpc_starts_def)

subsection \<open>Properties\<close>

text \<open>The bytes of a message announce their own number.\<close>

definition crpc_message_bytes :: "bytes \<Rightarrow> bool" where
  "crpc_message_bytes d \<longleftrightarrow> (let rd = init_raw_data_with_str d in
     unat (crpc_message_len rd) = length d \<and> unat (crpc_head_len rd) < length d)"

lemma crpc_fields_prefix:
  assumes "remaining rd = take n d" "28 \<le> n" "28 \<le> length d"
  shows "crpc_message_len rd = crpc_message_len (init_raw_data_with_str d)"
    "crpc_head_len rd = crpc_head_len (init_raw_data_with_str d)"
    "crpc_request_id rd = crpc_request_id (init_raw_data_with_str d)"
  using assms
  by (simp_all add: crpc_message_len_def crpc_head_len_def crpc_request_id_def remaining_def init_raw_data_with_str_def
      drop_take)

lemma crpc_state_prefix:
  assumes "crpc_starts a" "rd_data a @ tail = d" "crpc_message_bytes d"
  shows "crpc_state a = (if tail = [] then STATE_SUCCESS else STATE_NEEDS_MORE_DATA)"
    "crpc_request_id a = take 16 (drop 12 d)"
proof -
  note s = crpc_starts_facts(2,4) [OF assms(1)]
  have d: "remaining a = take (length (rd_data a)) d" "length d = length (rd_data a) + length tail" using assms(2) s(1) by auto
  note f = crpc_fields_prefix [OF d(1)]
  show "crpc_state a = (if tail = [] then STATE_SUCCESS else STATE_NEEDS_MORE_DATA)"
    using f s d assms(3)
    by (auto simp: crpc_state_def crpc_validate_tech_header_def crpc_message_bytes_def data_len_def Let_def)
  have "crpc_request_id (init_raw_data_with_str d) = take 16 (drop 12 d)"
    by (simp add: crpc_request_id_def remaining_def init_raw_data_with_str_def)
  then show "crpc_request_id a = take 16 (drop 12 d)" using f(3) s d by simp
qed

lemma crpc_starts_joined: "crpc_starts a \<Longrightarrow> crpc_starts (joined a b)"
  by (auto simp: crpc_starts_def joined_def raw_ok_def data_len_def)

lemma crpc_success_step:
  assumes "stream_ok ds" "raws ds = [a]" "crpc_starts a" "crpc_state a = STATE_SUCCESS" "length (frames ds) < FRAME_BUF_SIZE"
  shows "\<exists>ds'. parse_loop crpc_boundary crpc_parse mt L_next ((), ds) = Some (Some ((), ds')) \<and> raws ds' = [] \<and>
    frames ds' = frames ds @ [crpc_frame mt a]"
proof -
  let ?da = "set_top ds a" and ?a = "a\<lparr>rd_current_pos := data_len a\<rparr>"
  note da = crpc_next_to_repeat(3-5) [OF assms(1-3)]
  have oka: "raw_ok ?a" by (simp add: raw_ok_def data_len_def)
  note st = set_top_list [OF da(1), of ?a]
  obtain b ds2 where pf: "push_frame_data (set_top ?da ?a) (crpc_frame mt a) = (b, ds2)"
    by (cases "push_frame_data (set_top ?da ?a) (crpc_frame mt a)")
  have "frame_buf_ok (frame_bufs (set_top ?da ?a))" using st da oka by (simp add: stream_ok_def)
  note pl = push_frame_list [OF this pf]
  then have "b" using assms(2,5) st(2) da(2) set_top_list(2) [OF assms(1), of a] by (simp add: frame_list_def)
  then have ds2: "stream_ok ds2" "raws ds2 = [?a]" "frames ds2 = frames ds @ [crpc_frame mt a]"
    using pl st da oka by (auto simp: stream_ok_def)
  have "peek_raw_data (raw_bufs ?da) = Some a" using da by (simp add: stream_ok_def peek_raw_data_list)
  then have rep: "parse_goto crpc_boundary crpc_parse mt L_repeat ((), ?da) = Goto L_next ((), pop_top ds2)"
    using \<open>b\<close> pf crpc_starts_facts(3) [OF assms(3), of mt] assms(4)
    by (simp add: parse_goto_def do_parse_frames_def parse_state_switch_def repeat_jump_def data_len_def)
  have e: "raws (pop_top ds2) = []" "stream_ok (pop_top ds2)" using pop_top_list [OF ds2(1)] ds2(2) by simp_all
  then have "peek_raw_data (raw_bufs (pop_top ds2)) = None" by (simp add: stream_ok_def peek_raw_data_list)
  then have end_step: "parse_goto crpc_boundary crpc_parse mt L_next ((), pop_top ds2) = Return ((), pop_top ds2)"
    by (simp add: parse_goto_def)
  have "parse_loop crpc_boundary crpc_parse mt L_next ((), ds) = Some (Some ((), pop_top ds2))"
    unfolding crpc_loop_repeat [OF assms(1-3)]
    by (subst (1) parse_loop.simps, simp add: rep) (subst parse_loop.simps, simp add: end_step)
  then show ?thesis using e pop_top_list(2) [OF ds2(1)] ds2(3) by auto
qed

lemma crpc_reassembles:
  assumes "stream_ok ds" "raws ds = a # bs" "increasing (raws ds)" "crpc_starts a" "\<forall>b \<in> set bs. rd_data b \<noteq> []"
    "concat (map rd_data (a # bs)) = d" "crpc_message_bytes d" "length (frames ds) < FRAME_BUF_SIZE"
  shows "\<exists>ds' f. parse_loop crpc_boundary crpc_parse mt L_next ((), ds) = Some (Some ((), ds')) \<and> raws ds' = [] \<and>
    frames ds' = frames ds @ [f] \<and> fd_timestamp_ns f = rd_timestamp_ns a \<and> cm_request_id (fd_frame f) = take 16 (drop 12 d)"
  using assms
proof (induction bs arbitrary: a ds)
  case Nil
  note st = crpc_state_prefix [of a "[]" d]
  from Nil show ?case using crpc_success_step [OF Nil.prems(1,2,4), of mt] st by (auto simp: crpc_frame_def)
next
  case (Cons b bs)
  let ?da = "set_top ds a"
  note da = crpc_next_to_repeat(3-5) [OF Cons.prems(1,2,4)]
  have "crpc_state a = STATE_NEEDS_MORE_DATA"
    using crpc_state_prefix(1) [OF Cons.prems(4), of "concat (map rd_data (b # bs))" d] Cons.prems(5-7) by auto
  then have p: "crpc_parse () mt a = Some ((), STATE_NEEDS_MORE_DATA, None, a)"
    using crpc_starts_facts(3) [OF Cons.prems(4)] by simp
  have lt: "rd_index a < rd_index b" and ok: "raw_ok a" using Cons.prems(2-4) by (simp_all add: increasing_def crpc_starts_def)
  from more_data_step [OF da(1,2), of crpc_parse, OF p ok, of crpc_boundary] da(3) obtain j where
    rep: "parse_goto crpc_boundary crpc_parse mt L_repeat ((), ?da) = Goto L_next ((), j)"
    and j: "stream_ok j" "raws j = joined a b # bs" "frames j = frames ds" by (auto simp: overlay_ordered [OF lt])
  have "parse_loop crpc_boundary crpc_parse mt L_next ((), ds) = parse_loop crpc_boundary crpc_parse mt L_next ((), j)"
    unfolding crpc_loop_repeat [OF Cons.prems(1,2,4)] using rep by (subst (1) parse_loop.simps) simp
  moreover have "increasing (raws j)" using Cons.prems(2,3) j(2) increasing_joined by simp
  moreover have "concat (map rd_data (joined a b # bs)) = d" "rd_timestamp_ns (joined a b) = rd_timestamp_ns a"
    using Cons.prems(6) by (simp_all add: joined_def)
  ultimately show ?case
    using Cons.IH [OF j(1,2) _ crpc_starts_joined [OF Cons.prems(4), of b]] Cons.prems(5,7,8) j(3) by simp
qed

text \<open>
  C10: A CRPC message that arrives in several buffers, in the order of their indices, the first of
  them with the begin flags and the minimal header, is reassembled: the loop returns, leaves no
  buffer, and adds exactly one frame, with the request id of the message and the time of the
  first buffer.
\<close>

theorem crpc_split_message:
  assumes "stream_ok ds" "raws ds = a # bs" "increasing (raws ds)" "crpc_starts a" "\<forall>b \<in> set bs. rd_data b \<noteq> []"
    "crpc_message_bytes (concat (map rd_data (a # bs)))" "length (frames ds) < FRAME_BUF_SIZE"
  shows "\<exists>ds' f. crpc_parse_frames mt ds = Some (Some ds') \<and> raws ds' = [] \<and> frames ds' = frames ds @ [f] \<and>
    fd_timestamp_ns f = rd_timestamp_ns a \<and> cm_request_id (fd_frame f) = take 16 (drop 12 (concat (map rd_data (a # bs))))"
  using crpc_reassembles [OF assms(1-5) refl assms(6,7), of mt]
  by (auto simp: crpc_parse_frames_def data_stream_parse_frames_def)

definition crpc_sample :: "bytes" where
  "crpc_sample = [CRPC_HEADER_BEGIN_FLAG1, CRPC_HEADER_BEGIN_FLAG2, 0, 0, 0, 114, 0, 20, 0, 0, 0, 0] @ replicate 16 65 @ replicate 92 0"

lemma crpc_sample_ok: "crpc_message_bytes crpc_sample" "length crpc_sample = 120"
  by code_simp+

lemma crpc_sample_starts: "103 \<le> n \<Longrightarrow> crpc_starts (buffer_of (take n crpc_sample) t i)"
  using crpc_sample_ok(2)
  by (cases n; cases "n - 1") (auto simp: crpc_starts_def buffer_of_def raw_ok_def data_len_def crpc_consts crpc_sample_def)

theorem crpc_split_message_witness:
  "\<exists>ds' f. crpc_parse_frames MESSAGE_REQUEST (stream_of (take 110 crpc_sample) (drop 110 crpc_sample)) = Some (Some ds') \<and>
    raws ds' = [] \<and> frames ds' = [f] \<and> fd_timestamp_ns f = 1 \<and> cm_request_id (fd_frame f) = replicate 16 65"
proof -
  have "take 16 (drop 12 crpc_sample) = replicate 16 65" by (simp add: crpc_sample_def)
  moreover have "increasing [buffer_of (take 110 crpc_sample) 1 1, buffer_of (drop 110 crpc_sample) 2 2]"
    by (simp add: increasing_def)
  ultimately show ?thesis
    using crpc_split_message [OF stream_of_two(1,2) _ crpc_sample_starts [of 110], of "drop 110 crpc_sample" MESSAGE_REQUEST]
      crpc_sample_ok
    by (simp add: FRAME_BUF_SIZE_def stream_of_two)
qed


text \<open>
  C18: When the indices of the buffers of a CRPC stream increase, the loop always returns, and a
  stream that is left after it is well-formed and has only got more frames.
\<close>

theorem crpc_parse_frames_returns:
  assumes "stream_ok ds" "increasing (raws ds)"
  shows "\<exists>r. crpc_parse_frames mt ds = Some r \<and>
    (\<forall>ds'. r = Some ds' \<longrightarrow> stream_ok ds' \<and> (\<exists>fs. frames ds' = frames ds @ fs))"
  using crpc.loop_returns [OF assms(1) _ disjI2 [OF assms(2)], of L_next mt "()"]
  by (fastforce simp: crpc_parse_frames_def data_stream_parse_frames_def label_ok_def)

theorem crpc_parse_frames_returns_witness:
  "\<exists>r. crpc_parse_frames MESSAGE_RESPONSE (stream_of [1] [2]) = Some r \<and> (\<forall>ds'. r = Some ds' \<longrightarrow> stream_ok ds')"
proof -
  have "increasing (raws (stream_of [1] [2] :: crpc_message_s data_stream_s))" by (simp add: stream_of_two increasing_def)
  from crpc_parse_frames_returns [OF stream_of_two(1) this] show ?thesis by blast
qed

text \<open>
  C25: The loop never returns when the first buffer of a CRPC stream is a later chunk of a system
  call (its index is positive), it starts with the CRPC flags and holds at least the 103 bytes
  of a header and no complete message, and the second buffer does not have a greater index: joining reports success
  without joining, and the loop starts again with the same buffers.  The buffer of index 0 that the next system
  call starts with is such a second buffer.  The index of joined buffers is that of the last, so a
  first buffer of positive index is also what the chunks 0 and 1 of one call become.  When the first
  buffer has index 0 the buffers are joined instead, whatever the index of the second.
\<close>

theorem crpc_parse_frames_diverges:
  assumes "stream_ok ds" "raws ds = a # b # rds" "crpc_starts a" "crpc_state a = STATE_NEEDS_MORE_DATA"
    "rd_index b \<le> rd_index a" "0 < rd_index a"
  shows "crpc_parse_frames mt ds = None"
proof -
  define I :: "goto_label \<Rightarrow> unit \<times> crpc_message_s data_stream_s \<Rightarrow> bool"
    where "I l s \<longleftrightarrow> stream_ok (snd s) \<and> (\<exists>x. raws (snd s) = a\<lparr>rd_isBrokeData := x\<rparr> # b # rds)" for l s
  have "\<exists>l' s'. parse_goto crpc_boundary crpc_parse mt l s = Goto l' s' \<and> I l' s'" if i: "I l s" for l s
  proof -
    obtain ds x where s: "s = ((), ds)" "stream_ok ds" "raws ds = a\<lparr>rd_isBrokeData := x\<rparr> # b # rds"
      using i by (cases s) (auto simp: I_def)
    let ?a = "a\<lparr>rd_isBrokeData := x\<rparr>"
    have a: "crpc_starts ?a" "crpc_state ?a = crpc_state a" "raw_ok ?a" using crpc_starts_ok [OF assms(3)] assms(3) by simp_all
    note nr = crpc_next_to_repeat [OF s(2,3) a(1)]
    have p: "crpc_parse () mt ?a = Some ((), STATE_NEEDS_MORE_DATA, None, ?a)"
      using crpc_starts_facts(3) [OF a(1)] a(2) assms(4) by simp
    from more_data_step [OF s(2,3), of crpc_parse, OF p a(3), of crpc_boundary] obtain j where
      j: "parse_goto crpc_boundary crpc_parse mt L_repeat ((), ds) = Goto L_next ((), j)" "stream_ok j"
        "raws j = snd (overlay_list (?a # b # rds))" by blast
    have "\<exists>x. snd (overlay_list (?a # b # rds)) = a\<lparr>rd_isBrokeData := x\<rparr> # b # rds"
      using assms(5,6) by (auto simp: overlay_list_def)
    then show ?thesis using s(1) s(2,3) nr j by (cases l) (auto simp: I_def)
  qed
  moreover have "a = a\<lparr>rd_isBrokeData := rd_isBrokeData a\<rparr>" by simp
  then have "I L_next ((), ds)" using assms(1,2) unfolding I_def snd_conv by metis
  ultimately have "parse_loop crpc_boundary crpc_parse mt L_next ((), ds) = None" by (rule loop_diverges)
  then show ?thesis by (simp add: crpc_parse_frames_def data_stream_parse_frames_def)
qed

definition unordered_stream :: "crpc_message_s data_stream_s" where
  "unordered_stream = snd (data_stream_add_raw_data
     (snd (data_stream_add_raw_data init_data_stream (take 110 crpc_sample) 1 1)) (drop 110 crpc_sample) 2 0)"

theorem crpc_parse_frames_diverges_witness: "crpc_parse_frames MESSAGE_REQUEST unordered_stream = None"
proof (rule crpc_parse_frames_diverges)
  show "stream_ok unordered_stream"
    "raws unordered_stream = buffer_of (take 110 crpc_sample) 1 1 # buffer_of (drop 110 crpc_sample) 2 0 # []"
    by (simp_all add: unordered_stream_def add_buffer init_data_stream_ok RAW_BUF_SIZE_def)
  show st: "crpc_starts (buffer_of (take 110 crpc_sample) 1 1)" by (rule crpc_sample_starts) simp
  show "crpc_state (buffer_of (take 110 crpc_sample) 1 1) = STATE_NEEDS_MORE_DATA"
    using crpc_state_prefix(1) [OF st, of "drop 110 crpc_sample" crpc_sample] crpc_sample_ok by simp
qed simp_all

lemma crpc_invalid_step:
  assumes "stream_ok ds" "raws ds = [a]" "crpc_starts a" "crpc_state a = STATE_INVALID"
  shows "parse_goto crpc_boundary crpc_parse mt L_repeat ((), ds) =
    (if rd_flags a AND RAW_DATA_FLAGS_INVALID \<noteq> 0 then Goto L_next ((), pop_top (set_top ds a))
     else Goto L_rebound ((), set_top (set_top ds a) (a\<lparr>rd_flags := rd_flags a OR RAW_DATA_FLAGS_INVALID\<rparr>)))"
proof -
  have "peek_raw_data (raw_bufs ds) = Some a" using assms(1,2) by (simp add: stream_ok_def peek_raw_data_list)
  then show ?thesis using crpc_starts_facts(3) [OF assms(3), of mt] assms(4)
    by (simp add: parse_goto_def do_parse_frames_def parse_state_switch_def repeat_jump_def)
qed

lemma crpc_flagged_lost:
  assumes "stream_ok ds" "raws ds = [a]" "crpc_starts a" "crpc_state a = STATE_INVALID" "rd_flags a AND RAW_DATA_FLAGS_INVALID \<noteq> 0"
  shows "\<exists>ds'. parse_loop crpc_boundary crpc_parse mt L_rebound ((), ds) = Some (Some ((), ds')) \<and> raws ds' = [] \<and> frames ds' = frames ds"
proof -
  note nr = crpc_next_to_repeat [OF assms(1-3)]
  note st = set_top_list [OF nr(3), of a]
  let ?p = "pop_top (set_top (set_top ds a) a)"
  have ok: "stream_ok (set_top (set_top ds a) a)" using st(3) nr(4) assms(3) by (simp add: crpc_starts_def)
  note pt = pop_top_list [OF this]
  have e: "raws ?p = []" "frames ?p = frames ds" using pt st nr by simp_all
  have "peek_raw_data (raw_bufs ?p) = None" using e(1) pt(3) by (simp add: stream_ok_def peek_raw_data_list)
  then have end_step: "parse_goto crpc_boundary crpc_parse mt L_next ((), ?p) = Return ((), ?p)"
    by (simp add: parse_goto_def)
  have "parse_loop crpc_boundary crpc_parse mt L_rebound ((), ds) = Some (Some ((), ?p))"
    using nr(2) crpc_invalid_step [OF nr(3,4) assms(3,4), of mt] assms(5) end_step
    by (subst parse_loop.simps, simp, subst parse_loop.simps, simp, subst parse_loop.simps, simp)
  then show ?thesis using e by blast
qed

lemma crpc_invalid_lost:
  assumes "stream_ok ds" "raws ds = [a]" "crpc_starts a" "crpc_state a = STATE_INVALID"
  shows "\<exists>ds'. parse_loop crpc_boundary crpc_parse mt L_next ((), ds) = Some (Some ((), ds')) \<and> raws ds' = [] \<and> frames ds' = frames ds"
proof -
  note nr = crpc_next_to_repeat [OF assms(1-3)]
  have n: "parse_loop crpc_boundary crpc_parse mt L_next ((), ds) = parse_loop crpc_boundary crpc_parse mt L_rebound ((), ds)"
    using nr(1) by (subst parse_loop.simps) simp
  show ?thesis
  proof (cases "rd_flags a AND RAW_DATA_FLAGS_INVALID = 0")
    case False
    then show ?thesis using crpc_flagged_lost [OF assms, of mt] n by simp
  next
    case True
    let ?b = "a\<lparr>rd_flags := rd_flags a OR RAW_DATA_FLAGS_INVALID\<rparr>"
    let ?ds = "set_top (set_top (set_top ds a) a) ?b"
    have b: "crpc_starts ?b" "crpc_state ?b = STATE_INVALID" "raw_ok ?b" using crpc_starts_ok [OF assms(3)] assms(3,4) by simp_all
    have "rd_flags ?b AND RAW_DATA_FLAGS_INVALID = 1"
      by (rule bit_word_eqI) (auto simp: RAW_DATA_FLAGS_INVALID_def bit_simps)
    then have fl: "rd_flags ?b AND RAW_DATA_FLAGS_INVALID \<noteq> 0" by simp
    have ok: "stream_ok (set_top (set_top ds a) a)" "raws (set_top (set_top ds a) a) = [a]" "frames (set_top (set_top ds a) a) = frames ds"
      using set_top_list [OF nr(3), of a] nr(4,5) assms(3) by (simp_all add: crpc_starts_def)
    have ds: "stream_ok ?ds" "raws ?ds = [?b]" "frames ?ds = frames ds"
      using set_top_list [OF ok(1), of ?b] ok b(3) by simp_all
    have "parse_loop crpc_boundary crpc_parse mt L_rebound ((), ds) = parse_loop crpc_boundary crpc_parse mt L_rebound ((), ?ds)"
      using nr(2) crpc_invalid_step [OF nr(3,4) assms(3,4), of mt] True
      by (subst (1) parse_loop.simps, simp, subst (1) parse_loop.simps, simp)
    then show ?thesis using crpc_flagged_lost [OF ds(1,2) b(1,2) fl, of mt] n ds(3) by simp
  qed
qed

text \<open>
  A buffer that holds a whole CRPC message and further bytes behind it is dropped without a
  frame: the length of the message is compared with the length of the whole buffer, and the
  second attempt to parse it gives the buffer up.
\<close>

theorem crpc_pipelined_lost:
  assumes "stream_ok ds" "raws ds = [a]" "crpc_starts a" "unat (crpc_message_len a) < data_len a"
  shows "\<exists>ds'. crpc_parse_frames mt ds = Some (Some ds') \<and> raws ds' = [] \<and> frames ds' = frames ds"
proof -
  have "crpc_state a = STATE_INVALID"
    using crpc_starts_facts(2,4) [OF assms(3)] assms(4) by (simp add: crpc_state_def crpc_validate_tech_header_def)
  from crpc_invalid_lost [OF assms(1-3) this, of mt] show ?thesis
    by (auto simp: crpc_parse_frames_def data_stream_parse_frames_def)
qed

definition pipelined_stream :: "crpc_message_s data_stream_s" where
  "pipelined_stream = snd (data_stream_add_raw_data init_data_stream (crpc_sample @ crpc_sample) 1 1)"

theorem crpc_pipelined_lost_witness:
  "\<exists>ds'. crpc_parse_frames MESSAGE_REQUEST pipelined_stream = Some (Some ds') \<and> raws ds' = [] \<and> frames ds' = []"
proof -
  have s: "stream_ok pipelined_stream" "raws pipelined_stream = [buffer_of (crpc_sample @ crpc_sample) 1 1]" "frames pipelined_stream = []"
    by (simp_all add: pipelined_stream_def add_buffer init_data_stream_ok RAW_BUF_SIZE_def)
  moreover have "crpc_starts (buffer_of (crpc_sample @ crpc_sample) 1 1)"
    by (auto simp: crpc_starts_def buffer_of_def raw_ok_def data_len_def crpc_consts crpc_sample_def)
  moreover have "unat (crpc_message_len (buffer_of (crpc_sample @ crpc_sample) 1 1)) < data_len (buffer_of (crpc_sample @ crpc_sample) 1 1)"
    by code_simp
  ultimately show ?thesis using crpc_pipelined_lost by fastforce
qed


lemma frame_at_ok: "frame_buf_ok fb \<Longrightarrow> i < frame_buf_size fb \<Longrightarrow> frame_at fb i = Some (fd_frame (frame_list fb ! i))"
  using frame_list_nth [of fb i] by (simp add: frame_at_def frame_buf_ok_def)

lemma set_frame_list:
  assumes "frame_buf_ok fb" "i < frame_buf_size fb"
  shows "frame_buf_ok (set_frame fb i m)" "frame_buf_size (set_frame fb i m) = frame_buf_size fb"
    "fb_current_pos (set_frame fb i m) = fb_current_pos fb"
    "frame_list (set_frame fb i m) = (frame_list fb)[i := (frame_list fb ! i)\<lparr>fd_frame := m\<rparr>]"
  using assms frame_list_nth [OF assms]
  by (auto simp: set_frame_def frame_buf_ok_def slots_full_def frame_list_def slots_list_def intro!: nth_equalityI
      simp: nth_list_update)

text \<open>The requests that are not matched yet, and what the matcher leaves of a buffer of them.\<close>

definition unmatched :: "crpc_message_s frame_buf_s \<Rightarrow> bool" where
  "unmatched fb \<longleftrightarrow> frame_buf_ok fb \<and> (\<forall>f \<in> set (frame_list fb). \<not> cm_matched (fd_frame f))"

lemma find_request_none:
  assumes "unmatched fb" "\<forall>j \<in> set js. j < frame_buf_size fb"
  shows "\<exists>fb'. crpc_find_request js fb resp = Some (None, fb') \<and> unmatched fb' \<and> frame_buf_size fb' = frame_buf_size fb \<and>
    fb_current_pos fb' = fb_current_pos fb"
  using assms
proof (induction js arbitrary: fb)
  case (Cons j js)
  have ok: "frame_buf_ok fb" "j < frame_buf_size fb" using Cons.prems by (auto simp: unmatched_def)
  let ?m = "fd_frame (frame_list fb ! j)"
  let ?id = "fst (strncpy (cm_request_id resp) CRPC_HEADER_REQUEST_ID_LEN)"
  let ?fb = "set_frame fb j (?m\<lparr>cm_request_id := ?id\<rparr>)"
  have m: "\<not> cm_matched ?m" using Cons.prems ok by (auto simp: unmatched_def frame_list_def)
  note sf = set_frame_list [OF ok, of "?m\<lparr>cm_request_id := ?id\<rparr>"]
  have "unmatched ?fb" using sf Cons.prems(1) m by (auto simp: unmatched_def dest!: set_update_subset_insert [THEN subsetD])
  from Cons.IH [OF this] Cons.prems(2) sf frame_at_ok [OF ok] m show ?case
    by (auto simp: strncpy_def Let_def)
qed simp

lemma match_responses_none:
  assumes "unmatched qf" "frame_buf_ok pf" "\<forall>i \<in> set is. i < frame_buf_size pf" "fb_current_pos pf + length is \<le> frame_buf_size pf"
  shows "\<exists>qf'. crpc_match_responses is qf pf rb = Some (qf', pf\<lparr>fb_current_pos := fb_current_pos pf + length is\<rparr>, rb) \<and>
    unmatched qf' \<and> frame_buf_size qf' = frame_buf_size qf \<and> fb_current_pos qf' = fb_current_pos qf"
  using assms
proof (induction "is" arbitrary: qf pf)
  case (Cons i "is")
  obtain qf' where q: "crpc_find_request [0..<frame_buf_size qf] qf (fd_frame (frame_list pf ! i)) = Some (None, qf')" "unmatched qf'"
    "frame_buf_size qf' = frame_buf_size qf" "fb_current_pos qf' = fb_current_pos qf"
    using find_request_none [OF Cons.prems(1), of "[0..<frame_buf_size qf]"] by auto
  have "frame_buf_ok (next_frame pf)" using Cons.prems(2,4) frame_buf_ok_next [of pf] by (simp add: next_frame_def)
  with Cons.IH [OF q(2) this] Cons.prems(3,4) q frame_at_ok [OF Cons.prems(2), of i] show ?case
    by (auto simp: crpc_matcher_add_record_def next_frame_def)
qed (auto simp: unmatched_def)

lemma last_matched_none:
  assumes "unmatched fb" "\<forall>i \<in> set is. i < frame_buf_size fb"
  shows "crpc_last_matched is fb = Some fb"
  using assms
proof (induction "is")
  case (Cons i "is")
  moreover have "\<not> cm_matched (fd_frame (frame_list fb ! i))" using Cons.prems by (auto simp: unmatched_def frame_list_def)
  ultimately show ?case using frame_at_ok [of fb i] by (simp add: unmatched_def)
qed simp

text \<open>
  C36: The CRPC matcher never matches anything: whatever the request ids are, it makes no record,
  takes all responses, and takes no request.  The ids are compared with a function that copies
  strings and returns a pointer.
\<close>

theorem crpc_never_matches:
  assumes "unmatched qf" "frame_buf_ok pf" "fb_current_pos pf = 0"
  shows "\<exists>qf'. crpc_match_frames qf pf rb =
      Some (rb\<lparr>rcb_req_count := fb_current_pos qf, rcb_resp_count := frame_buf_size pf\<rparr>, qf', all_taken pf) \<and>
    unmatched qf' \<and> frame_buf_size qf' = frame_buf_size qf \<and> fb_current_pos qf' = fb_current_pos qf"
proof -
  have l: "\<forall>i \<in> set [0..<frame_buf_size pf]. i < frame_buf_size pf" "fb_current_pos pf + length [0..<frame_buf_size pf] \<le> frame_buf_size pf"
    using assms(3) by simp_all
  from match_responses_none [OF assms(1,2) l, of rb] obtain qf' where
    q: "crpc_match_responses [0..<frame_buf_size pf] qf pf rb = Some (qf', all_taken pf, rb)" "unmatched qf'"
    "frame_buf_size qf' = frame_buf_size qf" "fb_current_pos qf' = fb_current_pos qf"
    using assms(3) by (auto simp: all_taken_def)
  moreover have "crpc_last_matched [0..<frame_buf_size qf'] qf' = Some qf'" by (rule last_matched_none [OF q(2)]) simp
  ultimately show ?thesis by (simp add: crpc_match_frames_def all_taken_def)
qed

theorem crpc_never_matches_witness:
  "\<exists>rb' qf' pf'. crpc_match_frames
      (frames_of cm_timestamp_ns [zero_crpc_message\<lparr>cm_request_id := replicate 16 65, cm_timestamp_ns := 1\<rparr>])
      (frames_of cm_timestamp_ns [zero_crpc_message\<lparr>cm_request_id := replicate 16 65, cm_timestamp_ns := 2\<rparr>]) empty_record_buf
      = Some (rb', qf', pf') \<and> record_list rb' = []"
proof -
  let ?q = "zero_crpc_message\<lparr>cm_request_id := replicate 16 65, cm_timestamp_ns := 1\<rparr>"
  have "unmatched (frames_of cm_timestamp_ns [?q])"
    by (simp add: unmatched_def frames_of_ok FRAME_BUF_SIZE_def)
      (simp add: frames_of_def frame_list_def slots_list_def zero_crpc_message_def)
  moreover let ?pf = "frames_of cm_timestamp_ns [zero_crpc_message\<lparr>cm_request_id := replicate 16 65, cm_timestamp_ns := 2\<rparr>]"
  have "frame_buf_ok ?pf" "fb_current_pos ?pf = 0" by (simp_all add: frames_of_ok FRAME_BUF_SIZE_def) (simp add: frames_of_def)
  ultimately obtain qf' where "crpc_match_frames (frames_of cm_timestamp_ns [?q]) ?pf empty_record_buf =
      Some (empty_record_buf\<lparr>rcb_req_count := fb_current_pos (frames_of cm_timestamp_ns [?q]),
        rcb_resp_count := frame_buf_size ?pf\<rparr>, qf', all_taken ?pf)"
    using crpc_never_matches by blast
  then show ?thesis by (simp add: record_list_def empty_record_buf_def)
qed

end
