(* ===== verification/Http_Matcher.thy ===== *)
theory Http_Matcher
  imports Record_Buf
begin

section \<open>HTTP matcher\<close>

text \<open>
  \<^verbatim>\<open>l7probe/protocol/http1.x/matcher/http_matcher.c\<close>: pairs requests and responses by time and
  counts them per API.  The member \<^verbatim>\<open>headers\<close> of a message is not used by the code and left
  out; a string that is not there is \<^const>\<open>None\<close>.
\<close>

record http_message =
  hm_type :: message_type_t
  hm_timestamp_ns :: u64
  hm_minor_version :: int
  hm_req_method :: "bytes option"
  hm_req_path :: "bytes option"
  hm_resp_status :: int
  hm_resp_message :: "bytes option"
  hm_body :: "bytes option"
  hm_body_len :: nat
  hm_body_size :: nat
  hm_headers_byte_size :: nat

definition init_http_msg :: http_message where
  "init_http_msg = \<lparr>hm_type = MESSAGE_UNKNOW, hm_timestamp_ns = 0, hm_minor_version = -1, hm_req_method = None,
     hm_req_path = None, hm_resp_status = -1, hm_resp_message = None, hm_body = None, hm_body_len = 0, hm_body_size = 0,
     hm_headers_byte_size = 0\<rparr>"

record http_record =
  hr_req :: "http_message option"
  hr_resp :: "http_message option"

subsection \<open>Statistics per API\<close>

text \<open>Passing a null pointer for \<^verbatim>\<open>%s\<close> is undefined.\<close>

definition http_api :: "http_message \<Rightarrow> bytes \<Rightarrow> bytes well_defined" where
  "http_api req req_path = do {
     method \<leftarrow> hm_req_method req;
     let path = snprintf_s MAX_API_LEN req_path;
     let path = takeWhile (\<lambda>c. c \<noteq> 63) path;
     Some (snprintf_s MAX_API_LEN (c_str method @ [32] @ path)) }"

definition count_http_api ::
  "http_record record_data_s \<Rightarrow> http_message \<Rightarrow> http_record api_stats \<Rightarrow> http_record api_stats well_defined" where
  "count_http_api record_data resp st = do {
     records \<leftarrow> store_record (as_records st) (as_record_buf_size st) record_data;
     let st = st\<lparr>as_records := records, as_record_buf_size := as_record_buf_size st + 1,
                 as_req_count := as_req_count st + 1, as_resp_count := as_resp_count st + 1\<rparr>;
     if hm_resp_status resp \<ge> 400
     then do {
       let st = (if hm_resp_status resp < 500 then st\<lparr>as_client_err_count := as_client_err_count st + 1\<rparr>
                 else st\<lparr>as_server_err_count := as_server_err_count st + 1\<rparr>);
       err_records \<leftarrow> store_record (as_err_records st) (as_err_count st) record_data;
       Some (st\<lparr>as_err_records := err_records, as_err_count := as_err_count st + 1\<rparr>) }
     else Some st }"

text \<open>The hash of the statistics: the entry of the API is found, or added at the end.\<close>

fun update_api_stats ::
  "bytes \<Rightarrow> ('r api_stats \<Rightarrow> 'r api_stats well_defined) \<Rightarrow> 'r api_stats list \<Rightarrow> 'r api_stats list well_defined" where
  "update_api_stats api f [] = do { st \<leftarrow> f (create_api_stats api); Some [st] }"
| "update_api_stats api f (st # sts) =
     (if as_id st = api then do { st \<leftarrow> f st; Some (st # sts) }
      else do { sts \<leftarrow> update_api_stats api f sts; Some (st # sts) })"

definition calc_l7_api_statistic ::
  "http_record record_buf_s \<Rightarrow> http_record record_data_s \<Rightarrow> http_message \<Rightarrow> http_message \<Rightarrow> http_record record_buf_s well_defined" where
  "calc_l7_api_statistic record_buf record_data req resp = (case hm_req_path req of
     None \<Rightarrow> Some record_buf
   | Some req_path \<Rightarrow> do {
       api \<leftarrow> http_api req req_path;
       sts \<leftarrow> update_api_stats api (count_http_api record_data resp) (rcb_api_stats record_buf);
       Some (record_buf\<lparr>rcb_api_stats := sts\<rparr>) })"

subsection \<open>Matching\<close>

definition add_http_record_into_buf :: "http_record \<Rightarrow> http_record record_buf_s \<Rightarrow> http_record record_buf_s well_defined" where
  "add_http_record_into_buf record record_buf =
     (if rcb_record_buf_size record_buf \<ge> RECORD_BUF_SIZE then Some record_buf
      else do {
        req \<leftarrow> hr_req record;
        resp \<leftarrow> hr_resp record;
        let record_data = \<lparr>rcd_record = record, rcd_latency = hm_timestamp_ns resp - hm_timestamp_ns req\<rparr>;
        let record_buf = (if hm_resp_status resp \<ge> 400
                          then record_buf\<lparr>rcb_err_count := rcb_err_count record_buf + 1\<rparr> else record_buf);
        records \<leftarrow> store_record (rcb_records record_buf) (rcb_record_buf_size record_buf) record_data;
        calc_l7_api_statistic (record_buf\<lparr>rcb_records := records, rcb_record_buf_size := rcb_record_buf_size record_buf + 1\<rparr>)
          record_data req resp })"

definition http_placeholder :: http_message where
  "http_placeholder = \<lparr>hm_type = MESSAGE_UNKNOW, hm_timestamp_ns = - 1, hm_minor_version = 0, hm_req_method = None,
     hm_req_path = None, hm_resp_status = 0, hm_resp_message = None, hm_body = None, hm_body_len = 0, hm_body_size = 0,
     hm_headers_byte_size = 0\<rparr>"

definition http_frame_or_placeholder :: "http_message frame_buf_s \<Rightarrow> http_message well_defined" where
  "http_frame_or_placeholder fb =
     (if fb_current_pos fb = frame_buf_size fb then Some http_placeholder else frame_at fb (fb_current_pos fb))"

text \<open>The loop; \<open>req\<close> is the request of the record that is built.\<close>

function http_match_loop ::
  "http_message option \<Rightarrow> http_message frame_buf_s \<Rightarrow> http_message frame_buf_s \<Rightarrow> http_record record_buf_s \<Rightarrow>
   (http_record record_buf_s \<times> http_message frame_buf_s \<times> http_message frame_buf_s) well_defined" where
  "http_match_loop req req_frames resp_frames record_buf =
     (if \<not> frames_left resp_frames then Some (record_buf, req_frames, resp_frames)
      else do {
        req_msg \<leftarrow> http_frame_or_placeholder req_frames;
        resp_msg \<leftarrow> http_frame_or_placeholder resp_frames;
        if hm_timestamp_ns req_msg < hm_timestamp_ns resp_msg
        then http_match_loop (Some req_msg) (next_frame req_frames) resp_frames record_buf
        else case req of
          None \<Rightarrow> Some (record_buf, req_frames, resp_frames)
        | Some r \<Rightarrow>
            (if hm_timestamp_ns r \<noteq> 0
             then do {
               record_buf \<leftarrow> add_http_record_into_buf \<lparr>hr_req = Some r, hr_resp = Some resp_msg\<rparr> record_buf;
               http_match_loop None req_frames (next_frame resp_frames) record_buf }
             else http_match_loop req req_frames (next_frame resp_frames) record_buf) })"
  by pat_completeness auto

lemma http_request_bound:
  assumes "http_frame_or_placeholder fb = Some m" "hm_timestamp_ns m < t"
  shows "fb_current_pos fb < FRAME_BUF_SIZE"
  using assms word_n1_ge [of t]
  by (auto simp: http_frame_or_placeholder_def http_placeholder_def frame_at_def not_less [symmetric] split: if_splits)

termination http_match_loop
  by (relation "measure (\<lambda>(_, q, p, _). (FRAME_BUF_SIZE - fb_current_pos q) + (frame_buf_size p - fb_current_pos p))")
    (auto simp: frames_left_def dest: http_request_bound)

declare http_match_loop.simps [simp del]

definition http_match_frames ::
  "http_message frame_buf_s \<Rightarrow> http_message frame_buf_s \<Rightarrow> http_record record_buf_s \<Rightarrow>
   (http_record record_buf_s \<times> http_message frame_buf_s \<times> http_message frame_buf_s) well_defined" where
  "http_match_frames req_frames resp_frames record_buf = do {
     (record_buf, req_frames, resp_frames) \<leftarrow> http_match_loop None req_frames resp_frames record_buf;
     Some (record_buf\<lparr>rcb_req_count := fb_current_pos req_frames, rcb_resp_count := fb_current_pos resp_frames\<rparr>,
       req_frames, resp_frames) }"

subsection \<open>Statistics stay within their arrays\<close>

definition api_stats_ok :: "'r api_stats \<Rightarrow> bool" where
  "api_stats_ok st \<longleftrightarrow> as_req_count st = as_record_buf_size st \<and> as_resp_count st = as_record_buf_size st \<and>
     as_err_count st = as_client_err_count st + as_server_err_count st \<and> as_err_count st \<le> as_record_buf_size st"

definition recorded :: "'r api_stats list \<Rightarrow> nat" where
  "recorded sts = (\<Sum>st\<leftarrow>sts. as_record_buf_size st)"

definition http_buf_ok :: "'r record_buf_s \<Rightarrow> bool" where
  "http_buf_ok rb \<longleftrightarrow> record_buf_ok rb \<and> list_all api_stats_ok (rcb_api_stats rb) \<and>
     recorded (rcb_api_stats rb) \<le> rcb_record_buf_size rb \<and> distinct (map as_id (rcb_api_stats rb))"

lemma count_http_api_ok:
  assumes "api_stats_ok st" "as_record_buf_size st < RECORD_BUF_SIZE"
  shows "\<exists>st'. count_http_api rd resp st = Some st' \<and> api_stats_ok st' \<and> as_id st' = as_id st \<and>
    as_record_buf_size st' = as_record_buf_size st + 1"
  using assms by (auto simp: count_http_api_def api_stats_ok_def store_record_def Let_def)

lemma update_api_stats_ok:
  assumes "list_all api_stats_ok sts" "recorded sts < RECORD_BUF_SIZE" "distinct (map as_id sts)" "snprintf_s MAX_API_LEN api = api"
  shows "\<exists>sts'. update_api_stats api (count_http_api rd resp) sts = Some sts' \<and> list_all api_stats_ok sts' \<and>
    recorded sts' = recorded sts + 1 \<and> distinct (map as_id sts') \<and> set (map as_id sts') = insert api (set (map as_id sts))"
  using assms(1-3)
proof (induction sts)
  case Nil
  let ?st = "create_api_stats api :: http_record api_stats"
  have "api_stats_ok ?st" "as_record_buf_size ?st = 0" "as_id ?st = api"
    using assms(4) by (simp_all add: create_api_stats_def api_stats_ok_def)
  with count_http_api_ok [of ?st rd resp] show ?case
    by (auto simp: RECORD_BUF_SIZE_def recorded_def)
next
  case (Cons st sts)
  have "as_record_buf_size st < RECORD_BUF_SIZE" using Cons.prems(2) by (simp add: recorded_def)
  with count_http_api_ok [of st rd resp] Cons.prems Cons.IH show ?case
    by (cases "as_id st = api") (auto simp: recorded_def)
qed

lemma http_api_format: "http_api req path = Some api \<Longrightarrow> snprintf_s MAX_API_LEN api = api"
proof -
  assume "http_api req path = Some api"
  then obtain s where "api = snprintf_s MAX_API_LEN s" by (auto simp: http_api_def split: bind_splits)
  moreover have "0 \<notin> set (snprintf_s MAX_API_LEN s)" using zero_notin_c_str by (auto simp: snprintf_s_def dest: in_set_takeD)
  ultimately show ?thesis by (simp add: snprintf_s_def c_str_no_zero)
qed

definition method_known :: "http_message \<Rightarrow> bool" where
  "method_known q \<longleftrightarrow> (hm_req_path q \<noteq> None \<longrightarrow> hm_req_method q \<noteq> None)"

definition http_record_data :: "http_message \<times> http_message \<Rightarrow> http_record record_data_s" where
  "http_record_data = (\<lambda>(q, p). \<lparr>rcd_record = \<lparr>hr_req = Some q, hr_resp = Some p\<rparr>,
     rcd_latency = hm_timestamp_ns p - hm_timestamp_ns q\<rparr>)"

lemma add_http_record_ok:
  assumes "http_buf_ok rb" "method_known q"
  shows "\<exists>rb'. add_http_record_into_buf \<lparr>hr_req = Some q, hr_resp = Some p\<rparr> rb = Some rb' \<and> http_buf_ok rb' \<and>
    record_list rb' = record_list rb @ (if rcb_record_buf_size rb < RECORD_BUF_SIZE then [http_record_data (q, p)] else [])"
proof (cases "rcb_record_buf_size rb < RECORD_BUF_SIZE")
  case True
  let ?rb = "(if hm_resp_status p \<ge> 400 then rb\<lparr>rcb_err_count := rcb_err_count rb + 1\<rparr> else rb)"
  let ?rb' = "?rb\<lparr>rcb_records := (rcb_records rb)(rcb_record_buf_size rb \<mapsto> http_record_data (q, p)),
    rcb_record_buf_size := rcb_record_buf_size rb + 1\<rparr>"
  have e: "add_http_record_into_buf \<lparr>hr_req = Some q, hr_resp = Some p\<rparr> rb =
      calc_l7_api_statistic ?rb' (http_record_data (q, p)) q p"
    using True by (auto simp: add_http_record_into_buf_def store_record_def http_record_data_def Let_def)
  have r: "record_buf_ok (?rb'\<lparr>rcb_api_stats := sts\<rparr>)" "record_list (?rb'\<lparr>rcb_api_stats := sts\<rparr>) = record_list rb @ [http_record_data (q, p)]"
    for sts
    using assms(1) True by (auto simp: http_buf_ok_def record_buf_ok_def record_list_def slots_full_push slots_list_push)
  have sts: "rcb_api_stats ?rb' = rcb_api_stats rb" by simp
  have "recorded (rcb_api_stats rb) < RECORD_BUF_SIZE" using assms(1) True by (simp add: http_buf_ok_def)
  note up = update_api_stats_ok [OF _ this, of _ "http_record_data (q, p)" p]
  show ?thesis
  proof (cases "hm_req_path q")
    case None
    have "?rb' = ?rb'\<lparr>rcb_api_stats := rcb_api_stats rb\<rparr>" by simp
    then show ?thesis using e None True sts r [of "rcb_api_stats rb"] assms(1)
      by (auto simp: calc_l7_api_statistic_def http_buf_ok_def)
  next
    case (Some path)
    then obtain api where api: "http_api q path = Some api" using assms(2) by (auto simp: method_known_def http_api_def)
    from up [OF _ _ http_api_format [OF api]] assms(1) obtain sts where
      "update_api_stats api (count_http_api (http_record_data (q, p)) p) (rcb_api_stats rb) = Some sts"
      "list_all api_stats_ok sts" "recorded sts = recorded (rcb_api_stats rb) + 1" "distinct (map as_id sts)"
      by (auto simp: http_buf_ok_def)
    then show ?thesis using e Some True sts r [of sts] assms(1) api
      by (auto simp: calc_l7_api_statistic_def http_buf_ok_def)
  qed
qed (use assms in \<open>simp add: add_http_record_into_buf_def\<close>)

subsection \<open>The records of the loop\<close>

text \<open>The loop on the messages that wait: the pairs it makes and what is left.\<close>

fun http_list :: "http_message list \<Rightarrow> http_message list \<Rightarrow> http_message option \<Rightarrow>
  (http_message \<times> http_message) list \<times> http_message list \<times> http_message list" where
  "http_list qs [] held = ([], qs, [])"
| "http_list [] (p # ps) None = ([], [], p # ps)"
| "http_list [] (p # ps) (Some q) = (let (r, rest) = http_list [] ps None in ((q, p) # r, rest))"
| "http_list (q # qs) (p # ps) held =
     (if hm_timestamp_ns q < hm_timestamp_ns p then http_list qs (p # ps) (Some q)
      else case held of None \<Rightarrow> ([], q # qs, p # ps)
      | Some h \<Rightarrow> (let (r, rest) = http_list (q # qs) ps None in ((h, p) # r, rest)))"

definition http_times_ok :: "http_message list \<Rightarrow> bool" where
  "http_times_ok ms \<longleftrightarrow> (\<forall>m \<in> set ms. 0 < hm_timestamp_ns m \<and> hm_timestamp_ns m < - 1)"

definition left_of :: "'f frame_buf_s \<Rightarrow> 'f list \<Rightarrow> 'f frame_buf_s" where
  "left_of fb ms = fb\<lparr>fb_current_pos := frame_buf_size fb - length ms\<rparr>"

lemma left_of_next [simp]: "left_of (next_frame fb) ms = left_of fb ms"
  by (simp add: left_of_def next_frame_def)

lemma left_of_waiting: "frame_buf_ok fb \<Longrightarrow> left_of fb (waiting fb) = fb"
  by (simp add: left_of_def frame_buf_ok_def)

lemma http_waiting:
  assumes "frame_buf_ok fb"
  shows "http_frame_or_placeholder fb = Some (case waiting fb of [] \<Rightarrow> http_placeholder | m # _ \<Rightarrow> m)"
    "frames_left fb \<longleftrightarrow> waiting fb \<noteq> []"
    "waiting fb \<noteq> [] \<Longrightarrow> waiting (next_frame fb) = tl (waiting fb)" "waiting fb \<noteq> [] \<Longrightarrow> frame_buf_ok (next_frame fb)"
proof -
  have le: "fb_current_pos fb \<le> frame_buf_size fb" "frame_buf_size fb \<le> FRAME_BUF_SIZE" using assms by (auto simp: frame_buf_ok_def)
  then show w: "frames_left fb \<longleftrightarrow> waiting fb \<noteq> []" by (auto simp: frames_left_def waiting_Nil)
  show "waiting fb \<noteq> [] \<Longrightarrow> waiting (next_frame fb) = tl (waiting fb)" "waiting fb \<noteq> [] \<Longrightarrow> frame_buf_ok (next_frame fb)"
    using waiting_Cons [OF assms] frame_buf_ok_next [OF assms] w by (auto simp: next_frame_def frames_left_def)
  show "http_frame_or_placeholder fb = Some (case waiting fb of [] \<Rightarrow> http_placeholder | m # _ \<Rightarrow> m)"
  proof (cases "waiting fb")
    case Nil
    then have "fb_current_pos fb = frame_buf_size fb" using le by (simp add: waiting_Nil)
    then show ?thesis using Nil by (simp add: http_frame_or_placeholder_def)
  next
    case (Cons m ms)
    then have lt: "fb_current_pos fb < frame_buf_size fb" using w by (simp add: frames_left_def)
    from waiting_Cons [OF assms lt] Cons obtain f where "fb_frames fb (fb_current_pos fb) = Some f" "m = fd_frame f" by auto
    then show ?thesis using lt le Cons by (simp add: http_frame_or_placeholder_def frame_at_def)
  qed
qed

fun add_http_pairs :: "http_record record_buf_s \<Rightarrow> (http_message \<times> http_message) list \<Rightarrow> http_record record_buf_s well_defined" where
  "add_http_pairs rb [] = Some rb"
| "add_http_pairs rb ((q, p) # rs) = do { rb \<leftarrow> add_http_record_into_buf \<lparr>hr_req = Some q, hr_resp = Some p\<rparr> rb; add_http_pairs rb rs }"

lemma http_match_refines:
  assumes "frame_buf_ok qf" "frame_buf_ok pf" "http_times_ok (waiting qf)" "http_times_ok (waiting pf)"
    "\<forall>q. held = Some q \<longrightarrow> 0 < hm_timestamp_ns q"
  shows "http_match_loop held qf pf rb = (case http_list (waiting qf) (waiting pf) held of (rs, qs, ps) \<Rightarrow> do {
    rb \<leftarrow> add_http_pairs rb rs; Some (rb, left_of qf qs, left_of pf ps) })"
  using assms
proof (induction "length (waiting qf) + length (waiting pf)" arbitrary: rb qf pf held rule: less_induct)
  case less
  note prems = less.prems
  note q = http_waiting [OF prems(1)] and p = http_waiting [OF prems(2)]
  have tl_ok: "http_times_ok ms \<Longrightarrow> http_times_ok (tl ms)" for ms by (cases ms) (auto simp: http_times_ok_def)
  have next_q: "http_match_loop h (next_frame qf) pf rb = (case http_list (tl (waiting qf)) (waiting pf) h of (rs, qs, ps) \<Rightarrow> do {
      rb \<leftarrow> add_http_pairs rb rs; Some (rb, left_of qf qs, left_of pf ps) })"
    if "waiting qf \<noteq> []" "\<forall>q. h = Some q \<longrightarrow> 0 < hm_timestamp_ns q" for rb h
    using less.hyps [of "next_frame qf" pf h rb] that q(3,4) prems by (simp add: tl_ok del: length_waiting)
  have next_p: "http_match_loop h qf (next_frame pf) rb = (case http_list (waiting qf) (tl (waiting pf)) h of (rs, qs, ps) \<Rightarrow> do {
      rb \<leftarrow> add_http_pairs rb rs; Some (rb, left_of qf qs, left_of pf ps) })"
    if "waiting pf \<noteq> []" "\<forall>q. h = Some q \<longrightarrow> 0 < hm_timestamp_ns q" for rb h
    using less.hyps [of qf "next_frame pf" h rb] that p(3,4) prems by (simp add: tl_ok del: length_waiting)
  have next_p0: "http_match_loop None qf (next_frame pf) = (\<lambda>rb. case http_list (waiting qf) (tl (waiting pf)) None of (rs, qs, ps) \<Rightarrow> do {
      rb \<leftarrow> add_http_pairs rb rs; Some (rb, left_of qf qs, left_of pf ps) })" if "waiting pf \<noteq> []"
    using next_p [OF that, of None] by (intro ext) simp
  have n1: "\<not> (- 1 :: u64) < t" for t using word_n1_ge [of t] by simp
  have nz: "held = Some m \<Longrightarrow> hm_timestamp_ns m \<noteq> 0" for m using prems(5) by auto
  have qt: "waiting qf = m # ms \<Longrightarrow> 0 < hm_timestamp_ns m" for m ms using prems(3) by (simp add: http_times_ok_def)
  have self: "waiting qf = qs \<Longrightarrow> left_of qf qs = qf" "waiting pf = ps \<Longrightarrow> left_of pf ps = pf" for qs ps
    using left_of_waiting prems(1,2) by blast+
  show ?case
  proof (cases "waiting pf")
    case Nil
    then show ?thesis using self p(2) by (subst http_match_loop.simps) simp
  next
    case (Cons m ms)
    show ?thesis
    proof (cases "\<exists>r rs. waiting qf = r # rs \<and> hm_timestamp_ns r < hm_timestamp_ns m")
      case True
      then obtain r rs where r: "waiting qf = r # rs" "hm_timestamp_ns r < hm_timestamp_ns m" by blast
      then have "http_match_loop held qf pf rb = http_match_loop (Some r) (next_frame qf) pf rb"
        using Cons by (subst http_match_loop.simps) (simp add: q(1) p(1,2))
      then show ?thesis using r Cons next_q [of "Some r" rb] qt by simp
    next
      case False
      then have "\<not> hm_timestamp_ns (case waiting qf of [] \<Rightarrow> http_placeholder | r # _ \<Rightarrow> r) < hm_timestamp_ns m"
        using n1 by (auto simp: http_placeholder_def split: list.split)
      then have step: "http_match_loop held qf pf rb = (case held of None \<Rightarrow> Some (rb, qf, pf)
          | Some h \<Rightarrow> add_http_record_into_buf \<lparr>hr_req = Some h, hr_resp = Some m\<rparr> rb \<bind> http_match_loop None qf (next_frame pf))"
        using Cons nz by (subst http_match_loop.simps) (simp add: q(1) p(1,2) split: option.split)
      have "http_list (waiting qf) (waiting pf) held = (case held of None \<Rightarrow> ([], waiting qf, waiting pf)
          | Some h \<Rightarrow> (let (r, rest) = http_list (waiting qf) ms None in ((h, m) # r, rest)))"
        using False Cons by (cases "waiting qf"; cases held) auto
      then show ?thesis using step next_p0 Cons self by (cases held) (simp_all split: prod.split)
    qed
  qed
qed

lemma http_list_left:
  assumes "http_list qs ps held = (rs, qs', ps')"
  shows "drop (length rs) ps = ps' \<and> length rs \<le> length ps \<and> length qs' \<le> length qs \<and> drop (length qs - length qs') qs = qs'"
  using assms
proof (induction qs ps held arbitrary: rs qs' ps' rule: http_list.induct)
  case (3 p ps q)
  then show ?case by (cases "http_list [] ps None") auto
next
  case (4 q qs p ps held)
  show ?case
  proof (cases "hm_timestamp_ns q < hm_timestamp_ns p")
    case True
    with 4 show ?thesis by (simp add: Suc_diff_le)
  next
    case False
    with 4 show ?thesis by (cases held; cases "http_list (q # qs) ps None") auto
  qed
qed auto

abbreviation http_order :: "http_message list \<Rightarrow> bool" where
  "http_order \<equiv> in_order hm_timestamp_ns"

text \<open>The time of the response before the response \<open>k\<close>.\<close>

definition previous :: "u64 \<Rightarrow> http_message list \<Rightarrow> nat \<Rightarrow> u64" where
  "previous t ps k = (if k = 0 then t else hm_timestamp_ns (ps ! (k - 1)))"

definition unanswerable :: "u64 \<Rightarrow> http_message list \<Rightarrow> http_message list \<Rightarrow> nat \<Rightarrow> bool" where
  "unanswerable t qs ps k \<longleftrightarrow>
     (\<forall>q \<in> set qs. \<not> (previous t ps k \<le> hm_timestamp_ns q \<and> hm_timestamp_ns q < hm_timestamp_ns (ps ! k)))"

lemma unanswerable_Suc: "unanswerable t qs (p # ps) (Suc k) \<longleftrightarrow> unanswerable (hm_timestamp_ns p) qs ps k"
  by (cases k) (simp_all add: unanswerable_def previous_def)

lemma unanswerable_skip:
  assumes "http_order ps" "k < length ps" "\<forall>p \<in> set ps. hm_timestamp_ns h < hm_timestamp_ns p" "hm_timestamp_ns h < t"
  shows "unanswerable t (h # qs) ps k \<longleftrightarrow> unanswerable t qs ps k"
proof -
  have "hm_timestamp_ns h < previous t ps k" using assms by (auto simp: previous_def)
  then show ?thesis by (auto simp: unanswerable_def)
qed

lemma in_order_take: "in_order time xs \<Longrightarrow> in_order time (take n xs)"
  by (simp add: in_order_def sorted_wrt_take)

definition http_outcome :: "u64 \<Rightarrow> http_message list \<Rightarrow> http_message list \<Rightarrow> (http_message \<times> http_message) list \<Rightarrow> bool" where
  "http_outcome t qs ps rs \<longleftrightarrow> rs = answered hm_timestamp_ns t qs (take (length rs) ps) \<and>
     (length rs < length ps \<longrightarrow> unanswerable t qs ps (length rs))"

lemma http_after_step:
  assumes "http_outcome (hm_timestamp_ns p) qs ps r" "\<forall>q \<in> set qs. hm_timestamp_ns p \<le> hm_timestamp_ns q"
    "http_order (p # ps)" "t \<le> hm_timestamp_ns h" "hm_timestamp_ns h < hm_timestamp_ns p"
  shows "http_outcome t (h # qs) (p # ps) ((h, p) # r)"
proof -
  have o: "http_order (p # take (length r) ps)" "http_order ps"
    using assms(3) in_order_take [of hm_timestamp_ns "p # ps" "Suc (length r)"] by (simp_all add: in_order_def)
  have lt: "\<forall>x \<in> set ps. hm_timestamp_ns h < hm_timestamp_ns x" using assms(3,5) by (auto simp: in_order_def)
  have "answered hm_timestamp_ns t (h # qs) (p # take (length r) ps) = (h, p) # answered hm_timestamp_ns (hm_timestamp_ns p) qs (take (length r) ps)"
    using answered_now [OF assms(2) o(1), of "Some h" t "\<lambda>_. True" "\<lambda>_. True"] assms(4,5) by simp
  then show ?thesis
    using assms(1) unanswerable_skip [OF o(2) _ lt assms(5)] by (simp add: http_outcome_def unanswerable_Suc)
qed

lemma http_before_step:
  assumes "http_outcome t (q # qs) (p # ps) rs" "http_order (held_list held @ q # qs)" "http_order (p # ps)"
    "\<forall>m \<in> set (held_list held). t \<le> hm_timestamp_ns m" "t \<le> hm_timestamp_ns q" "hm_timestamp_ns q < hm_timestamp_ns p"
  shows "http_outcome t (held_list held @ q # qs) (p # ps) rs"
proof (cases held)
  case (Some h)
  have h: "t \<le> hm_timestamp_ns h" "hm_timestamp_ns h \<le> hm_timestamp_ns q" using assms(2,4) Some by (simp_all add: in_order_def)
  have "rs \<noteq> []" using assms(1,5,6) by (auto simp: http_outcome_def unanswerable_def previous_def)
  then obtain k where k: "length rs = Suc k" by (cases rs) auto
  have lt: "\<forall>x \<in> set (p # ps). hm_timestamp_ns q < hm_timestamp_ns x" using assms(3,6) by (auto simp: in_order_def)
  have "answered hm_timestamp_ns t (h # q # qs) (take (length rs) (p # ps)) = answered hm_timestamp_ns t (q # qs) (take (length rs) (p # ps))"
    using h lt in_order_take [OF assms(3), of "length rs"] in_set_takeD [of _ "length rs" "p # ps"]
    by (intro answered_shadow) blast+
  moreover have hl: "\<forall>x \<in> set ps. hm_timestamp_ns h < hm_timestamp_ns x" "hm_timestamp_ns h < hm_timestamp_ns p"
    using lt h(2) assms(6) le_less_trans by auto
  have "unanswerable t (h # q # qs) (p # ps) (length rs) \<longleftrightarrow> unanswerable t (q # qs) (p # ps) (length rs)"
    if "length rs < length (p # ps)"
    using unanswerable_skip [OF _ _ hl, of k "q # qs"] that k assms(3) by (simp add: unanswerable_Suc in_order_def)
  ultimately show ?thesis using assms(1) Some by (simp add: http_outcome_def)
qed (use assms(1) in simp)

lemma http_list_pairs:
  assumes "http_list qs ps held = (rs, qs', ps')" "http_order (held_list held @ qs)" "http_order ps"
    "\<forall>m \<in> set (held_list held @ qs @ ps). t \<le> hm_timestamp_ns m"
    "\<forall>q \<in> set (held_list held). \<forall>p \<in> set ps. hm_timestamp_ns q < hm_timestamp_ns p"
  shows "http_outcome t (held_list held @ qs) ps rs"
  using assms
proof (induction qs ps held arbitrary: rs qs' ps' t rule: http_list.induct)
  case (3 p ps q)
  then obtain r where r: "rs = (q, p) # r" "http_list [] ps None = (r, qs', ps')" by (auto split: prod.splits)
  have "http_outcome (hm_timestamp_ns p) [] ps r"
    using "3.IH" [OF r(2), of "hm_timestamp_ns p"] "3.prems"(3) by (simp add: in_order_def)
  then show ?case using http_after_step [of p "[]" ps r t q] "3.prems" r(1) by simp
next
  case (4 q qs p ps held)
  show ?case
  proof (cases "hm_timestamp_ns q < hm_timestamp_ns p")
    case True
    then have "\<forall>x \<in> set ps. hm_timestamp_ns q < hm_timestamp_ns x"
      using "4.prems"(3) less_le_trans by (fastforce simp: in_order_def)
    then have "http_outcome t (q # qs) (p # ps) rs"
      using "4.IH"(1) [OF True, of rs qs' ps' t] True "4.prems" by (auto simp: in_order_def sorted_wrt_append)
    then show ?thesis using http_before_step [of t q qs p ps rs held] "4.prems" True by simp
  next
    case False
    then have ge: "\<forall>x \<in> set (q # qs). hm_timestamp_ns p \<le> hm_timestamp_ns x"
      using "4.prems"(2) by (auto simp: in_order_def sorted_wrt_append)
    show ?thesis
    proof (cases held)
      case None
      then show ?thesis using False "4.prems"(1) ge by (auto simp: http_outcome_def unanswerable_def)
    next
      case (Some h)
      then obtain r where r: "rs = (h, p) # r" "http_list (q # qs) ps None = (r, qs', ps')"
        using "4.prems"(1) False by (auto split: prod.splits)
      have "http_outcome (hm_timestamp_ns p) (q # qs) ps r"
        using "4.IH"(2) [OF False Some r(2), of "hm_timestamp_ns p"] "4.prems"(2,3) ge
        by (simp add: in_order_def sorted_wrt_append ball_Un)
      then show ?thesis using http_after_step [of p "q # qs" ps r t h] ge "4.prems" r(1) Some by simp
    qed
  qed
qed (auto simp: http_outcome_def unanswerable_def)


lemma answered_from: "(q, p) \<in> set (answered time t qs ps) \<Longrightarrow> q \<in> set qs"
proof (induction ps arbitrary: t)
  case (Cons p' ps)
  have "between \<noteq> [] \<Longrightarrow> between = filter P qs \<Longrightarrow> last between \<in> set qs" for between P
    using last_in_set [of between] by auto
  with Cons show ?case by (auto simp: Let_def split: if_splits)
qed simp

lemma add_http_pairs_ok:
  assumes "http_buf_ok rb" "\<forall>(q, p) \<in> set rs. method_known q"
  shows "\<exists>rb'. add_http_pairs rb rs = Some rb' \<and> http_buf_ok rb' \<and>
    record_list rb' = record_list rb @ map http_record_data (take (RECORD_BUF_SIZE - rcb_record_buf_size rb) rs)"
  using assms
proof (induction rs arbitrary: rb)
  case (Cons r rs)
  obtain q p where r: "r = (q, p)" by (cases r)
  with Cons.prems(2) have "method_known q" by simp
  from add_http_record_ok [OF Cons.prems(1) this, of p] obtain rb1 where
    rb1: "add_http_record_into_buf \<lparr>hr_req = Some q, hr_resp = Some p\<rparr> rb = Some rb1" "http_buf_ok rb1"
    "record_list rb1 = record_list rb @ (if rcb_record_buf_size rb < RECORD_BUF_SIZE then [http_record_data (q, p)] else [])" by blast
  from arg_cong [OF rb1(3), of length] have
    n: "rcb_record_buf_size rb1 = rcb_record_buf_size rb + (if rcb_record_buf_size rb < RECORD_BUF_SIZE then 1 else 0)" by simp
  from Cons.IH [OF rb1(2)] Cons.prems(2) obtain rb' where "add_http_pairs rb1 rs = Some rb'" "http_buf_ok rb'"
    "record_list rb' = record_list rb1 @ map http_record_data (take (RECORD_BUF_SIZE - rcb_record_buf_size rb1) rs)" by auto
  then show ?case using rb1 n r by (cases "rcb_record_buf_size rb < RECORD_BUF_SIZE") (auto simp: take_Cons' Suc_diff_le)
qed simp

subsection \<open>Rounds\<close>

text \<open>
  What \<^verbatim>\<open>l7_parser_tracker\<close> does with the two streams of a connection in every round, for HTTP:
  the frames the parser found are pushed, the frames are matched into an empty buffer of
  records, and those that were taken are popped.
\<close>

type_synonym http_stream = "http_message data_stream_s"
type_synonym http_frames = "http_message frame_data_s list"

definition push_frames :: "http_frames \<Rightarrow> http_stream \<Rightarrow> http_stream" where
  "push_frames fs ds = fold (\<lambda>f ds. snd (push_frame_data ds f)) fs ds"

definition http_round :: "http_frames \<times> http_frames \<Rightarrow> http_stream \<times> http_stream \<Rightarrow>
  (http_record record_buf_s \<times> http_stream \<times> http_stream) well_defined" where
  "http_round new s = do {
     let req = push_frames (fst new) (fst s);
     let resp = push_frames (snd new) (snd s);
     (record_buf, req_frames, resp_frames) \<leftarrow> http_match_frames (frame_bufs req) (frame_bufs resp) empty_record_buf;
     Some (record_buf, data_stream_pop_frames (req\<lparr>frame_bufs := req_frames\<rparr>),
       data_stream_pop_frames (resp\<lparr>frame_bufs := resp_frames\<rparr>)) }"

fun http_rounds :: "(http_frames \<times> http_frames) list \<Rightarrow> http_stream \<times> http_stream \<Rightarrow>
  (http_record record_buf_s list \<times> http_stream \<times> http_stream) well_defined" where
  "http_rounds [] s = Some ([], s)"
| "http_rounds (new # news) s = do {
     (record_buf, s) \<leftarrow> http_round new s;
     (record_bufs, s) \<leftarrow> http_rounds news s;
     Some (record_buf # record_bufs, s) }"

lemma push_frames_waiting:
  assumes "frame_buf_ok (frame_bufs ds)"
  shows "frame_buf_ok (frame_bufs (push_frames fs ds)) \<and>
    (\<exists>ms. waiting (frame_bufs (push_frames fs ds)) = waiting (frame_bufs ds) @ ms \<and> set ms \<subseteq> fd_frame ` set fs)"
  using assms
proof (induction fs arbitrary: ds)
  case (Cons f fs)
  obtain b ds1 where p: "push_frame_data ds f = (b, ds1)" by (cases "push_frame_data ds f")
  note l = push_frame_list [OF Cons.prems p]
  have c: "fb_current_pos (frame_bufs ds1) = fb_current_pos (frame_bufs ds)"
    using p by (auto simp: push_frame_data_def Let_def split: if_splits)
  have "fb_current_pos (frame_bufs ds) \<le> length (frame_list (frame_bufs ds))"
    using Cons.prems by (simp add: frame_buf_ok_def frame_list_def)
  then have w: "waiting (frame_bufs ds1) = waiting (frame_bufs ds) @ (if b then [fd_frame f] else [])"
    using l c by (simp add: waiting_def)
  have e: "push_frames (f # fs) ds = push_frames fs ds1" by (simp add: push_frames_def p)
  from Cons.IH [of ds1] l obtain ms where "frame_buf_ok (frame_bufs (push_frames fs ds1))"
    "waiting (frame_bufs (push_frames fs ds1)) = waiting (frame_bufs ds1) @ ms" "set ms \<subseteq> fd_frame ` set fs" by auto
  then show ?case unfolding e w by (cases b) auto
qed (simp add: push_frames_def)

lemma pop_frames_waiting:
  assumes "frame_buf_ok fb"
  shows "frame_buf_ok (frame_bufs (data_stream_pop_frames (ds\<lparr>frame_bufs := fb\<rparr>)))"
    "waiting (frame_bufs (data_stream_pop_frames (ds\<lparr>frame_bufs := fb\<rparr>))) = waiting fb"
  using pop_frames_list [OF assms] by (simp_all add: data_stream_pop_frames_def waiting_def)

lemma http_match_blocked:
  assumes "frame_buf_ok qf" "frame_buf_ok pf" "http_times_ok (waiting qf)" "http_times_ok (waiting pf)"
    and "waiting pf = p # ps" "\<forall>q \<in> set (waiting qf). hm_timestamp_ns p \<le> hm_timestamp_ns q"
  shows "http_match_frames qf pf rb =
    Some (rb\<lparr>rcb_req_count := fb_current_pos qf, rcb_resp_count := fb_current_pos pf\<rparr>, qf, pf)"
proof -
  have "http_list (waiting qf) (waiting pf) None = ([], waiting qf, waiting pf)"
    using assms(5,6) by (cases "waiting qf") (auto simp: leD)
  then show ?thesis
    using http_match_refines [OF assms(1-4), of None rb] left_of_waiting [OF assms(1)] left_of_waiting [OF assms(2)]
    by (simp add: http_match_frames_def)
qed

text \<open>The state in which the response \<open>p\<close> blocks the matcher, and frames that do not change this.\<close>

definition blocked_by :: "http_message \<Rightarrow> http_stream \<times> http_stream \<Rightarrow> bool" where
  "blocked_by p s \<longleftrightarrow> frame_buf_ok (frame_bufs (fst s)) \<and> frame_buf_ok (frame_bufs (snd s)) \<and>
     http_times_ok (waiting (frame_bufs (fst s))) \<and> http_times_ok (waiting (frame_bufs (snd s))) \<and>
     (\<exists>ps. waiting (frame_bufs (snd s)) = p # ps) \<and>
     (\<forall>q \<in> set (waiting (frame_bufs (fst s))). hm_timestamp_ns p \<le> hm_timestamp_ns q)"

definition none_before :: "http_message \<Rightarrow> http_frames \<times> http_frames \<Rightarrow> bool" where
  "none_before p new \<longleftrightarrow> http_times_ok (map fd_frame (fst new)) \<and> http_times_ok (map fd_frame (snd new)) \<and>
     (\<forall>f \<in> set (fst new). hm_timestamp_ns p \<le> hm_timestamp_ns (fd_frame f))"

lemma http_times_ok_append: "http_times_ok (xs @ ys) \<longleftrightarrow> http_times_ok xs \<and> http_times_ok ys"
  by (auto simp: http_times_ok_def)

lemma http_times_ok_subset: "http_times_ok xs \<Longrightarrow> set ys \<subseteq> set xs \<Longrightarrow> http_times_ok ys"
  by (auto simp: http_times_ok_def)

lemma http_round_blocked:
  assumes "blocked_by p s" "none_before p new"
  shows "\<exists>rb s' qs ps. http_round new s = Some (rb, s') \<and> record_list rb = [] \<and> rcb_api_stats rb = [] \<and> blocked_by p s' \<and>
    waiting (frame_bufs (fst s')) = waiting (frame_bufs (fst s)) @ qs \<and> waiting (frame_bufs (snd s')) = waiting (frame_bufs (snd s)) @ ps"
proof -
  define req where "req = push_frames (fst new) (fst s)"
  define resp where "resp = push_frames (snd new) (snd s)"
  note b = assms(1) [unfolded blocked_by_def] and n = assms(2) [unfolded none_before_def]
  obtain qs where q: "frame_buf_ok (frame_bufs req)" "waiting (frame_bufs req) = waiting (frame_bufs (fst s)) @ qs"
    "set qs \<subseteq> fd_frame ` set (fst new)" using push_frames_waiting [of "fst s" "fst new"] b unfolding req_def by blast
  obtain ps where r: "frame_buf_ok (frame_bufs resp)" "waiting (frame_bufs resp) = waiting (frame_bufs (snd s)) @ ps"
    "set ps \<subseteq> fd_frame ` set (snd new)" using push_frames_waiting [of "snd s" "snd new"] b unfolding resp_def by blast
  have t: "http_times_ok (waiting (frame_bufs req))" "http_times_ok (waiting (frame_bufs resp))"
    using b n q(2,3) r(2,3) http_times_ok_subset [of "map fd_frame (fst new)" qs] http_times_ok_subset [of "map fd_frame (snd new)" ps]
    by (simp_all add: http_times_ok_append)
  have le: "\<forall>m \<in> set (waiting (frame_bufs req)). hm_timestamp_ns p \<le> hm_timestamp_ns m"
    using b n q(2,3) by (auto simp: subset_iff)
  obtain ms where m: "waiting (frame_bufs resp) = p # ms" using b r(2) by auto
  let ?rb = "empty_record_buf\<lparr>rcb_req_count := fb_current_pos (frame_bufs req), rcb_resp_count := fb_current_pos (frame_bufs resp)\<rparr>"
  let ?s = "(data_stream_pop_frames (req\<lparr>frame_bufs := frame_bufs req\<rparr>), data_stream_pop_frames (resp\<lparr>frame_bufs := frame_bufs resp\<rparr>))"
  have e: "http_round new s = Some (?rb, ?s)"
    using http_match_blocked [OF q(1) r(1) t m le, of empty_record_buf]
    unfolding http_round_def Let_def req_def [symmetric] resp_def [symmetric] by simp
  moreover have "record_list ?rb = []" "rcb_api_stats ?rb = []" by (simp_all add: record_list_def empty_record_buf_def)
  moreover have "blocked_by p ?s"
    using pop_frames_waiting [OF q(1), of req] pop_frames_waiting [OF r(1), of resp] t m le by (simp add: blocked_by_def)
  ultimately show ?thesis
    using pop_frames_waiting(2) [OF q(1), of req] pop_frames_waiting(2) [OF r(1), of resp] q(2) r(2)
    by (intro exI [of _ ?rb] exI [of _ ?s]) simp
qed

subsection \<open>Properties\<close>

text \<open>
  C9: Matching a round of HTTP frames whose timestamps are in order is always defined and keeps
  the statistics within their arrays.  It pairs the responses, in order, each with the last request
  before it and after the previous response, up to the first response that has no such request;
  that response and all after it stay, and pairs beyond the capacity are dropped.
\<close>

theorem http_match_records:
  assumes "frame_buf_ok qf" "frame_buf_ok pf" "http_buf_ok rb"
    and "http_times_ok (waiting qf)" "http_times_ok (waiting pf)" "http_order (waiting qf)" "http_order (waiting pf)"
    and "\<forall>q \<in> set (waiting qf). method_known q"
  shows "\<exists>rb' rs qs. http_match_frames qf pf rb = Some (rb', left_of qf qs, left_of pf (drop (length rs) (waiting pf))) \<and>
    http_buf_ok rb' \<and> http_outcome 0 (waiting qf) (waiting pf) rs \<and>
    record_list rb' = record_list rb @ map http_record_data (take (RECORD_BUF_SIZE - rcb_record_buf_size rb) rs)"
proof -
  obtain rs qs ps where l: "http_list (waiting qf) (waiting pf) None = (rs, qs, ps)" by (cases "http_list (waiting qf) (waiting pf) None")
  have o: "http_outcome 0 (waiting qf) (waiting pf) rs" using http_list_pairs [OF l, of 0] assms(6,7) by simp
  then have "rs = answered hm_timestamp_ns 0 (waiting qf) (take (length rs) (waiting pf))" by (simp add: http_outcome_def)
  then have "\<forall>(q, p) \<in> set rs. method_known q" using assms(8) by (metis (mono_tags, lifting) answered_from case_prodI2)
  from add_http_pairs_ok [OF assms(3) this] obtain rb' where
    rb': "add_http_pairs rb rs = Some rb'" "http_buf_ok rb'"
    "record_list rb' = record_list rb @ map http_record_data (take (RECORD_BUF_SIZE - rcb_record_buf_size rb) rs)" by blast
  have "http_match_frames qf pf rb = Some (rb'\<lparr>rcb_req_count := fb_current_pos (left_of qf qs), rcb_resp_count := fb_current_pos (left_of pf ps)\<rparr>,
      left_of qf qs, left_of pf ps)"
    using http_match_refines [OF assms(1,2,4,5), of None rb] l rb'(1) by (simp add: http_match_frames_def)
  moreover have "ps = drop (length rs) (waiting pf)" using http_list_left [OF l] by simp
  moreover have "http_buf_ok (rb'\<lparr>rcb_req_count := m, rcb_resp_count := n\<rparr>)" "record_list (rb'\<lparr>rcb_req_count := m, rcb_resp_count := n\<rparr>) = record_list rb'"
    for m n using rb'(2) by (simp_all add: http_buf_ok_def record_buf_ok_def record_list_def)
  ultimately show ?thesis using o rb'(3)
    by (intro exI [of _ "rb'\<lparr>rcb_req_count := fb_current_pos (left_of qf qs), rcb_resp_count := fb_current_pos (left_of pf ps)\<rparr>"]
        exI [of _ rs] exI [of _ qs]) simp
qed

definition http_msg_at :: "u64 \<Rightarrow> http_message" where
  "http_msg_at t = init_http_msg\<lparr>hm_timestamp_ns := t, hm_req_method := Some (ascii ''GET''), hm_req_path := Some (ascii ''/a?b'')\<rparr>"

theorem http_match_records_witness:
  "\<exists>rb' qf' pf'. http_match_frames (frames_of hm_timestamp_ns [http_msg_at 1, http_msg_at 2])
      (frames_of hm_timestamp_ns [http_msg_at 3, http_msg_at 4]) empty_record_buf = Some (rb', qf', pf') \<and>
    http_buf_ok rb' \<and> record_list rb' = [http_record_data (http_msg_at 2, http_msg_at 3)] \<and> waiting pf' = [http_msg_at 4]"
proof -
  let ?qf = "frames_of hm_timestamp_ns [http_msg_at 1, http_msg_at 2]" and ?pf = "frames_of hm_timestamp_ns [http_msg_at 3, http_msg_at 4]"
  have t: "hm_timestamp_ns (http_msg_at t) = t" for t by (simp add: http_msg_at_def)
  have n: "\<not> (3 :: u64) \<le> 1" "(1 :: u64) < 3" by code_simp+
  have a: "answered hm_timestamp_ns 0 [http_msg_at 1, http_msg_at 2] [http_msg_at 3] = [(http_msg_at 2, http_msg_at 3)]"
    "answered hm_timestamp_ns 0 [http_msg_at 1, http_msg_at 2] [http_msg_at 3, http_msg_at 4] = [(http_msg_at 2, http_msg_at 3)]"
    by (simp_all add: t n)
  have rs: "rs = [(http_msg_at 2, http_msg_at 3)]"
    if o: "http_outcome 0 [http_msg_at 1, http_msg_at 2] [http_msg_at 3, http_msg_at 4] rs" for rs
  proof (cases rs)
    case Nil
    then show ?thesis using o n by (auto simp: http_outcome_def unanswerable_def previous_def t)
  next
    case (Cons r rs')
    then show ?thesis using o a by (cases rs') (simp_all add: http_outcome_def)
  qed
  have "http_times_ok [http_msg_at 1, http_msg_at 2]" "http_times_ok [http_msg_at 3, http_msg_at 4]" "http_order [http_msg_at 1, http_msg_at 2]"
    "http_order [http_msg_at 3, http_msg_at 4]" unfolding in_order_def by code_simp+
  moreover have "\<forall>q \<in> set [http_msg_at 1, http_msg_at 2]. method_known q" by (simp add: http_msg_at_def method_known_def)
  moreover have "http_buf_ok empty_record_buf" by (simp add: http_buf_ok_def) (simp add: empty_record_buf_def recorded_def)
  moreover have "waiting (left_of ?pf [http_msg_at 4]) = [http_msg_at 4]"
    by (simp add: left_of_def waiting_def frames_of_def frame_list_def slots_list_def)
  ultimately show ?thesis
    using http_match_records [of ?qf ?pf empty_record_buf] rs
    by (fastforce simp: frames_of_ok FRAME_BUF_SIZE_def RECORD_BUF_SIZE_def)
qed

text \<open>
  C31: A response at the head that is not later than any request that waits, as the first one the
  probe sees of a connection that was already open, blocks the matcher in every later round, however
  many there are, as long as the parser finds no request with a time before that response: no round makes a
  record or counts an API call, and no request and no response is ever taken, so that the frames pile up behind the
  response.  (A request with an earlier time that is parsed later would end this.)
\<close>

theorem http_match_stuck:
  assumes "blocked_by p s" "list_all (none_before p) news"
  shows "\<exists>rbs s' qs ps. http_rounds news s = Some (rbs, s') \<and> length rbs = length news \<and>
    (\<forall>rb \<in> set rbs. record_list rb = [] \<and> rcb_api_stats rb = []) \<and> blocked_by p s' \<and>
    waiting (frame_bufs (fst s')) = waiting (frame_bufs (fst s)) @ qs \<and> waiting (frame_bufs (snd s')) = waiting (frame_bufs (snd s)) @ ps"
  using assms
proof (induction news arbitrary: s)
  case (Cons new news)
  from Cons.prems http_round_blocked [of p s new] obtain rb s1 qs ps where
    1: "http_round new s = Some (rb, s1)" "record_list rb = []" "rcb_api_stats rb = []" "blocked_by p s1"
      "waiting (frame_bufs (fst s1)) = waiting (frame_bufs (fst s)) @ qs" "waiting (frame_bufs (snd s1)) = waiting (frame_bufs (snd s)) @ ps" by auto
  from Cons.IH [OF 1(4)] Cons.prems(2) obtain rbs s' qs' ps' where
    2: "http_rounds news s1 = Some (rbs, s')" "length rbs = length news" "\<forall>rb \<in> set rbs. record_list rb = [] \<and> rcb_api_stats rb = []"
      "blocked_by p s'" "waiting (frame_bufs (fst s')) = waiting (frame_bufs (fst s1)) @ qs'"
      "waiting (frame_bufs (snd s')) = waiting (frame_bufs (snd s1)) @ ps'" by auto
  from 1 2 show ?case by (intro exI [of _ "rb # rbs"] exI [of _ s'] exI [of _ "qs @ qs'"] exI [of _ "ps @ ps'"]) simp
qed simp

definition http_stream_of :: "http_message list \<Rightarrow> http_stream" where
  "http_stream_of ms = init_data_stream\<lparr>frame_bufs := frames_of hm_timestamp_ns ms\<rparr>"

definition http_frame :: "message_type_t \<Rightarrow> u64 \<Rightarrow> http_message frame_data_s" where
  "http_frame mt t = \<lparr>fd_msg_type = mt, fd_frame = http_msg_at t, fd_timestamp_ns = t\<rparr>"

theorem http_match_stuck_witness:
  "\<exists>rbs s' ps. http_rounds [([http_frame MESSAGE_REQUEST 4], [http_frame MESSAGE_RESPONSE 5]), ([http_frame MESSAGE_REQUEST 6], [http_frame MESSAGE_RESPONSE 7])]
     (http_stream_of [http_msg_at 2], http_stream_of [http_msg_at 1, http_msg_at 3]) = Some (rbs, s') \<and>
   length rbs = 2 \<and> (\<forall>rb \<in> set rbs. record_list rb = []) \<and> waiting (frame_bufs (snd s')) = http_msg_at 1 # ps"
proof -
  let ?s = "(http_stream_of [http_msg_at 2], http_stream_of [http_msg_at 1, http_msg_at 3])"
  let ?n = "[([http_frame MESSAGE_REQUEST 4], [http_frame MESSAGE_RESPONSE 5]), ([http_frame MESSAGE_REQUEST 6], [http_frame MESSAGE_RESPONSE 7])]"
  have o: "(1 :: u64) \<le> 2" "(1 :: u64) \<le> 4" "(1 :: u64) \<le> 6" by code_simp+
  have t: "http_times_ok [http_msg_at 2]" "http_times_ok [http_msg_at 1, http_msg_at 3]" "http_times_ok [http_msg_at 4]"
    "http_times_ok [http_msg_at 5]" "http_times_ok [http_msg_at 6]" "http_times_ok [http_msg_at 7]" by code_simp+
  have "blocked_by (http_msg_at 1) ?s"
    using t o by (simp add: blocked_by_def http_stream_of_def frames_of_ok FRAME_BUF_SIZE_def) (simp add: http_msg_at_def)
  moreover have "list_all (none_before (http_msg_at 1)) ?n"
    using t o by (simp add: none_before_def http_frame_def) (simp add: http_msg_at_def)
  ultimately show ?thesis
    using http_match_stuck [of "http_msg_at 1" ?s ?n] by (fastforce simp: http_stream_of_def frames_of_ok FRAME_BUF_SIZE_def)
qed

end
