(* ===== verification/Conn_Tracker.thy ===== *)
theory Conn_Tracker
  imports Record_Buf
begin

section \<open>Connection tracker\<close>

text \<open>
  \<^verbatim>\<open>l7probe/conn_tracker.c\<close>: the trackers of the connections, which hold the two streams of a
  connection and the records of a round, and the links, which count what was seen between two
  addresses.  The messages of the eBPF programs open and close trackers and fill their streams;
  a round parses the streams, matches the frames and adds the records to the link; a report
  removes what is inactive and resets the counters.

  A hash is the list of its elements in the order in which they were added, which is the order
  of \<^verbatim>\<open>H_ITER\<close>; a pointer to an element is its key.  The current time is an argument.
  Parameters stand for code outside the repository: the histograms of latencies, the lookup of
  the backend of a cluster address, and the map of probed processes.  The protocols are an
  argument too (\<open>proto_ops\<close>), since \<^verbatim>\<open>protocol_parser.c\<close> only selects them.  What is only printed
  by a report (ratios, percentiles, addresses as strings) is left out.
\<close>

subsection \<open>Types\<close>

datatype proto_type_t = PROTO_UNKNOW | PROTO_HTTP | PROTO_HTTP2 | PROTO_MYSQL | PROTO_PGSQL | PROTO_DNS
  | PROTO_REDIS | PROTO_NATS | PROTO_CQL | PROTO_MONGO | PROTO_KAFKA | PROTO_CRPC | PROTO_AMQP | PROTO_MAX

datatype l7_direction_t = L7_EGRESS | L7_INGRESS | L7_DIRECT_UNKNOW

datatype l4_role_t = L4_UNKNOW | L4_CLIENT | L4_SERVER | L4_ROLE_MAX

datatype l7_role_t = L7_UNKNOW | L7_CLIENT | L7_SERVER | L7_ROLE_MAX

text \<open>The union of an IPv4 and an IPv6 address is the list of its bytes.\<close>

record conn_addr_s =
  ca_family :: u16
  ca_port :: u16
  ca_ip :: bytes

definition zero_conn_addr :: conn_addr_s where
  "zero_conn_addr = \<lparr>ca_family = 0, ca_port = 0, ca_ip = replicate 16 0\<rparr>"

record tracker_id_s =
  tk_tgid :: "32 word"
  tk_fd :: "32 word"

record tracker_open_s =
  to_timestamp_ns :: u64
  to_client_addr :: conn_addr_s
  to_server_addr :: conn_addr_s

definition zero_tracker_open :: tracker_open_s where
  "zero_tracker_open = \<lparr>to_timestamp_ns = 0, to_client_addr = zero_conn_addr, to_server_addr = zero_conn_addr\<rparr>"

text \<open>
  The members \<^verbatim>\<open>close_info\<close> and \<^verbatim>\<open>tacker_state\<close> are never read and left out.  The types of the
  two streams are set together with the protocol of the tracker and are equal to it.
\<close>

record ('f, 'r) conn_tracker_s =
  ct_id :: tracker_id_s
  ct_is_ssl :: bool
  ct_inactive :: bool
  ct_l4_role :: l4_role_t
  ct_l7_role :: l7_role_t
  ct_protocol :: proto_type_t
  ct_open_info :: tracker_open_s
  ct_send_stream :: "'f data_stream_s"
  ct_recv_stream :: "'f data_stream_s"
  ct_records :: "'r record_buf_s"

datatype l7_stats_t = BYTES_SENT | BYTES_RECV | LAST_BYTES_SENT | LAST_BYTES_RECV | DATA_EVT_SENT | DATA_EVT_RECV
  | OPEN_EVT | CLOSE_EVT | REQ_COUNT | RSP_COUNT | ERR_COUNT | CLIENT_ERR_COUNT | SERVER_ERR_COUNT

type_synonym stats = "l7_stats_t \<Rightarrow> u64"

record l7_link_id_s =
  li_tgid :: "32 word"
  li_client_addr :: conn_addr_s
  li_server_addr :: conn_addr_s
  li_l4_role :: l4_role_t
  li_l7_role :: l7_role_t
  li_protocol :: proto_type_t

record 'h l7_api_statistic_s =
  la_id :: bytes
  la_stats :: stats
  la_latency_buckets :: 'h
  la_latency_sum :: u64

record 'h l7_link_s =
  lk_id :: l7_link_id_s
  lk_is_ssl :: bool
  lk_l7_statistic :: "'h l7_api_statistic_s list"
  lk_stats :: stats
  lk_latency_buckets :: 'h
  lk_latency_sum :: u64
  lk_last_rcv_data :: int

record ('f, 'r, 'h) l7_mng_s =
  mg_last_report :: int
  mg_l7_links_capability :: u32
  mg_period :: u32
  mg_cluster_ip_backend :: nat
  mg_trackers :: "('f, 'r) conn_tracker_s list"
  mg_l7_links :: "'h l7_link_s list"

text \<open>The histograms: of zeroed memory, with one more value, and reset.\<close>

record 'h histo_ops =
  ho_zero :: 'h
  ho_add_value :: "'h \<Rightarrow> u64 \<Rightarrow> 'h"
  ho_reset :: "'h \<Rightarrow> 'h"

text \<open>The functions that \<^verbatim>\<open>protocol_parser.c\<close> selects by the protocol.\<close>

record ('f, 'r) proto_ops =
  po_boundary :: "(unit, 'f) boundary_finder"
  po_parse :: "(unit, 'f) frame_parser_fun"
  po_match :: "'f frame_buf_s \<Rightarrow> 'f frame_buf_s \<Rightarrow> 'r record_buf_s \<Rightarrow>
    ('r record_buf_s \<times> 'f frame_buf_s \<times> 'f frame_buf_s) well_defined"

text \<open>What the selection does for a protocol it has no functions for.\<close>

definition unsupported_ops :: "('f, 'r) proto_ops" where
  "unsupported_ops = \<lparr>po_boundary = (\<lambda>_ _ _. Some (Some 0)), po_parse = (\<lambda>g _ rd. Some (g, STATE_UNKNOWN, None, rd)),
     po_match = (\<lambda>q p rb. Some (rb, q, p))\<rparr>"

definition proto_match_frames :: "('f, 'r) proto_ops \<Rightarrow> 'f frame_buf_s option \<Rightarrow> 'f frame_buf_s option \<Rightarrow> 'r record_buf_s \<Rightarrow>
  ('r record_buf_s \<times> 'f frame_buf_s option \<times> 'f frame_buf_s option) well_defined" where
  "proto_match_frames ops req_frame resp_frame record_buf = (case (req_frame, resp_frame) of
     (Some q, Some p) \<Rightarrow>
       (if frame_buf_size q = 0 \<or> frame_buf_size p = 0 then Some (record_buf, req_frame, resp_frame)
        else do { (record_buf, q, p) \<leftarrow> po_match ops q p record_buf; Some (record_buf, Some q, Some p) })
   | _ \<Rightarrow> Some (record_buf, req_frame, resp_frame))"

subsection \<open>Roles\<close>

definition get_message_type :: "l7_role_t \<Rightarrow> l7_direction_t \<Rightarrow> message_type_t" where
  "get_message_type l7_role direction =
     (if l7_role = L7_CLIENT
      then if direction = L7_INGRESS then MESSAGE_RESPONSE else MESSAGE_REQUEST
      else if direction = L7_INGRESS then MESSAGE_REQUEST else MESSAGE_RESPONSE)"

definition get_l7_role :: "message_type_t \<Rightarrow> l7_direction_t \<Rightarrow> l7_role_t" where
  "get_l7_role msg_type direction =
     (if (direction = L7_EGRESS) \<noteq> (msg_type = MESSAGE_RESPONSE) then L7_CLIENT else L7_SERVER)"

definition get_req_frames :: "('f, 'r) conn_tracker_s \<Rightarrow> 'f frame_buf_s option" where
  "get_req_frames t =
     (if ct_l7_role t = L7_CLIENT then Some (frame_bufs (ct_send_stream t))
      else if ct_l7_role t = L7_SERVER then Some (frame_bufs (ct_recv_stream t)) else None)"

definition get_resp_frames :: "('f, 'r) conn_tracker_s \<Rightarrow> 'f frame_buf_s option" where
  "get_resp_frames t =
     (if ct_l7_role t = L7_CLIENT then Some (frame_bufs (ct_recv_stream t))
      else if ct_l7_role t = L7_SERVER then Some (frame_bufs (ct_send_stream t)) else None)"

text \<open>Writing back the frames that the matcher has changed through these pointers.\<close>

definition set_matched_frames :: "'f frame_buf_s option \<Rightarrow> 'f frame_buf_s option \<Rightarrow> ('f, 'r) conn_tracker_s \<Rightarrow> ('f, 'r) conn_tracker_s" where
  "set_matched_frames req resp t = (case (req, resp) of
     (Some q, Some p) \<Rightarrow>
       (if ct_l7_role t = L7_CLIENT
        then t\<lparr>ct_send_stream := (ct_send_stream t)\<lparr>frame_bufs := q\<rparr>, ct_recv_stream := (ct_recv_stream t)\<lparr>frame_bufs := p\<rparr>\<rparr>
        else t\<lparr>ct_recv_stream := (ct_recv_stream t)\<lparr>frame_bufs := q\<rparr>, ct_send_stream := (ct_send_stream t)\<lparr>frame_bufs := p\<rparr>\<rparr>)
   | _ \<Rightarrow> t)"

subsection \<open>Trackers\<close>

definition destroy_tracker_record :: "('f, 'r) conn_tracker_s \<Rightarrow> ('f, 'r) conn_tracker_s" where
  "destroy_tracker_record t =
     (let rb = ct_records t in
      t\<lparr>ct_records := rb\<lparr>rcb_api_stats := [],
          rcb_records := fold (\<lambda>i a. a(i := None)) [0..<min (rcb_record_buf_size rb) RECORD_BUF_SIZE] (rcb_records rb),
          rcb_record_buf_size := 0, rcb_err_count := 0, rcb_req_count := 0, rcb_resp_count := 0,
          rcb_msg_error_count := 0, rcb_msg_total_count := 0\<rparr>\<rparr>)"

definition create_conn_tracker :: "tracker_id_s \<Rightarrow> ('f, 'r) conn_tracker_s" where
  "create_conn_tracker i = \<lparr>ct_id = i, ct_is_ssl = False, ct_inactive = False, ct_l4_role = L4_ROLE_MAX,
     ct_l7_role = L7_UNKNOW, ct_protocol = PROTO_UNKNOW, ct_open_info = zero_tracker_open,
     ct_send_stream = init_data_stream, ct_recv_stream = init_data_stream, ct_records = empty_record_buf\<rparr>"

definition lkup_conn_tracker :: "('f, 'r, 'h) l7_mng_s \<Rightarrow> tracker_id_s \<Rightarrow> ('f, 'r) conn_tracker_s option" where
  "lkup_conn_tracker m i = find (\<lambda>t. ct_id t = i) (mg_trackers m)"

definition add_conn_tracker :: "('f, 'r, 'h) l7_mng_s \<Rightarrow> tracker_id_s \<Rightarrow> ('f, 'r) conn_tracker_s \<times> ('f, 'r, 'h) l7_mng_s" where
  "add_conn_tracker m i = (case lkup_conn_tracker m i of
     Some t \<Rightarrow> (t, m)
   | None \<Rightarrow> (create_conn_tracker i, m\<lparr>mg_trackers := mg_trackers m @ [create_conn_tracker i]\<rparr>))"

text \<open>The change of a tracker through a pointer to it.\<close>

definition set_tracker :: "('f, 'r) conn_tracker_s \<Rightarrow> ('f, 'r, 'h) l7_mng_s \<Rightarrow> ('f, 'r, 'h) l7_mng_s" where
  "set_tracker t m = m\<lparr>mg_trackers := map (\<lambda>u. if ct_id u = ct_id t then t else u) (mg_trackers m)\<rparr>"

subsection \<open>Links\<close>

definition L7_LINK_MAX :: u32 where "L7_LINK_MAX = 4 * 1024"

definition link_id :: "('f, 'r) conn_tracker_s \<Rightarrow> l7_link_id_s" where
  "link_id t = \<lparr>li_tgid = tk_tgid (ct_id t), li_client_addr = to_client_addr (ct_open_info t),
     li_server_addr = to_server_addr (ct_open_info t), li_l4_role = ct_l4_role t, li_l7_role = ct_l7_role t,
     li_protocol = ct_protocol t\<rparr>"

definition create_l7_link :: "'h histo_ops \<Rightarrow> l7_link_id_s \<Rightarrow> 'h l7_link_s" where
  "create_l7_link histo i = \<lparr>lk_id = i, lk_is_ssl = False, lk_l7_statistic = [], lk_stats = (\<lambda>_. 0),
     lk_latency_buckets = ho_zero histo, lk_latency_sum = 0, lk_last_rcv_data = 0\<rparr>"

definition lkup_l7_link :: "('f, 'r, 'h) l7_mng_s \<Rightarrow> l7_link_id_s \<Rightarrow> 'h l7_link_s option" where
  "lkup_l7_link m i = find (\<lambda>l. lk_id l = i) (mg_l7_links m)"

definition find_l7_link :: "('f, 'r, 'h) l7_mng_s \<Rightarrow> ('f, 'r) conn_tracker_s \<Rightarrow> 'h l7_link_s option" where
  "find_l7_link m t = lkup_l7_link m (link_id t)"

definition set_link :: "'h l7_link_s \<Rightarrow> ('f, 'r, 'h) l7_mng_s \<Rightarrow> ('f, 'r, 'h) l7_mng_s" where
  "set_link l m = m\<lparr>mg_l7_links := map (\<lambda>k. if lk_id k = lk_id l then l else k) (mg_l7_links m)\<rparr>"

definition add_stat :: "l7_stats_t \<Rightarrow> u64 \<Rightarrow> 'h l7_link_s \<Rightarrow> 'h l7_link_s" where
  "add_stat s n l = l\<lparr>lk_stats := (lk_stats l)(s := lk_stats l s + n)\<rparr>"

definition add_l7_link :: "'h histo_ops \<Rightarrow> int \<Rightarrow> ('f, 'r, 'h) l7_mng_s \<Rightarrow> ('f, 'r) conn_tracker_s \<Rightarrow>
  'h l7_link_s option \<times> ('f, 'r, 'h) l7_mng_s" where
  "add_l7_link histo now m t = (case lkup_l7_link m (link_id t) of
     Some l \<Rightarrow> (Some (add_stat OPEN_EVT 1 l), set_link (add_stat OPEN_EVT 1 l) m)
   | None \<Rightarrow>
       (if mg_l7_links_capability m \<ge> L7_LINK_MAX then (None, m)
        else
          let l = create_l7_link histo (link_id t);
              l = l\<lparr>lk_stats := (lk_stats l)(OPEN_EVT := 1), lk_is_ssl := ct_is_ssl t, lk_last_rcv_data := now\<rparr>
          in (Some l, m\<lparr>mg_l7_links := mg_l7_links m @ [l], mg_l7_links_capability := mg_l7_links_capability m + 1\<rparr>)))"

subsection \<open>Addresses of clusters\<close>

record tcp_connect_s =
  tc_role :: nat
  tc_family :: u16
  tc_cip_addr :: bytes
  tc_sip_addr :: bytes
  tc_c_port :: u16
  tc_s_port :: u16

text \<open>The lookups through \<^verbatim>\<open>conntrack\<close> and FlowTracer: which ends are transformed, and the connection with the new ends.\<close>

type_synonym ip_backend = "tcp_connect_s \<Rightarrow> bool \<times> bool \<times> tcp_connect_s"

definition AF_INET :: u16 where "AF_INET = 2"

definition get_ip :: "u16 \<Rightarrow> bytes \<Rightarrow> bytes" where
  "get_ip family ip = (if family = AF_INET then take 4 ip else ip)"

definition set_ip :: "u16 \<Rightarrow> bytes \<Rightarrow> bytes \<Rightarrow> bytes" where
  "set_ip family ip new = (if family = AF_INET then take 4 new @ drop 4 ip else new)"

definition transform_cluster_ip :: "ip_backend \<Rightarrow> ip_backend \<Rightarrow> ('f, 'r, 'h) l7_mng_s \<Rightarrow> ('f, 'r) conn_tracker_s \<Rightarrow> ('f, 'r) conn_tracker_s" where
  "transform_cluster_ip conntrack flowtracer m t =
     (let backend = mg_cluster_ip_backend m; open = ct_open_info t; client = to_client_addr open; server = to_server_addr open;
          family = ca_family client;
          connect = \<lparr>tc_role = (if ct_l4_role t = L4_CLIENT then 1 else 0), tc_family = family,
                     tc_cip_addr = get_ip family (ca_ip client), tc_sip_addr = get_ip family (ca_ip server),
                     tc_c_port = ca_port client, tc_s_port = ca_port server\<rparr>
      in if backend = 0 \<or> backend = 1 \<and> ct_l4_role t \<noteq> L4_CLIENT then t
         else
           let (new_server, new_client, connect) =
                 (if backend = 1 then conntrack connect else if backend = 2 then flowtracer connect else (False, False, connect));
               server = (if new_server then server\<lparr>ca_ip := set_ip (tc_family connect) (ca_ip server) (tc_sip_addr connect),
                                                   ca_port := tc_s_port connect\<rparr> else server);
               client = (if new_client then client\<lparr>ca_ip := set_ip (tc_family connect) (ca_ip client) (tc_cip_addr connect),
                                                   ca_port := tc_c_port connect\<rparr> else client)
           in t\<lparr>ct_open_info := open\<lparr>to_client_addr := client, to_server_addr := server\<rparr>\<rparr>)"

subsection \<open>Messages\<close>

datatype conn_evt_e = CONN_EVT_OPEN | CONN_EVT_CLOSE

record conn_open_s =
  co_client_addr :: conn_addr_s
  co_server_addr :: conn_addr_s
  co_l4_role :: l4_role_t
  co_is_ssl :: bool

record conn_ctl_s =
  cc_conn_id :: tracker_id_s
  cc_timestamp_ns :: u64
  cc_type :: conn_evt_e
  cc_open :: conn_open_s

record conn_stats_s =
  cs_conn_id :: tracker_id_s
  cs_wr_bytes :: u64
  cs_rd_bytes :: u64

record conn_data_msg_s =
  cd_proto :: proto_type_t
  cd_l7_role :: l7_role_t
  cd_direction :: l7_direction_t
  cd_is_ssl :: bool
  cd_conn_id :: tracker_id_s
  cd_timestamp_ns :: u64
  cd_data_size :: u32
  cd_index :: u32

text \<open>The handlers; the only caller ignores their return codes.\<close>

definition reinit_tracker :: "('f, 'r) conn_tracker_s \<Rightarrow> ('f, 'r) conn_tracker_s" where
  "reinit_tracker t =
     (if ct_inactive t
      then t\<lparr>ct_inactive := False, ct_l4_role := L4_ROLE_MAX, ct_l7_role := L7_UNKNOW, ct_open_info := zero_tracker_open\<rparr>
      else t)"

definition set_open_info :: "ip_backend \<Rightarrow> ip_backend \<Rightarrow> ('f, 'r, 'h) l7_mng_s \<Rightarrow> conn_ctl_s \<Rightarrow> ('f, 'r) conn_tracker_s \<Rightarrow> ('f, 'r) conn_tracker_s" where
  "set_open_info conntrack flowtracer m msg t =
     (let t = t\<lparr>ct_is_ssl := co_is_ssl (cc_open msg)\<rparr>;
          t = (if ct_l4_role t = L4_ROLE_MAX then t\<lparr>ct_l4_role := co_l4_role (cc_open msg)\<rparr> else t);
          t = t\<lparr>ct_open_info := (ct_open_info t)\<lparr>to_timestamp_ns := cc_timestamp_ns msg\<rparr>\<rparr>;
          server = to_server_addr (ct_open_info t)
      in if ca_port server = 0 \<and> ca_family server = 0
         then
           let t = t\<lparr>ct_open_info := (ct_open_info t)\<lparr>to_server_addr := co_server_addr (cc_open msg),
                                                    to_client_addr := co_client_addr (cc_open msg)\<rparr>\<rparr>;
               t = transform_cluster_ip conntrack flowtracer m t;
               open = ct_open_info t
           in t\<lparr>ct_open_info := open\<lparr>to_client_addr := (to_client_addr open)\<lparr>ca_port := 0\<rparr>\<rparr>\<rparr>
         else t)"

definition proc_conn_ctl_msg :: "ip_backend \<Rightarrow> ip_backend \<Rightarrow> ('f, 'r, 'h) l7_mng_s \<Rightarrow> conn_ctl_s \<Rightarrow> ('f, 'r, 'h) l7_mng_s" where
  "proc_conn_ctl_msg conntrack flowtracer m msg = (case cc_type msg of
     CONN_EVT_OPEN \<Rightarrow>
       (let (t, m) = add_conn_tracker m (cc_conn_id msg)
        in set_tracker (set_open_info conntrack flowtracer m msg (reinit_tracker t)) m)
   | CONN_EVT_CLOSE \<Rightarrow>
       (case lkup_conn_tracker m (cc_conn_id msg) of
          None \<Rightarrow> m
        | Some t \<Rightarrow> set_tracker (t\<lparr>ct_inactive := True\<rparr>) m))"

text \<open>The tracker is used before it is compared with a null pointer.\<close>

definition proc_conn_stats_msg :: "int \<Rightarrow> ('f, 'r, 'h) l7_mng_s \<Rightarrow> conn_stats_s \<Rightarrow> ('f, 'r, 'h) l7_mng_s well_defined" where
  "proc_conn_stats_msg now m msg = do {
     t \<leftarrow> lkup_conn_tracker m (cs_conn_id msg);
     if ct_protocol t = PROTO_UNKNOW \<or> ct_l7_role t = L7_UNKNOW then Some m
     else case find_l7_link m t of
       None \<Rightarrow> Some m
     | Some l \<Rightarrow>
         (let l = add_stat BYTES_RECV (cs_rd_bytes msg) (add_stat BYTES_SENT (cs_wr_bytes msg) l);
              l = l\<lparr>lk_stats := (lk_stats l)(LAST_BYTES_SENT := cs_wr_bytes msg, LAST_BYTES_RECV := cs_rd_bytes msg),
                   lk_last_rcv_data := now\<rparr>
          in Some (set_link l m)) }"

text \<open>
  The data follow the message in memory; copying more bytes than there are is undefined.  The
  tracker has learned its protocol and role when the link is added.
\<close>

definition learn_protocol :: "conn_data_msg_s \<Rightarrow> ('f, 'r) conn_tracker_s \<Rightarrow> ('f, 'r) conn_tracker_s" where
  "learn_protocol msg t =
     (let t = t\<lparr>ct_is_ssl := cd_is_ssl msg\<rparr>;
          t = (if ct_protocol t = PROTO_UNKNOW then t\<lparr>ct_protocol := cd_proto msg\<rparr> else t)
      in if ct_l7_role t = L7_UNKNOW then t\<lparr>ct_l7_role := cd_l7_role msg\<rparr> else t)"

definition proc_conn_data_msg :: "'h histo_ops \<Rightarrow> int \<Rightarrow> ('f, 'r, 'h) l7_mng_s \<Rightarrow> conn_data_msg_s \<Rightarrow> bytes \<Rightarrow>
  ('f, 'r, 'h) l7_mng_s well_defined" where
  "proc_conn_data_msg histo now m msg buf = (case lkup_conn_tracker m (cd_conn_id msg) of
     None \<Rightarrow> Some m
   | Some t \<Rightarrow>
       (let t = learn_protocol msg t; m = set_tracker t m in
        case add_l7_link histo now m t of
          (None, m) \<Rightarrow> Some m
        | (Some l, m) \<Rightarrow>
            (let l = l\<lparr>lk_last_rcv_data := now\<rparr>; n = unat (cd_data_size msg) in
             case cd_direction msg of
               L7_EGRESS \<Rightarrow>
                 (if length buf < n then None
                  else let (_, ds) = data_stream_add_raw_data (ct_send_stream t) (take n buf) (cd_timestamp_ns msg) (cd_index msg)
                       in Some (set_tracker (t\<lparr>ct_send_stream := ds\<rparr>) (set_link (add_stat DATA_EVT_SENT 1 l) m)))
             | L7_INGRESS \<Rightarrow>
                 (if length buf < n then None
                  else let (_, ds) = data_stream_add_raw_data (ct_recv_stream t) (take n buf) (cd_timestamp_ns msg) (cd_index msg)
                       in Some (set_tracker (t\<lparr>ct_recv_stream := ds\<rparr>) (set_link (add_stat DATA_EVT_RECV 1 l) m)))
             | L7_DIRECT_UNKNOW \<Rightarrow> Some (set_link l m))))"

subsection \<open>A round\<close>

text \<open>The latencies of an array of records, in order.\<close>

definition latencies :: "'r record_data_s slots \<Rightarrow> nat \<Rightarrow> u64 list" where
  "latencies a n = map rcd_latency (List.map_filter a [0..<min n RECORD_BUF_SIZE])"

definition create_l7_api_statistic :: "'h histo_ops \<Rightarrow> bytes \<Rightarrow> 'h l7_api_statistic_s" where
  "create_l7_api_statistic histo api = \<lparr>la_id = snprintf_s MAX_API_LEN api, la_stats = (\<lambda>_. 0),
     la_latency_buckets = ho_zero histo, la_latency_sum = 0\<rparr>"

definition add_api_counts :: "'h histo_ops \<Rightarrow> 'r api_stats \<Rightarrow> 'h l7_api_statistic_s \<Rightarrow> 'h l7_api_statistic_s" where
  "add_api_counts histo item st =
     (let lats = latencies (as_records item) (as_record_buf_size item); s = la_stats st in
      st\<lparr>la_stats := s(REQ_COUNT := s REQ_COUNT + of_nat (as_req_count item), RSP_COUNT := s RSP_COUNT + of_nat (as_resp_count item),
           ERR_COUNT := s ERR_COUNT + of_nat (as_err_count item),
           CLIENT_ERR_COUNT := s CLIENT_ERR_COUNT + of_nat (as_client_err_count item),
           SERVER_ERR_COUNT := s SERVER_ERR_COUNT + of_nat (as_server_err_count item)),
         la_latency_sum := foldl (+) (la_latency_sum st) lats,
         la_latency_buckets := foldl (ho_add_value histo) (la_latency_buckets st) lats\<rparr>)"

fun add_api_statistic :: "'h histo_ops \<Rightarrow> 'r api_stats \<Rightarrow> 'h l7_api_statistic_s list \<Rightarrow> 'h l7_api_statistic_s list" where
  "add_api_statistic histo item [] = [add_api_counts histo item (create_l7_api_statistic histo (as_id item))]"
| "add_api_statistic histo item (st # sts) =
     (if la_id st = as_id item then add_api_counts histo item st # sts else st # add_api_statistic histo item sts)"

definition add_tracker_l7_stats :: "'h histo_ops \<Rightarrow> ('f, 'r) conn_tracker_s \<Rightarrow> 'h l7_link_s \<Rightarrow> 'h l7_link_s" where
  "add_tracker_l7_stats histo t l =
     l\<lparr>lk_l7_statistic := fold (add_api_statistic histo) (rcb_api_stats (ct_records t)) (lk_l7_statistic l)\<rparr>"

definition add_tracker_stats :: "'h histo_ops \<Rightarrow> ('f, 'r) conn_tracker_s \<Rightarrow> ('f, 'r, 'h) l7_mng_s \<Rightarrow> ('f, 'r, 'h) l7_mng_s" where
  "add_tracker_stats histo t m =
     (let rb = ct_records t in
      if rcb_record_buf_size rb = 0 \<and> rcb_req_count rb = 0 \<and> rcb_resp_count rb = 0 then m
      else case find_l7_link m t of
        None \<Rightarrow> m
      | Some l \<Rightarrow>
          (let l = add_stat ERR_COUNT (of_nat (rcb_err_count rb)) (add_stat RSP_COUNT (of_nat (rcb_resp_count rb))
                     (add_stat REQ_COUNT (of_nat (rcb_req_count rb)) l));
               lats = latencies (rcb_records rb) (rcb_record_buf_size rb);
               l = l\<lparr>lk_latency_sum := foldl (+) (lk_latency_sum l) lats,
                    lk_latency_buckets := foldl (ho_add_value histo) (lk_latency_buckets l) lats\<rparr>
           in set_link (add_tracker_l7_stats histo t l) m))"

text \<open>A call that may not return, with a result that may be undefined, and what follows it.\<close>

definition and_then :: "'a well_defined option \<Rightarrow> ('a \<Rightarrow> 'b well_defined option) \<Rightarrow> 'b well_defined option" where
  "and_then r f = do { x \<leftarrow> r; case x of None \<Rightarrow> Some None | Some y \<Rightarrow> f y }"

definition parse_stream :: "('f, 'r) proto_ops \<Rightarrow> message_type_t \<Rightarrow> 'f data_stream_s \<Rightarrow> 'f data_stream_s well_defined option" where
  "parse_stream ops msg_type ds =
     map_option (map_option snd) (data_stream_parse_frames (po_boundary ops) (po_parse ops) msg_type ((), ds))"

definition l7_parser_tracker :: "(proto_type_t \<Rightarrow> ('f, 'r) proto_ops) \<Rightarrow> 'h histo_ops \<Rightarrow> ('f, 'r) conn_tracker_s \<Rightarrow>
  ('f, 'r, 'h) l7_mng_s \<Rightarrow> ('f, 'r, 'h) l7_mng_s well_defined option" where
  "l7_parser_tracker proto histo t m =
     (let ops = proto (ct_protocol t) in
      and_then (parse_stream ops (get_message_type (ct_l7_role t) L7_EGRESS) (ct_send_stream t)) (\<lambda>send.
      and_then (parse_stream ops (get_message_type (ct_l7_role t) L7_INGRESS) (ct_recv_stream t)) (\<lambda>recv.
      let t = t\<lparr>ct_send_stream := send, ct_recv_stream := recv\<rparr> in
      and_then (Some (proto_match_frames ops (get_req_frames t) (get_resp_frames t) (ct_records t))) (\<lambda>(records, req, resp).
      let t = (set_matched_frames req resp t)\<lparr>ct_records := records\<rparr>;
          m = add_tracker_stats histo t m;
          t = destroy_tracker_record t;
          t = t\<lparr>ct_send_stream := data_stream_pop_frames (ct_send_stream t), ct_recv_stream := data_stream_pop_frames (ct_recv_stream t)\<rparr>
      in Some (Some (set_tracker t m))))))"

fun l7_parser_loop :: "(proto_type_t \<Rightarrow> ('f, 'r) proto_ops) \<Rightarrow> 'h histo_ops \<Rightarrow> ('f, 'r) conn_tracker_s list \<Rightarrow>
  ('f, 'r, 'h) l7_mng_s \<Rightarrow> ('f, 'r, 'h) l7_mng_s well_defined option" where
  "l7_parser_loop proto histo [] m = Some (Some m)"
| "l7_parser_loop proto histo (t # ts) m = and_then (l7_parser_tracker proto histo t m) (l7_parser_loop proto histo ts)"

definition l7_parser :: "(proto_type_t \<Rightarrow> ('f, 'r) proto_ops) \<Rightarrow> 'h histo_ops \<Rightarrow> ('f, 'r, 'h) l7_mng_s \<Rightarrow>
  ('f, 'r, 'h) l7_mng_s well_defined option" where
  "l7_parser proto histo m = l7_parser_loop proto histo (mg_trackers m) m"

subsection \<open>Reports and removal\<close>

definition reset_api_stats :: "'h histo_ops \<Rightarrow> 'h l7_api_statistic_s \<Rightarrow> 'h l7_api_statistic_s" where
  "reset_api_stats histo st = st\<lparr>la_latency_buckets := ho_reset histo (la_latency_buckets st), la_latency_sum := 0, la_stats := (\<lambda>_. 0)\<rparr>"

definition reset_link_stats :: "'h histo_ops \<Rightarrow> 'h l7_link_s \<Rightarrow> 'h l7_link_s" where
  "reset_link_stats histo l = l\<lparr>lk_l7_statistic := map (reset_api_stats histo) (lk_l7_statistic l),
     lk_latency_buckets := ho_reset histo (lk_latency_buckets l), lk_latency_sum := 0, lk_stats := (\<lambda>_. 0)\<rparr>"

definition reset_l7_stats :: "'h histo_ops \<Rightarrow> ('f, 'r, 'h) l7_mng_s \<Rightarrow> ('f, 'r, 'h) l7_mng_s" where
  "reset_l7_stats histo m = m\<lparr>mg_l7_links := map (reset_link_stats histo) (mg_l7_links m)\<rparr>"

definition INACTIVE_TIME_SECS :: int where "INACTIVE_TIME_SECS = 5 * 60"

definition is_l7link_inactive :: "int \<Rightarrow> 'h l7_link_s \<Rightarrow> bool" where
  "is_l7link_inactive now l \<longleftrightarrow> now > lk_last_rcv_data l \<and> now - lk_last_rcv_data l \<ge> INACTIVE_TIME_SECS"

text \<open>The loops that remove the links for which a condition holds and count them down.\<close>

fun remove_links :: "('h l7_link_s \<Rightarrow> bool) \<Rightarrow> 'h l7_link_s list \<Rightarrow> u32 \<Rightarrow> 'h l7_link_s list \<times> u32" where
  "remove_links dead [] capability = ([], capability)"
| "remove_links dead (l # ls) capability =
     (if dead l then remove_links dead ls (capability - 1)
      else let (ls, capability) = remove_links dead ls capability in (l # ls, capability))"

definition drop_links :: "('h l7_link_s \<Rightarrow> bool) \<Rightarrow> ('f, 'r, 'h) l7_mng_s \<Rightarrow> ('f, 'r, 'h) l7_mng_s" where
  "drop_links dead m = (let (ls, capability) = remove_links dead (mg_l7_links m) (mg_l7_links_capability m)
     in m\<lparr>mg_l7_links := ls, mg_l7_links_capability := capability\<rparr>)"

definition drop_trackers :: "(('f, 'r) conn_tracker_s \<Rightarrow> bool) \<Rightarrow> ('f, 'r, 'h) l7_mng_s \<Rightarrow> ('f, 'r, 'h) l7_mng_s" where
  "drop_trackers dead m = m\<lparr>mg_trackers := filter (\<lambda>t. \<not> dead t) (mg_trackers m)\<rparr>"

definition aging_l7_stats :: "int \<Rightarrow> ('f, 'r, 'h) l7_mng_s \<Rightarrow> ('f, 'r, 'h) l7_mng_s" where
  "aging_l7_stats now m = drop_links (is_l7link_inactive now) (drop_trackers ct_inactive m)"

definition is_report_tmout :: "int \<Rightarrow> ('f, 'r, 'h) l7_mng_s \<Rightarrow> bool \<times> ('f, 'r, 'h) l7_mng_s" where
  "is_report_tmout now m =
     (if now > mg_last_report m \<and> now - mg_last_report m \<ge> uint (mg_period m) then (True, m\<lparr>mg_last_report := now\<rparr>) else (False, m))"

definition report_l7 :: "'h histo_ops \<Rightarrow> int \<Rightarrow> ('f, 'r, 'h) l7_mng_s \<Rightarrow> ('f, 'r, 'h) l7_mng_s" where
  "report_l7 histo now m = (case is_report_tmout now m of
     (False, m) \<Rightarrow> m
   | (True, m) \<Rightarrow> reset_l7_stats histo (aging_l7_stats now m))"

text \<open>The map of probed processes is a predicate; without the map nothing is removed.\<close>

definition destroy_unprobed_trackers_links :: "(32 word \<Rightarrow> bool) option \<Rightarrow> ('f, 'r, 'h) l7_mng_s \<Rightarrow> ('f, 'r, 'h) l7_mng_s" where
  "destroy_unprobed_trackers_links proc_map m = (case proc_map of
     None \<Rightarrow> m
   | Some probed \<Rightarrow> drop_links (\<lambda>l. \<not> probed (li_tgid (lk_id l))) (drop_trackers (\<lambda>t. \<not> probed (tk_tgid (ct_id t))) m))"

definition destroy_trackers :: "('f, 'r, 'h) l7_mng_s \<Rightarrow> ('f, 'r, 'h) l7_mng_s" where
  "destroy_trackers m = m\<lparr>mg_trackers := []\<rparr>"

definition destroy_links :: "('f, 'r, 'h) l7_mng_s \<Rightarrow> ('f, 'r, 'h) l7_mng_s" where
  "destroy_links m = m\<lparr>mg_l7_links := []\<rparr>"

subsection \<open>What is kept over all messages, rounds and reports\<close>

datatype l7_event = Ctl_Msg conn_ctl_s | Stats_Msg int conn_stats_s | Data_Msg int conn_data_msg_s bytes
  | Parse_Round | Report int | Remove_Unprobed "(32 word \<Rightarrow> bool) option"

text \<open>
  The main loop handles messages, parses and reports; here these happen in any order.  A step
  that does not return, or whose result is undefined, has no successor.
\<close>

inductive l7_step :: "ip_backend \<Rightarrow> ip_backend \<Rightarrow> (proto_type_t \<Rightarrow> ('f, 'r) proto_ops) \<Rightarrow> 'h histo_ops \<Rightarrow>
  ('f, 'r, 'h) l7_mng_s \<Rightarrow> l7_event \<Rightarrow> ('f, 'r, 'h) l7_mng_s \<Rightarrow> bool" for conntrack flowtracer proto histo where
  "l7_step conntrack flowtracer proto histo m (Ctl_Msg msg) (proc_conn_ctl_msg conntrack flowtracer m msg)"
| "proc_conn_stats_msg now m msg = Some m' \<Longrightarrow> l7_step conntrack flowtracer proto histo m (Stats_Msg now msg) m'"
| "proc_conn_data_msg histo now m msg buf = Some m' \<Longrightarrow> l7_step conntrack flowtracer proto histo m (Data_Msg now msg buf) m'"
| "l7_parser proto histo m = Some (Some m') \<Longrightarrow> l7_step conntrack flowtracer proto histo m Parse_Round m'"
| "l7_step conntrack flowtracer proto histo m (Report now) (report_l7 histo now m)"
| "l7_step conntrack flowtracer proto histo m (Remove_Unprobed proc_map) (destroy_unprobed_trackers_links proc_map m)"

inductive_cases l7_stepE: "l7_step conntrack flowtracer proto histo m e m'"

definition l7_mng_ok :: "('f, 'r, 'h) l7_mng_s \<Rightarrow> bool" where
  "l7_mng_ok m \<longleftrightarrow> distinct (map ct_id (mg_trackers m)) \<and> distinct (map lk_id (mg_l7_links m)) \<and>
     unat (mg_l7_links_capability m) = length (mg_l7_links m) \<and> length (mg_l7_links m) \<le> 4096"

definition l7_mng_start :: "('f, 'r, 'h) l7_mng_s \<Rightarrow> bool" where
  "l7_mng_start m \<longleftrightarrow> mg_trackers m = [] \<and> mg_l7_links m = [] \<and> mg_l7_links_capability m = 0"

text \<open>What the changes through pointers keep.\<close>

lemma ids_set_tracker [simp]: "map ct_id (mg_trackers (set_tracker t m)) = map ct_id (mg_trackers m)"
  "mg_l7_links (set_tracker t m) = mg_l7_links m" "mg_l7_links_capability (set_tracker t m) = mg_l7_links_capability m"
  by (auto simp: set_tracker_def)

lemma ids_set_link [simp]: "map lk_id (mg_l7_links (set_link l m)) = map lk_id (mg_l7_links m)"
  "mg_trackers (set_link l m) = mg_trackers m" "mg_l7_links_capability (set_link l m) = mg_l7_links_capability m"
  "length (mg_l7_links (set_link l m)) = length (mg_l7_links m)"
  by (auto simp: set_link_def)

lemma ok_set_tracker [simp]: "l7_mng_ok (set_tracker t m) \<longleftrightarrow> l7_mng_ok m"
  by (simp add: l7_mng_ok_def)

lemma ok_set_link [simp]: "l7_mng_ok (set_link l m) \<longleftrightarrow> l7_mng_ok m"
  by (simp add: l7_mng_ok_def)

lemma lkup_conn_tracker_None: "lkup_conn_tracker m i = None \<longleftrightarrow> i \<notin> set (map ct_id (mg_trackers m))"
  by (auto simp: lkup_conn_tracker_def find_None_iff)

lemma lkup_conn_tracker_Some: "lkup_conn_tracker m i = Some t \<Longrightarrow> ct_id t = i \<and> t \<in> set (mg_trackers m)"
  by (auto simp: lkup_conn_tracker_def find_Some_iff)

lemma lkup_l7_link_None: "lkup_l7_link m i = None \<longleftrightarrow> i \<notin> set (map lk_id (mg_l7_links m))"
  by (auto simp: lkup_l7_link_def find_None_iff)

lemma lkup_l7_link_Some: "lkup_l7_link m i = Some l \<Longrightarrow> lk_id l = i \<and> l \<in> set (mg_l7_links m)"
  by (auto simp: lkup_l7_link_def find_Some_iff)

lemma add_conn_tracker_ok: "l7_mng_ok m \<Longrightarrow> add_conn_tracker m i = (t, m') \<Longrightarrow> l7_mng_ok m'"
  using lkup_conn_tracker_None [of m i]
  by (auto simp: add_conn_tracker_def l7_mng_ok_def create_conn_tracker_def split: option.splits)

lemma proc_conn_ctl_msg_ok: "l7_mng_ok m \<Longrightarrow> l7_mng_ok (proc_conn_ctl_msg conntrack flowtracer m msg)"
  by (auto simp: proc_conn_ctl_msg_def add_conn_tracker_ok split: conn_evt_e.split prod.split option.split)

lemma proc_conn_stats_msg_ok: "l7_mng_ok m \<Longrightarrow> proc_conn_stats_msg now m msg = Some m' \<Longrightarrow> l7_mng_ok m'"
  by (auto simp: proc_conn_stats_msg_def Let_def split: bind_splits if_splits option.splits)

lemma add_l7_link_ok: "l7_mng_ok m \<Longrightarrow> add_l7_link histo now m t = (l, m') \<Longrightarrow> l7_mng_ok m'"
proof (cases "lkup_l7_link m (link_id t)")
  case None
  assume ok: "l7_mng_ok m" and a: "add_l7_link histo now m t = (l, m')"
  show ?thesis
  proof (cases "mg_l7_links_capability m \<ge> L7_LINK_MAX")
    case False
    then have less: "unat (mg_l7_links_capability m) < 4096" by (simp add: L7_LINK_MAX_def not_le word_less_nat_alt)
    then have "unat (mg_l7_links_capability m + 1) = unat (mg_l7_links_capability m) + 1"
      by (simp add: unat_add_exact)
    then show ?thesis using ok a None False less lkup_l7_link_None [of m "link_id t"]
      by (auto simp: add_l7_link_def l7_mng_ok_def create_l7_link_def Let_def)
  qed (use ok a None in \<open>simp add: add_l7_link_def\<close>)
qed (auto simp: add_l7_link_def)

lemma proc_conn_data_msg_ok: "l7_mng_ok m \<Longrightarrow> proc_conn_data_msg histo now m msg buf = Some m' \<Longrightarrow> l7_mng_ok m'"
  using add_l7_link_ok [of "set_tracker t m" histo now "t" for t]
  by (auto simp: proc_conn_data_msg_def Let_def split: option.splits prod.splits l7_direction_t.splits if_splits)

lemma add_tracker_stats_ok [simp]: "l7_mng_ok (add_tracker_stats histo t m) \<longleftrightarrow> l7_mng_ok m"
  by (simp add: add_tracker_stats_def Let_def split: option.split)

lemma and_then_Some: "and_then r f = Some (Some y) \<longleftrightarrow> (\<exists>x. r = Some (Some x) \<and> f x = Some (Some y))"
  by (auto simp: and_then_def split: bind_splits option.splits)

lemma l7_parser_tracker_ok: "l7_mng_ok m \<Longrightarrow> l7_parser_tracker proto histo t m = Some (Some m') \<Longrightarrow> l7_mng_ok m'"
  by (auto simp: l7_parser_tracker_def and_then_Some Let_def split: prod.splits)

lemma l7_parser_loop_ok: "l7_mng_ok m \<Longrightarrow> l7_parser_loop proto histo ts m = Some (Some m') \<Longrightarrow> l7_mng_ok m'"
  by (induction ts arbitrary: m) (auto simp: and_then_Some intro: l7_parser_tracker_ok)

lemma remove_links_eq:
  "length ls \<le> unat c \<Longrightarrow> remove_links dead ls c = (filter (\<lambda>l. \<not> dead l) ls, c - of_nat (length (filter dead ls)))"
proof (induction ls arbitrary: c)
  case (Cons l ls)
  then have "c \<noteq> 0" by auto
  then have "unat (c - 1) = unat c - 1" by (simp add: unat_minus_one)
  then show ?case using Cons by (cases "dead l") (simp_all add: algebra_simps)
qed simp

lemma drop_links_ok: assumes "l7_mng_ok m" shows "l7_mng_ok (drop_links dead m)"
proof -
  let ?ls = "mg_l7_links m" and ?n = "length (filter dead (mg_l7_links m))"
  have n: "?n + length (filter (\<lambda>l. \<not> dead l) ?ls) = length ?ls" by (rule sum_length_filter_compl)
  then have "unat (of_nat ?n :: u32) = ?n" "length ?ls = unat (mg_l7_links_capability m)"
    using assms by (simp_all add: l7_mng_ok_def unat_of_nat take_bit_nat_eq_self_iff)
  then have "unat (mg_l7_links_capability m - of_nat ?n) = unat (mg_l7_links_capability m) - ?n"
    using n by (simp add: unat_sub word_le_nat_alt)
  then show ?thesis using assms n
    by (auto simp: drop_links_def remove_links_eq l7_mng_ok_def distinct_map_filter)
qed

lemma drop_trackers_ok: "l7_mng_ok m \<Longrightarrow> l7_mng_ok (drop_trackers dead m)"
  by (simp add: drop_trackers_def l7_mng_ok_def distinct_map_filter)

lemma report_l7_ok: assumes "l7_mng_ok m" shows "l7_mng_ok (report_l7 histo now m)"
proof -
  have "l7_mng_ok (m\<lparr>mg_last_report := now\<rparr>)" using assms by (simp add: l7_mng_ok_def)
  then have "l7_mng_ok (aging_l7_stats now (m\<lparr>mg_last_report := now\<rparr>))"
    by (simp add: aging_l7_stats_def drop_links_ok drop_trackers_ok)
  moreover have "l7_mng_ok (reset_l7_stats histo m)" if "l7_mng_ok m" for m :: "('a, 'b, 'c) l7_mng_s"
    using that by (simp add: reset_l7_stats_def l7_mng_ok_def reset_link_stats_def comp_def)
  ultimately show ?thesis using assms by (simp add: report_l7_def is_report_tmout_def)
qed

lemma l7_step_ok: "l7_mng_ok m \<Longrightarrow> l7_step conntrack flowtracer proto histo m e m' \<Longrightarrow> l7_mng_ok m'"
  by (auto elim!: l7_stepE simp: l7_parser_def destroy_unprobed_trackers_links_def
      intro: proc_conn_ctl_msg_ok proc_conn_stats_msg_ok proc_conn_data_msg_ok l7_parser_loop_ok report_l7_ok
      intro!: drop_links_ok drop_trackers_ok split: option.split)

interpretation l7_run: history_invariant "l7_step conntrack flowtracer proto histo" l7_mng_start "\<lambda>_. l7_mng_ok"
  for conntrack flowtracer proto histo
  by unfold_locales (simp add: l7_mng_start_def l7_mng_ok_def, rule l7_step_ok)

subsection \<open>Lookups after changes\<close>

lemma find_map_update:
  assumes "\<forall>x \<in> set xs. key (f x) = key x"
  shows "find (\<lambda>x. key x = k) (map f xs) = map_option f (find (\<lambda>x. key x = k) xs)"
  using assms by (induction xs) auto

lemma find_append_eq: "find P (xs @ ys) = (case find P xs of None \<Rightarrow> find P ys | Some x \<Rightarrow> Some x)"
  by (induction xs) auto

lemma lkup_set_tracker:
  "lkup_conn_tracker (set_tracker t m) i = (if i = ct_id t then map_option (\<lambda>_. t) (lkup_conn_tracker m i) else lkup_conn_tracker m i)"
proof -
  have "lkup_conn_tracker (set_tracker t m) i = map_option (\<lambda>u. if ct_id u = ct_id t then t else u) (lkup_conn_tracker m i)"
    unfolding lkup_conn_tracker_def set_tracker_def using find_map_update [of "mg_trackers m" ct_id "\<lambda>u. if ct_id u = ct_id t then t else u" i] by simp
  then show ?thesis by (cases "lkup_conn_tracker m i") (auto dest: lkup_conn_tracker_Some)
qed

lemma lkup_set_link:
  "lkup_l7_link (set_link l m) i = (if i = lk_id l then map_option (\<lambda>_. l) (lkup_l7_link m i) else lkup_l7_link m i)"
proof -
  have "lkup_l7_link (set_link l m) i = map_option (\<lambda>k. if lk_id k = lk_id l then l else k) (lkup_l7_link m i)"
    unfolding lkup_l7_link_def set_link_def using find_map_update [of "mg_l7_links m" lk_id "\<lambda>k. if lk_id k = lk_id l then l else k" i] by simp
  then show ?thesis by (cases "lkup_l7_link m i") (auto dest: lkup_l7_link_Some)
qed

lemma lkup_frame [simp]:
  "lkup_conn_tracker (set_link l m) i = lkup_conn_tracker m i" "lkup_l7_link (set_tracker t m) j = lkup_l7_link m j"
  by (simp_all add: lkup_conn_tracker_def lkup_l7_link_def)

lemma add_stat_sel [simp]: "lk_id (add_stat s n l) = lk_id l" "lk_stats (add_stat s n l) = (lk_stats l)(s := lk_stats l s + n)"
  by (simp_all add: add_stat_def)

subsection \<open>Opening a descriptor again\<close>

text \<open>Everything of a tracker but the description of its socket.\<close>

definition same_traffic :: "('f, 'r) conn_tracker_s \<Rightarrow> ('f, 'r) conn_tracker_s \<Rightarrow> bool" where
  "same_traffic t u \<longleftrightarrow> ct_id u = ct_id t \<and> ct_inactive u = ct_inactive t \<and> ct_l7_role u = ct_l7_role t \<and>
     ct_protocol u = ct_protocol t \<and> ct_send_stream u = ct_send_stream t \<and> ct_recv_stream u = ct_recv_stream t \<and>
     ct_records u = ct_records t"

lemma same_traffic_trans: "same_traffic t u \<Longrightarrow> same_traffic u v \<Longrightarrow> same_traffic t v"
  by (simp add: same_traffic_def)

lemma same_traffic_update: "same_traffic t (t\<lparr>ct_open_info := x\<rparr>)" "same_traffic t (t\<lparr>ct_is_ssl := b\<rparr>)"
  "same_traffic t (t\<lparr>ct_l4_role := r\<rparr>)" "same_traffic t t"
  by (simp_all add: same_traffic_def)

lemma same_traffic_transform: "same_traffic t (transform_cluster_ip conntrack flowtracer m t)"
  by (simp add: transform_cluster_ip_def Let_def same_traffic_update split: prod.split)

lemma same_traffic_set_open_info: "same_traffic t (set_open_info conntrack flowtracer m msg t)"
proof -
  define b where "b = (let a = t\<lparr>ct_is_ssl := co_is_ssl (cc_open msg)\<rparr>
    in if ct_l4_role a = L4_ROLE_MAX then a\<lparr>ct_l4_role := co_l4_role (cc_open msg)\<rparr> else a)"
  define c where "c = b\<lparr>ct_open_info := (ct_open_info b)\<lparr>to_timestamp_ns := cc_timestamp_ns msg\<rparr>\<rparr>"
  have "same_traffic t b" by (simp add: same_traffic_def b_def Let_def)
  then have c: "same_traffic t c" unfolding c_def by (rule same_traffic_trans) (rule same_traffic_update)
  have d: "same_traffic t ((transform_cluster_ip conntrack flowtracer m (c\<lparr>ct_open_info := y\<rparr>))\<lparr>ct_open_info := x\<rparr>)" for x y
    by (rule same_traffic_trans [OF same_traffic_trans [OF same_traffic_trans [OF c same_traffic_update(1)] same_traffic_transform]
          same_traffic_update(1)])
  have "set_open_info conntrack flowtracer m msg t =
     (let server = to_server_addr (ct_open_info c)
      in if ca_port server = 0 \<and> ca_family server = 0
         then
           let t = c\<lparr>ct_open_info := (ct_open_info c)\<lparr>to_server_addr := co_server_addr (cc_open msg),
                                                    to_client_addr := co_client_addr (cc_open msg)\<rparr>\<rparr>;
               t = transform_cluster_ip conntrack flowtracer m t;
               open = ct_open_info t
           in t\<lparr>ct_open_info := open\<lparr>to_client_addr := (to_client_addr open)\<lparr>ca_port := 0\<rparr>\<rparr>\<rparr>
         else c)"
    unfolding set_open_info_def c_def b_def Let_def ..
  then show ?thesis using c d by (simp only: Let_def) (simp only: if_split, blast)
qed

lemma set_tracker_twice: "ct_id u = ct_id t \<Longrightarrow> set_tracker u (set_tracker t m) = set_tracker u m"
  by (simp add: set_tracker_def comp_def cong: if_cong)

lemma reopened_tracker:
  assumes "lkup_conn_tracker m i = Some t" "cc_type close = CONN_EVT_CLOSE" "cc_type open' = CONN_EVT_OPEN"
    "cc_conn_id close = i" "cc_conn_id open' = i"
  shows "\<exists>t'. lkup_conn_tracker (proc_conn_ctl_msg conntrack flowtracer (proc_conn_ctl_msg conntrack flowtracer m close) open') i = Some t' \<and>
    same_traffic (reinit_tracker (t\<lparr>ct_inactive := True\<rparr>)) t'"
proof -
  have id: "ct_id t = i" using lkup_conn_tracker_Some [OF assms(1)] by simp
  let ?t = "reinit_tracker (t\<lparr>ct_inactive := True\<rparr>)" and ?m = "set_tracker (t\<lparr>ct_inactive := True\<rparr>) m"
  have "proc_conn_ctl_msg conntrack flowtracer m close = ?m" using assms(1,2,4) by (simp add: proc_conn_ctl_msg_def)
  moreover have l: "lkup_conn_tracker ?m i = Some (t\<lparr>ct_inactive := True\<rparr>)" using assms(1) id by (simp add: lkup_set_tracker)
  moreover have "same_traffic ?t (set_open_info conntrack flowtracer ?m open' ?t)" by (rule same_traffic_set_open_info)
  moreover have "ct_id (set_open_info conntrack flowtracer ?m open' ?t) = i"
    using calculation(3) id by (simp add: same_traffic_def reinit_tracker_def)
  ultimately show ?thesis
    using assms(3,5) by (simp add: proc_conn_ctl_msg_def add_conn_tracker_def lkup_set_tracker)
qed

subsection \<open>Statistics of sockets\<close>

text \<open>The counters of a socket and the message about them, in \<^verbatim>\<open>l7probe/session_conn.c\<close>.\<close>

record sock_conn_s =
  sc_id :: tracker_id_s
  sc_wr_bytes :: u64
  sc_rd_bytes :: u64

definition submit_sock_conn_stats :: "sock_conn_s \<Rightarrow> l7_direction_t \<Rightarrow> u64 \<Rightarrow> sock_conn_s \<times> conn_stats_s option" where
  "submit_sock_conn_stats sock_conn direction bytes_count =
     (if direction = L7_DIRECT_UNKNOW then (sock_conn, None)
      else
        let sock_conn = (if direction = L7_EGRESS then sock_conn\<lparr>sc_wr_bytes := sc_wr_bytes sock_conn + bytes_count\<rparr>
                         else sock_conn\<lparr>sc_rd_bytes := sc_rd_bytes sock_conn + bytes_count\<rparr>)
        in (sock_conn, Some \<lparr>cs_conn_id = sc_id sock_conn, cs_wr_bytes = sc_wr_bytes sock_conn, cs_rd_bytes = sc_rd_bytes sock_conn\<rparr>))"

text \<open>Writing to a socket, and the tracker handling the messages about it.\<close>

fun count_writes :: "int \<Rightarrow> sock_conn_s \<Rightarrow> u64 list \<Rightarrow> ('f, 'r, 'h) l7_mng_s \<Rightarrow> ('f, 'r, 'h) l7_mng_s well_defined" where
  "count_writes now sock_conn [] m = Some m"
| "count_writes now sock_conn (n # ns) m = (case submit_sock_conn_stats sock_conn L7_EGRESS n of
     (sock_conn, None) \<Rightarrow> count_writes now sock_conn ns m
   | (sock_conn, Some msg) \<Rightarrow> do { m \<leftarrow> proc_conn_stats_msg now m msg; count_writes now sock_conn ns m })"

lemma stats_msg_counts:
  assumes "lkup_conn_tracker m (cs_conn_id msg) = Some t" "ct_protocol t \<noteq> PROTO_UNKNOW" "ct_l7_role t \<noteq> L7_UNKNOW"
    "find_l7_link m t = Some l"
  shows "\<exists>m' l'. proc_conn_stats_msg now m msg = Some m' \<and> find_l7_link m' t = Some l' \<and>
    lk_stats l' BYTES_SENT = lk_stats l BYTES_SENT + cs_wr_bytes msg \<and> lkup_conn_tracker m' = lkup_conn_tracker m"
proof -
  let ?a = "add_stat BYTES_RECV (cs_rd_bytes msg) (add_stat BYTES_SENT (cs_wr_bytes msg) l)"
  let ?l = "?a\<lparr>lk_stats := (lk_stats ?a)(LAST_BYTES_SENT := cs_wr_bytes msg, LAST_BYTES_RECV := cs_rd_bytes msg), lk_last_rcv_data := now\<rparr>"
  have "lk_id ?l = link_id t" using assms(4) lkup_l7_link_Some [of m "link_id t" l] by (simp add: find_l7_link_def)
  then have "find_l7_link (set_link ?l m) t = Some ?l" using assms(4) by (simp add: find_l7_link_def lkup_set_link)
  moreover have "proc_conn_stats_msg now m msg = Some (set_link ?l m)"
    using assms by (simp add: proc_conn_stats_msg_def Let_def)
  moreover have "lkup_conn_tracker (set_link ?l m) = lkup_conn_tracker m" by (simp add: fun_eq_iff)
  moreover have "lk_stats ?l BYTES_SENT = lk_stats l BYTES_SENT + cs_wr_bytes msg" by simp
  ultimately show ?thesis by blast
qed

lemma count_writes_sum:
  assumes "lkup_conn_tracker m (sc_id sc) = Some t" "ct_protocol t \<noteq> PROTO_UNKNOW" "ct_l7_role t \<noteq> L7_UNKNOW"
    "find_l7_link m t = Some l"
  shows "\<exists>m' l'. count_writes now sc ns m = Some m' \<and> find_l7_link m' t = Some l' \<and>
    lk_stats l' BYTES_SENT = lk_stats l BYTES_SENT + (\<Sum>k\<leftarrow>[1..<Suc (length ns)]. sc_wr_bytes sc + sum_list (take k ns))"
  using assms
proof (induction ns arbitrary: sc m l)
  case (Cons n ns)
  let ?sc = "sc\<lparr>sc_wr_bytes := sc_wr_bytes sc + n\<rparr>"
  let ?msg = "\<lparr>cs_conn_id = sc_id sc, cs_wr_bytes = sc_wr_bytes sc + n, cs_rd_bytes = sc_rd_bytes sc\<rparr>"
  from stats_msg_counts [of m ?msg t l now] Cons.prems obtain m1 l1 where
    1: "proc_conn_stats_msg now m ?msg = Some m1" "find_l7_link m1 t = Some l1"
      "lk_stats l1 BYTES_SENT = lk_stats l BYTES_SENT + (sc_wr_bytes sc + n)" "lkup_conn_tracker m1 = lkup_conn_tracker m"
    by auto
  then have c: "count_writes now sc (n # ns) m = count_writes now ?sc ns m1" by (simp add: submit_sock_conn_stats_def)
  have s: "[1..<Suc (length (n # ns))] = 1 # map Suc [1..<Suc (length ns)]"
    by (subst upt_conv_Cons) (simp_all add: map_Suc_upt del: upt_Suc)
  from Cons.IH [of m1 ?sc l1] Cons.prems(1-3) 1 obtain m' l' where
    "count_writes now ?sc ns m1 = Some m'" "find_l7_link m' t = Some l'"
    "lk_stats l' BYTES_SENT = lk_stats l1 BYTES_SENT + (\<Sum>k\<leftarrow>[1..<Suc (length ns)]. sc_wr_bytes sc + n + sum_list (take k ns))"
    by auto
  then show ?case unfolding c s using 1(3) by (intro exI [of _ m'] exI [of _ l']) (simp add: comp_def add.assoc)
qed simp

subsection \<open>What a data message does\<close>

definition receive_data :: "conn_data_msg_s \<Rightarrow> bytes \<Rightarrow> ('f, 'r) conn_tracker_s \<Rightarrow> ('f, 'r) conn_tracker_s" where
  "receive_data msg data t =
     (if cd_direction msg = L7_EGRESS
      then t\<lparr>ct_send_stream := snd (data_stream_add_raw_data (ct_send_stream t) data (cd_timestamp_ns msg) (cd_index msg))\<rparr>
      else t\<lparr>ct_recv_stream := snd (data_stream_add_raw_data (ct_recv_stream t) data (cd_timestamp_ns msg) (cd_index msg))\<rparr>)"

definition data_stat :: "l7_direction_t \<Rightarrow> l7_stats_t" where
  "data_stat dir = (if dir = L7_EGRESS then DATA_EVT_SENT else DATA_EVT_RECV)"

text \<open>The link of a tracker as it is, or as it is created.\<close>

definition link_or_new :: "'h histo_ops \<Rightarrow> ('f, 'r, 'h) l7_mng_s \<Rightarrow> l7_link_id_s \<Rightarrow> 'h l7_link_s" where
  "link_or_new histo m i = (case lkup_l7_link m i of None \<Rightarrow> create_l7_link histo i | Some l \<Rightarrow> l)"

lemma add_l7_link_finds:
  assumes "lkup_l7_link m (link_id t) \<noteq> None \<or> mg_l7_links_capability m < L7_LINK_MAX"
  shows "\<exists>l m'. add_l7_link histo now m t = (Some l, m') \<and> lkup_l7_link m' (link_id t) = Some l \<and> lk_id l = link_id t \<and>
    lk_stats l = (lk_stats (link_or_new histo m (link_id t)))(OPEN_EVT := lk_stats (link_or_new histo m (link_id t)) OPEN_EVT + 1) \<and>
    lk_latency_sum l = lk_latency_sum (link_or_new histo m (link_id t)) \<and> mg_trackers m' = mg_trackers m"
proof (cases "lkup_l7_link m (link_id t)")
  case None
  let ?c = "create_l7_link histo (link_id t)"
  let ?l = "?c\<lparr>lk_stats := (lk_stats ?c)(OPEN_EVT := 1), lk_is_ssl := ct_is_ssl t, lk_last_rcv_data := now\<rparr>"
  let ?m = "m\<lparr>mg_l7_links := mg_l7_links m @ [?l], mg_l7_links_capability := mg_l7_links_capability m + 1\<rparr>"
  have "add_l7_link histo now m t = (Some ?l, ?m)" using None assms by (simp add: add_l7_link_def Let_def not_le)
  moreover have "lkup_l7_link ?m (link_id t) = Some ?l"
    using None by (simp add: lkup_l7_link_def find_append_eq create_l7_link_def)
  ultimately show ?thesis using None by (simp add: link_or_new_def create_l7_link_def)
next
  case (Some k)
  then show ?thesis using lkup_l7_link_Some [OF Some]
    by (simp add: add_l7_link_def lkup_set_link link_or_new_def) (simp add: add_stat_def)
qed

lemma data_msg_step:
  assumes "lkup_conn_tracker m (cd_conn_id msg) = Some t" "cd_direction msg \<noteq> L7_DIRECT_UNKNOW" "unat (cd_data_size msg) \<le> length buf"
    and u: "u = learn_protocol msg t" and k: "k = link_or_new histo m (link_id u)"
    and room: "lkup_l7_link m (link_id u) \<noteq> None \<or> mg_l7_links_capability m < L7_LINK_MAX"
  shows "\<exists>m' l. proc_conn_data_msg histo now m msg buf = Some m' \<and>
    lkup_conn_tracker m' (cd_conn_id msg) = Some (receive_data msg (take (unat (cd_data_size msg)) buf) u) \<and>
    lkup_l7_link m' (link_id u) = Some l \<and> lk_latency_sum l = lk_latency_sum k \<and>
    (\<forall>s. s \<noteq> OPEN_EVT \<longrightarrow> lk_stats l s = (if s = data_stat (cd_direction msg) then lk_stats k s + 1 else lk_stats k s))"
proof -
  have id: "ct_id u = cd_conn_id msg" using lkup_conn_tracker_Some [OF assms(1)] by (simp add: u learn_protocol_def Let_def)
  have "lkup_l7_link (set_tracker u m) (link_id u) \<noteq> None \<or> mg_l7_links_capability (set_tracker u m) < L7_LINK_MAX"
    using room by simp
  from add_l7_link_finds [OF this, of histo now] obtain l m1 where l: "add_l7_link histo now (set_tracker u m) u = (Some l, m1)"
    "lkup_l7_link m1 (link_id u) = Some l" "lk_id l = link_id u" "lk_latency_sum l = lk_latency_sum k"
    "lk_stats l = (lk_stats k)(OPEN_EVT := lk_stats k OPEN_EVT + 1)" "mg_trackers m1 = mg_trackers (set_tracker u m)"
    by (auto simp: k link_or_new_def)
  let ?l = "add_stat (data_stat (cd_direction msg)) 1 (l\<lparr>lk_last_rcv_data := now\<rparr>)"
  let ?t = "receive_data msg (take (unat (cd_data_size msg)) buf) u" and ?m = "set_link (add_stat (data_stat (cd_direction msg)) 1 (l\<lparr>lk_last_rcv_data := now\<rparr>)) m1"
  have p: "proc_conn_data_msg histo now m msg buf = Some (set_tracker ?t ?m)"
    using assms(1-3) l(1) unfolding proc_conn_data_msg_def u [symmetric]
    by (cases "cd_direction msg") (simp_all add: u [symmetric] Let_def receive_data_def data_stat_def split: prod.split)
  have "lkup_conn_tracker ?m (cd_conn_id msg) = Some u"
    using l(6) id assms(1) lkup_set_tracker [of u m "cd_conn_id msg"] by (simp add: lkup_conn_tracker_def)
  moreover have "ct_id ?t = cd_conn_id msg" using id by (simp add: receive_data_def)
  ultimately have "lkup_conn_tracker (set_tracker ?t ?m) (cd_conn_id msg) = Some ?t" by (simp add: lkup_set_tracker)
  moreover have "lkup_l7_link (set_tracker ?t ?m) (link_id u) = Some ?l" using l(2,3) by (simp add: lkup_set_link)
  moreover have "\<forall>s. s \<noteq> OPEN_EVT \<longrightarrow> lk_stats ?l s = (if s = data_stat (cd_direction msg) then lk_stats k s + 1 else lk_stats k s)"
    using l(5) by simp
  moreover have "lk_latency_sum ?l = lk_latency_sum k" using l(4) by (simp add: add_stat_def)
  ultimately show ?thesis using p by blast
qed

subsection \<open>Properties\<close>

text \<open>
  C12: Whatever messages arrive and however rounds, reports and removals are mixed with them, the
  probe holds at most 4096 links, its counter is exactly the number of links, so that it does not
  run out while links are free, and no two links or two trackers have the same key.
\<close>

theorem l7_links_bounded:
  assumes "run (l7_step conntrack flowtracer proto histo) m es m'" "l7_mng_start m"
  shows "length (mg_l7_links m') \<le> 4096 \<and> unat (mg_l7_links_capability m') = length (mg_l7_links m') \<and>
    distinct (map lk_id (mg_l7_links m')) \<and> distinct (map ct_id (mg_trackers m'))"
  using l7_run.inv_run [OF assms] by (simp add: l7_mng_ok_def)

definition sample_mng :: "('f, 'r, 'h) l7_mng_s" where
  "sample_mng = \<lparr>mg_last_report = 0, mg_l7_links_capability = 0, mg_period = 30, mg_cluster_ip_backend = 0, mg_trackers = [], mg_l7_links = []\<rparr>"

definition sample_id :: tracker_id_s where
  "sample_id = \<lparr>tk_tgid = 1, tk_fd = 3\<rparr>"

definition sample_ctl :: "conn_evt_e \<Rightarrow> conn_ctl_s" where
  "sample_ctl type = \<lparr>cc_conn_id = sample_id, cc_timestamp_ns = 1, cc_type = type,
     cc_open = \<lparr>co_client_addr = zero_conn_addr, co_server_addr = zero_conn_addr\<lparr>ca_family := 2, ca_port := 6379\<rparr>,
                co_l4_role = L4_CLIENT, co_is_ssl = False\<rparr>\<rparr>"

definition sample_data :: "l7_direction_t \<Rightarrow> bytes \<Rightarrow> conn_data_msg_s" where
  "sample_data dir bs = \<lparr>cd_proto = PROTO_REDIS, cd_l7_role = L7_CLIENT, cd_direction = dir, cd_is_ssl = False, cd_conn_id = sample_id,
     cd_timestamp_ns = 5, cd_data_size = of_nat (length bs), cd_index = 1\<rparr>"

definition sample_histo :: "unit histo_ops" where
  "sample_histo = \<lparr>ho_zero = (), ho_add_value = (\<lambda>_ _. ()), ho_reset = id\<rparr>"

definition no_backend :: ip_backend where
  "no_backend c = (False, False, c)"

definition opened_mng :: "('f, 'r, 'h) l7_mng_s" where
  "opened_mng = proc_conn_ctl_msg no_backend no_backend sample_mng (sample_ctl CONN_EVT_OPEN)"

lemmas sample_defs = sample_mng_def sample_id_def sample_ctl_def sample_data_def sample_histo_def no_backend_def opened_mng_def

definition opened_tracker :: "('f, 'r) conn_tracker_s" where
  "opened_tracker = (create_conn_tracker sample_id)\<lparr>ct_l4_role := L4_CLIENT, ct_open_info := \<lparr>to_timestamp_ns = 1,
     to_client_addr = zero_conn_addr, to_server_addr = zero_conn_addr\<lparr>ca_family := 2, ca_port := 6379\<rparr>\<rparr>\<rparr>"

lemma opened_mng_tracker: "lkup_conn_tracker opened_mng sample_id = Some opened_tracker"
  by (simp add: sample_defs opened_tracker_def proc_conn_ctl_msg_def add_conn_tracker_def lkup_conn_tracker_def set_tracker_def set_open_info_def
      reinit_tracker_def create_conn_tracker_def zero_tracker_open_def zero_conn_addr_def transform_cluster_ip_def Let_def)

lemma opened_mng_links: "mg_l7_links opened_mng = []" "mg_l7_links_capability opened_mng = 0"
  by (simp_all add: sample_defs proc_conn_ctl_msg_def add_conn_tracker_def lkup_conn_tracker_def Let_def)

definition data_tracker :: "('f, 'r) conn_tracker_s" where
  "data_tracker = receive_data (sample_data L7_EGRESS [65]) [65] (learn_protocol (sample_data L7_EGRESS [65]) opened_tracker)"

lemma opened_then_data:
  "\<exists>m l. proc_conn_data_msg histo now (opened_mng :: ('f, 'r, 'h) l7_mng_s) (sample_data L7_EGRESS [65]) [65] = Some m \<and>
    lkup_conn_tracker m sample_id = Some data_tracker \<and> find_l7_link m data_tracker = Some l \<and> lk_stats l BYTES_SENT = 0"
proof -
  let ?d = "sample_data L7_EGRESS [65]" and ?m = "opened_mng :: ('f, 'r, 'h) l7_mng_s"
  let ?u = "learn_protocol ?d (opened_tracker :: ('f, 'r) conn_tracker_s)"
  have d: "cd_conn_id ?d = sample_id" "cd_direction ?d = L7_EGRESS" "cd_data_size ?d = 1" by (simp_all add: sample_data_def)
  have n: "lkup_l7_link ?m i = None" for i by (simp add: lkup_l7_link_def opened_mng_links)
  have a: "lkup_conn_tracker ?m (cd_conn_id ?d) = Some opened_tracker" "cd_direction ?d \<noteq> L7_DIRECT_UNKNOW"
    "unat (cd_data_size ?d) \<le> length [65 :: u8]" using d opened_mng_tracker by simp_all
  have "lkup_l7_link ?m (link_id ?u) \<noteq> None \<or> mg_l7_links_capability ?m < L7_LINK_MAX"
    by (simp add: opened_mng_links L7_LINK_MAX_def)
  from data_msg_step [OF a refl refl this, of histo now] obtain m l where "proc_conn_data_msg histo now ?m ?d [65] = Some m"
    "lkup_conn_tracker m (cd_conn_id ?d) = Some (receive_data ?d (take (unat (cd_data_size ?d)) [65]) ?u)"
    "lkup_l7_link m (link_id ?u) = Some l" "\<forall>s. s \<noteq> OPEN_EVT \<longrightarrow> lk_stats l s = (if s = data_stat (cd_direction ?d)
       then lk_stats (link_or_new histo ?m (link_id ?u)) s + 1 else lk_stats (link_or_new histo ?m (link_id ?u)) s)"
    by blast
  then have "proc_conn_data_msg histo now ?m ?d [65] = Some m" "lkup_conn_tracker m sample_id = Some data_tracker"
    "lkup_l7_link m (link_id ?u) = Some l" "lk_stats l BYTES_SENT = lk_stats (link_or_new histo ?m (link_id ?u)) BYTES_SENT"
    using d by (simp_all add: data_stat_def data_tracker_def)
  moreover have "lk_stats (link_or_new histo ?m (link_id ?u)) BYTES_SENT = 0" by (simp add: link_or_new_def n create_l7_link_def)
  moreover have "link_id (data_tracker :: ('f, 'r) conn_tracker_s) = link_id ?u" by (simp add: data_tracker_def receive_data_def link_id_def)
  ultimately show ?thesis by (auto simp: find_l7_link_def)
qed

theorem l7_links_bounded_witness:
  "\<exists>m'. run (l7_step no_backend no_backend (\<lambda>_. unsupported_ops :: (unit, unit) proto_ops) sample_histo) sample_mng
       [Ctl_Msg (sample_ctl CONN_EVT_OPEN), Data_Msg 9 (sample_data L7_EGRESS [65]) [65]] m' \<and>
     mg_l7_links m' \<noteq> [] \<and> length (mg_l7_links m') \<le> 4096"
proof -
  obtain m :: "(unit, unit, unit) l7_mng_s" and l where
    m: "proc_conn_data_msg sample_histo 9 opened_mng (sample_data L7_EGRESS [65]) [65] = Some m" "find_l7_link m data_tracker = Some l"
    using opened_then_data [of sample_histo 9] by blast
  then have r: "run (l7_step no_backend no_backend (\<lambda>_. unsupported_ops :: (unit, unit) proto_ops) sample_histo) sample_mng
       [Ctl_Msg (sample_ctl CONN_EVT_OPEN), Data_Msg 9 (sample_data L7_EGRESS [65]) [65]] m"
    unfolding run_Cons_iff run_Nil_iff opened_mng_def by (blast intro: l7_step.intros)
  have "l7_mng_start (sample_mng :: (unit, unit, unit) l7_mng_s)" by (simp add: l7_mng_start_def sample_mng_def)
  with l7_links_bounded [OF r] r lkup_l7_link_Some [OF m(2) [unfolded find_l7_link_def]] show ?thesis by auto
qed

text \<open>
  C26: After a connection was closed and a report has removed its tracker, a message with the
  statistics of the connection makes the probe use a null pointer: the tracker is used before it
  is tested.
\<close>

theorem stats_after_close_undefined:
  assumes "cc_type close = CONN_EVT_CLOSE" "cs_conn_id msg = cc_conn_id close"
    "mg_last_report m < now" "uint (mg_period m) \<le> now - mg_last_report m"
  shows "proc_conn_stats_msg later (report_l7 histo now (proc_conn_ctl_msg conntrack flowtracer m close)) msg = None"
proof -
  let ?m = "proc_conn_ctl_msg conntrack flowtracer m close" and ?i = "cc_conn_id close"
  have inactive: "\<forall>t \<in> set (mg_trackers ?m). ct_id t = ?i \<longrightarrow> ct_inactive t"
  proof (cases "lkup_conn_tracker m ?i")
    case None
    then have "?i \<notin> ct_id ` set (mg_trackers m)" using lkup_conn_tracker_None [of m ?i] by simp
    then have "\<forall>t \<in> set (mg_trackers m). ct_id t \<noteq> ?i" by force
    then show ?thesis using None assms(1) by (simp add: proc_conn_ctl_msg_def)
  next
    case (Some t)
    have "ct_id t = ?i" using lkup_conn_tracker_Some [OF Some] by simp
    with Some assms(1) show ?thesis by (auto simp: proc_conn_ctl_msg_def set_tracker_def)
  qed
  have "mg_last_report ?m = mg_last_report m" "mg_period ?m = mg_period m"
    using assms(1) by (simp_all add: proc_conn_ctl_msg_def set_tracker_def split: option.split)
  then have "report_l7 histo now ?m = reset_l7_stats histo (aging_l7_stats now (?m\<lparr>mg_last_report := now\<rparr>))"
    using assms(3,4) by (simp add: report_l7_def is_report_tmout_def)
  then have "mg_trackers (report_l7 histo now ?m) = filter (\<lambda>t. \<not> ct_inactive t) (mg_trackers ?m)"
    by (simp add: reset_l7_stats_def aging_l7_stats_def drop_links_def drop_trackers_def split: prod.split)
  with inactive have "lkup_conn_tracker (report_l7 histo now ?m) ?i = None"
    by (subst lkup_conn_tracker_None) auto
  then show ?thesis using assms(2) by (simp add: proc_conn_stats_msg_def)
qed

theorem stats_after_close_undefined_witness:
  "lkup_conn_tracker (opened_mng :: (unit, unit, unit) l7_mng_s) sample_id \<noteq> None \<and>
   proc_conn_stats_msg 60 (report_l7 sample_histo 40 (proc_conn_ctl_msg no_backend no_backend
     (opened_mng :: (unit, unit, unit) l7_mng_s) (sample_ctl CONN_EVT_CLOSE)))
     \<lparr>cs_conn_id = sample_id, cs_wr_bytes = 10, cs_rd_bytes = 0\<rparr> = None"
proof -
  have "mg_last_report (opened_mng :: (unit, unit, unit) l7_mng_s) = 0" "mg_period (opened_mng :: (unit, unit, unit) l7_mng_s) = 30"
    by (simp_all add: sample_defs proc_conn_ctl_msg_def set_tracker_def add_conn_tracker_def lkup_conn_tracker_def Let_def)
  then have "proc_conn_stats_msg 60 (report_l7 sample_histo 40 (proc_conn_ctl_msg no_backend no_backend
     (opened_mng :: (unit, unit, unit) l7_mng_s) (sample_ctl CONN_EVT_CLOSE)))
     \<lparr>cs_conn_id = sample_id, cs_wr_bytes = 10, cs_rd_bytes = 0\<rparr> = None"
    by (intro stats_after_close_undefined) (simp_all add: sample_ctl_def)
  moreover have "lkup_conn_tracker (opened_mng :: (unit, unit, unit) l7_mng_s) sample_id = Some opened_tracker"
    by (rule opened_mng_tracker)
  ultimately show ?thesis by simp
qed

text \<open>
  C27: The bytes of a link are counted several times over: a socket reports the total it has
  written so far with every write, and the tracker adds each of these totals.
\<close>

theorem bytes_sent_overcounted:
  assumes "lkup_conn_tracker m (sc_id sc) = Some t" "ct_protocol t \<noteq> PROTO_UNKNOW" "ct_l7_role t \<noteq> L7_UNKNOW"
    "find_l7_link m t = Some l"
  shows "\<exists>m' l'. count_writes now sc ns m = Some m' \<and> find_l7_link m' t = Some l' \<and>
    lk_stats l' BYTES_SENT = lk_stats l BYTES_SENT + (\<Sum>k\<leftarrow>[1..<Suc (length ns)]. sc_wr_bytes sc + sum_list (take k ns))"
  by (rule count_writes_sum [OF assms])

text \<open>
  C33: A descriptor that is opened again after its connection was closed keeps the protocol, the
  bytes and the frames of the old connection; only the roles and the addresses are new.
\<close>

theorem reopened_keeps_streams:
  assumes "lkup_conn_tracker m i = Some t" "cc_type close = CONN_EVT_CLOSE" "cc_type open' = CONN_EVT_OPEN"
    "cc_conn_id close = i" "cc_conn_id open' = i"
  shows "\<exists>t'. lkup_conn_tracker (proc_conn_ctl_msg conntrack flowtracer (proc_conn_ctl_msg conntrack flowtracer m close) open') i = Some t' \<and>
    ct_protocol t' = ct_protocol t \<and> ct_send_stream t' = ct_send_stream t \<and> ct_recv_stream t' = ct_recv_stream t \<and>
    ct_l7_role t' = L7_UNKNOW \<and> \<not> ct_inactive t'"
  using reopened_tracker [OF assms, of conntrack flowtracer] by (auto simp: same_traffic_def reinit_tracker_def)

theorem bytes_sent_overcounted_witness:
  "\<exists>m l m' l'. proc_conn_data_msg sample_histo 9 (opened_mng :: (unit, unit, unit) l7_mng_s) (sample_data L7_EGRESS [65]) [65] = Some m \<and>
     find_l7_link m data_tracker = Some l \<and> lk_stats l BYTES_SENT = 0 \<and>
     count_writes 10 \<lparr>sc_id = sample_id, sc_wr_bytes = 0, sc_rd_bytes = 0\<rparr> [100, 50, 25] m = Some m' \<and>
     find_l7_link m' data_tracker = Some l' \<and> lk_stats l' BYTES_SENT = 425"
proof -
  let ?sc = "\<lparr>sc_id = sample_id, sc_wr_bytes = 0, sc_rd_bytes = 0\<rparr>"
  obtain m :: "(unit, unit, unit) l7_mng_s" and l where
    m: "proc_conn_data_msg sample_histo 9 opened_mng (sample_data L7_EGRESS [65]) [65] = Some m"
      "lkup_conn_tracker m sample_id = Some data_tracker" "find_l7_link m data_tracker = Some l" "lk_stats l BYTES_SENT = 0"
    using opened_then_data [of sample_histo 9] by blast
  have "ct_protocol (data_tracker :: (unit, unit) conn_tracker_s) \<noteq> PROTO_UNKNOW"
    "ct_l7_role (data_tracker :: (unit, unit) conn_tracker_s) \<noteq> L7_UNKNOW"
    by (simp_all add: data_tracker_def receive_data_def learn_protocol_def opened_tracker_def create_conn_tracker_def sample_data_def Let_def)
  then show ?thesis
    using bytes_sent_overcounted [of m ?sc data_tracker l 10 "[100, 50, 25]"] m by (simp add: upt_rec)
qed

theorem reopened_keeps_streams_witness:
  "\<exists>m t'. proc_conn_data_msg sample_histo 9 (opened_mng :: (unit, unit, unit) l7_mng_s) (sample_data L7_EGRESS [65]) [65] = Some m \<and>
     lkup_conn_tracker (proc_conn_ctl_msg no_backend no_backend (proc_conn_ctl_msg no_backend no_backend m
       (sample_ctl CONN_EVT_CLOSE)) (sample_ctl CONN_EVT_OPEN)) sample_id = Some t' \<and>
     raws (ct_send_stream t') = [buffer_of [65] 5 1]"
proof -
  obtain m :: "(unit, unit, unit) l7_mng_s" where
    m: "proc_conn_data_msg sample_histo 9 opened_mng (sample_data L7_EGRESS [65]) [65] = Some m"
      "lkup_conn_tracker m sample_id = Some data_tracker"
    using opened_then_data [of sample_histo 9] by blast
  have "raws (ct_send_stream (data_tracker :: (unit, unit) conn_tracker_s)) = [buffer_of [65] 5 1]"
    by (simp add: data_tracker_def receive_data_def learn_protocol_def opened_tracker_def create_conn_tracker_def sample_data_def
        Let_def add_buffer init_data_stream_ok RAW_BUF_SIZE_def)
  then show ?thesis
    using reopened_keeps_streams [OF m(2), of "sample_ctl CONN_EVT_CLOSE" "sample_ctl CONN_EVT_OPEN" no_backend no_backend] m(1)
    by (auto simp: sample_ctl_def)
qed

end
