(* ===== verification/Redis_Tracker.thy ===== *)
theory Redis_Tracker
  imports Conn_Tracker Redis_Stream Redis_Matcher
begin

section \<open>From the bytes of a Redis connection to the counters of its link\<close>

text \<open>
  The connection tracker with the functions of Redis: what the probe counts for a client that
  sends requests and receives their replies.
\<close>

definition redis_ops :: "(bytes list \<Rightarrow> bytes) \<Rightarrow> (redis_msg_s, redis_record_s) proto_ops" where
  "redis_ops json = \<lparr>po_boundary = redis_boundary, po_parse = redis_parse json, po_match = redis_match_frames\<rparr>"

subsection \<open>Parsing keeps the position of the matcher\<close>

lemma push_frame_pos: "push_frame_data ds f = (b, ds') \<Longrightarrow> fb_current_pos (frame_bufs ds') = fb_current_pos (frame_bufs ds)"
  by (auto simp: push_frame_data_def Let_def split: if_splits)

lemma switch_pos:
  "parse_state_switch st f rd ds = (r, ds') \<Longrightarrow> fb_current_pos (frame_bufs ds') = fb_current_pos (frame_bufs ds)"
  by (auto simp: parse_state_switch_def set_top_def dest: push_frame_pos
      split: parse_state_t.splits option.splits prod.splits bool.splits if_splits)

definition jump_state :: "'s jump \<Rightarrow> 's option" where
  "jump_state j = (case j of Goto _ s \<Rightarrow> Some s | Return s \<Rightarrow> Some s | Undefined \<Rightarrow> None)"

lemma repeat_jump_pos:
  "jump_state (repeat_jump p g r ds) = Some (g', ds') \<Longrightarrow> fb_current_pos (frame_bufs ds') = fb_current_pos (frame_bufs ds)"
  by (auto simp: repeat_jump_def jump_state_def pop_top_def set_top_def split: parse_rslt_e.splits option.splits)

lemma goto_pos:
  assumes "jump_state (parse_goto find_boundary parse mt l (g, ds)) = Some (g', ds')"
  shows "fb_current_pos (frame_bufs ds') = fb_current_pos (frame_bufs ds)"
proof (cases "peek_raw_data (raw_bufs ds)")
  case (Some rd)
  show ?thesis
  proof (cases l)
    case L_repeat
    with Some assms obtain g1 r ds1 where d: "do_parse_frames parse mt g ds rd = Some (g1, r, ds1)"
      "jump_state (repeat_jump (rd_current_pos rd) g1 r ds1) = Some (g', ds')"
      by (auto simp: parse_goto_def jump_state_def split: option.splits)
    then have "fb_current_pos (frame_bufs ds1) = fb_current_pos (frame_bufs ds)"
      by (auto simp: do_parse_frames_def set_top_def dest!: switch_pos split: bind_splits)
    with repeat_jump_pos [OF d(2)] show ?thesis by simp
  qed (use Some assms in \<open>auto simp: parse_goto_def jump_state_def pop_top_def set_top_def split: option.splits\<close>)
qed (use assms in \<open>auto simp: parse_goto_def jump_state_def split: if_splits\<close>)

lemma loop_pos:
  assumes "parse_loop find_boundary parse mt l s = Some (Some s')"
  shows "fb_current_pos (frame_bufs (snd s')) = fb_current_pos (frame_bufs (snd s))"
proof -
  have "\<forall>s'. r = Some s' \<longrightarrow> fb_current_pos (frame_bufs (snd s')) = fb_current_pos (frame_bufs (snd s))"
    if "parse_loop fb p m l s = Some r" for fb and p :: "('a, 'b) frame_parser_fun" and m l s r
  proof (rule parse_loop.raw_induct [OF _ that], intro allI impI)
    fix loop :: "('a, 'b) boundary_finder \<Rightarrow> ('a, 'b) frame_parser_fun \<Rightarrow> message_type_t \<Rightarrow> goto_label \<Rightarrow>
      'a \<times> 'b data_stream_s \<Rightarrow> ('a \<times> 'b data_stream_s) well_defined option"
      and fb p m l s r s'
    assume ih: "\<And>fb p m l s r. loop fb p m l s = Some r \<Longrightarrow>
        \<forall>s'. r = Some s' \<longrightarrow> fb_current_pos (frame_bufs (snd s')) = fb_current_pos (frame_bufs (snd s))"
      and step: "(case parse_goto fb p m l s of Goto label' s' \<Rightarrow> loop fb p m label' s'
        | Return s' \<Rightarrow> Some (Some s') | Undefined \<Rightarrow> Some None) = Some r" and r: "r = Some s'"
    obtain g ds where s: "s = (g, ds)" by (cases s)
    note gp = goto_pos [of fb p m l g ds]
    show "fb_current_pos (frame_bufs (snd s')) = fb_current_pos (frame_bufs (snd s))"
    proof (cases "parse_goto fb p m l s")
      case (Goto l1 s1)
      then have "loop fb p m l1 s1 = Some (Some s')" using step r by simp
      from ih [OF this] gp [of "fst s1" "snd s1"] Goto s show ?thesis by (simp add: jump_state_def)
    next
      case (Return s1)
      then show ?thesis using step r s gp [of "fst s1" "snd s1"] by (simp add: jump_state_def)
    qed (use step r in simp)
  qed
  from this [OF assms] show ?thesis by simp
qed

subsection \<open>Requests and replies in turn\<close>

record exchange =
  ex_request :: resp
  ex_sent :: u64
  ex_reply :: resp
  ex_received :: u64
  ex_index :: u32

text \<open>
  A request that is no acknowledgement of a follower, sent at a time that is neither 0 nor the
  largest number, and its later reply, which is not itself a command.
\<close>

definition exchange_ok :: "(bytes list \<Rightarrow> bytes) \<Rightarrow> exchange \<Rightarrow> bool" where
  "exchange_ok json x \<longleftrightarrow> resp_wf (ex_request x) \<and> resp_wf (ex_reply x) \<and>
     length (resp_bytes (ex_request x)) < 2 ^ 32 \<and> length (resp_bytes (ex_reply x)) < 2 ^ 32 \<and>
     0 < ex_sent x \<and> ex_sent x < ex_received x \<and> ex_received x < - 1 \<and>
     (\<forall>c. resp_command json (ex_request x) = Some c \<longrightarrow> c_str c \<noteq> ascii ''REPLCONF ACK'') \<and>
     resp_command json (ex_reply x) = None"

definition in_turn :: "exchange list \<Rightarrow> bool" where
  "in_turn = sorted_wrt (\<lambda>x y. ex_received x \<le> ex_sent y)"

text \<open>The messages of the requests and of the replies.\<close>

definition msg_of :: "(bytes list \<Rightarrow> bytes) \<Rightarrow> message_type_t \<Rightarrow> u64 \<times> resp \<Rightarrow> redis_msg_s \<Rightarrow> bool" where
  "msg_of json mt = (\<lambda>(t, v) m. rm_timestamp_ns m = t \<and> parsed_as json mt v m)"

definition requests :: "exchange list \<Rightarrow> (u64 \<times> resp) list" where
  "requests = map (\<lambda>x. (ex_sent x, ex_request x))"

definition replies :: "exchange list \<Rightarrow> (u64 \<times> resp) list" where
  "replies = map (\<lambda>x. (ex_received x, ex_reply x))"

lemma requests_replies_simps [simp]:
  "requests [] = []" "requests (x # xs) = (ex_sent x, ex_request x) # requests xs" "length (requests xs) = length xs"
  "replies [] = []" "replies (x # xs) = (ex_received x, ex_reply x) # replies xs" "length (replies xs) = length xs"
  by (simp_all add: requests_def replies_def)

lemma match_in_turn:
  assumes "in_turn xs" "list_all (exchange_ok json) xs"
    "list_all2 (msg_of json MESSAGE_REQUEST) (requests xs) qs" "list_all2 (msg_of json MESSAGE_RESPONSE) (replies xs) ps"
  shows "match_list qs ps None = map pair_record (zip qs ps)"
  using assms
proof (induction xs arbitrary: qs ps)
  case (Cons x xs)
  then obtain q qs' p ps' where l: "qs = q # qs'" "ps = p # ps'"
    and m: "msg_of json MESSAGE_REQUEST (ex_sent x, ex_request x) q" "msg_of json MESSAGE_RESPONSE (ex_received x, ex_reply x) p"
    and r: "list_all2 (msg_of json MESSAGE_REQUEST) (requests xs) qs'" "list_all2 (msg_of json MESSAGE_RESPONSE) (replies xs) ps'"
    by (auto simp: list_all2_Cons1)
  have ord: "\<not> rm_is_pub_msg p" "\<not> has_command p" "\<not> is_replconf_ack q" "rm_timestamp_ns q < rm_timestamp_ns p"
    using m Cons.prems(2) by (auto simp: msg_of_def parsed_as_def exchange_ok_def has_command_def is_replconf_ack_def split: option.splits)
  have late: "\<not> rm_timestamp_ns (hd qs') < rm_timestamp_ns p" if "qs' \<noteq> []"
    using r(1) that m(2) Cons.prems(1) by (cases xs) (auto simp: in_turn_def msg_of_def list_all2_Cons1)
  have "match_list qs ps None = match_list qs' ps (Some q)"
    using l ord by (subst match_list.simps) (simp add: Let_def)
  also have "\<dots> = pair_record (q, p) # match_list qs' ps' None"
    using l ord late by (subst match_list.simps) (cases "qs' = []"; simp add: Let_def pair_record_eq)
  finally show ?case using Cons.IH [OF _ _ r] Cons.prems(1,2) l by (simp add: in_turn_def)
qed (simp add: match_list.simps)

subsection \<open>A round\<close>

lemma parse_values:
  assumes "stream_ok ds" "frames ds = []" "fb_current_pos (frame_bufs ds) = 0"
    "raws ds = map (\<lambda>x. buffer_of (resp_bytes (v x)) (time x) (ex_index x)) xs" "\<forall>x \<in> set xs. resp_wf (v x)" "length xs \<le> FRAME_BUF_SIZE"
  shows "\<exists>ds'. parse_stream (redis_ops json) mt ds = Some (Some ds') \<and> stream_ok ds' \<and> raws ds' = [] \<and>
    fb_current_pos (frame_bufs ds') = 0 \<and> frame_buf_size (frame_bufs ds') = length xs \<and>
    list_all2 (msg_of json mt) (map (\<lambda>x. (time x, v x)) xs) (waiting (frame_bufs ds'))"
proof -
  let ?vss = "map (\<lambda>x. [v x]) xs"
  have "list_all2 holds_values (raws ds) ?vss" "length (concat ?vss) = length xs"
    using assms(4,5) by (auto simp: list_all2_map1 list_all2_map2 holds_values_def list.rel_refl_strong length_concat comp_def sum_list_triv)
  then obtain ds' fs where d: "parse_loop redis_boundary (redis_parse json) mt L_next ((), ds) = Some (Some ((), ds'))"
    "stream_ok ds'" "raws ds' = []" "frames ds' = fs"
    "list_all2 (\<lambda>(t, v). frame_of json mt t v) (concat (map2 (\<lambda>rd vs. map (Pair (rd_timestamp_ns rd)) vs) (raws ds) ?vss)) fs"
    using loop_values [OF assms(1), of ?vss json mt] assms(2,6) by auto
  have "concat (map2 (\<lambda>rd vs. map (Pair (rd_timestamp_ns rd)) vs) (raws ds) ?vss) = map (\<lambda>x. (time x, v x)) xs"
    unfolding assms(4) by (induction xs) auto
  with d(5) have f: "list_all2 (\<lambda>(t, v). frame_of json mt t v) (map (\<lambda>x. (time x, v x)) xs) fs" by simp
  then have "list_all2 (msg_of json mt) (map (\<lambda>x. (time x, v x)) xs) (map fd_frame fs)"
    by (auto simp: list_all2_map1 list_all2_map2 msg_of_def frame_of_def elim!: list.rel_mono_strong)
  moreover have "fb_current_pos (frame_bufs ds') = 0" using loop_pos [OF d(1)] assms(3) by simp
  moreover have "frame_buf_size (frame_bufs ds') = length xs"
    using list_all2_lengthD [OF f] d(4) by (auto simp: frame_list_def)
  ultimately show ?thesis using d(1-4)
    by (simp add: parse_stream_def redis_ops_def data_stream_parse_frames_def waiting_def)
qed

lemma latencies_list: "slots_full a n \<Longrightarrow> n \<le> RECORD_BUF_SIZE \<Longrightarrow> latencies a n = map rcd_latency (slots_list a n)"
proof -
  assume "slots_full a n" "n \<le> RECORD_BUF_SIZE"
  then have "List.map_filter a [0..<n] = map (\<lambda>i. the (a i)) [0..<n]"
    by (auto simp: List.map_filter_def slots_full_def filter_id_conv intro!: map_cong)
  then show ?thesis using \<open>n \<le> RECORD_BUF_SIZE\<close> by (simp add: latencies_def slots_list_def min_def)
qed

lemma foldl_add: "foldl (+) s xs = s + sum_list (xs :: u64 list)"
  by (induction xs arbitrary: s) (simp_all add: add.assoc)

definition reply_errors :: "exchange list \<Rightarrow> nat" where
  "reply_errors xs = (\<Sum>x\<leftarrow>xs. snd (resp_counts MESSAGE_RESPONSE (ex_reply x)))"

definition waiting_times :: "exchange list \<Rightarrow> u64" where
  "waiting_times xs = (\<Sum>x\<leftarrow>xs. ex_received x - ex_sent x)"

text \<open>The matcher on the frames of exchanges in turn.\<close>

lemma sums_in_turn:
  assumes "list_all2 (msg_of json MESSAGE_REQUEST) (requests xs) qs" "list_all2 (msg_of json MESSAGE_RESPONSE) (replies xs) ps"
  shows "(\<Sum>r\<leftarrow>map pair_record (zip qs ps). rm_single_reply_error_msg_count (the (rr_resp_msg r))) = reply_errors xs"
    "(\<Sum>r\<leftarrow>map redis_record_data (map pair_record (zip qs ps)). rcd_latency r) = waiting_times xs"
  using assms
proof (induction xs arbitrary: qs ps)
  case (Cons x xs)
  case 1
  with Cons show ?case
    by (auto simp: list_all2_Cons1 reply_errors_def msg_of_def parsed_as_def msg_counts_def simp del: map_map) (metis snd_conv)
  case 2
  with Cons show ?case
    by (auto simp: list_all2_Cons1 waiting_times_def msg_of_def redis_record_data_def simp del: map_map)
qed (simp_all add: reply_errors_def waiting_times_def)

lemma times_of_msgs:
  assumes "list_all2 (msg_of json mt) tvs ms" "\<forall>tv \<in> set tvs. 0 < fst tv \<and> fst tv < - 1"
  shows "times_ok ms"
  using assms by (induction tvs ms rule: list_all2_induct) (auto simp: times_ok_def msg_of_def)

lemma exchange_times:
  assumes "list_all (exchange_ok json) xs"
  shows "\<forall>tv \<in> set (requests xs). 0 < fst tv \<and> fst tv < - 1" "\<forall>tv \<in> set (replies xs). 0 < fst tv \<and> fst tv < - 1"
  using assms by (auto simp: list_all_iff exchange_ok_def requests_def replies_def)

lemma match_round:
  assumes "frame_buf_ok qf" "frame_buf_ok pf" "in_turn xs" "list_all (exchange_ok json) xs" "length xs \<le> RECORD_BUF_SIZE"
    and w: "list_all2 (msg_of json MESSAGE_REQUEST) (requests xs) (waiting qf)" "list_all2 (msg_of json MESSAGE_RESPONSE) (replies xs) (waiting pf)"
  shows "\<exists>rb. redis_match_frames qf pf empty_record_buf = Some (rb, all_taken qf, all_taken pf) \<and>
    rcb_req_count rb = frame_buf_size qf \<and> rcb_resp_count rb = frame_buf_size pf \<and> rcb_err_count rb = reply_errors xs \<and>
    sum_list (latencies (rcb_records rb) (rcb_record_buf_size rb)) = waiting_times xs"
proof -
  let ?rs = "map pair_record (zip (waiting qf) (waiting pf))"
  have n: "length ?rs \<le> RECORD_BUF_SIZE" using list_all2_lengthD [OF w(1)] assms(5) by simp
  have t: "times_ok (waiting qf)" "times_ok (waiting pf)"
    using times_of_msgs [OF w(1)] times_of_msgs [OF w(2)] exchange_times [OF assms(4)] by blast+
  have e: "rcb_err_count (empty_record_buf :: redis_record_s record_buf_s) = 0" by (simp add: empty_record_buf_def)
  have "list_all has_both ?rs" by (auto simp: list_all_iff has_both_def)
  from add_records_eq [OF empty_record_buf_ok(1) this] n obtain rb where
    rb: "add_records empty_record_buf ?rs = Some rb" "record_buf_ok rb" "record_list rb = map redis_record_data ?rs"
      "rcb_err_count rb = (\<Sum>r\<leftarrow>?rs. rm_single_reply_error_msg_count (the (rr_resp_msg r)))"
    by (auto simp: e simp del: map_map split: if_splits)
  have "sum_list (latencies (rcb_records rb) (rcb_record_buf_size rb)) = waiting_times xs"
    using rb(2,3) sums_in_turn(2) [OF w] by (simp add: record_buf_ok_def latencies_list record_list_def del: map_map)
  then show ?thesis
    using redis_match_eq [OF assms(1,2) t, of empty_record_buf] match_in_turn [OF assms(3,4) w] rb(1,4) sums_in_turn(1) [OF w]
    by (auto simp del: map_map intro!: exI [of _ "rb\<lparr>rcb_req_count := frame_buf_size qf, rcb_resp_count := frame_buf_size pf\<rparr>"])
qed

text \<open>What the records of a round add to the link.\<close>

lemma latency_sum_add_stat: "lk_latency_sum (add_stat s n l) = lk_latency_sum l"
  by (simp add: add_stat_def)

lemma add_stats_link:
  assumes "find_l7_link m t = Some k" "rcb_req_count (ct_records t) \<noteq> 0"
  shows "\<exists>l. add_tracker_stats histo t m = set_link l m \<and> lk_id l = lk_id k \<and>
    lk_stats l REQ_COUNT = lk_stats k REQ_COUNT + of_nat (rcb_req_count (ct_records t)) \<and>
    lk_stats l RSP_COUNT = lk_stats k RSP_COUNT + of_nat (rcb_resp_count (ct_records t)) \<and>
    lk_stats l ERR_COUNT = lk_stats k ERR_COUNT + of_nat (rcb_err_count (ct_records t)) \<and>
    lk_latency_sum l = lk_latency_sum k + sum_list (latencies (rcb_records (ct_records t)) (rcb_record_buf_size (ct_records t)))"
  using assms by (simp add: add_tracker_stats_def Let_def)
   (intro exI conjI, rule refl, simp_all add: add_tracker_l7_stats_def latency_sum_add_stat foldl_add)

text \<open>A tracker of a client with the buffers of exchanges.\<close>

definition stream_empty :: "'f data_stream_s \<Rightarrow> bool" where
  "stream_empty ds \<longleftrightarrow> stream_ok ds \<and> raws ds = [] \<and> frames ds = [] \<and> fb_current_pos (frame_bufs ds) = 0"

definition stream_holds :: "'f data_stream_s \<Rightarrow> (exchange \<Rightarrow> resp) \<Rightarrow> (exchange \<Rightarrow> u64) \<Rightarrow> exchange list \<Rightarrow> bool" where
  "stream_holds ds v time xs \<longleftrightarrow> stream_ok ds \<and> frames ds = [] \<and> fb_current_pos (frame_bufs ds) = 0 \<and>
     raws ds = map (\<lambda>x. buffer_of (resp_bytes (v x)) (time x) (ex_index x)) xs"

lemma pop_taken:
  assumes "stream_ok ds" "raws ds = []"
  shows "stream_empty (data_stream_pop_frames (ds\<lparr>frame_bufs := all_taken (frame_bufs ds)\<rparr>))"
proof -
  have "frame_buf_ok (all_taken (frame_bufs ds))" using assms(1) by (simp add: stream_ok_def frame_buf_ok_def all_taken_def)
  from pop_frames_list [OF this] show ?thesis
    using assms by (simp add: stream_empty_def stream_ok_def data_stream_pop_frames_def) (simp add: all_taken_def frame_list_def)
qed

lemma round_in_turn:
  assumes "ct_l7_role t = L7_CLIENT" "proto (ct_protocol t) = redis_ops json" "ct_records t = empty_record_buf"
    and send: "stream_holds (ct_send_stream t) ex_request ex_sent xs" and recv: "stream_holds (ct_recv_stream t) ex_reply ex_received xs"
    and xs: "xs \<noteq> []" "in_turn xs" "list_all (exchange_ok json) xs" "length xs \<le> RECORD_BUF_SIZE"
    and link: "find_l7_link m t = Some k"
  shows "\<exists>t' l. l7_parser_tracker proto histo t m = Some (Some (set_tracker t' (set_link l m))) \<and>
    ct_id t' = ct_id t \<and> link_id t' = link_id t \<and> stream_empty (ct_send_stream t') \<and> stream_empty (ct_recv_stream t') \<and>
    lk_id l = lk_id k \<and> lk_stats l REQ_COUNT = lk_stats k REQ_COUNT + of_nat (length xs) \<and>
    lk_stats l RSP_COUNT = lk_stats k RSP_COUNT + of_nat (length xs) \<and>
    lk_stats l ERR_COUNT = lk_stats k ERR_COUNT + of_nat (reply_errors xs) \<and>
    lk_latency_sum l = lk_latency_sum k + waiting_times xs"
proof -
  have wf: "\<forall>x \<in> set xs. resp_wf (ex_request x)" "\<forall>x \<in> set xs. resp_wf (ex_reply x)" "length xs \<le> FRAME_BUF_SIZE"
    using xs(3,4) by (auto simp: list_all_iff exchange_ok_def RECORD_BUF_SIZE_def FRAME_BUF_SIZE_def)
  from parse_values [of "ct_send_stream t" ex_request ex_sent xs json MESSAGE_REQUEST] send wf obtain qs where
    q: "parse_stream (redis_ops json) MESSAGE_REQUEST (ct_send_stream t) = Some (Some qs)" "stream_ok qs" "raws qs = []"
      "frame_buf_size (frame_bufs qs) = length xs" "list_all2 (msg_of json MESSAGE_REQUEST) (requests xs) (waiting (frame_bufs qs))"
    by (auto simp: stream_holds_def requests_def)
  from parse_values [of "ct_recv_stream t" ex_reply ex_received xs json MESSAGE_RESPONSE] recv wf obtain ps where
    p: "parse_stream (redis_ops json) MESSAGE_RESPONSE (ct_recv_stream t) = Some (Some ps)" "stream_ok ps" "raws ps = []"
      "frame_buf_size (frame_bufs ps) = length xs" "list_all2 (msg_of json MESSAGE_RESPONSE) (replies xs) (waiting (frame_bufs ps))"
    by (auto simp: stream_holds_def replies_def)
  from match_round [OF _ _ xs(2,3,4) q(5) p(5)] q(2) p(2) obtain rb where
    rb: "redis_match_frames (frame_bufs qs) (frame_bufs ps) empty_record_buf = Some (rb, all_taken (frame_bufs qs), all_taken (frame_bufs ps))"
      "rcb_req_count rb = length xs" "rcb_resp_count rb = length xs" "rcb_err_count rb = reply_errors xs"
      "sum_list (latencies (rcb_records rb) (rcb_record_buf_size rb)) = waiting_times xs"
    using q(4) p(4) by (auto simp: stream_ok_def)
  let ?t = "t\<lparr>ct_send_stream := qs\<lparr>frame_bufs := all_taken (frame_bufs qs)\<rparr>,
    ct_recv_stream := ps\<lparr>frame_bufs := all_taken (frame_bufs ps)\<rparr>, ct_records := rb\<rparr>"
  have "find_l7_link m ?t = Some k" using link by (simp add: find_l7_link_def link_id_def)
  from add_stats_link [OF this, of histo] rb xs(1) obtain l where
    l: "add_tracker_stats histo ?t m = set_link l m" "lk_id l = lk_id k"
      "lk_stats l REQ_COUNT = lk_stats k REQ_COUNT + of_nat (length xs)" "lk_stats l RSP_COUNT = lk_stats k RSP_COUNT + of_nat (length xs)"
      "lk_stats l ERR_COUNT = lk_stats k ERR_COUNT + of_nat (reply_errors xs)" "lk_latency_sum l = lk_latency_sum k + waiting_times xs"
    by auto
  let ?d = "destroy_tracker_record ?t"
  let ?u = "?d\<lparr>ct_send_stream := data_stream_pop_frames (ct_send_stream ?d), ct_recv_stream := data_stream_pop_frames (ct_recv_stream ?d)\<rparr>"
  have "l7_parser_tracker proto histo t m = Some (Some (set_tracker ?u (set_link l m)))"
    using assms(1-3) q(1,4) p(1,4) rb(1) xs(1) l(1)
    by (simp add: l7_parser_tracker_def and_then_def get_message_type_def get_req_frames_def get_resp_frames_def
        proto_match_frames_def set_matched_frames_def redis_ops_def Let_def)
  moreover have "ct_id ?u = ct_id t" "link_id ?u = link_id t" by (simp_all add: destroy_tracker_record_def Let_def link_id_def)
  moreover have "stream_empty (ct_send_stream ?u)" "stream_empty (ct_recv_stream ?u)"
    using pop_taken [OF q(2,3)] pop_taken [OF p(2,3)] by (simp_all add: destroy_tracker_record_def Let_def)
  ultimately show ?thesis using l by blast
qed

subsection \<open>The messages of exchanges\<close>

definition client_msg :: "tracker_id_s \<Rightarrow> l7_direction_t \<Rightarrow> u64 \<Rightarrow> u32 \<Rightarrow> bytes \<Rightarrow> conn_data_msg_s" where
  "client_msg i dir time index data = \<lparr>cd_proto = PROTO_REDIS, cd_l7_role = L7_CLIENT, cd_direction = dir, cd_is_ssl = False,
     cd_conn_id = i, cd_timestamp_ns = time, cd_data_size = of_nat (length data), cd_index = index\<rparr>"

definition sent_msg :: "tracker_id_s \<Rightarrow> exchange \<Rightarrow> conn_data_msg_s" where
  "sent_msg i x = client_msg i L7_EGRESS (ex_sent x) (ex_index x) (resp_bytes (ex_request x))"

definition received_msg :: "tracker_id_s \<Rightarrow> exchange \<Rightarrow> conn_data_msg_s" where
  "received_msg i x = client_msg i L7_INGRESS (ex_received x) (ex_index x) (resp_bytes (ex_reply x))"

definition exchange_events :: "int \<Rightarrow> tracker_id_s \<Rightarrow> exchange \<Rightarrow> l7_event list" where
  "exchange_events now i x = [Data_Msg now (sent_msg i x) (resp_bytes (ex_request x)),
     Data_Msg now (received_msg i x) (resp_bytes (ex_reply x))]"

definition learned :: "('f, 'r) conn_tracker_s \<Rightarrow> ('f, 'r) conn_tracker_s" where
  "learned t = t\<lparr>ct_is_ssl := False, ct_protocol := PROTO_REDIS, ct_l7_role := L7_CLIENT\<rparr>"

definition client_tracker :: "tracker_id_s \<Rightarrow> l7_link_id_s \<Rightarrow> exchange list \<Rightarrow> exchange list \<Rightarrow> ('f, 'r) conn_tracker_s \<Rightarrow> bool" where
  "client_tracker i j xs ys t \<longleftrightarrow> ct_id t = i \<and> link_id (learned t) = j \<and> ct_records t = empty_record_buf \<and>
     ct_protocol t \<in> {PROTO_UNKNOW, PROTO_REDIS} \<and> ct_l7_role t \<in> {L7_UNKNOW, L7_CLIENT} \<and>
     stream_holds (ct_send_stream t) ex_request ex_sent xs \<and> stream_holds (ct_recv_stream t) ex_reply ex_received ys"

definition same_counts :: "'h l7_link_s \<Rightarrow> 'h l7_link_s \<Rightarrow> bool" where
  "same_counts l k \<longleftrightarrow> lk_latency_sum l = lk_latency_sum k \<and> lk_stats l REQ_COUNT = lk_stats k REQ_COUNT \<and>
     lk_stats l RSP_COUNT = lk_stats k RSP_COUNT \<and> lk_stats l ERR_COUNT = lk_stats k ERR_COUNT"

lemma same_counts_trans: "same_counts l k \<Longrightarrow> same_counts k j \<Longrightarrow> same_counts l j"
  by (simp add: same_counts_def)

lemma learn_client_msg: "client_tracker i j xs ys t \<Longrightarrow> learn_protocol (client_msg i dir time index data) t = learned t"
  by (auto simp: client_tracker_def learn_protocol_def learned_def client_msg_def Let_def)

lemma add_l7_link_trackers: "add_l7_link histo now m t = (l, m') \<Longrightarrow> mg_trackers m' = mg_trackers m"
  by (auto simp: add_l7_link_def Let_def split: option.splits if_splits)

lemma data_msg_ids: "proc_conn_data_msg histo now m msg buf = Some m' \<Longrightarrow> map ct_id (mg_trackers m') = map ct_id (mg_trackers m)"
  by (auto simp: proc_conn_data_msg_def Let_def dest!: add_l7_link_trackers
      split: option.splits prod.splits l7_direction_t.splits if_splits)

lemma stream_holds_add:
  assumes "stream_holds ds v time xs" "length xs < RAW_BUF_SIZE"
  shows "stream_holds (snd (data_stream_add_raw_data ds (resp_bytes (v x)) (time x) (ex_index x))) v time (xs @ [x])"
proof -
  have "frame_bufs (snd (data_stream_add_raw_data ds data a b)) = frame_bufs ds" for data a b
    by (simp add: data_stream_add_raw_data_def push_raw_data_def Let_def)
  then show ?thesis
    using assms add_buffer [of ds "resp_bytes (v x)" "time x" "ex_index x"] by (simp add: stream_holds_def)
qed

lemma client_msg_step:
  assumes t: "mg_trackers m = [t]" "client_tracker i j xs ys t"
    and msg: "msg = client_msg i dir time index data" "dir \<noteq> L7_DIRECT_UNKNOW" "length data < 2 ^ 32"
    and room: "lkup_l7_link m j \<noteq> None \<or> mg_l7_links_capability m < L7_LINK_MAX"
  shows "\<exists>m' l. proc_conn_data_msg histo now m msg data = Some m' \<and> mg_trackers m' = [receive_data msg data (learned t)] \<and>
    lkup_l7_link m' j = Some l \<and> same_counts l (link_or_new histo m j)"
proof -
  have n: "unat (cd_data_size msg) = length data"
    using msg(1,3) by (simp add: client_msg_def unat_of_nat take_bit_nat_eq_self_iff)
  have i: "cd_conn_id msg = i" "cd_direction msg = dir" "ct_id t = i" "link_id (learned t) = j"
    using msg(1) t(2) by (simp_all add: client_msg_def client_tracker_def)
  have lk: "lkup_conn_tracker m (cd_conn_id msg) = Some t" using t(1) i by (simp add: lkup_conn_tracker_def)
  have u: "learned t = learn_protocol msg t" unfolding msg(1) using learn_client_msg [OF t(2)] by simp
  from data_msg_step [OF lk _ _ u refl, of data histo now] i msg(2) n room obtain m' l where
    p: "proc_conn_data_msg histo now m msg data = Some m'" "lkup_conn_tracker m' i = Some (receive_data msg data (learned t))"
      "lkup_l7_link m' j = Some l" "lk_latency_sum l = lk_latency_sum (link_or_new histo m j)"
      "\<forall>s. s \<noteq> OPEN_EVT \<longrightarrow> lk_stats l s = (if s = data_stat dir then lk_stats (link_or_new histo m j) s + 1 else lk_stats (link_or_new histo m j) s)"
    by auto
  have "map ct_id (mg_trackers m') = [i]" using data_msg_ids [OF p(1)] t(1) i(3) by simp
  then obtain t' where "mg_trackers m' = [t']" by auto
  with p(2) have "mg_trackers m' = [receive_data msg data (learned t)]" by (simp add: lkup_conn_tracker_def split: if_splits)
  moreover have "same_counts l (link_or_new histo m j)" using p(4,5) by (simp add: same_counts_def data_stat_def)
  ultimately show ?thesis using p(1,3) by blast
qed

lemma learned_simps [simp]: "learned (learned t) = learned t" "ct_send_stream (learned t) = ct_send_stream t"
  "ct_recv_stream (learned t) = ct_recv_stream t"
  by (simp_all add: learned_def)

lemma receive_client:
  assumes "client_tracker i j xs ys t"
  shows "length xs < RAW_BUF_SIZE \<Longrightarrow> client_tracker i j (xs @ [x]) ys (receive_data (sent_msg i x) (resp_bytes (ex_request x)) (learned t))"
    "length ys < RAW_BUF_SIZE \<Longrightarrow> client_tracker i j xs (ys @ [x]) (receive_data (received_msg i x) (resp_bytes (ex_reply x)) (learned t))"
    "learned (receive_data msg data (learned t)) = receive_data msg data (learned t)"
proof -
  have j: "link_id (learned t) = j" "ct_id t = i" "ct_records t = empty_record_buf"
    and s: "stream_holds (ct_send_stream t) ex_request ex_sent xs" "stream_holds (ct_recv_stream t) ex_reply ex_received ys"
    using assms by (simp_all add: client_tracker_def)
  show "learned (receive_data msg data (learned t)) = receive_data msg data (learned t)"
    by (simp add: learned_def receive_data_def)
  show "client_tracker i j (xs @ [x]) ys (receive_data (sent_msg i x) (resp_bytes (ex_request x)) (learned t))" if "length xs < RAW_BUF_SIZE"
    using stream_holds_add [OF s(1) that, of x] s(2) j
    by (simp add: client_tracker_def receive_data_def sent_msg_def client_msg_def learned_def link_id_def)
  show "client_tracker i j xs (ys @ [x]) (receive_data (received_msg i x) (resp_bytes (ex_reply x)) (learned t))" if "length ys < RAW_BUF_SIZE"
    using stream_holds_add [OF s(2) that, of x] s(1) j
    by (simp add: client_tracker_def receive_data_def received_msg_def client_msg_def learned_def link_id_def)
qed

inductive_simps l7_step_iff:
  "l7_step conntrack flowtracer proto histo m (Ctl_Msg msg) m'"
  "l7_step conntrack flowtracer proto histo m (Data_Msg now msg buf) m'"
  "l7_step conntrack flowtracer proto histo m Parse_Round m'"

lemma run_append_iff: "run step s (es @ fs) u \<longleftrightarrow> (\<exists>t. run step s es t \<and> run step t fs u)"
  by (induction es arbitrary: s) (auto simp: run_Cons_iff)

lemma exchange_step:
  assumes t: "mg_trackers m = [t]" "client_tracker i j xs xs t" and x: "exchange_ok json x" "length xs < RAW_BUF_SIZE"
    and room: "lkup_l7_link m j \<noteq> None \<or> mg_l7_links_capability m < L7_LINK_MAX"
  shows "\<exists>m1 m2 t2 l. proc_conn_data_msg histo now m (sent_msg i x) (resp_bytes (ex_request x)) = Some m1 \<and>
    proc_conn_data_msg histo now m1 (received_msg i x) (resp_bytes (ex_reply x)) = Some m2 \<and>
    mg_trackers m2 = [t2] \<and> learned t2 = t2 \<and> client_tracker i j (xs @ [x]) (xs @ [x]) t2 \<and>
    lkup_l7_link m2 j = Some l \<and> same_counts l (link_or_new histo m j)"
proof -
  have len: "length (resp_bytes (ex_request x)) < 2 ^ 32" "length (resp_bytes (ex_reply x)) < 2 ^ 32"
    using x(1) by (simp_all add: exchange_ok_def)
  let ?t1 = "receive_data (sent_msg i x) (resp_bytes (ex_request x)) (learned t)"
  from client_msg_step [OF t sent_msg_def [of i x] _ len(1) room, of histo now] obtain m1 l1 where
    1: "proc_conn_data_msg histo now m (sent_msg i x) (resp_bytes (ex_request x)) = Some m1" "mg_trackers m1 = [?t1]"
      "lkup_l7_link m1 j = Some l1" "same_counts l1 (link_or_new histo m j)" by auto
  have c1: "client_tracker i j (xs @ [x]) xs ?t1" by (rule receive_client(1) [OF t(2) x(2)])
  from client_msg_step [OF 1(2) c1 received_msg_def [of i x] _ len(2), of histo now] 1(3) obtain m2 l2 where
    2: "proc_conn_data_msg histo now m1 (received_msg i x) (resp_bytes (ex_reply x)) = Some m2"
      "mg_trackers m2 = [receive_data (received_msg i x) (resp_bytes (ex_reply x)) (learned ?t1)]"
      "lkup_l7_link m2 j = Some l2" "same_counts l2 l1" by (auto simp: link_or_new_def)
  show ?thesis using 1(1) 2(1,2,3) receive_client(2,3) [OF c1] x(2) same_counts_trans [OF 2(4) 1(4)] by blast
qed

lemma exchanges_run:
  assumes "mg_trackers m = [t]" "client_tracker i j xs xs t" "list_all (exchange_ok json) ys" "length xs + length ys \<le> RAW_BUF_SIZE"
    and "lkup_l7_link m j \<noteq> None \<or> mg_l7_links_capability m < L7_LINK_MAX"
  shows "\<exists>m2 t2. (\<forall>m'. run (l7_step conntrack flowtracer proto histo) m (concat (map (exchange_events now i) ys)) m' \<longleftrightarrow> m' = m2) \<and>
    mg_trackers m2 = [t2] \<and> client_tracker i j (xs @ ys) (xs @ ys) t2 \<and> same_counts (link_or_new histo m2 j) (link_or_new histo m j) \<and>
    (ys \<noteq> [] \<longrightarrow> learned t2 = t2 \<and> lkup_l7_link m2 j \<noteq> None)"
  using assms
proof (induction ys arbitrary: m t xs)
  case Nil
  then show ?case by (intro exI [of _ m] exI [of _ t]) (simp add: same_counts_def)
next
  case (Cons x ys)
  from exchange_step [OF Cons.prems(1,2) _ _ Cons.prems(5), of json x histo now] Cons.prems(3,4) obtain m1 m2 t2 l where
    s: "proc_conn_data_msg histo now m (sent_msg i x) (resp_bytes (ex_request x)) = Some m1"
      "proc_conn_data_msg histo now m1 (received_msg i x) (resp_bytes (ex_reply x)) = Some m2"
      "mg_trackers m2 = [t2]" "learned t2 = t2" "client_tracker i j (xs @ [x]) (xs @ [x]) t2"
      "lkup_l7_link m2 j = Some l" "same_counts l (link_or_new histo m j)" by auto
  have r: "run (l7_step conntrack flowtracer proto histo) m (concat (map (exchange_events now i) (x # ys))) m'
      \<longleftrightarrow> run (l7_step conntrack flowtracer proto histo) m2 (concat (map (exchange_events now i) ys)) m'" for m'
    using s(1,2) by (simp add: exchange_events_def run_Cons_iff l7_step_iff)
  from Cons.IH [OF s(3,5)] Cons.prems(3,4) s(6) obtain m3 t3 where
    "\<forall>m'. run (l7_step conntrack flowtracer proto histo) m2 (concat (map (exchange_events now i) ys)) m' \<longleftrightarrow> m' = m3"
    "mg_trackers m3 = [t3]" "client_tracker i j (xs @ x # ys) (xs @ x # ys) t3"
    "same_counts (link_or_new histo m3 j) (link_or_new histo m2 j)"
    and e: "ys \<noteq> [] \<longrightarrow> learned t3 = t3 \<and> lkup_l7_link m3 j \<noteq> None" by auto
  moreover have "m3 = m2" if "ys = []" using calculation(1) that by simp
  then have "learned t3 = t3 \<and> lkup_l7_link m3 j \<noteq> None" using e s(3,4,6) calculation(2) by (cases "ys = []") auto
  moreover have "same_counts (link_or_new histo m3 j) (link_or_new histo m j)"
    using calculation(4) s(6,7) by (auto simp: link_or_new_def [of histo m2] intro: same_counts_trans)
  ultimately show ?case unfolding r by blast
qed

text \<open>The tracker of a connection that has just been opened.\<close>

lemma open_client:
  assumes "mg_trackers m = []" "cc_type open' = CONN_EVT_OPEN"
  shows "\<exists>t. mg_trackers (proc_conn_ctl_msg conntrack flowtracer m open') = [t] \<and>
    client_tracker (cc_conn_id open') (link_id (learned t)) [] [] t \<and>
    mg_l7_links (proc_conn_ctl_msg conntrack flowtracer m open') = mg_l7_links m \<and>
    mg_l7_links_capability (proc_conn_ctl_msg conntrack flowtracer m open') = mg_l7_links_capability m"
proof -
  let ?i = "cc_conn_id open'" let ?c = "create_conn_tracker ?i" let ?m = "m\<lparr>mg_trackers := [?c]\<rparr>"
  let ?t = "set_open_info conntrack flowtracer ?m open' (reinit_tracker ?c)"
  have "same_traffic (reinit_tracker ?c) ?t" by (rule same_traffic_set_open_info)
  then have "client_tracker ?i (link_id (learned ?t)) [] [] ?t" "ct_id ?t = ?i"
    by (simp_all add: same_traffic_def reinit_tracker_def create_conn_tracker_def client_tracker_def stream_holds_def init_data_stream_ok)
      (simp_all add: init_data_stream_def)
  moreover have "proc_conn_ctl_msg conntrack flowtracer m open' = set_tracker ?t ?m"
    using assms by (simp add: proc_conn_ctl_msg_def add_conn_tracker_def lkup_conn_tracker_def)
  moreover have "ct_id ?c = ?i" by (simp add: create_conn_tracker_def)
  ultimately show ?thesis by (auto simp: set_tracker_def)
qed

lemma opened_exchanges:
  assumes "mg_trackers m = []" "mg_l7_links_capability m < L7_LINK_MAX" "cc_type open' = CONN_EVT_OPEN"
    and xs: "xs \<noteq> []" "list_all (exchange_ok json) xs" "length xs \<le> RAW_BUF_SIZE"
  shows "\<exists>m1 t l. (\<forall>m'. run (l7_step conntrack flowtracer proto histo) m
        (Ctl_Msg open' # concat (map (exchange_events now (cc_conn_id open')) xs)) m' \<longleftrightarrow> m' = m1) \<and>
    mg_trackers m1 = [t] \<and> client_tracker (cc_conn_id open') (link_id t) xs xs t \<and> learned t = t \<and>
    lkup_l7_link m1 (link_id t) = Some l \<and> same_counts l (link_or_new histo m (link_id t))"
proof -
  let ?i = "cc_conn_id open'" and ?m = "proc_conn_ctl_msg conntrack flowtracer m open'"
  from open_client [OF assms(1,3), of conntrack flowtracer] obtain t0 where
    t0: "mg_trackers ?m = [t0]" "client_tracker ?i (link_id (learned t0)) [] [] t0" "mg_l7_links ?m = mg_l7_links m"
      "mg_l7_links_capability ?m = mg_l7_links_capability m" by blast
  let ?j = "link_id (learned t0)"
  have k: "link_or_new histo ?m ?j = link_or_new histo m ?j" using t0(3) by (simp add: link_or_new_def lkup_l7_link_def)
  have room: "lkup_l7_link ?m ?j \<noteq> None \<or> mg_l7_links_capability ?m < L7_LINK_MAX" using assms(2) t0(4) by simp
  have len: "length ([] :: exchange list) + length xs \<le> RAW_BUF_SIZE" using xs(3) by simp
  from exchanges_run [OF t0(1,2) xs(2) len room, of conntrack flowtracer proto histo now] obtain m1 t1 where
    r: "\<forall>m'. run (l7_step conntrack flowtracer proto histo) ?m (concat (map (exchange_events now ?i) xs)) m' \<longleftrightarrow> m' = m1"
    and t1: "mg_trackers m1 = [t1]" "client_tracker ?i ?j ([] @ xs) ([] @ xs) t1" "same_counts (link_or_new histo m1 ?j) (link_or_new histo ?m ?j)"
      "xs \<noteq> [] \<longrightarrow> learned t1 = t1 \<and> lkup_l7_link m1 ?j \<noteq> None"
    by blast
  from t1(4) xs(1) obtain l where l: "lkup_l7_link m1 ?j = Some l" "learned t1 = t1" by blast
  have j: "?j = link_id t1" using t1(2) l(2) by (simp add: client_tracker_def)
  have "same_counts l (link_or_new histo m ?j)" using t1(3) l(1) k by (simp add: link_or_new_def [of histo m1])
  moreover have "run (l7_step conntrack flowtracer proto histo) m (Ctl_Msg open' # concat (map (exchange_events now ?i) xs)) m' \<longleftrightarrow> m' = m1" for m'
    using r by (simp add: run_Cons_iff l7_step_iff)
  ultimately show ?thesis using t1(1,2) l by (auto simp: j intro!: exI [of _ m1])
qed

lemma learned_kind: "ct_l7_role (learned t) = L7_CLIENT" "ct_protocol (learned t) = PROTO_REDIS"
  by (simp_all add: learned_def)

lemma client_learned: "learned t = t \<Longrightarrow> ct_l7_role t = L7_CLIENT" "learned t = t \<Longrightarrow> ct_protocol t = PROTO_REDIS"
  by (metis learned_kind(1)) (metis learned_kind(2))

definition sample_exchanges :: "exchange list" where
  "sample_exchanges =
     [\<lparr>ex_request = get_command, ex_sent = 5, ex_reply = RError (ascii ''ERR''), ex_received = 9, ex_index = 1\<rparr>,
      \<lparr>ex_request = get_command, ex_sent = 9, ex_reply = RBulk (ascii ''1''), ex_received = 14, ex_index = 2\<rparr>]"

lemma get_command_facts:
  "resp_wf get_command" "length (resp_bytes get_command) < 100" "resp_command (\<lambda>_. []) get_command = Some (ascii ''GET'')"
proof -
  have "get_redis_cmd [ascii ''get'', ascii ''k''] = (Some (ascii ''GET''), [ascii ''k''])"
    by (simp add: get_redis_cmd_def ascii_def str_to_upper_def c_str_def strlen_def toupper_def find_cmd_def redis_cmd_def)
  then show "resp_command (\<lambda>_. []) get_command = Some (ascii ''GET'')" by (simp add: get_command_def ascii_def c_str_def TERMINAL_SEQUENCE_def dec.simps)
qed (simp_all add: get_command_def ascii_def TERMINAL_SEQUENCE_def dec.simps)

end
