(* ===== verification/L7_Detect.thy ===== *)
theory L7_Detect
  imports Conn_Tracker Redis_Parser
begin

section \<open>Detection of protocols\<close>

text \<open>
  \<^verbatim>\<open>l7probe/include/l7.h\<close> and \<^verbatim>\<open>connect.h\<close>: what the probe takes the first bytes of a
  connection for.  The functions run in the kernel on the first 1024 bytes of a message and in
  user space on the whole message, so the bytes that can be read and the length of the message
  are two arguments; reading behind the bytes is undefined.  Conditions are evaluated from left
  to right and only as far as needed.  Words in memory are little-endian.  The pointers that are
  compared with null are addresses of variables of the callers.
\<close>

subsection \<open>Reading\<close>

definition char_at :: "bytes \<Rightarrow> nat \<Rightarrow> u8 well_defined" where
  "char_at buf i = (if i < length buf then Some (buf ! i) else None)"

fun chars_at :: "bytes \<Rightarrow> nat \<Rightarrow> bytes \<Rightarrow> bool well_defined" where
  "chars_at buf i [] = Some True"
| "chars_at buf i (c # cs) = do { b \<leftarrow> char_at buf i; if b = c then chars_at buf (i + 1) cs else Some False }"

definition or_else :: "bool well_defined \<Rightarrow> bool well_defined \<Rightarrow> bool well_defined" where
  "or_else a b = do { x \<leftarrow> a; if x then Some True else b }"

definition and_also :: "bool well_defined \<Rightarrow> bool well_defined \<Rightarrow> bool well_defined" where
  "and_also a b = do { x \<leftarrow> a; if x then b else Some False }"

definition word_at :: "bytes \<Rightarrow> nat \<Rightarrow> nat \<Rightarrow> 'a::len word well_defined" where
  "word_at buf i n = (if i + n \<le> length buf then Some (big_endian_bytes_to (rev (take n (drop i buf)))) else None)"

definition net_word_at :: "bytes \<Rightarrow> nat \<Rightarrow> nat \<Rightarrow> 'a::len word well_defined" where
  "net_word_at buf i n = (if i + n \<le> length buf then Some (big_endian_bytes_to (take n (drop i buf))) else None)"

definition type_if :: "message_type_t \<Rightarrow> bool well_defined \<Rightarrow> message_type_t well_defined" where
  "type_if type b = do { x \<leftarrow> b; Some (if x then type else MESSAGE_UNKNOW) }"

subsection \<open>Types of messages\<close>

definition L7_DATA_BUFFER_IDX_MASK :: u32 where "L7_DATA_BUFFER_IDX_MASK = 1024 - 1"

definition get_http_type :: "bytes \<Rightarrow> nat \<Rightarrow> message_type_t well_defined" where
  "get_http_type buf count =
     (if count < 16 then Some MESSAGE_UNKNOW
      else type_if MESSAGE_REQUEST (or_else (chars_at buf 0 (ascii ''GET'')) (or_else (chars_at buf 0 (ascii ''HEAD''))
        (or_else (chars_at buf 0 (ascii ''POST'')) (or_else (chars_at buf 0 (ascii ''PUT'')) (chars_at buf 0 (ascii ''DELETE'')))))))"

definition is_redis_command :: "u8 \<Rightarrow> bool" where
  "is_redis_command cmd \<longleftrightarrow> cmd = 43 \<or> cmd = 45 \<or> cmd = 58 \<or> cmd = 36 \<or> cmd = 42"

text \<open>The last two characters of a message, as the code finds them.\<close>

definition masked_char_at :: "bytes \<Rightarrow> nat \<Rightarrow> u8 well_defined" where
  "masked_char_at buf i = char_at buf (unat ((of_nat i :: u32) AND L7_DATA_BUFFER_IDX_MASK))"

definition ends_with_crlf :: "bytes \<Rightarrow> nat \<Rightarrow> bool well_defined" where
  "ends_with_crlf buf count = do {
     c \<leftarrow> masked_char_at buf (count - 2);
     if c \<noteq> 13 then Some False
     else do { c \<leftarrow> masked_char_at buf (count - 1); Some (c = 10) } }"

definition get_redis_type :: "bytes \<Rightarrow> nat \<Rightarrow> message_type_t well_defined" where
  "get_redis_type buf count =
     (if count < 6 then Some MESSAGE_UNKNOW
      else do {
        cmd \<leftarrow> char_at buf 0;
        if \<not> is_redis_command cmd then Some MESSAGE_UNKNOW
        else type_if MESSAGE_REQUEST (ends_with_crlf buf count) })"

definition get_dns_type :: "bytes \<Rightarrow> nat \<Rightarrow> message_type_t well_defined" where
  "get_dns_type buf count =
     (if count < 12 \<or> count > 512 then Some MESSAGE_UNKNOW
      else do {
        qr \<leftarrow> char_at buf 2; zero \<leftarrow> char_at buf 3;
        a \<leftarrow> word_at buf 4 2; b \<leftarrow> word_at buf 6 2; c \<leftarrow> word_at buf 8 2; d \<leftarrow> word_at buf 10 2;
        Some (if zero AND 0x70 \<noteq> 0 then MESSAGE_UNKNOW
              else if (a + b + c + d :: u16) > 25 then MESSAGE_UNKNOW
              else if qr AND 0x80 = 0 then MESSAGE_REQUEST else MESSAGE_RESPONSE) })"

text \<open>The macros for the operations of NATS: a word in upper or in lower case.\<close>

definition nats_op :: "nat \<Rightarrow> bool well_defined \<Rightarrow> bool well_defined \<Rightarrow> message_type_t \<Rightarrow> nat \<Rightarrow> message_type_t well_defined" where
  "nats_op n upper lower type count =
     (if count \<ge> n then type_if type (or_else upper lower) else Some MESSAGE_UNKNOW)"

fun first_type :: "message_type_t well_defined list \<Rightarrow> message_type_t well_defined" where
  "first_type [] = Some MESSAGE_UNKNOW"
| "first_type (t # ts) = do { type \<leftarrow> t; if type \<noteq> MESSAGE_UNKNOW then Some type else first_type ts }"

definition get_nats_type :: "bytes \<Rightarrow> nat \<Rightarrow> message_type_t well_defined" where
  "get_nats_type buf count =
     (if count < 3 then Some MESSAGE_UNKNOW
      else do {
        crlf \<leftarrow> ends_with_crlf buf count;
        if \<not> crlf then Some MESSAGE_UNKNOW
        else first_type
          [nats_op 7 (chars_at buf 0 (ascii ''CONNECT'')) (chars_at buf 0 (ascii ''connect'')) MESSAGE_REQUEST count,
           nats_op 4 (chars_at buf 0 (ascii ''INFO'')) (chars_at buf 0 (ascii ''info'')) MESSAGE_RESPONSE count,
           nats_op 3 (chars_at buf 0 (ascii ''SUB'')) (chars_at buf 0 (ascii ''sub'')) MESSAGE_REQUEST count,
           nats_op 5 (chars_at buf 0 (ascii ''UNSUB'')) (chars_at buf 0 (ascii ''unsub'')) MESSAGE_RESPONSE count,
           nats_op 3 (chars_at buf 0 (ascii ''PUB'')) (chars_at buf 0 (ascii ''pub'')) MESSAGE_REQUEST count,
           nats_op 4 (chars_at buf 0 (ascii ''HPUB'')) (chars_at buf 0 (ascii ''hpub'')) MESSAGE_REQUEST count,
           nats_op 3 (chars_at buf 0 (ascii ''MSG'')) (chars_at buf 0 (ascii ''msg'')) MESSAGE_RESPONSE count,
           nats_op 4 (and_also (chars_at buf 0 (ascii ''HMS'')) (chars_at buf 2 (ascii ''G'')))
             (and_also (chars_at buf 0 (ascii ''hms'')) (chars_at buf 2 (ascii ''g''))) MESSAGE_RESPONSE count] })"

definition get_cql_type :: "bytes \<Rightarrow> nat \<Rightarrow> message_type_t well_defined" where
  "get_cql_type buf count =
     (if count < 9 then Some MESSAGE_UNKNOW
      else do {
        b0 \<leftarrow> char_at buf 0; flags \<leftarrow> char_at buf 1; opcode \<leftarrow> char_at buf 4;
        let version = b0 AND 0x7f; request = (b0 AND 0x80 = 0) in
        Some (if version < 3 \<or> version > 5 then MESSAGE_UNKNOW
              else if flags AND 0xf0 \<noteq> 0 then MESSAGE_UNKNOW
              else if opcode \<in> {0x0B, 0x0D, 0x0F, 0x01, 0x05, 0x07, 0x09, 0x0A}
              then if request then MESSAGE_REQUEST else MESSAGE_UNKNOW
              else if opcode \<in> {0x02, 0x00, 0x06, 0x08, 0x0C, 0x03, 0x0E, 0x10}
              then if \<not> request then MESSAGE_RESPONSE else MESSAGE_UNKNOW
              else MESSAGE_UNKNOW) })"

definition get_mongo_type :: "bytes \<Rightarrow> nat \<Rightarrow> message_type_t well_defined" where
  "get_mongo_type buf count =
     (if count < 16 then Some MESSAGE_UNKNOW
      else do {
        request_id \<leftarrow> word_at buf 4 4; response_to \<leftarrow> word_at buf 8 4; opcode \<leftarrow> word_at buf 12 4;
        Some (if sint (request_id :: u32) < 0 then MESSAGE_UNKNOW
              else if (opcode :: u32) \<in> {2001, 2002, 2003, 2004, 2005, 2006, 2007, 2012, 2013}
              then if (response_to :: u32) = 0 then MESSAGE_REQUEST else MESSAGE_RESPONSE
              else MESSAGE_UNKNOW) })"

definition get_pgsql_type :: "bytes \<Rightarrow> nat \<Rightarrow> message_type_t well_defined" where
  "get_pgsql_type buf count =
     (if count < 5 then Some MESSAGE_UNKNOW
      else type_if MESSAGE_REQUEST (and_also
        (or_else (chars_at buf 0 (ascii ''Q'')) (or_else (chars_at buf 0 (ascii ''P'')) (chars_at buf 0 (ascii ''B''))))
        (chars_at buf 1 [0])))"

definition get_crpc_type :: "bytes \<Rightarrow> nat \<Rightarrow> message_type_t well_defined" where
  "get_crpc_type buf count =
     (if count < 103 then Some MESSAGE_UNKNOW
      else do {
        flags \<leftarrow> chars_at buf 0 [0x1A, 0x19];
        if \<not> flags then Some MESSAGE_UNKNOW
        else do {
          head_ver \<leftarrow> char_at buf 8;
          if head_ver \<noteq> 1 \<and> head_ver \<noteq> 2 then Some MESSAGE_UNKNOW
          else do {
            msg_len \<leftarrow> net_word_at buf 2 4; head_len \<leftarrow> net_word_at buf 6 2;
            if unat (msg_len :: u32) \<noteq> count - 6 \<and> unat (head_len :: u16) \<noteq> count - 8 then Some MESSAGE_UNKNOW
            else do {
              b9 \<leftarrow> char_at buf 9;
              let request_flag = b9 AND 0x80; msg_fmt = b9 AND 0x1C in
              Some (if msg_fmt = 0 \<and> request_flag = 1 then MESSAGE_REQUEST else MESSAGE_UNKNOW) } } } })"

definition get_amqp_type :: "bytes \<Rightarrow> nat \<Rightarrow> message_type_t well_defined" where
  "get_amqp_type buf count = type_if MESSAGE_REQUEST (or_else
     (if count \<ge> 8 then chars_at buf 0 (ascii ''AMQP'' @ [0, 0, 9, 1]) else Some False)
     (if count \<ge> 7 then chars_at buf 0 [1] else Some False))"

text \<open>The part of a connection that detection uses: the count and the first bytes of the message before.\<close>

record conn_info_s =
  ci_prev_count :: u8
  ci_prev_buf :: bytes
  ci_l7_role :: l7_role_t
  ci_protocol :: proto_type_t

definition MYSQL_HEADER_LENGTH :: nat where "MYSQL_HEADER_LENGTH = 4"

definition get_mysql_type :: "bytes \<Rightarrow> nat \<Rightarrow> conn_info_s \<Rightarrow> message_type_t well_defined" where
  "get_mysql_type buf count info = do {
     prev \<leftarrow> (word_at (ci_prev_buf info) 0 4 :: u32 well_defined);
     let use_prev_buf = unat (ci_prev_count info) = MYSQL_HEADER_LENGTH \<and> unat prev = count;
         data_count = (if use_prev_buf then count + MYSQL_HEADER_LENGTH else count) in
     if data_count < 5 then Some MESSAGE_UNKNOW
     else do {
       len \<leftarrow> (if use_prev_buf then Some prev else word_at buf 0 4);
       seq \<leftarrow> char_at (if use_prev_buf then ci_prev_buf info else buf) 3;
       com \<leftarrow> (if use_prev_buf then char_at buf 0 else char_at buf 4);
       let len = len AND 0x00ffffff in
       Some (if seq \<noteq> 0 then MESSAGE_UNKNOW
             else if len = 0 then MESSAGE_UNKNOW
             else if len > 16 * 1024 * 1024 then MESSAGE_UNKNOW
             else if com \<in> {0x03, 0x0b, 0x16, 0x17, 0x19} then MESSAGE_REQUEST
             else MESSAGE_UNKNOW) } }"

subsection \<open>Choosing a protocol\<close>

definition HTTP_ENABLE :: u32 where "HTTP_ENABLE = 0x0001"
definition REDIS_ENABLE :: u32 where "REDIS_ENABLE = 0x0004"
definition MYSQL_ENABLE :: u32 where "MYSQL_ENABLE = 0x0008"
definition PGSQL_ENABLE :: u32 where "PGSQL_ENABLE = 0x0010"
definition MONGO_ENABLE :: u32 where "MONGO_ENABLE = 0x0040"
definition CQL_ENABLE :: u32 where "CQL_ENABLE = 0x0080"
definition NATS_ENABLE :: u32 where "NATS_ENABLE = 0x0100"
definition CRPC_ENABLE :: u32 where "CRPC_ENABLE = 0x0200"
definition AMQP_ENABLE :: u32 where "AMQP_ENABLE = 0x0400"

type_synonym l7_proto = "proto_type_t \<times> message_type_t"

fun first_proto :: "u32 \<Rightarrow> (u32 \<times> proto_type_t \<times> message_type_t well_defined) list \<Rightarrow> l7_proto option well_defined" where
  "first_proto flags [] = Some None"
| "first_proto flags ((flag, proto, t) # ps) =
     (if flags AND flag = 0 then first_proto flags ps
      else do { type \<leftarrow> t; if type \<noteq> MESSAGE_UNKNOW then Some (Some (proto, type)) else first_proto flags ps })"

text \<open>The header of a message of 4 bytes is kept for the next message.\<close>

definition keep_header :: "bytes \<Rightarrow> nat \<Rightarrow> conn_info_s \<Rightarrow> conn_info_s well_defined" where
  "keep_header buf count info =
     (let info = info\<lparr>ci_prev_count := of_nat count\<rparr> in
      if count = MYSQL_HEADER_LENGTH
      then if length buf < 4 then None else Some (info\<lparr>ci_prev_buf := take 4 buf\<rparr>)
      else Some info)"

definition get_l7_protocol :: "bytes \<Rightarrow> nat \<Rightarrow> u32 \<Rightarrow> conn_info_s \<Rightarrow> (l7_proto option \<times> conn_info_s) well_defined" where
  "get_l7_protocol buf count flags info = do {
     l7pro \<leftarrow> first_proto flags
       [(HTTP_ENABLE, PROTO_HTTP, get_http_type buf count), (PGSQL_ENABLE, PROTO_PGSQL, get_pgsql_type buf count),
        (REDIS_ENABLE, PROTO_REDIS, get_redis_type buf count), (CRPC_ENABLE, PROTO_CRPC, get_crpc_type buf count),
        (NATS_ENABLE, PROTO_NATS, get_nats_type buf count), (CQL_ENABLE, PROTO_CQL, get_cql_type buf count),
        (MONGO_ENABLE, PROTO_MONGO, get_mongo_type buf count)];
     if l7pro \<noteq> None then Some (l7pro, info)
     else do {
       (l7pro, info) \<leftarrow>
         (if flags AND MYSQL_ENABLE = 0 then Some (None, info)
          else do {
            l7pro \<leftarrow> first_proto flags [(MYSQL_ENABLE, PROTO_MYSQL, get_mysql_type buf count info)];
            info \<leftarrow> keep_header buf count info;
            Some (l7pro, info) });
       if l7pro \<noteq> None then Some (l7pro, info)
       else do {
         l7pro \<leftarrow> first_proto flags [(AMQP_ENABLE, PROTO_AMQP, get_amqp_type buf count)];
         Some (l7pro, info) } } }"

definition update_sock_conn_proto :: "conn_info_s \<Rightarrow> l7_direction_t \<Rightarrow> bytes \<Rightarrow> nat \<Rightarrow> u32 \<Rightarrow> (bool \<times> conn_info_s) well_defined" where
  "update_sock_conn_proto info direction buf count flags =
     (if ci_protocol info \<noteq> PROTO_UNKNOW then Some (True, info)
      else do {
        (l7pro, info) \<leftarrow> get_l7_protocol buf count flags info;
        Some (case l7pro of
          None \<Rightarrow> (False, info)
        | Some (proto, type) \<Rightarrow>
            (if proto = PROTO_UNKNOW then (False, info)
             else (True, info\<lparr>ci_protocol := proto, ci_l7_role := get_l7_role type direction\<rparr>))) })"

subsection \<open>Reads stay within the bytes\<close>

named_theorems reads

definition is_defined :: "'a well_defined \<Rightarrow> bool" where
  "is_defined a \<longleftrightarrow> a \<noteq> None"

lemma reads_basic [reads]:
  "is_defined (Some x)" "(b \<Longrightarrow> is_defined p) \<Longrightarrow> (\<not> b \<Longrightarrow> is_defined q) \<Longrightarrow> is_defined (if b then p else q)"
  "is_defined a \<Longrightarrow> (\<And>x. a = Some x \<Longrightarrow> is_defined (f x)) \<Longrightarrow> is_defined (Option.bind a f)"
  by (auto simp: is_defined_def)

lemma chars_at_eq: "i + length cs \<le> length buf \<Longrightarrow> chars_at buf i cs = Some (take (length cs) (drop i buf) = cs)"
proof (induction cs arbitrary: i)
  case (Cons c cs)
  then have "drop i buf = buf ! i # drop (Suc i) buf" by (simp add: Cons_nth_drop_Suc)
  with Cons show ?case by (simp add: char_at_def)
qed simp

declare chars_at.simps [simp del]

lemma reads_memory [reads]:
  "i < length buf \<Longrightarrow> is_defined (char_at buf i)" "i + length cs \<le> length buf \<Longrightarrow> is_defined (chars_at buf i cs)"
  "i + n \<le> length buf \<Longrightarrow> is_defined (word_at buf i n)" "i + n \<le> length buf \<Longrightarrow> is_defined (net_word_at buf i n)"
  by (simp_all add: is_defined_def char_at_def chars_at_eq word_at_def net_word_at_def)

lemma reads_connectives [reads]:
  "is_defined a \<Longrightarrow> is_defined b \<Longrightarrow> is_defined (or_else a b)" "is_defined a \<Longrightarrow> is_defined b \<Longrightarrow> is_defined (and_also a b)"
  "is_defined b \<Longrightarrow> is_defined (type_if t b)"
  "(n \<le> count \<Longrightarrow> is_defined a) \<Longrightarrow> (n \<le> count \<Longrightarrow> is_defined b) \<Longrightarrow> is_defined (nats_op n a b t count)"
  by (auto simp: or_else_def and_also_def type_if_def nats_op_def intro!: reads_basic)

lemma reads_first_type [reads]: "list_all is_defined ts \<Longrightarrow> is_defined (first_type ts)"
  by (induction ts) (auto intro!: reads_basic)

lemma reads_first_proto [reads]: "list_all (\<lambda>(_, _, t). is_defined t) ps \<Longrightarrow> is_defined (first_proto flags ps)"
  by (induction flags ps rule: first_proto.induct) (auto intro!: reads_basic)

lemma first_proto_Some:
  "first_proto flags ps = Some (Some (p, t)) \<Longrightarrow> t \<noteq> MESSAGE_UNKNOW \<and> (\<exists>f. (f, p, Some t) \<in> set ps \<and> flags AND f \<noteq> 0)"
  by (induction flags ps rule: first_proto.induct) (auto split: if_splits bind_splits)

declare first_proto.simps [simp del]

lemma masked_index: "unat ((of_nat i :: u32) AND L7_DATA_BUFFER_IDX_MASK) = i mod 1024"
proof -
  have "L7_DATA_BUFFER_IDX_MASK = mask 10" by (simp add: L7_DATA_BUFFER_IDX_MASK_def mask_eq_exp_minus_1)
  then have "(of_nat i :: u32) AND L7_DATA_BUFFER_IDX_MASK = take_bit 10 (of_nat i)" by (simp only: take_bit_eq_mask)
  then have "unat ((of_nat i :: u32) AND L7_DATA_BUFFER_IDX_MASK) = unat (take_bit 10 (of_nat i :: u32))" by simp
  also have "\<dots> = i mod 2 ^ 32 mod 2 ^ 10"
    unfolding unsigned_take_bit_eq unat_of_nat by (simp only: take_bit_eq_mod len_num1 len_bit0 len_bit1) simp
  also have "\<dots> = i mod 2 ^ 10" by (rule mod_mod_cancel) simp
  finally show ?thesis by simp
qed

lemma ends_with_crlf_eq:
  assumes "2 \<le> count" "min count 1024 \<le> length buf"
  shows "ends_with_crlf buf count = Some (buf ! ((count - 2) mod 1024) = 13 \<and> buf ! ((count - 1) mod 1024) = 10)"
proof -
  have "i mod 1024 < length buf" if "i < count" for i
    using that assms(2) mod_less_eq_dividend [of i 1024] mod_less_divisor [of 1024 i] by linarith
  then have "masked_char_at buf (count - 2) = Some (buf ! ((count - 2) mod 1024))"
    "masked_char_at buf (count - 1) = Some (buf ! ((count - 1) mod 1024))"
    using assms(1) by (simp_all add: masked_char_at_def masked_index char_at_def del: of_nat_diff)
  then show ?thesis by (simp add: ends_with_crlf_def)
qed

lemma reads_crlf [reads]: "2 \<le> count \<Longrightarrow> min count 1024 \<le> length buf \<Longrightarrow> is_defined (ends_with_crlf buf count)"
  by (simp add: ends_with_crlf_eq is_defined_def)

lemma types_defined:
  assumes "min count 1024 \<le> length buf"
  shows "is_defined (get_http_type buf count)" "is_defined (get_redis_type buf count)" "is_defined (get_dns_type buf count)"
    "is_defined (get_nats_type buf count)" "is_defined (get_cql_type buf count)" "is_defined (get_mongo_type buf count)"
    "is_defined (get_pgsql_type buf count)" "is_defined (get_crpc_type buf count)" "is_defined (get_amqp_type buf count)"
  unfolding get_http_type_def get_redis_type_def get_dns_type_def get_nats_type_def get_cql_type_def get_mongo_type_def
    get_pgsql_type_def get_crpc_type_def get_amqp_type_def Let_def ascii_def
  using assms by (auto intro!: reads simp: not_less)

lemma mysql_defined:
  assumes "min count 1024 \<le> length buf" "length (ci_prev_buf info) = 4"
  shows "is_defined (get_mysql_type buf count info)"
proof -
  have "\<exists>prev. word_at (ci_prev_buf info) 0 4 = Some (prev :: u32)" using assms(2) by (simp add: word_at_def)
  then obtain prev :: u32 where p: "word_at (ci_prev_buf info) 0 4 = Some prev" ..
  show ?thesis
    using assms p
    by (cases "unat (ci_prev_count info) = MYSQL_HEADER_LENGTH \<and> unat prev = count")
      (auto simp: get_mysql_type_def Let_def MYSQL_HEADER_LENGTH_def not_less intro!: reads)
qed

lemma keep_header_defined: "min count 1024 \<le> length buf \<Longrightarrow> is_defined (keep_header buf count info)"
  by (auto simp: keep_header_def MYSQL_HEADER_LENGTH_def Let_def is_defined_def)

lemma keep_header_len: "keep_header buf count info = Some info' \<Longrightarrow> length (ci_prev_buf info) = 4 \<Longrightarrow> length (ci_prev_buf info') = 4"
  by (auto simp: keep_header_def Let_def split: if_splits)

lemma get_l7_protocol_defined:
  assumes "min count 1024 \<le> length buf" "length (ci_prev_buf info) = 4"
  shows "is_defined (get_l7_protocol buf count flags info)"
  unfolding get_l7_protocol_def
  using types_defined [OF assms(1)] mysql_defined [OF assms] keep_header_defined [OF assms(1)]
  by (auto intro!: reads split: prod.split)

lemma get_l7_protocol_len:
  "get_l7_protocol buf count flags info = Some (r, info') \<Longrightarrow> length (ci_prev_buf info) = 4 \<Longrightarrow> length (ci_prev_buf info') = 4"
  by (auto simp: get_l7_protocol_def dest: keep_header_len split: bind_splits if_splits prod.splits)

subsection \<open>What is never detected\<close>

lemma bit_7_not_1: "(b :: u8) AND 0x80 \<noteq> 1"
proof
  assume "b AND 0x80 = 1"
  then have "bit (b AND 0x80) 0 = bit (1 :: u8) 0" by simp
  then show False by (simp add: bit_and_iff)
qed

lemma get_crpc_type_unknown: "get_crpc_type buf count = Some t \<Longrightarrow> t = MESSAGE_UNKNOW"
  by (auto simp: get_crpc_type_def Let_def bit_7_not_1 split: bind_splits if_splits)

definition detectable :: "(proto_type_t \<times> u32) list" where
  "detectable = [(PROTO_HTTP, HTTP_ENABLE), (PROTO_PGSQL, PGSQL_ENABLE), (PROTO_REDIS, REDIS_ENABLE), (PROTO_NATS, NATS_ENABLE),
     (PROTO_CQL, CQL_ENABLE), (PROTO_MONGO, MONGO_ENABLE), (PROTO_MYSQL, MYSQL_ENABLE), (PROTO_AMQP, AMQP_ENABLE)]"

lemma get_l7_protocol_Some:
  assumes "get_l7_protocol buf count flags info = Some (Some (p, t), info')"
  shows "t \<noteq> MESSAGE_UNKNOW \<and> (\<exists>f. (p, f) \<in> set detectable \<and> flags AND f \<noteq> 0)"
proof -
  let ?ps = "[(HTTP_ENABLE, PROTO_HTTP, get_http_type buf count), (PGSQL_ENABLE, PROTO_PGSQL, get_pgsql_type buf count),
        (REDIS_ENABLE, PROTO_REDIS, get_redis_type buf count), (CRPC_ENABLE, PROTO_CRPC, get_crpc_type buf count),
        (NATS_ENABLE, PROTO_NATS, get_nats_type buf count), (CQL_ENABLE, PROTO_CQL, get_cql_type buf count),
        (MONGO_ENABLE, PROTO_MONGO, get_mongo_type buf count)]"
  from assms consider "first_proto flags ?ps = Some (Some (p, t))"
    | "first_proto flags [(MYSQL_ENABLE, PROTO_MYSQL, get_mysql_type buf count info)] = Some (Some (p, t))"
    | "first_proto flags [(AMQP_ENABLE, PROTO_AMQP, get_amqp_type buf count)] = Some (Some (p, t))"
    unfolding get_l7_protocol_def by (auto simp del: first_proto.simps split: bind_splits if_splits prod.splits)
  then show ?thesis
  proof cases
    case 1
    from first_proto_Some [OF this] have t: "t \<noteq> MESSAGE_UNKNOW" and "\<exists>f. (f, p, Some t) \<in> set ?ps \<and> flags AND f \<noteq> 0" by blast+
    then obtain f where "(f, p, Some t) \<in> set ?ps" "flags AND f \<noteq> 0" by blast
    with t show ?thesis using get_crpc_type_unknown [of buf count t] by (auto simp: detectable_def)
  qed (auto simp: detectable_def dest!: first_proto_Some)
qed

lemma role_of_direction:
  "t \<noteq> MESSAGE_UNKNOW \<Longrightarrow> dir \<noteq> L7_DIRECT_UNKNOW \<Longrightarrow> get_message_type (get_l7_role t dir) dir = t"
  by (cases t; cases dir; simp add: get_message_type_def get_l7_role_def)

subsection \<open>Redis\<close>

lemma resp_bytes_end: "\<exists>p. resp_bytes v = p @ TERMINAL_SEQUENCE"
proof (induction v)
  case (RArray vs)
  show ?case
  proof (cases vs rule: rev_cases)
    case Nil
    then show ?thesis by (auto intro: exI [of _ "ARRAY_MARKER # dec 0"])
  next
    case (snoc ws w)
    then obtain p where "resp_bytes w = p @ TERMINAL_SEQUENCE" using RArray.IH [of w] by auto
    then show ?thesis using snoc by auto
  qed
qed auto

lemma resp_bytes_head: "\<exists>c cs. resp_bytes v = c # cs \<and> is_redis_command c"
  by (cases v) (auto simp: is_redis_command_def SIMPLE_STRING_MARKER_def ERROR_MARKER_def INTEGER_MARKER_def
      BULK_STRINGS_MARKER_def ARRAY_MARKER_def)

lemma resp_bytes_crlf:
  assumes "length (resp_bytes v) \<le> 1024"
  shows "ends_with_crlf (resp_bytes v) (length (resp_bytes v)) = Some True"
proof -
  obtain p where "resp_bytes v = p @ [13, 10]" using resp_bytes_end [of v] by (auto simp: TERMINAL_SEQUENCE_def)
  then show ?thesis using assms by (simp add: ends_with_crlf_eq nth_append)
qed

lemma no_letters:
  assumes "is_redis_command c" "length (c # cs) = count"
  shows "get_http_type (c # cs) count = Some MESSAGE_UNKNOW" "get_pgsql_type (c # cs) count = Some MESSAGE_UNKNOW"
  using assms
  by (auto simp: get_http_type_def get_pgsql_type_def is_redis_command_def type_if_def or_else_def and_also_def chars_at_eq ascii_def)

lemma length_dec_4: "1000 \<le> n \<Longrightarrow> n < 10000 \<Longrightarrow> length (dec n) = 4"
  by (subst dec.simps, subst dec.simps, subst dec.simps, subst dec.simps) auto

text \<open>The macro for \<^verbatim>\<open>HMSG\<close> compares the third character with two different letters.\<close>

lemma hmsg_unknown:
  assumes "4 \<le> length buf"
  shows "nats_op 4 (and_also (chars_at buf 0 (ascii ''HMS'')) (chars_at buf 2 (ascii ''G'')))
    (and_also (chars_at buf 0 (ascii ''hms'')) (chars_at buf 2 (ascii ''g''))) type count = Some MESSAGE_UNKNOW"
proof -
  obtain a b c d cs where "buf = a # b # c # d # cs" using assms by (auto simp: numeral_eq_Suc Suc_le_length_iff)
  then show ?thesis by (auto simp: nats_op_def type_if_def or_else_def and_also_def chars_at_eq ascii_def)
qed

lemma long_bulk_crlf:
  assumes "13 \<notin> set s" "1024 \<le> length s" "length s \<le> 2040" "take 1024 buf = take 1024 (resp_bytes (RBulk s))"
  shows "ends_with_crlf buf (length (resp_bytes (RBulk s))) = Some False"
proof -
  define bs where "bs = resp_bytes (RBulk s)"
  let ?n = "length s" let ?i = "?n + 7 - 1024"
  have d: "length (dec ?n) = 4" using assms(2,3) by (intro length_dec_4) auto
  then have l: "length bs = ?n + 9" by (simp add: bs_def TERMINAL_SEQUENCE_def)
  have t: "take 1024 buf = take 1024 bs" using assms(4) by (simp only: bs_def)
  then have "min (length buf) 1024 = min (length bs) 1024" by (metis length_take)
  then have b: "1024 \<le> length buf" using l assms(2) by simp
  have i: "(length bs - 2) mod 1024 = ?i" "?i < 1024"
    using l assms(2,3) mod_add_self2 [of ?i 1024] by simp_all
  let ?p = "BULK_STRINGS_MARKER # dec ?n @ TERMINAL_SEQUENCE"
  have "bs ! (length ?p + (?n - 1024)) = s ! (?n - 1024)" "length ?p + (?n - 1024) = ?i"
    using assms(2) d nth_append_length_plus [of ?p "s @ TERMINAL_SEQUENCE" "?n - 1024"]
    by (auto simp: bs_def TERMINAL_SEQUENCE_def nth_append)
  then have "bs ! ?i = s ! (?n - 1024)" by simp
  moreover have "buf ! ?i = bs ! ?i" using i(2) nth_take [of ?i 1024 buf] nth_take [of ?i 1024 bs] t by metis
  moreover have "?n - 1024 < ?n" using assms(2) by linarith
  then have "s ! (?n - 1024) \<in> set s" by (rule nth_mem)
  then have "s ! (?n - 1024) \<noteq> 13" using assms(1) by auto
  ultimately have "buf ! ((length bs - 2) mod 1024) \<noteq> 13" using i(1) by simp
  moreover have "2 \<le> length bs" "min (length bs) 1024 \<le> length buf" using b l by simp_all
  ultimately show ?thesis unfolding bs_def [symmetric] by (simp add: ends_with_crlf_eq)
qed

lemma and_mask_24: "unat x < 2 ^ 24 \<Longrightarrow> (x :: u32) AND 0xFFFFFF = x"
proof -
  assume a: "unat x < 2 ^ 24"
  have "(0xFFFFFF :: u32) = mask 24" by (simp add: mask_eq_exp_minus_1)
  then have "x AND 0xFFFFFF = take_bit 24 x" by (simp only: take_bit_eq_mask)
  moreover have "unat (take_bit 24 x) = unat x"
    using a unfolding unsigned_take_bit_eq by (simp only: take_bit_nat_eq_self_iff)
  ultimately show ?thesis by (simp only: word_unat_eq_iff)
qed

text \<open>
  What the tests that come before and after MySQL make of a header of 4 bytes whose last byte, the
  sequence number, is zero, and of a message that starts with the code of a command.
\<close>

definition mysql_commands :: "u8 list" where
  "mysql_commands = [0x03, 0x0b, 0x16, 0x17, 0x19]"

lemma mysql_header_unknown:
  assumes "length h = 4" "h ! 3 = 0"
  shows "get_http_type h 4 = Some MESSAGE_UNKNOW" "get_pgsql_type h 4 = Some MESSAGE_UNKNOW" "get_redis_type h 4 = Some MESSAGE_UNKNOW"
    "get_crpc_type h 4 = Some MESSAGE_UNKNOW" "get_nats_type h 4 = Some MESSAGE_UNKNOW" "get_cql_type h 4 = Some MESSAGE_UNKNOW"
    "get_mongo_type h 4 = Some MESSAGE_UNKNOW" "get_amqp_type h 4 = Some MESSAGE_UNKNOW"
  using assms ends_with_crlf_eq [of 4 h]
  by (simp_all add: get_http_type_def get_pgsql_type_def get_redis_type_def get_crpc_type_def get_nats_type_def get_cql_type_def
      get_mongo_type_def get_amqp_type_def type_if_def or_else_def)

lemma chars_at_head: "b \<noteq> c \<Longrightarrow> chars_at (b # bs) 0 (c # cs) = Some False"
  by (simp add: chars_at.simps char_at_def)

lemma mysql_command_unknown:
  assumes "com \<in> set mysql_commands" "min n 1024 \<le> length (com # body)"
  shows "get_http_type (com # body) n = Some MESSAGE_UNKNOW" "get_pgsql_type (com # body) n = Some MESSAGE_UNKNOW"
    "get_redis_type (com # body) n = Some MESSAGE_UNKNOW" "get_crpc_type (com # body) n = Some MESSAGE_UNKNOW"
    "get_nats_type (com # body) n = Some MESSAGE_UNKNOW"
proof -
  have letters: "com \<notin> set (ascii ''GHPDQBCISUMchispum'')" "com \<noteq> 0x1A" "\<not> is_redis_command com"
    using assms(1) by (auto simp: mysql_commands_def ascii_def is_redis_command_def)
  then show "get_http_type (com # body) n = Some MESSAGE_UNKNOW" "get_pgsql_type (com # body) n = Some MESSAGE_UNKNOW"
    "get_redis_type (com # body) n = Some MESSAGE_UNKNOW" "get_crpc_type (com # body) n = Some MESSAGE_UNKNOW"
    by (simp_all add: get_http_type_def get_pgsql_type_def get_redis_type_def get_crpc_type_def type_if_def or_else_def and_also_def
        ascii_def chars_at_head char_at_def)
  show "get_nats_type (com # body) n = Some MESSAGE_UNKNOW"
  proof (cases "n < 3")
    case False
    then show ?thesis using letters assms(2) ends_with_crlf_eq [of n "com # body"]
      by (simp add: get_nats_type_def nats_op_def type_if_def or_else_def and_also_def ascii_def chars_at_head)
  qed (simp add: get_nats_type_def)
qed

lemma first_proto_unknown: "list_all (\<lambda>(f, _, t). flags AND f \<noteq> 0 \<longrightarrow> t = Some MESSAGE_UNKNOW) ps \<Longrightarrow> first_proto flags ps = Some None"
  by (induction flags ps rule: first_proto.induct) (auto simp: first_proto.simps)

subsection \<open>Properties\<close>

text \<open>
  C13: Detection never reads behind the bytes it is given, as long as these are the whole message or
  at least its first 1024 bytes; it keeps the 4 bytes of the remembered header.
\<close>

theorem detection_safe:
  assumes "min count 1024 \<le> length buf" "length (ci_prev_buf info) = 4"
  shows "\<exists>r info'. update_sock_conn_proto info direction buf count flags = Some (r, info') \<and> length (ci_prev_buf info') = 4"
proof (cases "ci_protocol info = PROTO_UNKNOW")
  case True
  obtain l7pro info' where "get_l7_protocol buf count flags info = Some (l7pro, info')"
    using get_l7_protocol_defined [OF assms, of flags] by (auto simp: is_defined_def)
  with get_l7_protocol_len [OF this assms(2)] True show ?thesis
    by (cases l7pro) (auto simp: update_sock_conn_proto_def)
qed (use assms in \<open>auto simp: update_sock_conn_proto_def\<close>)

theorem detection_safe_witness:
  "\<exists>r info'. update_sock_conn_proto \<lparr>ci_prev_count = 0, ci_prev_buf = [0, 0, 0, 0], ci_l7_role = L7_UNKNOW, ci_protocol = PROTO_UNKNOW\<rparr>
     L7_EGRESS [71, 69, 84] 3 0xFFFF = Some (r, info') \<and> length (ci_prev_buf info') = 4"
  by (rule detection_safe) simp_all

text \<open>
  C28: When a connection of unknown protocol is decided, it is taken for one of eight protocols, for
  one that is enabled, and the one the test of the message gave; the role of the process is such
  that reading it back in the direction of the message gives the type the test gave.  In particular
  no connection is taken for CRPC, although it can be enabled and has a parser.
\<close>

theorem detected_protocols:
  assumes "update_sock_conn_proto info direction buf count flags = Some (True, info')" "ci_protocol info = PROTO_UNKNOW"
  shows "\<exists>f t info1. get_l7_protocol buf count flags info = Some (Some (ci_protocol info', t), info1) \<and>
    (ci_protocol info', f) \<in> set detectable \<and> flags AND f \<noteq> 0 \<and> ci_protocol info' \<noteq> PROTO_CRPC \<and>
    t \<noteq> MESSAGE_UNKNOW \<and> ci_l7_role info' = get_l7_role t direction \<and>
    (direction \<noteq> L7_DIRECT_UNKNOW \<longrightarrow> get_message_type (ci_l7_role info') direction = t)"
proof -
  from assms obtain p t info1 where g: "get_l7_protocol buf count flags info = Some (Some (p, t), info1)"
    "info' = info1\<lparr>ci_protocol := p, ci_l7_role := get_l7_role t direction\<rparr>"
    by (auto simp: update_sock_conn_proto_def split: bind_splits option.splits if_splits)
  have "PROTO_CRPC \<notin> fst ` set detectable" by (simp add: detectable_def)
  with get_l7_protocol_Some [OF g(1)] g role_of_direction [of t direction] show ?thesis by force
qed

theorem detected_protocols_witness:
  "\<exists>info' f t info1. update_sock_conn_proto \<lparr>ci_prev_count = 0, ci_prev_buf = [0, 0, 0, 0], ci_l7_role = L7_UNKNOW, ci_protocol = PROTO_UNKNOW\<rparr>
     L7_EGRESS (ascii ''GET / HTTP/1.1  '') 16 0x201 = Some (True, info') \<and>
     get_l7_protocol (ascii ''GET / HTTP/1.1  '') 16 0x201
       \<lparr>ci_prev_count = 0, ci_prev_buf = [0, 0, 0, 0], ci_l7_role = L7_UNKNOW, ci_protocol = PROTO_UNKNOW\<rparr> = Some (Some (PROTO_HTTP, t), info1) \<and>
     (PROTO_HTTP, f) \<in> set detectable \<and> 0x201 AND f \<noteq> 0 \<and> get_message_type L7_CLIENT L7_EGRESS = t"
proof -
  let ?i = "\<lparr>ci_prev_count = 0, ci_prev_buf = [0, 0, 0, 0], ci_l7_role = L7_UNKNOW, ci_protocol = PROTO_UNKNOW\<rparr>"
  have "update_sock_conn_proto ?i L7_EGRESS (ascii ''GET / HTTP/1.1  '') 16 0x201
      = Some (True, ?i\<lparr>ci_protocol := PROTO_HTTP, ci_l7_role := L7_CLIENT\<rparr>)"
    by code_simp
  with detected_protocols [OF this] show ?thesis by auto
qed

text \<open>
  C29: Every value of the Redis protocol of 6 to 1024 bytes makes the probe take the connection for
  Redis, when this is enabled; whether the process is a client or a server follows from the
  direction alone, since requests and replies look the same.
\<close>

theorem redis_detected:
  assumes "ci_protocol info = PROTO_UNKNOW" "flags AND REDIS_ENABLE \<noteq> 0" "6 \<le> length (resp_bytes v)" "length (resp_bytes v) \<le> 1024"
  shows "update_sock_conn_proto info direction (resp_bytes v) (length (resp_bytes v)) flags =
    Some (True, info\<lparr>ci_protocol := PROTO_REDIS, ci_l7_role := if direction = L7_EGRESS then L7_CLIENT else L7_SERVER\<rparr>)"
proof -
  obtain c cs where c: "resp_bytes v = c # cs" "is_redis_command c" using resp_bytes_head [of v] by blast
  have "get_redis_type (resp_bytes v) (length (resp_bytes v)) = Some MESSAGE_REQUEST"
    using assms(3) resp_bytes_crlf [OF assms(4)] c by (simp add: get_redis_type_def char_at_def type_if_def)
  then show ?thesis
    using assms(1,2) no_letters [OF c(2) refl, of cs] c(1)
    by (simp add: update_sock_conn_proto_def get_l7_protocol_def first_proto.simps get_l7_role_def)
qed

theorem redis_detected_witness:
  "update_sock_conn_proto \<lparr>ci_prev_count = 0, ci_prev_buf = [0, 0, 0, 0], ci_l7_role = L7_UNKNOW, ci_protocol = PROTO_UNKNOW\<rparr>
     L7_INGRESS (resp_bytes (RSimple (ascii ''PONG''))) 7 0x204 =
   Some (True, \<lparr>ci_prev_count = 0, ci_prev_buf = [0, 0, 0, 0], ci_l7_role = L7_SERVER, ci_protocol = PROTO_REDIS\<rparr>)"
proof -
  let ?v = "RSimple (ascii ''PONG'')"
  have "length (resp_bytes ?v) = 7" "(0x204 :: u32) AND REDIS_ENABLE \<noteq> 0"
    by (simp_all add: TERMINAL_SEQUENCE_def ascii_def REDIS_ENABLE_def)
  with redis_detected [of "\<lparr>ci_prev_count = 0, ci_prev_buf = [0, 0, 0, 0], ci_l7_role = L7_UNKNOW, ci_protocol = PROTO_UNKNOW\<rparr>"
      "0x204" ?v L7_INGRESS]
  show ?thesis by (simp del: resp_bytes.simps)
qed

text \<open>
  C34: A Redis string of 1024 to 2040 bytes without a carriage return is not recognised: the test for
  the end of the message wraps around at 1024 and looks into the middle of the string.
\<close>

theorem redis_long_undetected:
  assumes "13 \<notin> set s" "1024 \<le> length s" "length s \<le> 2040" "take 1024 buf = take 1024 (resp_bytes (RBulk s))"
  shows "get_redis_type buf (length (resp_bytes (RBulk s))) = Some MESSAGE_UNKNOW"
proof -
  have "buf \<noteq> []" using assms(4) by auto
  then show ?thesis
    using assms(2) long_bulk_crlf [OF assms] by (simp add: get_redis_type_def char_at_def type_if_def)
qed

theorem redis_long_undetected_witness:
  "get_redis_type (take 1024 (resp_bytes (RBulk (replicate 1500 65)))) (length (resp_bytes (RBulk (replicate 1500 65)))) = Some MESSAGE_UNKNOW"
  by (rule redis_long_undetected) (auto simp del: resp_bytes.simps)

text \<open>
  C35: A MySQL command whose header of 4 bytes and body are sent in two messages is detected: the header
  alone is not, but it is remembered, and the body then is, whatever else is enabled.  The
  command is COM_QUERY, COM_CONNECT, COM_STMT_PREPARE, COM_STMT_EXECUTE or COM_STMT_CLOSE, the header
  has sequence number 0 and the length of the body, and of the body at least the first 1024 bytes can be read.
  The conditions left are that CQL and MongoDB, which are tested before MySQL, are disabled or do
  not take the body for theirs, and that the header is not itself the body a remembered
  header of length 4 announces.
\<close>

theorem mysql_split_detected:
  assumes "ci_protocol info = PROTO_UNKNOW" "length (ci_prev_buf info) = 4" "flags AND MYSQL_ENABLE \<noteq> 0"
    and "ci_prev_count info \<noteq> 4 \<or> word_at (ci_prev_buf info) 0 4 \<noteq> Some (4 :: u32)"
    and "length h = 4" "h ! 3 = 0" "word_at h 0 4 = Some (of_nat n :: u32)" "0 < n" "n < 2 ^ 24"
    and "com \<in> set mysql_commands" "min n 1024 \<le> length (com # body)"
    and "flags AND CQL_ENABLE = 0 \<or> get_cql_type (com # body) n = Some MESSAGE_UNKNOW"
    and "flags AND MONGO_ENABLE = 0 \<or> get_mongo_type (com # body) n = Some MESSAGE_UNKNOW"
  shows "\<exists>info1 info2. update_sock_conn_proto info direction h 4 flags = Some (False, info1) \<and>
    update_sock_conn_proto info1 direction (com # body) n flags = Some (True, info2) \<and>
    ci_protocol info2 = PROTO_MYSQL \<and> ci_l7_role info2 = get_l7_role MESSAGE_REQUEST direction"
proof -
  let ?info = "info\<lparr>ci_prev_count := 4, ci_prev_buf := h\<rparr>"
  have "\<exists>prev. word_at (ci_prev_buf info) 0 4 = Some (prev :: u32)" using assms(2) by (simp add: word_at_def)
  then obtain prev where p: "word_at (ci_prev_buf info) 0 4 = Some (prev :: u32)" ..
  have prev: "(unat (ci_prev_count info) = 4 \<and> unat prev = 4) = False"
  proof (rule iffI)
    assume "unat (ci_prev_count info) = 4 \<and> unat prev = 4"
    then have "unat (ci_prev_count info) = unat (4 :: u8)" "unat prev = unat (4 :: u32)" by simp_all
    then have "ci_prev_count info = 4" "prev = 4" by (simp_all only: word_unat_eq_iff)
    then show False using assms(4) p by simp
  qed simp
  then have "get_mysql_type h 4 info = Some MESSAGE_UNKNOW"
    by (simp add: get_mysql_type_def MYSQL_HEADER_LENGTH_def Let_def p prev)
  then have 1: "update_sock_conn_proto info direction h 4 flags = Some (False, ?info)"
    using assms(1,3,5) mysql_header_unknown [OF assms(5,6)]
    by (simp add: update_sock_conn_proto_def get_l7_protocol_def first_proto_unknown keep_header_def MYSQL_HEADER_LENGTH_def Let_def)
  have n: "unat (of_nat n :: u32) = n" using assms(9) by (simp add: unat_of_nat take_bit_nat_eq_self_iff)
  then have len: "(of_nat n :: u32) AND 0xFFFFFF = of_nat n" "(of_nat n :: u32) \<noteq> 0" "\<not> (of_nat n :: u32) > 16777216"
    using assms(8,9) and_mask_24 [of "of_nat n"] by (auto simp: word_less_nat_alt)
  have "get_mysql_type (com # body) n ?info = Some MESSAGE_REQUEST"
    using assms(5-8,10) n len by (simp add: get_mysql_type_def MYSQL_HEADER_LENGTH_def char_at_def Let_def mysql_commands_def)
  then have "\<exists>info2. update_sock_conn_proto ?info direction (com # body) n flags = Some (True, info2) \<and>
      ci_protocol info2 = PROTO_MYSQL \<and> ci_l7_role info2 = get_l7_role MESSAGE_REQUEST direction"
    using assms(1,3,5,11-13) mysql_command_unknown [OF assms(10,11)]
    by (auto simp add: update_sock_conn_proto_def get_l7_protocol_def first_proto.simps keep_header_def MYSQL_HEADER_LENGTH_def Let_def)
  with 1 show ?thesis by blast
qed

theorem mysql_split_detected_witness:
  "\<exists>info1 info2. update_sock_conn_proto \<lparr>ci_prev_count = 0, ci_prev_buf = [0, 0, 0, 0], ci_l7_role = L7_UNKNOW, ci_protocol = PROTO_UNKNOW\<rparr>
      L7_INGRESS [18, 0, 0, 0] 4 0x7ff = Some (False, info1) \<and>
    update_sock_conn_proto info1 L7_INGRESS (3 # ascii ''SELECT * FROM hat'') 18 0x7ff = Some (True, info2) \<and> ci_protocol info2 = PROTO_MYSQL"
proof -
  let ?i = "\<lparr>ci_prev_count = 0, ci_prev_buf = [0, 0, 0, 0], ci_l7_role = L7_UNKNOW, ci_protocol = PROTO_UNKNOW\<rparr>"
  let ?b = "ascii ''SELECT * FROM hat''"
  have "word_at [18, 0, 0, 0] 0 4 = Some (of_nat 18 :: u32)" "length ?b = 17" "(0x7ff :: u32) AND MYSQL_ENABLE \<noteq> 0"
    "get_cql_type (3 # ?b) 18 = Some MESSAGE_UNKNOW" "get_mongo_type (3 # ?b) 18 = Some MESSAGE_UNKNOW"
    by code_simp+
  then show ?thesis using mysql_split_detected [of ?i "0x7ff" "[18, 0, 0, 0]" 18 3 ?b L7_INGRESS]
    by (auto simp: mysql_commands_def)
qed

end
