(* ===== verification/Spec2Isabelle.thy ===== *)
theory Spec2Isabelle
  imports Flow_State Seq_List Meters L4_Perf Decap_Tunnel Flows Leaky_Bucket
    Redis_Stream Redis_Matcher Crpc Http_Matcher Conn_Tracker Redis_Tracker
    L7_Detect
begin

text \<open>
  \<^bold>\<open>A verification of the flow generator of the agent and of the layer 7 probe\<close>

  The agent captures packets, removes tunnels, assigns the packets to flows, follows every
  TCP connection with a state machine, measures latencies and retransmissions per flow, and
  merges what it counted into flow logs and meters which are sent at a limited rate.  The
  probe receives the bytes that processes send and receive over their sockets, cuts them into
  the messages of an application protocol, pairs requests with responses, and counts requests,
  errors and latencies per link.  This development models the path from a captured frame to
  the merged counters, from the Rust sources under \<^verbatim>\<open>src/agent\<close>, and the path from the
  bytes of a connection to the counters of its link, from the C sources under
  \<^verbatim>\<open>src/l7probe\<close>.

  \<^bold>\<open>Conventions\<close> (theory Rust_Prelude).  Integers are words of their width and a plain
  \<open>+\<close> of the source wraps, as in the release profile; \<^verbatim>\<open>usize\<close> is a natural number
  and the places where it wraps say so.  A computation that may panic has an option result
  and \<^const>\<open>None\<close> is the panic; errors that the code returns are values of a sum type.
  A mutating method takes the state and answers the new one; a component that reacts to
  events is a step relation, and \<^const>\<open>run\<close> collects the events of a run.  The locale
  \<^verbatim>\<open>history_invariant\<close> carries an invariant over the history of a run; it is
  interpreted on the TCP state machine, the segment list, the leaky bucket and the connection
  tracker of the probe.

  In the C part \<^const>\<open>None\<close> of a \<^verbatim>\<open>well_defined\<close> result is undefined behaviour: a read
  behind the end of a buffer, a use of a null pointer, a store behind an array.  Bytes are
  8-bit words, a buffer is the list of its bytes, a string is what a buffer holds before its
  first zero byte, and a fixed array of pointers is a map from its indices.  Allocation
  succeeds.  The loop that parses a stream need not end, so it is a partial function and a
  further \<^const>\<open>None\<close> is a call that never returns.

  \<^bold>\<open>The parts of the agent, in the order data flows\<close>

  \<^item> Net_Bytes: slices, the readers and writers of \<^verbatim>\<open>crates/public/src/bytes.rs\<close>
    and the offsets and sizes of \<^verbatim>\<open>consts.rs\<close>.
  \<^item> Decapsulate: \<^verbatim>\<open>TunnelType\<close>, \<^verbatim>\<open>TunnelTypeBitmap\<close> and \<^verbatim>\<open>TunnelInfo\<close> of
    \<^verbatim>\<open>src/common/decapsulate.rs\<close>, one definition per method.  Each tunnel has a lemma
    that gives its result as an equation; from these follow when decapsulation panics, that
    the inner frame of VXLAN, Geneve and IP over IP is found, and where Geneve over IPv6 goes
    wrong.
  \<^item> Tap_Types and Decap_Tunnel: the table of capture networks of
    \<^verbatim>\<open>src/common/tap_types.rs\<close>, shown to implement a specification that keeps only the
    last configuration, and \<^verbatim>\<open>get_l2_info\<close>, \<^verbatim>\<open>decapsulate\<close> and
    \<^verbatim>\<open>decap_tunnel\<close> of \<^verbatim>\<open>src/dispatcher/base_dispatcher.rs\<close>: bounds of the result
    and an exact condition for a panic over both layers.
  \<^item> Tap_Port and Tap_Side: the packed word of \<^verbatim>\<open>src/common/tap_port.rs\<close> and the enums
    \<^verbatim>\<open>Direction\<close> and \<^verbatim>\<open>TapSide\<close> of \<^verbatim>\<open>src/metric/document.rs\<close>.
  \<^item> Timestamps, Tcp_Flags, Meta_Packet: \<^verbatim>\<open>Timestamp\<close>, the TCP flags, and the fields of
    a parsed packet that the flow generator reads.
  \<^item> Flow_State: the master and slave tables of \<^verbatim>\<open>src/flow_generator/flow_state.rs\<close>, the
    step of \<^verbatim>\<open>FlowMap\<close> that applies them, and the close types of \<^verbatim>\<open>flow.rs\<close>:
    safety and invariants over all packet sequences.  A step is the end of
    \<^verbatim>\<open>update_tcp_flow\<close>; the correction of the direction before it can only swap the packet
    counters of the node, which are inputs of a step.
  \<^item> Seq_List: the list of received segments of a \<^verbatim>\<open>SessionPeer\<close>
    (\<^verbatim>\<open>perf/tcp.rs\<close>), refined to a list without positions; it never panics, holds at most
    15 segments, and classifies packets as its specification does.  The packets of the unit
    test of the code are replayed: four of its verdicts differ from what the code gives.
  \<^item> Tcp_Perf: the rest of \<^verbatim>\<open>perf/tcp.rs\<close>: the handler of a packet, the measurements and
    the report.
  \<^item> L4_Perf: \<^verbatim>\<open>perf/udp.rs\<close>, \<^verbatim>\<open>perf/icmp.rs\<close> and the enum that dispatches to the three
    protocols.  The trait \<^verbatim>\<open>L4FlowPerf\<close> is a locale, interpreted on each of them and on
    the enum.
  \<^item> Merging, Flow_Stats, Meters: the merges of the statistics of a flow and of the meters.
    The locale \<^verbatim>\<open>mergeable\<close> proves that order and grouping do not matter; every merge
    of a counter is an interpretation.  Merging all pieces of a flow gives their totals.
  \<^item> Flows: the flow record, the merge of its pieces, its reversal and the choice of the side
    it is observed from (\<^verbatim>\<open>src/common/flow.rs\<close>).
  \<^item> Leaky_Bucket: the rate limiter of \<^verbatim>\<open>crates/public/src/leaky_bucket.rs\<close>, with callers
    and the thread that adds tokens interleaved in any order, also with changes of the rate.

  \<^bold>\<open>The parts of the probe, in the order data flows\<close>

  \<^item> Raw_Data and C_Strings: the buffers of captured bytes and the decoders of
    \<^verbatim>\<open>protocol/utils/binary_decoder.c\<close> and \<^verbatim>\<open>frame_decoder.c\<close>, and the string helpers of
    \<^verbatim>\<open>string_utils.c\<close>: exactly when a decoder is defined, what it takes, and that variable
    length integers are read back.
  \<^item> Redis_Parser: \<^verbatim>\<open>protocol/redis/redis_parser.c\<close> with the table of commands of
    \<^verbatim>\<open>format.c\<close>.  A datatype of protocol values with their encoding is the specification;
    every value within the limits is parsed back, and for every cut of a value it is shown what
    the parser makes of the first part.
  \<^item> Data_Stream: \<^verbatim>\<open>data_stream.c\<close>, the loop that turns buffers into frames.  The parser
    of the protocol is an argument, and what the loop needs from it is the locale
    \<^verbatim>\<open>frame_parser\<close>, which proves that the loop ends and what it keeps.  The locale
    \<^verbatim>\<open>defined_parser\<close> extends it by data on which the parser is defined, and proves that the
    loop then returns without undefined behaviour.
  \<^item> Redis_Stream and Crpc: interpretations on the parsers of Redis and of
    \<^verbatim>\<open>protocol/crpc/crpc_parser.c\<close>: the frames of whole and of split messages, and
    inputs on which the loop never returns.
  \<^item> Record_Buf, Redis_Matcher, Http_Matcher: the buffers of records of \<^verbatim>\<open>data_stream.h\<close> and
    the matchers \<^verbatim>\<open>redis_matcher.c\<close> and \<^verbatim>\<open>http_matcher.c\<close>, refined to functions on
    lists of messages that pair each response with the latest earlier request; and what a
    response without an earlier request does to all later rounds of HTTP.
  \<^item> Conn_Tracker: \<^verbatim>\<open>conn_tracker.c\<close>, the trackers of connections and the links.  The
    handlers of messages, the parsing round and the reports are steps in any order; keys stay
    distinct and the number of links is bounded and counted exactly.
  \<^item> L7_Detect: \<^verbatim>\<open>get_l7_protocol\<close> of \<^verbatim>\<open>include/l7.h\<close> and
    \<^verbatim>\<open>update_sock_conn_proto\<close>, which take the first bytes of a connection for a protocol
    and decide who is the client: no read behind the bytes, which protocols can be found, and
    when Redis and MySQL are.
  \<^item> Redis_Tracker: the tracker with the parser and the matcher of Redis.  The theorem at the
    end of this theory puts the parts together, from the bytes of a connection to the counters
    of its link.

  \<^bold>\<open>Parameters\<close>.  Code outside the repository is a parameter: the discriminants of the
  generated enum \<^verbatim>\<open>DecapType\<close> (a record of numbers, assumed distinct and at most 15 as the
  declaration of \<^verbatim>\<open>TunnelType\<close> requires), the ICMP type numbers of the
  \<^verbatim>\<open>pnet\<close> crate, and for the probe the JSON printer (a function of the printed strings),
  the histograms of latencies (a record of operations), the lookups of the backend of a
  cluster address, and the map of probed processes (a predicate).

  \<^bold>\<open>Bounds\<close>.  There is no fuel: loops are recursions over lists, run over fixed ranges, or end
  by a measure; the one loop that may not end is a partial function, with theorems that say
  when it returns and when it does not.
  Where a statement needs a sum to be exact it assumes what the platform guarantees, such as
  a packet shorter than 2 to the 63 bytes or a rate below 2 to the 60.

  \<^bold>\<open>Not modelled\<close>: capturing, the hash table of flows, policies, the parsers of application
  protocols of the agent, the collectors and queues between threads, configuration, sending
  and plugins: they are threads around sockets, rings and third-party caches, whose behaviour
  is in code outside the repository.  Of the probe: the eBPF programs, the loading of these
  programs and the message rings, which are input and output, and the parsers of HTTP, MySQL,
  PostgreSQL, AMQP and Kafka.  A tracker takes the functions of its protocol as an argument,
  so what is proved of trackers and links holds for these protocols as well.  Formatting for
  display and conversions to protocol buffers are left out everywhere.
\<close>

text \<open>
  C1: A Redis connection from its bytes to the counters of its link.  A process opens a
  connection and sends requests, each of which is answered before the next; the bytes of every
  request and every reply arrive in a data message, with any bytes the protocol allows.  Then a
  round has exactly one outcome: both streams are used up, and the link of the connection has
  counted every request, every response, every reply that is an error, and the sum of the times
  between requests and their replies, on top of what it had counted before.
\<close>

theorem redis_connection_counted:
  assumes "mg_trackers m = []" "mg_l7_links_capability m < L7_LINK_MAX" "cc_type open' = CONN_EVT_OPEN" "proto PROTO_REDIS = redis_ops json"
    and xs: "xs \<noteq> []" "in_turn xs" "list_all (exchange_ok json) xs" "length xs \<le> RECORD_BUF_SIZE"
  shows "\<exists>m2 t l k. (\<forall>m'. run (l7_step conntrack flowtracer proto histo) m
        (Ctl_Msg open' # concat (map (exchange_events now (cc_conn_id open')) xs) @ [Parse_Round]) m' \<longleftrightarrow> m' = m2) \<and>
    mg_trackers m2 = [t] \<and> stream_empty (ct_send_stream t) \<and> stream_empty (ct_recv_stream t) \<and>
    find_l7_link m2 t = Some l \<and> k = link_or_new histo m (link_id t) \<and>
    lk_stats l REQ_COUNT = lk_stats k REQ_COUNT + of_nat (length xs) \<and>
    lk_stats l RSP_COUNT = lk_stats k RSP_COUNT + of_nat (length xs) \<and>
    lk_stats l ERR_COUNT = lk_stats k ERR_COUNT + of_nat (reply_errors xs) \<and>
    lk_latency_sum l = lk_latency_sum k + waiting_times xs"
proof -
  let ?i = "cc_conn_id open'"
  have "length xs \<le> RAW_BUF_SIZE" using xs(4) by (simp add: RECORD_BUF_SIZE_def RAW_BUF_SIZE_def)
  from opened_exchanges [OF assms(1-3) xs(1,3) this, of conntrack flowtracer proto histo now] obtain m1 t1 l1 where
    r: "\<forall>m'. run (l7_step conntrack flowtracer proto histo) m (Ctl_Msg open' # concat (map (exchange_events now ?i) xs)) m' \<longleftrightarrow> m' = m1"
    and t1: "mg_trackers m1 = [t1]" "client_tracker ?i (link_id t1) xs xs t1" "learned t1 = t1"
    and l1: "lkup_l7_link m1 (link_id t1) = Some l1" "same_counts l1 (link_or_new histo m (link_id t1))"
    by blast
  have "proto (ct_protocol t1) = redis_ops json" "find_l7_link m1 t1 = Some l1" "ct_id t1 = ?i" "lk_id l1 = link_id t1"
    "ct_records t1 = empty_record_buf" "stream_holds (ct_send_stream t1) ex_request ex_sent xs"
    "stream_holds (ct_recv_stream t1) ex_reply ex_received xs"
    using t1(2) client_learned [OF t1(3)] assms(4) l1(1) lkup_l7_link_Some [OF l1(1)] by (simp_all add: client_tracker_def find_l7_link_def)
  note c = client_learned(1) [OF t1(3)] this
  from round_in_turn [of t1 proto json xs m1 l1 histo, OF c(1,2) c(6-8) xs c(3)] obtain t2 l where
    p: "l7_parser_tracker proto histo t1 m1 = Some (Some (set_tracker t2 (set_link l m1)))" "ct_id t2 = ct_id t1" "link_id t2 = link_id t1"
      "stream_empty (ct_send_stream t2)" "stream_empty (ct_recv_stream t2)" "lk_id l = lk_id l1"
    and n: "lk_stats l REQ_COUNT = lk_stats l1 REQ_COUNT + of_nat (length xs)" "lk_stats l RSP_COUNT = lk_stats l1 RSP_COUNT + of_nat (length xs)"
      "lk_stats l ERR_COUNT = lk_stats l1 ERR_COUNT + of_nat (reply_errors xs)" "lk_latency_sum l = lk_latency_sum l1 + waiting_times xs"
    by blast
  let ?m2 = "set_tracker t2 (set_link l m1)" and ?es = "Ctl_Msg open' # concat (map (exchange_events now ?i) xs)"
  have "l7_parser proto histo m1 = Some (Some ?m2)" using p(1) t1(1) by (simp add: l7_parser_def and_then_def)
  then have "run (l7_step conntrack flowtracer proto histo) m (?es @ [Parse_Round]) m' \<longleftrightarrow> m' = ?m2" for m'
    using r by (subst run_append_iff) (auto simp: run_Cons_iff l7_step_iff)
  moreover have "mg_trackers ?m2 = [t2]" using t1(1) p(2) by (simp add: set_tracker_def set_link_def)
  moreover have "find_l7_link ?m2 t2 = Some l" using l1(1) p(3,6) c(5) by (simp add: find_l7_link_def lkup_set_link)
  ultimately show ?thesis using p(3,4,5) n l1(2) unfolding same_counts_def
    by (intro exI [of _ ?m2] exI [of _ t2] exI [of _ l] exI [of _ "link_or_new histo m (link_id t1)"]) simp
qed

theorem redis_connection_counted_witness:
  "\<exists>m2 t l. run (l7_step no_backend no_backend (\<lambda>_. redis_ops (\<lambda>_. [])) sample_histo) sample_mng
      (Ctl_Msg (sample_ctl CONN_EVT_OPEN) # concat (map (exchange_events 7 sample_id) sample_exchanges) @ [Parse_Round]) m2 \<and>
    find_l7_link m2 t = Some l \<and> lk_stats l REQ_COUNT = 2 \<and> lk_stats l RSP_COUNT = 2 \<and> lk_stats l ERR_COUNT = 1 \<and>
    lk_latency_sum l = 9"
proof -
  have ok: "list_all (exchange_ok (\<lambda>_. [])) sample_exchanges" "in_turn sample_exchanges"
    using get_command_facts by (simp_all add: sample_exchanges_def exchange_ok_def in_turn_def ascii_def c_str_def TERMINAL_SEQUENCE_def dec.simps)
  have n: "length sample_exchanges = 2" "sample_exchanges \<noteq> []" "reply_errors sample_exchanges = 1" "waiting_times sample_exchanges = 9"
    by (simp_all add: sample_exchanges_def reply_errors_def waiting_times_def)
  have m: "mg_trackers (sample_mng :: (redis_msg_s, redis_record_s, unit) l7_mng_s) = []"
    "mg_l7_links_capability (sample_mng :: (redis_msg_s, redis_record_s, unit) l7_mng_s) < L7_LINK_MAX"
    "link_or_new sample_histo (sample_mng :: (redis_msg_s, redis_record_s, unit) l7_mng_s) j = create_l7_link sample_histo j" for j
    by (simp_all add: sample_mng_def L7_LINK_MAX_def link_or_new_def lkup_l7_link_def)
  have o: "cc_type (sample_ctl CONN_EVT_OPEN) = CONN_EVT_OPEN" "cc_conn_id (sample_ctl CONN_EVT_OPEN) = sample_id"
    "length sample_exchanges \<le> RECORD_BUF_SIZE" by (simp_all add: sample_ctl_def n RECORD_BUF_SIZE_def)
  have z: "lk_stats (create_l7_link sample_histo j) s = 0" "lk_latency_sum (create_l7_link sample_histo j) = 0" for j s
    by (simp_all add: create_l7_link_def)
  from redis_connection_counted [OF m(1,2) o(1) refl n(2) ok(2,1) o(3), of no_backend no_backend sample_histo 7] o(2) m(3) n z
  show ?thesis by auto blast
qed

end
